(* ===== verification/L309_Prelude.thy ===== *)
theory L309_Prelude
  imports Main "HOL-Library.Word" "HOL-Library.List_Lexorder" "HOL-Library.Multiset"
    "HOL-Library.Code_Target_Numeral"
begin

text \<open>
  Vocabulary shared by every component of the Label 309 development.

  \<^item> Machine integers: a Rust \<open>u8\<close> is an 8-bit word and a \<open>u64\<close> a 64-bit word. A \<open>usize\<close> is a
    natural number; the target is a 64-bit platform, and where the code can overflow a \<open>usize\<close> the
    bound \<open>usize_limit\<close> is written out.
  \<^item> Text: a Rust \<open>String\<close> is the list of its UTF-8 bytes, since the code only ever compares,
    measures and copies those bytes. \<open>lit\<close> turns an ASCII literal of the source into them and
    \<open>utf8_valid\<close> is the check of \<open>std::str::from_utf8\<close>.
  \<^item> Results: \<open>Result<T, E>\<close> is the sum \<open>E + T\<close>; \<open>and_then\<close> is the \<open>?\<close> operator and \<open>collect_res\<close>
    a loop that stops at the first error.
  \<^item> Sorting: \<open>sort_by\<close> is the stable sort of \<open>slice::sort_by\<close>. The locale \<open>key_comparator\<close> is the
    contract between a comparator and the key it compares; it is interpreted for the encoded map
    keys of the CBOR encoder and for the issues of the structural validator.
  \<^item> The locale \<open>canonical_codec\<close> is the contract between an encoder and a strict decoder.
\<close>

section \<open>Machine types\<close>

type_synonym u8 = "8 word"
type_synonym u64 = "64 word"
type_synonym bytes = "u8 list"
type_synonym rstring = "u8 list"

abbreviation usize_limit :: nat where
  "usize_limit \<equiv> 2 ^ 64"

named_theorems res_simps \<open>unfolding of the result combinators\<close>
named_theorems byte_simps \<open>byte strings, big-endian integers, literals\<close>

definition lit :: "string \<Rightarrow> rstring" where
  "lit s = map of_char s"

lemma length_lit [simp]: "length (lit s) = length s"
  by (simp add: lit_def)

lemma of_char_u8_inj: "(of_char c :: u8) = of_char d \<longleftrightarrow> c = d"
proof -
  have "unat (of_char x :: u8) = (of_char x :: nat)" for x :: char
  proof -
    have "(of_char x :: u8) = of_nat (of_char x)"
      by (simp add: of_nat_of_char)
    then have "unat (of_char x :: u8) = of_char x mod 256" by (simp only: unat_of_nat) simp
    then show ?thesis by simp
  qed
  then show ?thesis by (metis of_char_eq_iff)
qed

lemma lit_eq_iff [simp]: "lit s = lit t \<longleftrightarrow> s = t"
  unfolding lit_def by (rule inj_map_eq_map) (simp add: inj_def of_char_u8_inj)

section \<open>Results\<close>

fun and_then :: "'e + 'a \<Rightarrow> ('a \<Rightarrow> 'e + 'b) \<Rightarrow> 'e + 'b" where
  "and_then (Inl e) f = Inl e"
| "and_then (Inr x) f = f x"

lemma and_then_cong [fundef_cong]:
  "m = m' \<Longrightarrow> (\<And>x. m' = Inr x \<Longrightarrow> f x = g x) \<Longrightarrow> and_then m f = and_then m' g"
  by (cases m') auto

lemma and_then_Inr_iff [res_simps]:
  "and_then m f = Inr y \<longleftrightarrow> (\<exists>x. m = Inr x \<and> f x = Inr y)"
  by (cases m) auto

lemma and_then_Inl_iff:
  "and_then m f = Inl e \<longleftrightarrow> m = Inl e \<or> (\<exists>x. m = Inr x \<and> f x = Inl e)"
  by (cases m) auto

fun collect_res :: "('e + 'a) list \<Rightarrow> 'e + 'a list" where
  "collect_res [] = Inr []"
| "collect_res (r # rs) = and_then r (\<lambda>x. and_then (collect_res rs) (\<lambda>xs. Inr (x # xs)))"

lemma collect_res_Inr_iff [res_simps]:
  "collect_res rs = Inr xs \<longleftrightarrow> rs = map Inr xs"
  by (induction rs arbitrary: xs) (auto simp: res_simps Cons_eq_map_conv)

lemma collect_res_map_Inr [simp]: "collect_res (map (\<lambda>x. Inr (f x)) xs) = Inr (map f xs)"
  by (induction xs) auto

lemma collect_res_if:
  "collect_res (map (\<lambda>x. if P x then Inr (g x) else Inl e) xs) =
     (if list_all P xs then Inr (map g xs) else Inl e)"
  by (induction xs) auto

fun collect_opt :: "'a option list \<Rightarrow> 'a list option" where
  "collect_opt [] = Some []"
| "collect_opt (None # rs) = None"
| "collect_opt (Some x # rs) = (case collect_opt rs of None \<Rightarrow> None | Some xs \<Rightarrow> Some (x # xs))"

lemma collect_opt_map_Some [simp]: "collect_opt (map (\<lambda>x. Some (f x)) xs) = Some (map f xs)"
  by (induction xs) auto

lemma collect_opt_Some_iff [res_simps]:
  "collect_opt rs = Some xs \<longleftrightarrow> rs = map Some xs"
proof (induction rs arbitrary: xs)
  case (Cons r rs)
  then show ?case
    using collect_opt_map_Some [of "\<lambda>x. x" rs] by (cases r; cases xs) (auto split: option.splits)
qed auto

section \<open>Big-endian integers\<close>

fun be_bytes :: "nat \<Rightarrow> nat \<Rightarrow> bytes" where
  "be_bytes 0 n = []"
| "be_bytes (Suc k) n = be_bytes k (n div 256) @ [of_nat (n mod 256)]"

definition nat_of_be :: "bytes \<Rightarrow> nat" where
  "nat_of_be bs = foldl (\<lambda>n b. n * 256 + unat b) 0 bs"

lemma length_be_bytes [simp]: "length (be_bytes k n) = k"
  by (induction k arbitrary: n) auto

lemma nat_of_be_Nil [simp]: "nat_of_be [] = 0"
  by (simp add: nat_of_be_def)

lemma nat_of_be_snoc [simp]: "nat_of_be (bs @ [b]) = nat_of_be bs * 256 + unat b"
  by (simp add: nat_of_be_def)

lemma unat_u8_lt [simp]: "unat (b :: u8) < 256"
  using unsigned_less [of b, where ?'a = nat] by simp

lemma unat_of_nat_u8: "unat (of_nat n :: u8) = n mod 256"
  by (simp add: unat_of_nat)

lemma nat_of_be_bound: "nat_of_be bs < 256 ^ length bs"
proof (induction bs rule: rev_induct)
  case Nil
  then show ?case by simp
next
  case (snoc b bs)
  have "nat_of_be bs * 256 + unat b < (nat_of_be bs + 1) * 256" by simp
  also have "\<dots> \<le> 256 ^ length bs * 256"
    using snoc.IH by (intro mult_le_mono1) simp
  finally show ?case by (simp add: mult.commute)
qed

lemma nat_of_be_be_bytes [byte_simps]: "n < 256 ^ k \<Longrightarrow> nat_of_be (be_bytes k n) = n"
proof (induction k arbitrary: n)
  case 0
  then show ?case by simp
next
  case (Suc k)
  then have "n div 256 < 256 ^ k" by (simp add: less_mult_imp_div_less mult.commute)
  with Suc.IH show ?case by (simp add: unat_of_nat_u8)
qed

lemma be_bytes_nat_of_be [byte_simps]: "be_bytes (length bs) (nat_of_be bs) = bs"
proof (induction bs rule: rev_induct)
  case Nil
  then show ?case by simp
next
  case (snoc b bs)
  have "(nat_of_be bs * 256 + unat b) div 256 = nat_of_be bs"
    and "(nat_of_be bs * 256 + unat b) mod 256 = unat b"
    by (simp_all add: div_mult_self3 mod_mult_self3)
  with snoc.IH show ?case by simp
qed

section \<open>UTF-8 validity (\<open>std::str::from_utf8\<close>)\<close>

definition in_range :: "u8 \<Rightarrow> u8 \<Rightarrow> u8 \<Rightarrow> bool" where
  "in_range lo hi b \<longleftrightarrow> lo \<le> b \<and> b \<le> hi"

definition utf8_cont :: "u8 \<Rightarrow> bool" where
  "utf8_cont b = in_range 0x80 0xBF b"

text \<open>The well-formed byte sequences of the Unicode standard, table 3-7.\<close>

fun utf8_valid :: "bytes \<Rightarrow> bool" where
  "utf8_valid [] = True"
| "utf8_valid [b] = (b < 0x80)"
| "utf8_valid [b, c] =
     (if b < 0x80 then utf8_valid [c] else in_range 0xC2 0xDF b \<and> utf8_cont c)"
| "utf8_valid [b, c, d] =
     (if b < 0x80 then utf8_valid [c, d]
      else if in_range 0xC2 0xDF b then utf8_cont c \<and> utf8_valid [d]
      else (b = 0xE0 \<and> in_range 0xA0 0xBF c \<or>
            (in_range 0xE1 0xEC b \<or> in_range 0xEE 0xEF b) \<and> utf8_cont c \<or>
            b = 0xED \<and> in_range 0x80 0x9F c) \<and> utf8_cont d)"
| "utf8_valid (b # c # d # e # bs) =
     (if b < 0x80 then utf8_valid (c # d # e # bs)
      else if in_range 0xC2 0xDF b then utf8_cont c \<and> utf8_valid (d # e # bs)
      else if in_range 0xE0 0xEF b then
        (b = 0xE0 \<and> in_range 0xA0 0xBF c \<or>
         (in_range 0xE1 0xEC b \<or> in_range 0xEE 0xEF b) \<and> utf8_cont c \<or>
         b = 0xED \<and> in_range 0x80 0x9F c) \<and> utf8_cont d \<and> utf8_valid (e # bs)
      else (b = 0xF0 \<and> in_range 0x90 0xBF c \<or> in_range 0xF1 0xF3 b \<and> utf8_cont c \<or>
            b = 0xF4 \<and> in_range 0x80 0x8F c) \<and> utf8_cont d \<and> utf8_cont e \<and> utf8_valid bs)"

text \<open>Every ASCII byte string is valid UTF-8.\<close>

lemma utf8_valid_ascii: "list_all (\<lambda>b. b < 0x80) bs \<Longrightarrow> utf8_valid bs"
  by (induction bs rule: utf8_valid.induct) auto

section \<open>Stable sorting by a comparator\<close>

datatype ordering = Less | Equal | Greater

fun insert_by :: "('a \<Rightarrow> 'a \<Rightarrow> ordering) \<Rightarrow> 'a \<Rightarrow> 'a list \<Rightarrow> 'a list" where
  "insert_by cmp x [] = [x]"
| "insert_by cmp x (y # ys) =
     (if cmp x y = Greater then y # insert_by cmp x ys else x # y # ys)"

text \<open>\<open>slice::sort_by\<close>: elements that compare equal keep their order.\<close>

definition sort_by :: "('a \<Rightarrow> 'a \<Rightarrow> ordering) \<Rightarrow> 'a list \<Rightarrow> 'a list" where
  "sort_by cmp xs = foldr (insert_by cmp) xs []"

definition compare_key :: "'k::linorder \<Rightarrow> 'k \<Rightarrow> ordering" where
  "compare_key a b = (if a < b then Less else if a = b then Equal else Greater)"

lemma insert_by_map:
  "insert_by cmp (f x) (map f xs) = map f (insert_by (\<lambda>a b. cmp (f a) (f b)) x xs)"
  by (induction xs) auto

lemma sort_by_map: "sort_by cmp (map f xs) = map f (sort_by (\<lambda>a b. cmp (f a) (f b)) xs)"
  unfolding sort_by_def by (induction xs) (auto simp: insert_by_map)

locale key_comparator =
  fixes cmp :: "'a \<Rightarrow> 'a \<Rightarrow> ordering"
    and key :: "'a \<Rightarrow> 'k::linorder"
  assumes cmp_key: "cmp a b = compare_key (key a) (key b)"
begin

lemma insert_by_insort: "insert_by cmp x xs = insort_key key x xs"
  by (induction xs) (auto simp: cmp_key compare_key_def)

lemma sort_by_sort_key: "sort_by cmp xs = sort_key key xs"
proof -
  have "insert_by cmp = insort_key key"
    by (intro ext) (simp add: insert_by_insort)
  then show ?thesis by (simp add: sort_by_def sort_key_def)
qed

lemma mset_sort_by [simp]: "mset (sort_by cmp xs) = mset xs"
  by (simp add: sort_by_sort_key)

lemma set_sort_by [simp]: "set (sort_by cmp xs) = set xs"
  by (simp add: sort_by_sort_key)

lemma length_sort_by [simp]: "length (sort_by cmp xs) = length xs"
  by (simp add: sort_by_sort_key)

lemma sorted_sort_by: "sorted (map key (sort_by cmp xs))"
  by (simp add: sort_by_sort_key)

lemma sort_by_stable: "filter (\<lambda>x. key x = k) (sort_by cmp xs) = filter (\<lambda>x. key x = k) xs"
  by (simp add: sort_by_sort_key sort_key_stable)

lemma sort_by_sorted: "sorted (map key xs) \<Longrightarrow> sort_by cmp xs = xs"
  by (simp add: sort_by_sort_key sorted_sort_id sort_key_id_if_sorted)

text \<open>Distinct keys leave no choice: the order of the input does not matter.\<close>

lemma sort_by_perm:
  assumes "mset xs = mset ys" and "distinct (map key xs)"
  shows "sort_by cmp xs = sort_by cmp ys"
proof -
  have "distinct (map key ys)"
    using assms by (metis mset_eq_imp_distinct_iff mset_map)
  then have inj: "inj_on key (set ys)" by (simp add: distinct_map)
  show ?thesis
    unfolding sort_by_sort_key using assms(1) inj
    by (metis properties_for_sort_key mset_sort sorted_sort_key sort_key_inj_key_eq
        mset_eq_setD)
qed

end

section \<open>Encoders and strict decoders\<close>

text \<open>
  A strict codec: the decoder accepts a byte string only if the encoder produces it from the value
  it returns. Nothing else is needed for the two facts the rest of the library uses: a decoder of
  this kind never maps two byte strings to one value, and whatever it accepts it re-encodes
  byte for byte.
\<close>

locale canonical_codec =
  fixes enc :: "'v \<Rightarrow> 'e + 'b"
    and dec :: "'b \<Rightarrow> 'd + 'v"
  assumes enc_dec: "dec b = Inr v \<Longrightarrow> enc v = Inr b"
begin

lemma dec_inj: "dec a = Inr v \<Longrightarrow> dec b = Inr v \<Longrightarrow> a = b"
  by (drule enc_dec)+ simp

lemma reencode: "dec b = Inr v \<Longrightarrow> (case enc v of Inl e \<Rightarrow> False | Inr b' \<Rightarrow> b' = b)"
  by (simp add: enc_dec)

end

end
