(* ===== verification/Cbor_Encode.thy ===== *)
theory Cbor_Encode
  imports L309_Prelude
begin

unbundle bit_operations_syntax

text \<open>
  The canonical CBOR layer of \<open>src/cbor.rs\<close>: the value model \<open>CborValue\<close>, the error type and the
  encoder \<open>encode_canonical_cbor\<close> with its helpers. The code appends to an output vector; each
  function here returns the bytes it appends.

  The second half states what an encoder has to produce. \<open>enc_cbor\<close> lays a value out with its maps
  in the order they are listed, \<open>canonical\<close> is the deterministic-encoding profile (encoded map
  keys strictly increasing, text valid UTF-8, lengths that fit their 64-bit argument), and
  \<open>canon_cbor\<close> sorts every map of a value. The encoder is then shown to return the layout of the
  sorted value.
\<close>

section \<open>Values and errors\<close>

datatype CanonicalCborError = IndefiniteLength string | Malformed string

definition MALFORMED_CBOR :: rstring where
  "MALFORMED_CBOR = lit ''MALFORMED_CBOR''"

fun error_code :: "CanonicalCborError \<Rightarrow> rstring" where
  "error_code (IndefiniteLength _) = MALFORMED_CBOR"
| "error_code (Malformed _) = MALFORMED_CBOR"

datatype CborValue =
    Unsigned u64
  | Negative u64
  | Bytes bytes
  | Text rstring
  | Array "CborValue list"
  | CMap "(CborValue \<times> CborValue) list"
  | CBool bool
  | Null

text \<open>\<open>CborValue::int\<close>: the argument is an \<open>i64\<close>.\<close>

definition cbor_int :: "64 word \<Rightarrow> CborValue" where
  "cbor_int n = (if 0 \<le> sint n then Unsigned n else Negative (- (n + 1)))"

definition cbor_text :: "string \<Rightarrow> CborValue" where
  "cbor_text s = Text (lit s)"

section \<open>The encoder\<close>

definition write_header :: "u8 \<Rightarrow> u8 \<Rightarrow> bytes" where
  "write_header major additional = [push_bit 5 major OR additional]"

definition write_type_and_argument :: "u8 \<Rightarrow> u64 \<Rightarrow> bytes" where
  "write_type_and_argument major argument =
     (if argument \<le> 23 then write_header major (ucast argument)
      else if argument \<le> 0xFF then write_header major 24 @ [ucast argument]
      else if argument \<le> 0xFFFF then write_header major 25 @ be_bytes 2 (unat argument)
      else if argument \<le> 0xFFFFFFFF then write_header major 26 @ be_bytes 4 (unat argument)
      else write_header major 27 @ be_bytes 8 (unat argument))"

definition compare_encoded_keys :: "bytes \<Rightarrow> bytes \<Rightarrow> ordering" where
  "compare_encoded_keys a b = compare_key a b"

text \<open>The duplicate check over \<open>encoded.windows(2)\<close>.\<close>

fun has_equal_window :: "'a list \<Rightarrow> bool" where
  "has_equal_window (a # b # xs) = (a = b \<or> has_equal_window (b # xs))"
| "has_equal_window _ = False"

text \<open>
  \<open>write_map\<close> receives the keys and values already turned into the result of writing them: the keys
  are encoded first, the pairs sorted by encoded key and checked for duplicates, and only then the
  values written, in sorted order.
\<close>

definition write_map ::
  "((CanonicalCborError + bytes) \<times> (CanonicalCborError + bytes)) list \<Rightarrow> CanonicalCborError + bytes" where
  "write_map pairs =
     and_then (collect_res (map fst pairs)) (\<lambda>keys.
       let encoded = sort_by (\<lambda>a b. compare_encoded_keys (fst a) (fst b)) (zip keys (map snd pairs))
       in if has_equal_window (map fst encoded) then Inl (Malformed ''map contains a duplicate key'')
          else and_then
            (collect_res (map (\<lambda>(key_bytes, val). and_then val (\<lambda>v. Inr (key_bytes @ v))) encoded))
            (\<lambda>chunks. Inr (write_type_and_argument 5 (of_nat (length encoded)) @ concat chunks)))"

primrec write_value :: "CborValue \<Rightarrow> CanonicalCborError + bytes" where
  "write_value (Unsigned n) = Inr (write_type_and_argument 0 n)"
| "write_value (Negative m) = Inr (write_type_and_argument 1 m)"
| "write_value (Bytes b) = Inr (write_type_and_argument 2 (of_nat (length b)) @ b)"
| "write_value (Text s) = Inr (write_type_and_argument 3 (of_nat (length s)) @ s)"
| "write_value (Array items) =
     and_then (collect_res (map write_value items))
       (\<lambda>chunks. Inr (write_type_and_argument 4 (of_nat (length items)) @ concat chunks))"
| "write_value (CMap pairs) = write_map (map (map_prod write_value write_value) pairs)"
| "write_value (CBool b) = Inr (write_header 7 (if b then 21 else 20))"
| "write_value Null = Inr (write_header 7 22)"

definition encode_canonical_cbor :: "CborValue \<Rightarrow> CanonicalCborError + bytes" where
  "encode_canonical_cbor value = write_value value"

section \<open>The layout of a value, and the canonical profile\<close>

primrec enc_cbor :: "CborValue \<Rightarrow> bytes" where
  "enc_cbor (Unsigned n) = write_type_and_argument 0 n"
| "enc_cbor (Negative m) = write_type_and_argument 1 m"
| "enc_cbor (Bytes b) = write_type_and_argument 2 (of_nat (length b)) @ b"
| "enc_cbor (Text s) = write_type_and_argument 3 (of_nat (length s)) @ s"
| "enc_cbor (Array items) =
     write_type_and_argument 4 (of_nat (length items)) @ concat (map enc_cbor items)"
| "enc_cbor (CMap pairs) =
     write_type_and_argument 5 (of_nat (length pairs)) @
     concat (map (\<lambda>(k, v). k @ v) (map (map_prod enc_cbor enc_cbor) pairs))"
| "enc_cbor (CBool b) = write_header 7 (if b then 21 else 20)"
| "enc_cbor Null = write_header 7 22"

text \<open>Well-formed values: what a Rust \<open>CborValue\<close> always satisfies.\<close>

primrec wf_cbor :: "CborValue \<Rightarrow> bool" where
  "wf_cbor (Unsigned n) = True"
| "wf_cbor (Negative m) = True"
| "wf_cbor (Bytes b) = (length b < usize_limit)"
| "wf_cbor (Text s) = (length s < usize_limit \<and> utf8_valid s)"
| "wf_cbor (Array items) = (length items < usize_limit \<and> list_all id (map wf_cbor items))"
| "wf_cbor (CMap pairs) =
     (length pairs < usize_limit \<and>
      list_all (\<lambda>(a, b). a \<and> b) (map (map_prod wf_cbor wf_cbor) pairs))"
| "wf_cbor (CBool b) = True"
| "wf_cbor Null = True"

text \<open>Every map lists its entries in strictly increasing order of their encoded keys.\<close>

primrec maps_ordered :: "CborValue \<Rightarrow> bool" where
  "maps_ordered (Unsigned n) = True"
| "maps_ordered (Negative m) = True"
| "maps_ordered (Bytes b) = True"
| "maps_ordered (Text s) = True"
| "maps_ordered (Array items) = list_all id (map maps_ordered items)"
| "maps_ordered (CMap pairs) =
     (sorted_wrt (<) (map (enc_cbor \<circ> fst) pairs) \<and>
      list_all (\<lambda>(a, b). a \<and> b) (map (map_prod maps_ordered maps_ordered) pairs))"
| "maps_ordered (CBool b) = True"
| "maps_ordered Null = True"

definition canonical :: "CborValue \<Rightarrow> bool" where
  "canonical v \<longleftrightarrow> wf_cbor v \<and> maps_ordered v"

text \<open>The canonical form of a value: every map sorted by encoded key, at every depth.\<close>

primrec canon_cbor :: "CborValue \<Rightarrow> CborValue" where
  "canon_cbor (Unsigned n) = Unsigned n"
| "canon_cbor (Negative m) = Negative m"
| "canon_cbor (Bytes b) = Bytes b"
| "canon_cbor (Text s) = Text s"
| "canon_cbor (Array items) = Array (map canon_cbor items)"
| "canon_cbor (CMap pairs) =
     CMap (sort_by (\<lambda>a b. compare_encoded_keys (enc_cbor (fst a)) (enc_cbor (fst b)))
       (map (map_prod canon_cbor canon_cbor) pairs))"
| "canon_cbor (CBool b) = CBool b"
| "canon_cbor Null = Null"

text \<open>No map, at any depth, holds two keys with one canonical encoding.\<close>

primrec keys_distinct :: "CborValue \<Rightarrow> bool" where
  "keys_distinct (Unsigned n) = True"
| "keys_distinct (Negative m) = True"
| "keys_distinct (Bytes b) = True"
| "keys_distinct (Text s) = True"
| "keys_distinct (Array items) = list_all id (map keys_distinct items)"
| "keys_distinct (CMap pairs) =
     (distinct (map (\<lambda>p. enc_cbor (canon_cbor (fst p))) pairs) \<and>
      list_all (\<lambda>(a, b). a \<and> b) (map (map_prod keys_distinct keys_distinct) pairs))"
| "keys_distinct (CBool b) = True"
| "keys_distinct Null = True"

section \<open>The encoder writes the layout of the sorted value\<close>

interpretation enc_keys:
  key_comparator "\<lambda>a b :: bytes \<times> 'c. compare_encoded_keys (fst a) (fst b)" fst
  by unfold_locales (simp add: compare_encoded_keys_def)

interpretation map_keys:
  key_comparator "\<lambda>a b :: CborValue \<times> 'c. compare_encoded_keys (enc_cbor (fst a)) (enc_cbor (fst b))"
    "\<lambda>p. enc_cbor (fst p)"
  by unfold_locales (simp add: compare_encoded_keys_def)

interpretation canon_keys:
  key_comparator
    "\<lambda>a b :: CborValue \<times> 'c.
       compare_encoded_keys (enc_cbor (canon_cbor (fst a))) (enc_cbor (canon_cbor (fst b)))"
    "\<lambda>p. enc_cbor (canon_cbor (fst p))"
  by unfold_locales (simp add: compare_encoded_keys_def)

lemma has_equal_window_sorted:
  "sorted xs \<Longrightarrow> has_equal_window xs \<longleftrightarrow> \<not> distinct xs"
proof (induction xs rule: has_equal_window.induct)
  case (1 a b xs)
  then show ?case by (auto simp: less_le)
qed auto

lemma strict_sorted_iff_distinct: "sorted_wrt (<) xs \<longleftrightarrow> sorted xs \<and> distinct (xs :: 'a :: linorder list)"
  by (simp add: strict_sorted_iff)

lemma canon_pairs_sorted:
  "sorted (map (enc_cbor \<circ> fst)
     (sort_by (\<lambda>a b. compare_encoded_keys (enc_cbor (fst a)) (enc_cbor (fst b))) ps))"
  using map_keys.sorted_sort_by [of ps] by (simp add: comp_def)

lemma dup_error_if:
  "(\<And>x. x \<in> set xs \<Longrightarrow> f x = (if P x then Inr (g x) else Inl e)) \<Longrightarrow>
   collect_res (map f xs) = (if list_all P xs then Inr (map g xs) else Inl e)"
  by (induction xs) auto

abbreviation dup_error :: CanonicalCborError where
  "dup_error \<equiv> Malformed ''map contains a duplicate key''"

lemma write_map_canon:
  assumes kv: "\<And>k v. (k, v) \<in> set pairs \<Longrightarrow>
      write_value k = (if keys_distinct k then Inr (enc_cbor (canon_cbor k)) else Inl dup_error) \<and>
      write_value v = (if keys_distinct v then Inr (enc_cbor (canon_cbor v)) else Inl dup_error)"
  shows "write_value (CMap pairs) =
    (if keys_distinct (CMap pairs) then Inr (enc_cbor (canon_cbor (CMap pairs))) else Inl dup_error)"
proof -
  let ?ek = "\<lambda>p. enc_cbor (canon_cbor (fst p))"
  let ?cmp = "\<lambda>a b. compare_encoded_keys (?ek a) (?ek b)"
  let ?sorted = "sort_by ?cmp pairs"
  let ?keys_ok = "list_all (\<lambda>p. keys_distinct (fst p)) pairs"
  let ?vals_ok = "list_all (\<lambda>p. keys_distinct (snd p)) pairs"
  have kd: "keys_distinct (CMap pairs) \<longleftrightarrow> ?keys_ok \<and> ?vals_ok \<and> distinct (map ?ek pairs)"
    by (auto simp: list_all_iff)
  have keys: "collect_res (map fst (map (map_prod write_value write_value) pairs)) =
      (if ?keys_ok then Inr (map ?ek pairs) else Inl dup_error)"
  proof -
    have "collect_res (map (\<lambda>p. write_value (fst p)) pairs) =
        (if ?keys_ok then Inr (map ?ek pairs) else Inl dup_error)"
      using kv by (intro dup_error_if) auto
    then show ?thesis by (simp add: comp_def)
  qed
  have zip: "zip (map ?ek pairs) (map (\<lambda>p. write_value (snd p)) pairs) =
      map (\<lambda>p. (?ek p, write_value (snd p))) pairs"
    by (induction pairs) auto
  have sorted: "sort_by (\<lambda>a b. compare_encoded_keys (fst a) (fst b))
      (map (\<lambda>p. (?ek p, write_value (snd p))) pairs) = map (\<lambda>p. (?ek p, write_value (snd p))) ?sorted"
    by (simp add: sort_by_map)
  have dup: "has_equal_window (map ?ek ?sorted) \<longleftrightarrow> \<not> distinct (map ?ek pairs)"
  proof -
    have "distinct (map ?ek ?sorted) \<longleftrightarrow> distinct (map ?ek pairs)"
      by (rule mset_eq_imp_distinct_iff) simp
    then show ?thesis using canon_keys.sorted_sort_by [of pairs] by (simp add: has_equal_window_sorted)
  qed
  have vals: "collect_res (map (\<lambda>p. and_then (write_value (snd p)) (\<lambda>v. Inr (?ek p @ v))) ?sorted) =
      (if ?vals_ok then Inr (map (\<lambda>p. ?ek p @ enc_cbor (canon_cbor (snd p))) ?sorted) else Inl dup_error)"
  proof -
    have "list_all (\<lambda>p. keys_distinct (snd p)) ?sorted \<longleftrightarrow> ?vals_ok"
      by (simp add: list_all_iff)
    moreover have "collect_res (map (\<lambda>p. and_then (write_value (snd p)) (\<lambda>v. Inr (?ek p @ v))) ?sorted) =
      (if list_all (\<lambda>p. keys_distinct (snd p)) ?sorted
       then Inr (map (\<lambda>p. ?ek p @ enc_cbor (canon_cbor (snd p))) ?sorted) else Inl dup_error)"
      using kv by (intro dup_error_if) auto
    ultimately show ?thesis by simp
  qed
  have layout: "enc_cbor (canon_cbor (CMap pairs)) = write_type_and_argument 5 (of_nat (length pairs)) @
      concat (map (\<lambda>p. ?ek p @ enc_cbor (canon_cbor (snd p))) ?sorted)"
    by (simp add: sort_by_map comp_def case_prod_unfold)
  show ?thesis
    unfolding write_value.simps write_map_def keys kd layout
    by (simp add: zip sorted dup vals Let_def comp_def case_prod_unfold)
qed

theorem write_value_canon:
  "write_value v = (if keys_distinct v then Inr (enc_cbor (canon_cbor v)) else Inl dup_error)"
proof (induction v)
  case (Array items)
  then have "collect_res (map write_value items) =
      (if list_all keys_distinct items then Inr (map (\<lambda>x. enc_cbor (canon_cbor x)) items) else Inl dup_error)"
    by (intro dup_error_if) auto
  then show ?case by (simp add: list_all_iff comp_def)
next
  case (CMap pairs)
  show ?case
  proof (rule write_map_canon, goal_cases)
    case (1 k v)
    then show ?case using CMap [OF 1] by (simp del: write_value.simps)
  qed
qed simp_all

text \<open>A value whose maps are already ordered is its own canonical form.\<close>

lemma canon_cbor_ordered: "maps_ordered v \<Longrightarrow> canon_cbor v = v"
proof (induction v)
  case (Array items)
  then show ?case by (auto simp: list_all_iff intro: map_idI)
next
  case (CMap pairs)
  have "map (map_prod canon_cbor canon_cbor) pairs = pairs"
  proof (rule map_idI)
    fix p assume p: "p \<in> set pairs"
    obtain k v where kv: "p = (k, v)" by (cases p)
    with p CMap.prems have "maps_ordered k" "maps_ordered v" by (auto simp: list_all_iff)
    with CMap.IH p kv show "map_prod canon_cbor canon_cbor p = p" by auto
  qed
  moreover have "sorted (map (\<lambda>p. enc_cbor (fst p)) pairs)"
    using CMap.prems by (auto simp: strict_sorted_iff comp_def)
  ultimately show ?case by (simp add: map_keys.sort_by_sorted)
qed simp_all

lemma keys_distinct_ordered: "maps_ordered v \<Longrightarrow> keys_distinct v"
proof (induction v)
  case (Array items)
  then show ?case by (auto simp: list_all_iff)
next
  case (CMap pairs)
  have "distinct (map (enc_cbor \<circ> fst) pairs)"
    using CMap.prems by (auto simp: strict_sorted_iff)
  moreover have "map (\<lambda>p. enc_cbor (canon_cbor (fst p))) pairs = map (enc_cbor \<circ> fst) pairs"
    using CMap.prems by (auto simp: list_all_iff canon_cbor_ordered)
  ultimately have "distinct (map (\<lambda>p. enc_cbor (canon_cbor (fst p))) pairs)" by (simp only:)
  then show ?case using CMap.IH CMap.prems by (auto simp: list_all_iff)
qed simp_all

lemma wf_canon_cbor: "wf_cbor v \<Longrightarrow> wf_cbor (canon_cbor v)"
proof (induction v)
  case (CMap pairs)
  then show ?case by (fastforce simp: list_all_iff)
qed (auto simp: list_all_iff)

lemma maps_ordered_canon: "keys_distinct v \<Longrightarrow> maps_ordered (canon_cbor v)"
proof (induction v)
  case (Array items)
  then show ?case by (auto simp: list_all_iff)
next
  case (CMap pairs)
  let ?ps = "map (map_prod canon_cbor canon_cbor) pairs"
  let ?sorted = "sort_by (\<lambda>a b. compare_encoded_keys (enc_cbor (fst a)) (enc_cbor (fst b))) ?ps"
  have "mset (map (enc_cbor \<circ> fst) ?sorted) = mset (map (enc_cbor \<circ> fst) ?ps)"
    by (simp only: mset_map map_keys.mset_sort_by)
  moreover have "distinct (map (enc_cbor \<circ> fst) ?ps)"
    using CMap.prems by (simp add: comp_def)
  ultimately have "distinct (map (enc_cbor \<circ> fst) ?sorted)"
    using mset_eq_imp_distinct_iff by blast
  then have "sorted_wrt (<) (map (enc_cbor \<circ> fst) ?sorted)"
    using canon_pairs_sorted strict_sorted_iff_distinct by blast
  moreover have "maps_ordered (canon_cbor k) \<and> maps_ordered (canon_cbor v)" if "(k, v) \<in> set pairs" for k v
    using that CMap by (force simp: list_all_iff)
  ultimately show ?case by (force simp: list_all_iff)
qed simp_all

text \<open>The encoder against its specification.\<close>

lemma encode_canonical_cbor_Inr_iff:
  "encode_canonical_cbor v = Inr bs \<longleftrightarrow> keys_distinct v \<and> bs = enc_cbor (canon_cbor v)"
  by (auto simp: encode_canonical_cbor_def write_value_canon)

lemma encode_canonical: "canonical v \<Longrightarrow> encode_canonical_cbor v = Inr (enc_cbor v)"
  by (simp add: encode_canonical_cbor_Inr_iff canonical_def keys_distinct_ordered canon_cbor_ordered)

lemma canonical_canon: "wf_cbor v \<Longrightarrow> keys_distinct v \<Longrightarrow> canonical (canon_cbor v)"
  by (simp add: canonical_def wf_canon_cbor maps_ordered_canon)

text \<open>
  Two maps with the same entries in any order have the same encoding: the insertion order of a
  record's fields never reaches the wire.
\<close>

lemma encode_map_perm:
  assumes "mset ps = mset qs"
  shows "encode_canonical_cbor (CMap ps) = encode_canonical_cbor (CMap qs)"
proof -
  have kd: "keys_distinct (CMap ps) \<longleftrightarrow> keys_distinct (CMap qs)"
  proof -
    have "mset (map (\<lambda>p. enc_cbor (canon_cbor (fst p))) ps) =
        mset (map (\<lambda>p. enc_cbor (canon_cbor (fst p))) qs)" using assms by simp
    then have "distinct (map (\<lambda>p. enc_cbor (canon_cbor (fst p))) ps) \<longleftrightarrow>
        distinct (map (\<lambda>p. enc_cbor (canon_cbor (fst p))) qs)" by (rule mset_eq_imp_distinct_iff)
    moreover have "set ps = set qs" using assms by (rule mset_eq_setD)
    ultimately show ?thesis by (simp add: list_all_iff)
  qed
  have "canon_cbor (CMap ps) = canon_cbor (CMap qs)" if "keys_distinct (CMap ps)"
    using that assms by (auto intro!: map_keys.sort_by_perm simp: comp_def)
  with kd show ?thesis
    by (simp add: encode_canonical_cbor_def write_value_canon del: canon_cbor.simps keys_distinct.simps)
qed

text \<open>Sorting the entries of maps does not change the size.\<close>

lemma length_enc_canon: "length (enc_cbor (canon_cbor v)) = length (enc_cbor v)"
proof (induction v)
  case (Array vs)
  then show ?case by (simp add: length_concat comp_def cong: map_cong)
next
  case (CMap ps)
  let ?size = "\<lambda>p. length (enc_cbor (fst p)) + length (enc_cbor (snd p))"
  let ?qs = "sort_by (\<lambda>a b. compare_encoded_keys (enc_cbor (fst a)) (enc_cbor (fst b))) (map (map_prod canon_cbor canon_cbor) ps)"
  have size: "length (enc_cbor (CMap xs)) = length (write_type_and_argument 5 (of_nat (length xs))) + sum_list (map ?size xs)" for xs
    by (simp add: length_concat comp_def case_prod_unfold)
  have "mset (map ?size ?qs) = mset (map ?size (map (map_prod canon_cbor canon_cbor) ps))"
    by (simp only: mset_map map_keys.mset_sort_by)
  from arg_cong [OF this, of sum_mset]
  have "sum_list (map ?size ?qs) = sum_list (map ?size (map (map_prod canon_cbor canon_cbor) ps))"
    by (simp only: sum_mset_sum_list)
  also have "map ?size (map (map_prod canon_cbor canon_cbor) ps) = map ?size ps"
  proof -
    have "?size (map_prod canon_cbor canon_cbor p) = ?size p" if "p \<in> set ps" for p
      using CMap(1) [OF that] CMap(2) [OF that] by (cases p) (simp add: fsts.simps snds.simps)
    then show ?thesis by (simp only: map_map comp_def cong: map_cong)
  qed
  finally show ?case unfolding canon_cbor.simps size by (simp only: map_keys.length_sort_by length_map)
qed simp_all

end
