(* ===== verification/Cbor_Decode.thy ===== *)
theory Cbor_Decode
  imports Cbor_Encode
begin

text \<open>
  The strict decoder \<open>decode_canonical_cbor\<close> of \<open>src/cbor.rs\<close>. The cursor is the struct \<open>Decoder\<close>:
  the input and a position. The two counted loops (\<open>for _ in 0..len\<close> of an array and of a map) are
  the functions \<open>read_items\<close> and \<open>read_pairs\<close>, mutually recursive with \<open>read_value\<close>. The recursion
  needs no fuel: it terminates because every value consumes at least one byte of the input, which is
  proved on the domain of the functions before their termination.

  The main results say that the decoder accepts exactly the layouts of canonical values and returns
  the value: \<open>decode_iff_canonical\<close>.
\<close>

section \<open>The cursor\<close>

record decoder =
  ddata :: bytes
  dpos :: nat

definition next_byte :: "decoder \<Rightarrow> CanonicalCborError + u8 \<times> decoder" where
  "next_byte d =
     (if dpos d < length (ddata d) then Inr (ddata d ! dpos d, d\<lparr>dpos := dpos d + 1\<rparr>)
      else Inl (Malformed ''unexpected end of input''))"

definition take_bytes :: "nat \<Rightarrow> decoder \<Rightarrow> CanonicalCborError + bytes \<times> decoder" where
  "take_bytes len d =
     (if dpos d + len \<ge> usize_limit then Inl (Malformed ''length overflows the input'')
      else if dpos d + len \<le> length (ddata d)
      then Inr (take len (drop (dpos d) (ddata d)), d\<lparr>dpos := dpos d + len\<rparr>)
      else Inl (Malformed ''truncated item''))"

section \<open>Arguments\<close>

definition read_argument :: "u8 \<Rightarrow> decoder \<Rightarrow> CanonicalCborError + u64 \<times> decoder" where
  "read_argument additional d =
     (if additional \<le> 23 then Inr (ucast additional, d)
      else if additional = 24 then
        and_then (next_byte d) (\<lambda>(b, d).
          let v = ucast b :: u64
          in if v \<le> 23
             then Inl (Malformed ''non-shortest integer encoding (1-byte argument < 24)'')
             else Inr (v, d))
      else if additional = 25 then
        and_then (take_bytes 2 d) (\<lambda>(raw, d).
          let v = of_nat (nat_of_be raw) :: u64
          in if v \<le> 0xFF
             then Inl (Malformed ''non-shortest integer encoding (2-byte argument fits in fewer bytes)'')
             else Inr (v, d))
      else if additional = 26 then
        and_then (take_bytes 4 d) (\<lambda>(raw, d).
          let v = of_nat (nat_of_be raw) :: u64
          in if v \<le> 0xFFFF
             then Inl (Malformed ''non-shortest integer encoding (4-byte argument fits in fewer bytes)'')
             else Inr (v, d))
      else if additional = 27 then
        and_then (take_bytes 8 d) (\<lambda>(raw, d).
          let v = of_nat (nat_of_be raw) :: u64
          in if v \<le> 0xFFFFFFFF
             then Inl (Malformed ''non-shortest integer encoding (8-byte argument fits in fewer bytes)'')
             else Inr (v, d))
      else if additional = 31 then
        Inl (IndefiniteLength ''indefinite-length item is not canonical'')
      else Inl (Malformed ''reserved additional-information value''))"

text \<open>\<open>usize::try_from\<close> cannot fail on a 64-bit target.\<close>

definition read_length :: "u8 \<Rightarrow> decoder \<Rightarrow> CanonicalCborError + nat \<times> decoder" where
  "read_length additional d =
     and_then (read_argument additional d) (\<lambda>(argument, d). Inr (unat argument, d))"

definition read_simple :: "u8 \<Rightarrow> decoder \<Rightarrow> CanonicalCborError + CborValue \<times> decoder" where
  "read_simple additional d =
     (if additional = 20 then Inr (CBool False, d)
      else if additional = 21 then Inr (CBool True, d)
      else if additional = 22 then Inr (Null, d)
      else if additional = 23 then
        Inl (Malformed ''the `undefined` simple value is not valid in a canonical record'')
      else if additional = 24 then
        Inl (Malformed ''simple values other than false/true/null are not permitted'')
      else if 25 \<le> additional \<and> additional \<le> 27 then
        Inl (Malformed ''floats are not permitted in a canonical record'')
      else if additional = 31 then
        Inl (IndefiniteLength ''indefinite-length break is not a value'')
      else Inl (Malformed ''unassigned or reserved simple value''))"

fun check_key_order :: "bytes option \<Rightarrow> bytes \<Rightarrow> CanonicalCborError + unit" where
  "check_key_order None key_bytes = Inr ()"
| "check_key_order (Some prev) key_bytes =
     (case compare_encoded_keys prev key_bytes of
        Less \<Rightarrow> Inr ()
      | Equal \<Rightarrow> Inl (Malformed ''duplicate map key'')
      | Greater \<Rightarrow> Inl (Malformed ''map keys are not in canonical order''))"

section \<open>Values\<close>

text \<open>
  The major type is a three-bit value, so the last branch is major type 7 (\<open>major_le_7\<close>); the
  source's \<open>unreachable!\<close> arm needs no counterpart.
\<close>

function (sequential, domintros)
  read_value :: "decoder \<Rightarrow> CanonicalCborError + CborValue \<times> decoder"
  and read_items :: "nat \<Rightarrow> decoder \<Rightarrow> CanonicalCborError + CborValue list \<times> decoder"
  and read_pairs :: "nat \<Rightarrow> bytes option \<Rightarrow> decoder \<Rightarrow>
        CanonicalCborError + (CborValue \<times> CborValue) list \<times> decoder"
where
  "read_value d =
     and_then (next_byte d) (\<lambda>(initial, d).
       let major = drop_bit 5 initial; additional = initial AND 0x1F
       in if major = 0 then and_then (read_argument additional d) (\<lambda>(n, d). Inr (Unsigned n, d))
          else if major = 1 then and_then (read_argument additional d) (\<lambda>(n, d). Inr (Negative n, d))
          else if major = 2 then
            and_then (read_length additional d) (\<lambda>(len, d).
              and_then (take_bytes len d) (\<lambda>(raw, d). Inr (Bytes raw, d)))
          else if major = 3 then
            and_then (read_length additional d) (\<lambda>(len, d).
              and_then (take_bytes len d) (\<lambda>(raw, d).
                if utf8_valid raw then Inr (Text raw, d)
                else Inl (Malformed ''text string is not valid UTF-8'')))
          else if major = 4 then
            and_then (read_length additional d) (\<lambda>(len, d).
              and_then (read_items len d) (\<lambda>(items, d). Inr (Array items, d)))
          else if major = 5 then
            and_then (read_length additional d) (\<lambda>(len, d).
              and_then (read_pairs len None d) (\<lambda>(pairs, d). Inr (CMap pairs, d)))
          else if major = 6 then Inl (Malformed ''tags are not permitted in canonical CBOR'')
          else read_simple additional d)"
| "read_items len d =
     (if len = 0 then Inr ([], d)
      else and_then (read_value d) (\<lambda>(item, d).
        and_then (read_items (len - 1) d) (\<lambda>(items, d). Inr (item # items, d))))"
| "read_pairs len prev_key_bytes d =
     (if len = 0 then Inr ([], d)
      else and_then (read_value d) (\<lambda>(key, d1).
        let key_bytes = take (dpos d1 - dpos d) (drop (dpos d) (ddata d))
        in and_then (check_key_order prev_key_bytes key_bytes) (\<lambda>_.
          and_then (read_value d1) (\<lambda>(val, d2).
            and_then (read_pairs (len - 1) (Some key_bytes) d2) (\<lambda>(pairs, d3).
              Inr ((key, val) # pairs, d3))))))"
  by pat_completeness auto

section \<open>Termination: every value consumes input\<close>

text \<open>
  \<open>advances d d'\<close>: the input is the same and the position has moved forward within it.
\<close>

definition advances :: "decoder \<Rightarrow> decoder \<Rightarrow> bool" where
  "advances d d' \<longleftrightarrow> ddata d' = ddata d \<and> dpos d \<le> dpos d' \<and>
     (dpos d \<le> length (ddata d) \<longrightarrow> dpos d' \<le> length (ddata d))"

lemma advances_refl [simp, intro]: "advances d d"
  by (simp add: advances_def)

lemma advances_trans: "advances a b \<Longrightarrow> advances b c \<Longrightarrow> advances a c"
  by (auto simp: advances_def)

lemma next_byte_Inr: "next_byte d = Inr (b, d') \<longleftrightarrow>
    dpos d < length (ddata d) \<and> b = ddata d ! dpos d \<and> d' = d\<lparr>dpos := dpos d + 1\<rparr>"
  by (auto simp: next_byte_def)

lemma take_bytes_Inr: "take_bytes len d = Inr (bs, d') \<longleftrightarrow>
    dpos d + len < usize_limit \<and> dpos d + len \<le> length (ddata d) \<and>
    bs = take len (drop (dpos d) (ddata d)) \<and> d' = d\<lparr>dpos := dpos d + len\<rparr>"
  by (auto simp: take_bytes_def)

lemma next_byte_advances:
  "next_byte d = Inr (b, d') \<Longrightarrow> advances d d' \<and> dpos d < dpos d' \<and> dpos d < length (ddata d)"
  by (auto simp: next_byte_Inr advances_def)

lemma take_bytes_advances: "take_bytes len d = Inr (bs, d') \<Longrightarrow> advances d d'"
  by (auto simp: take_bytes_Inr advances_def)

lemma read_argument_advances: "read_argument a d = Inr (n, d') \<Longrightarrow> advances d d'"
  by (auto simp: read_argument_def Let_def res_simps dest!: next_byte_advances take_bytes_advances
      split: if_splits)

lemma read_length_advances: "read_length a d = Inr (n, d') \<Longrightarrow> advances d d'"
  by (auto simp: read_length_def res_simps dest: read_argument_advances)

lemma read_simple_advances: "read_simple a d = Inr (v, d') \<Longrightarrow> d' = d"
  by (auto simp: read_simple_def split: if_splits)

lemmas cursor_advances =
  next_byte_advances take_bytes_advances read_argument_advances read_length_advances

text \<open>A value that starts inside the input ends later, and still inside it.\<close>

definition consumes :: "decoder \<Rightarrow> decoder \<Rightarrow> bool" where
  "consumes d d' \<longleftrightarrow> advances d d' \<and> dpos d < dpos d' \<and> dpos d < length (ddata d)"

lemma consumes_advances: "consumes a b \<Longrightarrow> advances b c \<Longrightarrow> consumes a c"
  by (auto simp: consumes_def advances_def)

lemma consumes_imp_advances: "consumes a b \<Longrightarrow> advances a b"
  by (simp add: consumes_def)

lemma next_byte_consumes: "next_byte d = Inr (b, d') \<Longrightarrow> consumes d d'"
  by (simp add: consumes_def next_byte_advances)

abbreviation "read_dom \<equiv> read_value_read_items_read_pairs_dom"

text \<open>
  The body of \<open>read_value\<close> with the two loops as parameters, so that one inversion rule serves the
  termination proof (over the domain) and everything after it.
\<close>

definition value_body :: "(nat \<Rightarrow> decoder \<Rightarrow> CanonicalCborError + CborValue list \<times> decoder) \<Rightarrow>
    (nat \<Rightarrow> bytes option \<Rightarrow> decoder \<Rightarrow> CanonicalCborError + (CborValue \<times> CborValue) list \<times> decoder) \<Rightarrow>
    u8 \<Rightarrow> decoder \<Rightarrow> CanonicalCborError + CborValue \<times> decoder" where
  "value_body items_loop pairs_loop initial d =
     (let major = drop_bit 5 initial; additional = initial AND 0x1F
      in if major = 0 then and_then (read_argument additional d) (\<lambda>(n, d). Inr (Unsigned n, d))
         else if major = 1 then and_then (read_argument additional d) (\<lambda>(n, d). Inr (Negative n, d))
         else if major = 2 then
           and_then (read_length additional d) (\<lambda>(len, d).
             and_then (take_bytes len d) (\<lambda>(raw, d). Inr (Bytes raw, d)))
         else if major = 3 then
           and_then (read_length additional d) (\<lambda>(len, d).
             and_then (take_bytes len d) (\<lambda>(raw, d).
               if utf8_valid raw then Inr (Text raw, d)
               else Inl (Malformed ''text string is not valid UTF-8'')))
         else if major = 4 then
           and_then (read_length additional d) (\<lambda>(len, d).
             and_then (items_loop len d) (\<lambda>(items, d). Inr (Array items, d)))
         else if major = 5 then
           and_then (read_length additional d) (\<lambda>(len, d).
             and_then (pairs_loop len None d) (\<lambda>(pairs, d). Inr (CMap pairs, d)))
         else if major = 6 then Inl (Malformed ''tags are not permitted in canonical CBOR'')
         else read_simple additional d)"

lemma value_body_cases:
  assumes "value_body ri rp b d = Inr (v, d')"
  obtains
    (Unsigned) n where "drop_bit 5 b = 0" "read_argument (b AND 0x1F) d = Inr (n, d')" "v = Unsigned n"
  | (Negative) n where "drop_bit 5 b = 1" "read_argument (b AND 0x1F) d = Inr (n, d')" "v = Negative n"
  | (Bytes) n e bs where "drop_bit 5 b = 2" "read_length (b AND 0x1F) d = Inr (n, e)"
      "take_bytes n e = Inr (bs, d')" "v = Bytes bs"
  | (Text) n e bs where "drop_bit 5 b = 3" "read_length (b AND 0x1F) d = Inr (n, e)"
      "take_bytes n e = Inr (bs, d')" "utf8_valid bs" "v = Text bs"
  | (Array) n e vs where "drop_bit 5 b = 4" "read_length (b AND 0x1F) d = Inr (n, e)"
      "ri n e = Inr (vs, d')" "v = Array vs"
  | (CMap) n e ps where "drop_bit 5 b = 5" "read_length (b AND 0x1F) d = Inr (n, e)"
      "rp n None e = Inr (ps, d')" "v = CMap ps"
  | (Simple) "drop_bit 5 b \<notin> {0, 1, 2, 3, 4, 5, 6}" "read_simple (b AND 0x1F) d = Inr (v, d')"
  using assms unfolding value_body_def Let_def
  by (auto simp: res_simps split: if_splits)

lemma read_value_psimp:
  "read_dom (Inl d) \<Longrightarrow> read_value d =
     and_then (next_byte d) (\<lambda>(b, d). value_body read_items read_pairs b d)"
  by (simp add: read_value.psimps value_body_def)

lemma read_consumes:
  "read_dom (Inl d) \<Longrightarrow> read_value d = Inr (v, d') \<Longrightarrow> consumes d d'"
  "read_dom (Inr (Inl (n, d))) \<Longrightarrow> read_items n d = Inr (vs, d') \<Longrightarrow> advances d d'"
  "read_dom (Inr (Inr (n, prev, d))) \<Longrightarrow> read_pairs n prev d = Inr (ps, d') \<Longrightarrow> advances d d'"
proof (induction d and n d and n prev d arbitrary: v d' and vs d' and ps d'
    rule: read_value_read_items_read_pairs.pinduct)
  case (1 d)
  obtain b e where b: "next_byte d = Inr (b, e)" and body: "value_body read_items read_pairs b e = Inr (v, d')"
    using "1.prems" "1.hyps" by (auto simp: read_value_psimp res_simps)
  from body have "advances e d'"
  proof (cases rule: value_body_cases)
    case (Array n f vs)
    then have "advances f d'" using "1.IH"(1)[OF b refl refl refl] by simp
    with Array show ?thesis by (blast intro: advances_trans read_length_advances)
  next
    case (CMap n f ps)
    then have "advances f d'" using "1.IH"(2)[OF b refl refl refl] by simp
    with CMap show ?thesis by (blast intro: advances_trans read_length_advances)
  qed (auto dest: cursor_advances read_simple_advances intro: advances_trans)
  then show ?case using next_byte_consumes [OF b] consumes_advances by blast
next
  case (2 n d)
  show ?case
  proof (cases "n = 0")
    case True
    then show ?thesis using "2.prems" "2.hyps" by (simp add: read_items.psimps)
  next
    case False
    with "2.prems" "2.hyps" obtain x e xs where x: "read_value d = Inr (x, e)"
      and xs: "read_items (n - 1) e = Inr (xs, d')" by (auto simp: read_items.psimps res_simps)
    from "2.IH"(1)[OF False x] "2.IH"(2)[OF False x refl xs] show ?thesis
      using consumes_imp_advances advances_trans by blast
  qed
next
  case (3 n prev d)
  show ?case
  proof (cases "n = 0")
    case True
    then show ?thesis using "3.prems" "3.hyps" by (simp add: read_pairs.psimps)
  next
    case False
    let ?kb = "\<lambda>e. take (dpos e - dpos d) (drop (dpos d) (ddata d))"
    from False "3.prems" "3.hyps" obtain k e u x f xs where k: "read_value d = Inr (k, e)"
      and u: "check_key_order prev (?kb e) = Inr u" and x: "read_value e = Inr (x, f)"
      and xs: "read_pairs (n - 1) (Some (?kb e)) f = Inr (xs, d')"
      by (auto simp: read_pairs.psimps res_simps Let_def)
    from "3.IH"(1)[OF False k] "3.IH"(2)[OF False k refl refl u x] "3.IH"(3)[OF False k refl refl u x refl xs]
    show ?thesis using consumes_imp_advances advances_trans by blast
  qed
qed

definition unread :: "decoder \<Rightarrow> nat" where
  "unread d = length (ddata d) - dpos d"

lemma unread_consumes: "consumes d d' \<Longrightarrow> unread d' < unread d"
  by (auto simp: consumes_def advances_def unread_def)

lemma unread_advances: "advances d d' \<Longrightarrow> unread d' \<le> unread d"
  by (auto simp: advances_def unread_def)

lemma unread_loop:
  "next_byte d = Inr (b, e) \<Longrightarrow> read_length a e = Inr (n, f) \<Longrightarrow> unread f < unread d"
  using unread_consumes [OF next_byte_consumes] unread_advances [OF read_length_advances]
  by (meson order.strict_trans1)

termination read_value
  by (relation "measures [\<lambda>a. case a of Inl d \<Rightarrow> unread d
      | Inr (Inl (n, d)) \<Rightarrow> unread d
      | Inr (Inr (n, p, d)) \<Rightarrow> unread d,
    \<lambda>a. case a of Inl d \<Rightarrow> 0 | Inr (Inl (n, d)) \<Rightarrow> 1 | Inr (Inr (n, p, d)) \<Rightarrow> 1]")
    (auto dest!: unread_loop unread_consumes [OF read_consumes(1)] split: prod.splits)

declare read_value.simps [simp del] read_items.simps [simp del] read_pairs.simps [simp del]

lemma read_value_eq:
  "read_value d = and_then (next_byte d) (\<lambda>(b, d). value_body read_items read_pairs b d)"
  by (simp add: read_value.simps value_body_def)

section \<open>The entry point\<close>

definition decode_canonical_cbor :: "bytes \<Rightarrow> CanonicalCborError + CborValue" where
  "decode_canonical_cbor bs =
     and_then (read_value \<lparr>ddata = bs, dpos = 0\<rparr>) (\<lambda>(value, d).
       if dpos d \<noteq> length bs then Inl (Malformed ''trailing bytes after the top-level item'')
       else Inr value)"

section \<open>Heads: an item's first byte and its argument\<close>

definition rest :: "decoder \<Rightarrow> bytes" where
  "rest d = drop (dpos d) (ddata d)"

definition skip :: "nat \<Rightarrow> decoder \<Rightarrow> decoder" where
  "skip k d = d\<lparr>dpos := dpos d + k\<rparr>"

lemma skip_simps [simp]:
  "dpos (skip k d) = dpos d + k" "ddata (skip k d) = ddata d" "skip 0 d = d"
  "skip j (skip k d) = skip (k + j) d"
  by (simp_all add: skip_def)

lemma rest_skip_drop: "rest (skip k d) = drop k (rest d)"
  by (simp add: rest_def add.commute)

lemma rest_skip: "rest d = a @ r \<Longrightarrow> rest (skip (length a) d) = r"
  by (simp add: rest_skip_drop)

lemma take_bit_u8: "unat (a :: u8) < 2 ^ k \<Longrightarrow> take_bit k a = a"
  by (intro word_unat_eq_iff [THEN iffD2]) (simp add: unsigned_take_bit_eq take_bit_nat_eq_self)

lemma bit_u8_bound: "unat (a :: u8) < 2 ^ k \<Longrightarrow> bit a n \<Longrightarrow> n < k"
  using take_bit_u8 [of a k] bit_take_bit_iff [of k a n] by simp

lemma bit_lt_32: "(a :: u8) < 32 \<Longrightarrow> bit a n \<Longrightarrow> n < 5"
  using bit_u8_bound [of a 5 n] by (simp add: word_less_nat_alt)

lemma bit_lt_8: "(m :: u8) < 8 \<Longrightarrow> bit m n \<Longrightarrow> n < 3"
  using bit_u8_bound [of m 3 n] by (simp add: word_less_nat_alt)

lemma and_1F: "(b :: u8) AND 0x1F = take_bit 5 b"
  by (simp add: take_bit_eq_mask mask_eq_exp_minus_1)

lemma head_major: "m < 8 \<Longrightarrow> a < 32 \<Longrightarrow> drop_bit 5 (push_bit 5 m OR a) = (m :: u8)"
  by (rule bit_word_eqI) (auto simp: bit_simps dest: bit_lt_8 bit_lt_32)

lemma head_additional: "a < 32 \<Longrightarrow> (push_bit 5 m OR a) AND 0x1F = (a :: u8)"
  unfolding and_1F by (rule bit_word_eqI) (auto simp: bit_simps dest: bit_lt_32)

lemma head_split: "push_bit 5 (drop_bit 5 b) OR (b AND 0x1F) = (b :: u8)"
  unfolding and_1F by (rule bit_word_eqI) (auto simp: bit_simps)

lemma additional_lt: "(b AND 0x1F :: u8) < 32"
proof -
  have "unat (take_bit 5 b) < 2 ^ 5" unfolding unsigned_take_bit_eq by (rule take_bit_nat_less_exp)
  then show ?thesis by (simp add: and_1F word_less_nat_alt)
qed

lemma major_le_7: "drop_bit 5 (b :: u8) < 8"
proof -
  have "unat b div 2 ^ 5 < 8" using unat_u8_lt [of b] by (simp add: less_mult_imp_div_less)
  moreover have "unat (drop_bit 5 b) = drop_bit 5 (unat b)"
    by (subst unsigned_drop_bit_eq) (simp add: take_bit_nat_eq_self)
  ultimately have "unat (drop_bit 5 b) < 8" by (metis drop_bit_eq_div)
  then show ?thesis by (simp add: word_less_nat_alt)
qed
lemma next_byte_rest: "rest d = b # r \<Longrightarrow> next_byte d = Inr (b, skip 1 d)"
proof -
  assume r: "rest d = b # r"
  then have "dpos d < length (ddata d)" by (cases "dpos d < length (ddata d)") (auto simp: rest_def)
  with r show ?thesis by (simp add: next_byte_def rest_def skip_def nth_via_drop)
qed

lemma take_bytes_rest:
  assumes "rest d = a @ r" "length (ddata d) < usize_limit" "dpos d \<le> length (ddata d)"
  shows "take_bytes (length a) d = Inr (a, skip (length a) d)"
proof -
  have "length (ddata d) - dpos d = length a + length r"
    using assms(1) by (metis length_append length_drop rest_def)
  then show ?thesis using assms by (auto simp: take_bytes_def rest_def skip_def)
qed

lemma next_byte_rest_Inr: "next_byte d = Inr (b, d') \<Longrightarrow> rest d = b # rest d' \<and> d' = skip 1 d"
  by (auto simp: next_byte_Inr rest_def skip_def Cons_nth_drop_Suc)

lemma take_bytes_rest_Inr:
  "take_bytes n d = Inr (bs, d') \<Longrightarrow> rest d = bs @ rest d' \<and> d' = skip n d \<and> length bs = n"
  by (auto simp: take_bytes_Inr skip_def [symmetric] rest_skip_drop simp flip: rest_def)
    (simp add: rest_def)

text \<open>The bytes after the first one of an item's head.\<close>

definition arg_tail :: "u64 \<Rightarrow> bytes" where
  "arg_tail n = tl (write_type_and_argument 0 n)"

definition arg_info :: "u64 \<Rightarrow> u8" where
  "arg_info n = (if n \<le> 23 then ucast n else if n \<le> 0xFF then 24 else if n \<le> 0xFFFF then 25
     else if n \<le> 0xFFFFFFFF then 26 else 27)"

lemma write_head: "write_type_and_argument m n = (push_bit 5 m OR arg_info n) # arg_tail n"
  by (simp add: write_type_and_argument_def write_header_def arg_tail_def arg_info_def)

lemma arg_info_lt: "arg_info n < 32"
proof -
  have "(ucast n :: u8) < 32" if "n \<le> 23"
    using that by (simp add: word_less_nat_alt word_le_nat_alt unsigned_ucast_eq take_bit_nat_eq_self)
  then show ?thesis by (simp add: arg_info_def)
qed

lemma ucast_ucast_u8: "unat (n :: u64) < 256 \<Longrightarrow> ucast (ucast n :: u8) = n"
  by (intro word_unat_eq_iff [THEN iffD2]) (simp add: unsigned_ucast_eq unsigned_take_bit_eq take_bit_nat_eq_self)

lemma unat_ucast_u64: "unat (ucast (b :: u8) :: u64) = unat b"
proof -
  have "unat b < 2 ^ 64" by (rule less_trans [OF unat_u8_lt]) simp
  then show ?thesis by (simp add: unsigned_ucast_eq take_bit_nat_eq_self)
qed

lemma ucast_ucast_u64: "ucast (ucast (b :: u8) :: u64) = b"
proof -
  have "unat b < 2 ^ 64" by (rule less_trans [OF unat_u8_lt]) simp
  then show ?thesis
    by (intro word_unat_eq_iff [THEN iffD2])
      (simp add: unsigned_ucast_eq unsigned_take_bit_eq take_bit_nat_eq_self)
qed

lemma read_argument_write:
  assumes r: "rest d = arg_tail n @ r" and d: "length (ddata d) < usize_limit" "dpos d \<le> length (ddata d)"
  shows "read_argument (arg_info n) d = Inr (n, skip (length (arg_tail n)) d)"
proof -
  consider "n \<le> 23" | "\<not> n \<le> 23" "n \<le> 0xFF" | "\<not> n \<le> 0xFF" "n \<le> 0xFFFF"
    | "\<not> n \<le> 0xFFFF" "n \<le> 0xFFFFFFFF" | "\<not> n \<le> 0xFFFFFFFF" by blast
  then show ?thesis
  proof cases
    case 1
    then have "arg_info n = ucast n" "arg_tail n = []" "(ucast n :: u8) \<le> 23"
      by (auto simp: arg_info_def arg_tail_def write_type_and_argument_def write_header_def
          word_le_nat_alt unsigned_ucast_eq take_bit_nat_eq_self)
    moreover from 1 have "ucast (ucast n :: u8) = n" by (intro ucast_ucast_u8) (simp add: word_le_nat_alt)
    ultimately show ?thesis by (simp add: read_argument_def)
  next
    case 2
    then have "arg_info n = 24" "arg_tail n = [ucast n]"
      by (auto simp: arg_info_def arg_tail_def write_type_and_argument_def write_header_def word_le_nat_alt)
    moreover from 2 have "ucast (ucast n :: u8) = n" by (intro ucast_ucast_u8) (simp add: word_le_nat_alt)
    ultimately show ?thesis using 2 r next_byte_rest [of d "ucast n" r]
      by (simp add: read_argument_def Let_def)
  next
    case 3
    then have "arg_info n = 25" "arg_tail n = be_bytes 2 (unat n)"
      by (auto simp: arg_info_def arg_tail_def write_type_and_argument_def write_header_def word_le_nat_alt)
    with r d show ?thesis using 3 take_bytes_rest [of d "be_bytes 2 (unat n)" r]
      by (simp add: read_argument_def Let_def nat_of_be_be_bytes word_le_nat_alt)
  next
    case 4
    then have "arg_info n = 26" "arg_tail n = be_bytes 4 (unat n)"
      by (auto simp: arg_info_def arg_tail_def write_type_and_argument_def write_header_def word_le_nat_alt)
    with r d show ?thesis using 4 take_bytes_rest [of d "be_bytes 4 (unat n)" r]
      by (simp add: read_argument_def Let_def nat_of_be_be_bytes word_le_nat_alt)
  next
    case 5
    have "unat n < 256 ^ 8" using unsigned_less [of n, where ?'a = nat] by simp
    moreover from 5 have "arg_info n = 27" "arg_tail n = be_bytes 8 (unat n)"
      by (auto simp: arg_info_def arg_tail_def write_type_and_argument_def write_header_def word_le_nat_alt)
    ultimately show ?thesis using 5 r d take_bytes_rest [of d "be_bytes 8 (unat n)" r]
      by (simp add: read_argument_def Let_def nat_of_be_be_bytes word_le_nat_alt)
  qed
qed

text \<open>Conversely, an argument the decoder accepts is in shortest form.\<close>

lemma read_argument_Inr:
  assumes "read_argument a d = Inr (n, d')"
  shows "a = arg_info n \<and> rest d = arg_tail n @ rest d' \<and> d' = skip (length (arg_tail n)) d"
proof -
  have wide: "arg_tail n = raw \<and> arg_info n = a \<and> rest d = raw @ rest d' \<and> d' = skip (length raw) d"
    if "take_bytes k d = Inr (raw, d')" "n = of_nat (nat_of_be raw)"
      "(k, a) \<in> {(2, 25), (4, 26), (8, 27)}"
      "a = 25 \<Longrightarrow> \<not> n \<le> 0xFF" "a = 26 \<Longrightarrow> \<not> n \<le> 0xFFFF" "a = 27 \<Longrightarrow> \<not> n \<le> 0xFFFFFFFF" for k raw
  proof -
    from take_bytes_rest_Inr [OF that(1)] have rd: "rest d = raw @ rest d'" "d' = skip k d"
      and len: "length raw = k" by auto
    have "nat_of_be raw < 256 ^ k" using nat_of_be_bound [of raw] len by simp
    moreover have "(256::nat) ^ k \<le> 256 ^ 8" using that(3) by auto
    ultimately have un: "unat n = nat_of_be raw" using that(2)
      by (simp add: unat_of_nat)
    then have "be_bytes k (unat n) = raw" using be_bytes_nat_of_be [of raw] len by simp
    moreover have "arg_tail n = be_bytes k (unat n) \<and> arg_info n = a"
      using that(3-6) un \<open>nat_of_be raw < 256 ^ k\<close>
      by (auto simp: arg_info_def arg_tail_def write_type_and_argument_def write_header_def word_le_nat_alt)
    ultimately show ?thesis using rd len by simp
  qed
  consider "a \<le> 23" | "a = 24" | "a = 25" | "a = 26" | "a = 27"
    using assms by (auto simp: read_argument_def split: if_splits)
  then show ?thesis
  proof cases
    case 1
    then have "n = ucast a" "d' = d" using assms by (auto simp: read_argument_def)
    moreover have "(ucast a :: u64) \<le> 23" using 1 by (simp add: word_le_nat_alt unat_ucast_u64)
    moreover have "ucast (ucast a :: u64) = a" by (rule ucast_ucast_u64)
    ultimately show ?thesis
      by (simp add: arg_info_def arg_tail_def write_type_and_argument_def write_header_def)
  next
    case 2
    then obtain b where b: "next_byte d = Inr (b, d')" "n = ucast b" "\<not> n \<le> 23"
      using assms by (auto simp: read_argument_def Let_def res_simps split: if_splits)
    have "unat n < 256" using b(2) by (simp add: unat_ucast_u64)
    then have "n \<le> 0xFF" by (simp add: word_le_nat_alt)
    moreover have "ucast n = b" using b(2) by (simp add: ucast_ucast_u64)
    ultimately show ?thesis using 2 b next_byte_rest_Inr [OF b(1)]
      by (simp add: arg_info_def arg_tail_def write_type_and_argument_def write_header_def)
  next
    case 3
    then obtain raw where "take_bytes 2 d = Inr (raw, d')" "n = of_nat (nat_of_be raw)" "\<not> n \<le> 0xFF"
      using assms by (auto simp: read_argument_def Let_def res_simps split: if_splits)
    with wide [of 2 raw] 3 show ?thesis by simp
  next
    case 4
    then obtain raw where "take_bytes 4 d = Inr (raw, d')" "n = of_nat (nat_of_be raw)" "\<not> n \<le> 0xFFFF"
      using assms by (auto simp: read_argument_def Let_def res_simps split: if_splits)
    with wide [of 4 raw] 4 show ?thesis by simp
  next
    case 5
    then obtain raw where "take_bytes 8 d = Inr (raw, d')" "n = of_nat (nat_of_be raw)" "\<not> n \<le> 0xFFFFFFFF"
      using assms by (auto simp: read_argument_def Let_def res_simps split: if_splits)
    with wide [of 8 raw] 5 show ?thesis by simp
  qed
qed

section \<open>Soundness: what is accepted is canonical\<close>

lemma enc_CMap: "enc_cbor (CMap ps) =
    write_type_and_argument 5 (of_nat (length ps)) @ concat (map (\<lambda>(k, v). enc_cbor k @ enc_cbor v) ps)"
  by (simp add: comp_def case_prod_unfold)

lemma canonical_Array:
  "canonical (Array vs) \<longleftrightarrow> length vs < usize_limit \<and> (\<forall>v\<in>set vs. canonical v)"
  by (auto simp: canonical_def list_all_iff)

lemma canonical_CMap:
  "canonical (CMap ps) \<longleftrightarrow> length ps < usize_limit \<and> (\<forall>(k, v)\<in>set ps. canonical k \<and> canonical v) \<and>
     sorted_wrt (<) (map (enc_cbor \<circ> fst) ps)"
  by (auto simp: canonical_def list_all_iff)

lemmas canonical_simps = canonical_Array canonical_CMap

lemma head_Inr:
  assumes "next_byte d = Inr (b, e)" "read_argument (b AND 0x1F) e = Inr (n, f)"
  shows "rest d = write_type_and_argument (drop_bit 5 b) n @ rest f \<and>
    f = skip (length (write_type_and_argument (drop_bit 5 b) n)) d"
  using next_byte_rest_Inr [OF assms(1)] read_argument_Inr [OF assms(2)] head_split [of b]
  by (simp add: write_head)

lemma head_length_Inr:
  assumes "next_byte d = Inr (b, e)" "read_length (b AND 0x1F) e = Inr (n, f)"
  shows "rest d = write_type_and_argument (drop_bit 5 b) (of_nat n) @ rest f \<and>
    f = skip (length (write_type_and_argument (drop_bit 5 b) (of_nat n))) d \<and> n < usize_limit"
proof -
  from assms(2) obtain w where w: "read_argument (b AND 0x1F) e = Inr (w, f)" "n = unat w"
    by (auto simp: read_length_def res_simps)
  then show ?thesis using head_Inr [OF assms(1) w(1)] unsigned_less [of w, where ?'a = nat] by simp
qed

lemma u8_lt_8_eq_7: "(m :: u8) < 8 \<Longrightarrow> m \<notin> {0, 1, 2, 3, 4, 5, 6} \<Longrightarrow> m = 7"
  by (simp add: word_less_nat_alt word_unat_eq_iff)

lemma read_simple_Inr:
  assumes "next_byte d = Inr (b, e)" "drop_bit 5 b \<notin> {0, 1, 2, 3, 4, 5, 6}"
    and "read_simple (b AND 0x1F) e = Inr (v, d')"
  shows "canonical v \<and> rest d = enc_cbor v @ rest d' \<and> d' = skip (length (enc_cbor v)) d"
proof -
  have "drop_bit 5 b = 7" by (rule u8_lt_8_eq_7 [OF major_le_7 assms(2)])
  then have b: "b = push_bit 5 7 OR (b AND 0x1F)" using head_split [of b] by simp
  from assms(3) have "d' = e \<and> canonical v \<and> enc_cbor v = [b]"
    by (subst b) (auto simp: read_simple_def canonical_def write_header_def split: if_splits)
  with next_byte_rest_Inr [OF assms(1)] show ?thesis by simp
qed

definition reads :: "decoder \<Rightarrow> bytes \<Rightarrow> decoder \<Rightarrow> bool" where
  "reads d bs d' \<longleftrightarrow> rest d = bs @ rest d' \<and> d' = skip (length bs) d"

lemma reads_append: "reads d a e \<Longrightarrow> reads e b f \<Longrightarrow> reads d (a @ b) f"
  by (auto simp: reads_def)

lemma reads_Nil [simp]: "reads d [] d"
  by (simp add: reads_def)

lemma reads_slice: "reads d bs d' \<Longrightarrow> take (dpos d' - dpos d) (drop (dpos d) (ddata d)) = bs"
  by (auto simp: reads_def) (metis append_eq_conv_conj rest_def)

lemma read_sound:
  "read_value d = Inr (v, d') \<Longrightarrow> canonical v \<and> reads d (enc_cbor v) d'"
  "read_items n d = Inr (vs, d') \<Longrightarrow>
     length vs = n \<and> (\<forall>v\<in>set vs. canonical v) \<and> reads d (concat (map enc_cbor vs)) d'"
  "read_pairs n prev d = Inr (ps, d') \<Longrightarrow>
     length ps = n \<and> (\<forall>(k, v)\<in>set ps. canonical k \<and> canonical v) \<and>
     reads d (concat (map (\<lambda>(k, v). enc_cbor k @ enc_cbor v) ps)) d' \<and>
     sorted_wrt (<) ((case prev of None \<Rightarrow> [] | Some p \<Rightarrow> [p]) @ map (enc_cbor \<circ> fst) ps)"
proof (induction d and n d and n prev d arbitrary: v d' and vs d' and ps d'
    rule: read_value_read_items_read_pairs.induct)
  case (1 d)
  obtain b e where b: "next_byte d = Inr (b, e)" and body: "value_body read_items read_pairs b e = Inr (v, d')"
    using "1.prems" by (auto simp: read_value_eq res_simps)
  from body show ?case
  proof (cases rule: value_body_cases)
    case (Unsigned n)
    then show ?thesis using head_Inr [OF b] by (simp add: canonical_def reads_def)
  next
    case (Negative n)
    then show ?thesis using head_Inr [OF b] by (simp add: canonical_def reads_def)
  next
    case (Bytes n f bs)
    then show ?thesis using head_length_Inr [OF b Bytes(2)] take_bytes_rest_Inr [OF Bytes(3)]
      by (auto simp: canonical_def reads_def)
  next
    case (Text n f bs)
    then show ?thesis using head_length_Inr [OF b Text(2)] take_bytes_rest_Inr [OF Text(3)]
      by (auto simp: canonical_def reads_def)
  next
    case (Array n f vs)
    then have "length vs = n \<and> (\<forall>v\<in>set vs. canonical v) \<and> reads f (concat (map enc_cbor vs)) d'"
      using "1.IH"(1)[OF b refl refl refl] by simp
    then show ?thesis using head_length_Inr [OF b Array(2)] Array
      by (auto simp: canonical_simps reads_def)
  next
    case (CMap n f ps)
    then have "length ps = n \<and> (\<forall>(k, v)\<in>set ps. canonical k \<and> canonical v) \<and>
        reads f (concat (map (\<lambda>(k, v). enc_cbor k @ enc_cbor v) ps)) d' \<and>
        sorted_wrt (<) (map (enc_cbor \<circ> fst) ps)"
      using "1.IH"(2)[OF b refl refl refl] by (simp add: comp_def)
    then show ?thesis using head_length_Inr [OF b CMap(2)] CMap
      by (auto simp: canonical_simps enc_CMap reads_def simp del: enc_cbor.simps)
  next
    case Simple
    then show ?thesis using read_simple_Inr [OF b] by (simp add: reads_def)
  qed
next
  case (2 n d)
  show ?case
  proof (cases "n = 0")
    case True
    then show ?thesis using "2.prems" by (simp add: read_items.simps)
  next
    case False
    with "2.prems" obtain x e xs where x: "read_value d = Inr (x, e)"
      and xs: "read_items (n - 1) e = Inr (xs, d')" and vs: "vs = x # xs"
      by (auto simp: read_items.simps [of n] res_simps)
    from "2.IH"(1)[OF False x] "2.IH"(2)[OF False x refl xs] show ?thesis
      using False vs by (auto intro: reads_append)
  qed
next
  case (3 n prev d)
  show ?case
  proof (cases "n = 0")
    case True
    then show ?thesis using "3.prems" by (simp add: read_pairs.simps split: option.splits)
  next
    case False
    let ?kb = "\<lambda>e. take (dpos e - dpos d) (drop (dpos d) (ddata d))"
    from False "3.prems" obtain k e u x f xs where k: "read_value d = Inr (k, e)"
      and u: "check_key_order prev (?kb e) = Inr u" and x: "read_value e = Inr (x, f)"
      and xs: "read_pairs (n - 1) (Some (?kb e)) f = Inr (xs, d')" and ps: "ps = (k, x) # xs"
      by (auto simp: read_pairs.simps [of n] res_simps Let_def)
    note IH = "3.IH"(1)[OF False k] "3.IH"(2)[OF False k refl refl u x] "3.IH"(3)[OF False k refl refl u x refl xs]
    have kb: "?kb e = enc_cbor k" using IH(1) by (simp add: reads_slice)
    have "p < enc_cbor k" if "prev = Some p" for p
      using u kb that by (auto simp: compare_encoded_keys_def compare_key_def split: if_splits)
    then have "sorted_wrt (<) ((case prev of None \<Rightarrow> [] | Some p \<Rightarrow> [p]) @ map (enc_cbor \<circ> fst) ps)"
      using IH(3) kb ps by (auto simp: comp_def split: option.splits intro: less_trans)
    moreover have "reads d ((enc_cbor k @ enc_cbor x) @ concat (map (\<lambda>(k, v). enc_cbor k @ enc_cbor v) xs)) d'"
      using IH by (blast intro: reads_append)
    ultimately show ?thesis using IH False ps by (auto simp: comp_def)
  qed
qed

section \<open>Completeness: every canonical layout is accepted\<close>

definition inside :: "decoder \<Rightarrow> bool" where
  "inside d \<longleftrightarrow> dpos d \<le> length (ddata d) \<and> length (ddata d) < usize_limit"

lemma inside_skip: "inside d \<Longrightarrow> rest d = a @ r \<Longrightarrow> inside (skip (length a) d)"
proof -
  assume "inside d" "rest d = a @ r"
  then have "length (ddata d) - dpos d = length a + length r"
    by (metis length_append length_drop rest_def)
  with \<open>inside d\<close> show ?thesis by (auto simp: inside_def)
qed

lemma read_head:
  assumes "inside d" "rest d = write_type_and_argument m n @ r" "m < 8"
  shows "\<exists>b e. next_byte d = Inr (b, e) \<and> drop_bit 5 b = m \<and>
    read_argument (b AND 0x1F) e = Inr (n, skip (length (write_type_and_argument m n)) d)"
proof -
  let ?b = "push_bit 5 m OR arg_info n"
  have r: "rest d = ?b # arg_tail n @ r" using assms(2) by (simp add: write_head)
  have e: "next_byte d = Inr (?b, skip 1 d)" using r by (rule next_byte_rest)
  have "rest (skip 1 d) = arg_tail n @ r" using r by (simp add: rest_skip_drop)
  moreover have "inside (skip 1 d)" using inside_skip [OF assms(1), of "[?b]"] r by simp
  ultimately have "read_argument (arg_info n) (skip 1 d) = Inr (n, skip (length (arg_tail n)) (skip 1 d))"
    by (intro read_argument_write) (auto simp: inside_def)
  then show ?thesis
    using e head_major [OF assms(3) arg_info_lt] head_additional [OF arg_info_lt]
    by (intro exI conjI) (auto simp: write_head)
qed

lemma read_head_length:
  assumes "inside d" "rest d = write_type_and_argument m (of_nat k) @ r" "m < 8" "k < usize_limit"
  shows "\<exists>b e. next_byte d = Inr (b, e) \<and> drop_bit 5 b = m \<and>
    read_length (b AND 0x1F) e = Inr (k, skip (length (write_type_and_argument m (of_nat k))) d)"
  using read_head [OF assms(1-3)] assms(4) by (fastforce simp: read_length_def unat_of_nat)

lemma value_body_major [simp]:
  "drop_bit 5 b = 0 \<Longrightarrow> value_body ri rp b d = and_then (read_argument (b AND 0x1F) d) (\<lambda>(n, d). Inr (Unsigned n, d))"
  "drop_bit 5 b = 1 \<Longrightarrow> value_body ri rp b d = and_then (read_argument (b AND 0x1F) d) (\<lambda>(n, d). Inr (Negative n, d))"
  "drop_bit 5 b = 2 \<Longrightarrow> value_body ri rp b d = and_then (read_length (b AND 0x1F) d) (\<lambda>(len, d).
     and_then (take_bytes len d) (\<lambda>(raw, d). Inr (Bytes raw, d)))"
  "drop_bit 5 b = 3 \<Longrightarrow> value_body ri rp b d = and_then (read_length (b AND 0x1F) d) (\<lambda>(len, d).
     and_then (take_bytes len d) (\<lambda>(raw, d). if utf8_valid raw then Inr (Text raw, d)
       else Inl (Malformed ''text string is not valid UTF-8'')))"
  "drop_bit 5 b = 4 \<Longrightarrow> value_body ri rp b d = and_then (read_length (b AND 0x1F) d) (\<lambda>(len, d).
     and_then (ri len d) (\<lambda>(items, d). Inr (Array items, d)))"
  "drop_bit 5 b = 5 \<Longrightarrow> value_body ri rp b d = and_then (read_length (b AND 0x1F) d) (\<lambda>(len, d).
     and_then (rp len None d) (\<lambda>(pairs, d). Inr (CMap pairs, d)))"
  by (simp_all add: value_body_def)

definition accepts :: "CborValue \<Rightarrow> bool" where
  "accepts v \<longleftrightarrow> (\<forall>d r. inside d \<longrightarrow> rest d = enc_cbor v @ r \<longrightarrow>
     read_value d = Inr (v, skip (length (enc_cbor v)) d))"

lemma acceptsD: "accepts v \<Longrightarrow> inside d \<Longrightarrow> rest d = enc_cbor v @ r \<Longrightarrow>
    read_value d = Inr (v, skip (length (enc_cbor v)) d)"
  by (auto simp: accepts_def)

lemma read_items_complete:
  "\<forall>v\<in>set vs. accepts v \<Longrightarrow> inside d \<Longrightarrow> rest d = concat (map enc_cbor vs) @ r \<Longrightarrow>
   read_items (length vs) d = Inr (vs, skip (length (concat (map enc_cbor vs))) d)"
proof (induction vs arbitrary: d)
  case Nil
  then show ?case by (simp add: read_items.simps)
next
  case (Cons v vs)
  let ?e = "skip (length (enc_cbor v)) d"
  have d: "rest d = enc_cbor v @ concat (map enc_cbor vs) @ r" using Cons.prems(3) by simp
  have "read_value d = Inr (v, ?e)" using Cons.prems(1,2) d by (intro acceptsD) auto
  moreover have "read_items (length vs) ?e = Inr (vs, skip (length (concat (map enc_cbor vs))) ?e)"
    using Cons.prems(1,2) d by (intro Cons.IH) (auto intro: inside_skip rest_skip)
  ultimately show ?case by (simp add: read_items.simps [of "Suc (length vs)"])
qed

lemma read_pairs_complete:
  "\<forall>(k, v)\<in>set ps. accepts k \<and> accepts v \<Longrightarrow> inside d \<Longrightarrow>
   rest d = concat (map (\<lambda>(k, v). enc_cbor k @ enc_cbor v) ps) @ r \<Longrightarrow>
   sorted_wrt (<) ((case prev of None \<Rightarrow> [] | Some p \<Rightarrow> [p]) @ map (enc_cbor \<circ> fst) ps) \<Longrightarrow>
   read_pairs (length ps) prev d =
     Inr (ps, skip (length (concat (map (\<lambda>(k, v). enc_cbor k @ enc_cbor v) ps))) d)"
proof (induction ps arbitrary: d prev)
  case Nil
  then show ?case by (simp add: read_pairs.simps)
next
  case (Cons p ps)
  obtain k v where p: "p = (k, v)" by (cases p)
  let ?l = "\<lambda>ps. concat (map (\<lambda>(k, v). enc_cbor k @ enc_cbor v) ps)"
  let ?e = "skip (length (enc_cbor k)) d"
  let ?f = "skip (length (enc_cbor v)) ?e"
  have acc: "accepts k" "accepts v" using Cons.prems(1) p by auto
  have d: "rest d = enc_cbor k @ enc_cbor v @ ?l ps @ r" using Cons.prems(3) p by simp
  then have e: "rest ?e = enc_cbor v @ ?l ps @ r" by (rule rest_skip)
  then have f: "rest ?f = ?l ps @ r" by (rule rest_skip)
  have ie: "inside ?e" using Cons.prems(2) d by (rule inside_skip)
  then have "inside ?f" using e by (rule inside_skip)
  have kb: "take (dpos ?e - dpos d) (drop (dpos d) (ddata d)) = enc_cbor k"
    using d e by (intro reads_slice) (simp add: reads_def)
  have "check_key_order prev (enc_cbor k) = Inr ()"
    using Cons.prems(4) p by (cases prev) (auto simp: compare_encoded_keys_def compare_key_def)
  moreover have "read_pairs (length ps) (Some (enc_cbor k)) ?f = Inr (ps, skip (length (?l ps)) ?f)"
    using Cons.prems(1,4) p \<open>inside ?f\<close> f by (intro Cons.IH) (auto simp: comp_def split: option.splits)
  ultimately show ?case
    using acceptsD [OF acc(1) Cons.prems(2) d] acceptsD [OF acc(2) ie e] p kb
    by (simp add: read_pairs.simps [of "Suc (length ps)"] Let_def add.assoc)
qed

text \<open>An item with a length: read the head, then whatever the length counts.\<close>

lemma accepts_length:
  assumes len: "k < usize_limit" "m < 8"
    and enc: "enc_cbor v = write_type_and_argument m (of_nat k) @ body"
    and body: "\<And>b e f r. inside f \<Longrightarrow> rest f = body @ r \<Longrightarrow> drop_bit 5 b = m \<Longrightarrow>
      read_length (b AND 0x1F) e = Inr (k, f) \<Longrightarrow>
      value_body read_items read_pairs b e = Inr (v, skip (length body) f)"
  shows "accepts v"
  unfolding accepts_def
proof (intro allI impI)
  fix d r
  assume d: "inside d" and "rest d = enc_cbor v @ r"
  then have r: "rest d = write_type_and_argument m (of_nat k) @ body @ r" using enc by simp
  let ?f = "skip (length (write_type_and_argument m (of_nat k))) d"
  obtain b e where "next_byte d = Inr (b, e)" "drop_bit 5 b = m" "read_length (b AND 0x1F) e = Inr (k, ?f)"
    using read_head_length [OF d r len(2,1)] by blast
  moreover from this have "value_body read_items read_pairs b e = Inr (v, skip (length body) ?f)"
    using inside_skip [OF d r] rest_skip [OF r] by (intro body) auto
  ultimately show "read_value d = Inr (v, skip (length (enc_cbor v)) d)"
    using enc by (simp add: read_value_eq)
qed

lemma canonical_accepts: "canonical v \<Longrightarrow> accepts v"
proof (induction v)
  case (Unsigned n)
  show ?case unfolding accepts_def
    using read_head [of _ 0 n] by (fastforce simp: read_value_eq)
next
  case (Negative n)
  show ?case unfolding accepts_def
    using read_head [of _ 1 n] by (fastforce simp: read_value_eq)
next
  case (Bytes bs)
  then show ?case
    by (intro accepts_length [where k = "length bs" and m = 2 and body = bs])
      (auto simp: canonical_def inside_def take_bytes_rest)
next
  case (Text bs)
  then show ?case
    by (intro accepts_length [where k = "length bs" and m = 3 and body = bs])
      (auto simp: canonical_def inside_def take_bytes_rest)
next
  case (Array vs)
  then show ?case
    by (intro accepts_length [where k = "length vs" and m = 4 and body = "concat (map enc_cbor vs)"])
      (auto simp: canonical_simps read_items_complete)
next
  case (CMap ps)
  have "\<forall>(k, v)\<in>set ps. accepts k \<and> accepts v"
    using CMap by (fastforce simp: canonical_simps)
  with CMap.prems show ?case
    by (intro accepts_length [where k = "length ps" and m = 5
          and body = "concat (map (\<lambda>(k, v). enc_cbor k @ enc_cbor v) ps)"])
      (auto simp: canonical_simps enc_CMap read_pairs_complete simp del: enc_cbor.simps)
next
  case (CBool b)
  show ?case unfolding accepts_def
    by (auto simp: read_value_eq write_header_def value_body_def read_simple_def dest!: next_byte_rest)
next
  case Null
  show ?case unfolding accepts_def
    by (auto simp: read_value_eq write_header_def value_body_def read_simple_def dest!: next_byte_rest)
qed

section \<open>The decoder against its specification\<close>

lemma decode_canonical: "decode_canonical_cbor bs = Inr v \<Longrightarrow> canonical v \<and> bs = enc_cbor v"
proof -
  assume "decode_canonical_cbor bs = Inr v"
  then obtain d where d: "read_value \<lparr>ddata = bs, dpos = 0\<rparr> = Inr (v, d)" "dpos d = length bs"
    by (auto simp: decode_canonical_cbor_def res_simps split: if_splits)
  from read_sound(1)[OF d(1)] have v: "canonical v" and r: "reads \<lparr>ddata = bs, dpos = 0\<rparr> (enc_cbor v) d" by auto
  have "rest \<lparr>ddata = bs, dpos = 0\<rparr> = bs" by (simp add: rest_def)
  with r have e: "bs = enc_cbor v @ rest d" by (metis reads_def)
  have dd: "ddata d = bs" using r by (metis decoder.select_convs(1) reads_def skip_simps(2))
  have "rest d = []" using dd d(2) by (simp add: rest_def)
  with e v show "canonical v \<and> bs = enc_cbor v" by simp
qed

theorem decode_iff_canonical:
  assumes "length bs < usize_limit"
  shows "decode_canonical_cbor bs = Inr v \<longleftrightarrow> canonical v \<and> bs = enc_cbor v"
proof
  assume "decode_canonical_cbor bs = Inr v"
  then show "canonical v \<and> bs = enc_cbor v" by (rule decode_canonical)
next
  assume v: "canonical v \<and> bs = enc_cbor v"
  have "inside \<lparr>ddata = bs, dpos = 0\<rparr>" "rest \<lparr>ddata = bs, dpos = 0\<rparr> = enc_cbor v @ []"
    using assms v by (auto simp: inside_def rest_def)
  with v have "read_value \<lparr>ddata = bs, dpos = 0\<rparr> = Inr (v, skip (length (enc_cbor v)) \<lparr>ddata = bs, dpos = 0\<rparr>)"
    using canonical_accepts acceptsD by blast
  with v show "decode_canonical_cbor bs = Inr v" by (simp add: decode_canonical_cbor_def)
qed

interpretation cbor: canonical_codec encode_canonical_cbor decode_canonical_cbor
  by unfold_locales (auto dest!: decode_canonical simp: encode_canonical)

end
