(* ===== verification/Cbor_Permissive.thy ===== *)
theory Cbor_Permissive
  imports Cbor_Decode
begin

text \<open>
  The tolerant decoder \<open>decode_cbor_permissive\<close> of \<open>src/cbor.rs\<close>, used for the outer Cardano
  transaction only: indefinite-length items, any order of map keys, tags, simple values and floats.
  The struct \<open>PermissiveDecoder\<close> has the fields of \<open>Decoder\<close>; the two cursor methods, which the
  source repeats for it, are \<open>perm_next_byte\<close> and \<open>perm_take\<close>. The four loops of the arrays and maps
  (counted or ended by a break) are functions of their own. As for the strict decoder the recursion
  is total because every item consumes input.

  An \<open>f64\<close> is its value: a NaN (the payload is dropped), an infinity or a finite number, given by its
  sign, an integral significand and a power of two; all conversions the code performs are exact.

  The main result relates the two decoders: whatever the strict one accepts, the tolerant one reads
  as the same value (\<open>permissive_of_enc\<close>).
\<close>

section \<open>Values\<close>

datatype f64 = F_nan | F_inf bool | F_num bool nat int

datatype PermissiveValue =
    PUnsigned u64
  | PNegative u64
  | PBytes bytes
  | PText rstring
  | PArray "PermissiveValue list"
  | PMap "(PermissiveValue \<times> PermissiveValue) list"
  | PTag u64 PermissiveValue
  | PBool bool
  | PNull
  | PUndefined
  | PSimple u8
  | PFloat f64

datatype PermissiveItem = PValue PermissiveValue | PBreak

text \<open>\<open>decode_f16\<close> on the 16-bit pattern; \<open>f32\<close> and \<open>f64\<close> patterns are read by the standard library.\<close>

fun f64_neg :: "f64 \<Rightarrow> f64" where
  "f64_neg F_nan = F_nan"
| "f64_neg (F_inf s) = F_inf (\<not> s)"
| "f64_neg (F_num s m e) = F_num (\<not> s) m e"

definition decode_f16 :: "nat \<Rightarrow> f64" where
  "decode_f16 bits =
     (let sign = bits div 2 ^ 15 mod 2; exponent = bits div 2 ^ 10 mod 2 ^ 5; mantissa = bits mod 2 ^ 10;
          val = (if exponent = 0 then F_num False mantissa (- 24)
                 else if exponent = 0x1F then (if mantissa = 0 then F_inf False else F_nan)
                 else F_num False (1024 + mantissa) (int exponent - 25))
      in if sign = 1 then f64_neg val else val)"

definition ieee_value :: "nat \<Rightarrow> nat \<Rightarrow> nat \<Rightarrow> f64" where
  "ieee_value ebits mbits bits =
     (let sign = (bits div 2 ^ (ebits + mbits) mod 2 = 1); exponent = bits div 2 ^ mbits mod 2 ^ ebits;
          mantissa = bits mod 2 ^ mbits; bias = 2 ^ (ebits - 1) - 1 :: int
      in if exponent = 2 ^ ebits - 1 then (if mantissa = 0 then F_inf sign else F_nan)
         else if exponent = 0 then F_num sign mantissa (1 - bias - int mbits)
         else F_num sign (2 ^ mbits + mantissa) (int exponent - bias - int mbits))"

definition f32_from_be_bytes :: "bytes \<Rightarrow> f64" where
  "f32_from_be_bytes raw = ieee_value 8 23 (nat_of_be raw)"

definition f64_from_be_bytes :: "bytes \<Rightarrow> f64" where
  "f64_from_be_bytes raw = ieee_value 11 52 (nat_of_be raw)"

section \<open>The cursor, arguments, leaves\<close>

definition perm_next_byte :: "decoder \<Rightarrow> CanonicalCborError + u8 \<times> decoder" where
  "perm_next_byte d =
     (if dpos d < length (ddata d) then Inr (ddata d ! dpos d, d\<lparr>dpos := dpos d + 1\<rparr>)
      else Inl (Malformed ''unexpected end of input''))"

definition perm_take :: "nat \<Rightarrow> decoder \<Rightarrow> CanonicalCborError + bytes \<times> decoder" where
  "perm_take len d =
     (if dpos d + len \<ge> usize_limit then Inl (Malformed ''length overflows the input'')
      else if dpos d + len \<le> length (ddata d)
      then Inr (take len (drop (dpos d) (ddata d)), d\<lparr>dpos := dpos d + len\<rparr>)
      else Inl (Malformed ''truncated item''))"

lemma perm_cursor [simp]: "perm_next_byte = next_byte" "perm_take = take_bytes"
  by (simp_all add: fun_eq_iff perm_next_byte_def next_byte_def perm_take_def take_bytes_def)

definition perm_read_argument :: "u8 \<Rightarrow> decoder \<Rightarrow> CanonicalCborError + u64 \<times> decoder" where
  "perm_read_argument additional d =
     (if additional \<le> 23 then Inr (ucast additional, d)
      else if additional = 24 then and_then (perm_next_byte d) (\<lambda>(b, d). Inr (ucast b, d))
      else if additional = 25 then
        and_then (perm_take 2 d) (\<lambda>(raw, d). Inr (of_nat (nat_of_be raw), d))
      else if additional = 26 then
        and_then (perm_take 4 d) (\<lambda>(raw, d). Inr (of_nat (nat_of_be raw), d))
      else if additional = 27 then
        and_then (perm_take 8 d) (\<lambda>(raw, d). Inr (of_nat (nat_of_be raw), d))
      else Inl (Malformed ''reserved additional-information value''))"

definition perm_read_length :: "u8 \<Rightarrow> decoder \<Rightarrow> CanonicalCborError + nat \<times> decoder" where
  "perm_read_length additional d =
     and_then (perm_read_argument additional d) (\<lambda>(argument, d). Inr (unat argument, d))"

definition perm_read_simple :: "u8 \<Rightarrow> decoder \<Rightarrow> CanonicalCborError + PermissiveItem \<times> decoder" where
  "perm_read_simple additional d =
     (if additional \<le> 19 then Inr (PValue (PSimple additional), d)
      else if additional = 20 then Inr (PValue (PBool False), d)
      else if additional = 21 then Inr (PValue (PBool True), d)
      else if additional = 22 then Inr (PValue PNull, d)
      else if additional = 23 then Inr (PValue PUndefined, d)
      else if additional = 24 then
        and_then (perm_next_byte d) (\<lambda>(v, d). Inr (PValue (PSimple v), d))
      else if additional = 25 then
        and_then (perm_take 2 d) (\<lambda>(raw, d). Inr (PValue (PFloat (decode_f16 (nat_of_be raw))), d))
      else if additional = 26 then
        and_then (perm_take 4 d) (\<lambda>(raw, d). Inr (PValue (PFloat (f32_from_be_bytes raw)), d))
      else if additional = 27 then
        and_then (perm_take 8 d) (\<lambda>(raw, d). Inr (PValue (PFloat (f64_from_be_bytes raw)), d))
      else if additional = 31 then Inr (PBreak, d)
      else Inl (Malformed ''reserved additional-information value''))"

definition finish_string :: "bytes \<Rightarrow> bool \<Rightarrow> CanonicalCborError + PermissiveValue" where
  "finish_string buf is_text =
     (if is_text then
        (if utf8_valid buf then Inr (PText buf)
         else Inl (Malformed ''text string is not valid UTF-8''))
      else Inr (PBytes buf))"

lemma perm_read_argument_advances: "perm_read_argument a d = Inr (n, d') \<Longrightarrow> advances d d'"
  by (auto simp: perm_read_argument_def res_simps dest!: next_byte_advances take_bytes_advances
      split: if_splits)

lemma perm_read_length_advances: "perm_read_length a d = Inr (n, d') \<Longrightarrow> advances d d'"
  by (auto simp: perm_read_length_def res_simps dest: perm_read_argument_advances)

lemma perm_read_simple_advances: "perm_read_simple a d = Inr (v, d') \<Longrightarrow> advances d d'"
  by (auto simp: perm_read_simple_def res_simps dest!: next_byte_advances take_bytes_advances
      split: if_splits)

lemma perm_chunk_unread:
  "next_byte d = Inr (b, e) \<Longrightarrow> perm_read_length a e = Inr (n, f) \<Longrightarrow> take_bytes n f = Inr (bs, g) \<Longrightarrow>
   unread g < unread d"
  using unread_consumes [OF next_byte_consumes] unread_advances [OF perm_read_length_advances]
    unread_advances [OF take_bytes_advances]
  by (meson order.strict_trans1)

text \<open>The chunk loop of an indefinite-length string.\<close>

function read_chunks :: "bool \<Rightarrow> bytes \<Rightarrow> decoder \<Rightarrow> CanonicalCborError + bytes \<times> decoder" where
  "read_chunks is_text buf d =
     and_then (perm_next_byte d) (\<lambda>(initial, d).
       if initial = 0xFF then Inr (buf, d)
       else let chunk_major = drop_bit 5 initial; chunk_additional = initial AND 0x1F;
                expected_major = (if is_text then 3 else 2)
            in if chunk_major \<noteq> expected_major \<or> chunk_additional = 31
               then Inl (Malformed ''invalid chunk inside an indefinite-length string'')
               else and_then (perm_read_length chunk_additional d) (\<lambda>(len, d).
                 and_then (perm_take len d) (\<lambda>(raw, d). read_chunks is_text (buf @ raw) d)))"
  by pat_completeness auto
termination
  by (relation "measure (\<lambda>(t, b, d). unread d)") (auto dest: perm_chunk_unread)

declare read_chunks.simps [simp del]

definition read_byte_or_text :: "u8 \<Rightarrow> bool \<Rightarrow> decoder \<Rightarrow> CanonicalCborError + PermissiveItem \<times> decoder" where
  "read_byte_or_text additional is_text d =
     (if additional = 31 then
        and_then (read_chunks is_text [] d) (\<lambda>(buf, d).
          and_then (finish_string buf is_text) (\<lambda>v. Inr (PValue v, d)))
      else
        and_then (perm_read_length additional d) (\<lambda>(len, d).
          and_then (perm_take len d) (\<lambda>(raw, d).
            and_then (finish_string raw is_text) (\<lambda>v. Inr (PValue v, d)))))"

section \<open>Items\<close>

function (sequential)
  perm_read_value :: "decoder \<Rightarrow> CanonicalCborError + PermissiveValue \<times> decoder"
  and read_item :: "decoder \<Rightarrow> CanonicalCborError + PermissiveItem \<times> decoder"
  and perm_items :: "nat \<Rightarrow> decoder \<Rightarrow> CanonicalCborError + PermissiveValue list \<times> decoder"
  and perm_items_break :: "decoder \<Rightarrow> CanonicalCborError + PermissiveValue list \<times> decoder"
  and perm_pairs :: "nat \<Rightarrow> decoder \<Rightarrow>
        CanonicalCborError + (PermissiveValue \<times> PermissiveValue) list \<times> decoder"
  and perm_pairs_break :: "decoder \<Rightarrow>
        CanonicalCborError + (PermissiveValue \<times> PermissiveValue) list \<times> decoder"
where
  "perm_read_value d =
     and_then (read_item d) (\<lambda>(item, d).
       case item of PValue v \<Rightarrow> Inr (v, d)
       | PBreak \<Rightarrow> Inl (Malformed ''unexpected indefinite-length break''))"
| "read_item d =
     and_then (perm_next_byte d) (\<lambda>(initial, d).
       let major = drop_bit 5 initial; additional = initial AND 0x1F
       in if major = 0 then
            and_then (perm_read_argument additional d) (\<lambda>(n, d). Inr (PValue (PUnsigned n), d))
          else if major = 1 then
            and_then (perm_read_argument additional d) (\<lambda>(n, d). Inr (PValue (PNegative n), d))
          else if major = 2 then read_byte_or_text additional False d
          else if major = 3 then read_byte_or_text additional True d
          else if major = 4 then
            (if additional = 31 then
               and_then (perm_items_break d) (\<lambda>(items, d). Inr (PValue (PArray items), d))
             else and_then (perm_read_length additional d) (\<lambda>(len, d).
               and_then (perm_items len d) (\<lambda>(items, d). Inr (PValue (PArray items), d))))
          else if major = 5 then
            (if additional = 31 then
               and_then (perm_pairs_break d) (\<lambda>(pairs, d). Inr (PValue (PMap pairs), d))
             else and_then (perm_read_length additional d) (\<lambda>(len, d).
               and_then (perm_pairs len d) (\<lambda>(pairs, d). Inr (PValue (PMap pairs), d))))
          else if major = 6 then
            and_then (perm_read_argument additional d) (\<lambda>(tag, d).
              and_then (perm_read_value d) (\<lambda>(inner, d). Inr (PValue (PTag tag inner), d)))
          else perm_read_simple additional d)"
| "perm_items len d =
     (if len = 0 then Inr ([], d)
      else and_then (perm_read_value d) (\<lambda>(v, d).
        and_then (perm_items (len - 1) d) (\<lambda>(vs, d). Inr (v # vs, d))))"
| "perm_items_break d =
     and_then (read_item d) (\<lambda>(item, d).
       case item of PBreak \<Rightarrow> Inr ([], d)
       | PValue v \<Rightarrow> and_then (perm_items_break d) (\<lambda>(vs, d). Inr (v # vs, d)))"
| "perm_pairs len d =
     (if len = 0 then Inr ([], d)
      else and_then (perm_read_value d) (\<lambda>(key, d).
        and_then (perm_read_value d) (\<lambda>(val, d).
          and_then (perm_pairs (len - 1) d) (\<lambda>(ps, d). Inr ((key, val) # ps, d)))))"
| "perm_pairs_break d =
     and_then (read_item d) (\<lambda>(item, d).
       case item of PBreak \<Rightarrow> Inr ([], d)
       | PValue key \<Rightarrow> and_then (perm_read_value d) (\<lambda>(val, d).
           and_then (perm_pairs_break d) (\<lambda>(ps, d). Inr ((key, val) # ps, d))))"
  by pat_completeness auto

abbreviation "perm_dom \<equiv>
  perm_read_value_read_item_perm_items_perm_items_break_perm_pairs_perm_pairs_break_dom"

lemma read_chunks_advances: "read_chunks t buf d = Inr (bs, d') \<Longrightarrow> advances d d'"
proof (induction t buf d rule: read_chunks.induct)
  case (1 t buf d)
  obtain b e where b: "next_byte d = Inr (b, e)"
    using "1.prems" by (auto simp: read_chunks.simps [of t buf d] res_simps)
  show ?case
  proof (cases "b = 0xFF")
    case True
    then show ?thesis using "1.prems" b
      by (auto simp: read_chunks.simps [of t buf d] dest: next_byte_advances)
  next
    case False
    with "1.prems" b obtain n f raw g where
      major: "\<not> (drop_bit 5 b \<noteq> (if t then 3 else 2) \<or> b AND 0x1F = 31)" and
      n: "perm_read_length (b AND 0x1F) e = Inr (n, f)" and raw: "take_bytes n f = Inr (raw, g)"
      and loop: "read_chunks t (buf @ raw) g = Inr (bs, d')"
      by (auto simp: read_chunks.simps [of t buf d] res_simps Let_def split: if_splits)
    have "advances g d'"
      by (rule "1.IH" [unfolded perm_cursor, OF b refl False refl refl refl major n refl raw refl loop])
    then show ?thesis
      using next_byte_advances [OF b] perm_read_length_advances [OF n] take_bytes_advances [OF raw]
      by (blast intro: advances_trans)
  qed
qed

lemma read_byte_or_text_advances: "read_byte_or_text a t d = Inr (v, d') \<Longrightarrow> advances d d'"
  by (auto simp: read_byte_or_text_def res_simps split: if_splits
      dest!: read_chunks_advances perm_read_length_advances take_bytes_advances intro: advances_trans)

text \<open>The inversion rule of \<open>read_item\<close>, with the functions it calls as parameters.\<close>

definition item_body where
  "item_body rv it itb pr prb initial d =
     (let major = drop_bit 5 (initial :: u8); additional = initial AND 0x1F
       in if major = 0 then
            and_then (perm_read_argument additional d) (\<lambda>(n, d). Inr (PValue (PUnsigned n), d))
          else if major = 1 then
            and_then (perm_read_argument additional d) (\<lambda>(n, d). Inr (PValue (PNegative n), d))
          else if major = 2 then read_byte_or_text additional False d
          else if major = 3 then read_byte_or_text additional True d
          else if major = 4 then
            (if additional = 31 then
               and_then (itb d) (\<lambda>(items, d). Inr (PValue (PArray items), d))
             else and_then (perm_read_length additional d) (\<lambda>(len, d).
               and_then (it len d) (\<lambda>(items, d). Inr (PValue (PArray items), d))))
          else if major = 5 then
            (if additional = 31 then
               and_then (prb d) (\<lambda>(pairs, d). Inr (PValue (PMap pairs), d))
             else and_then (perm_read_length additional d) (\<lambda>(len, d).
               and_then (pr len d) (\<lambda>(pairs, d). Inr (PValue (PMap pairs), d))))
          else if major = 6 then
            and_then (perm_read_argument additional d) (\<lambda>(tag, d).
              and_then (rv d) (\<lambda>(inner, d). Inr (PValue (PTag tag inner), d)))
          else perm_read_simple additional d)"

lemma item_body_cases:
  assumes "item_body rv it itb pr prb b d = Inr (v, d')"
  obtains
    (Leaf) "advances d d'"
  | (Items) n e vs where "drop_bit 5 b = 4" "b AND 0x1F \<noteq> 31"
      "perm_read_length (b AND 0x1F) d = Inr (n, e)" "it n e = Inr (vs, d')"
  | (Items_break) vs where "drop_bit 5 b = 4" "b AND 0x1F = 31" "itb d = Inr (vs, d')"
  | (Pairs) n e ps where "drop_bit 5 b = 5" "b AND 0x1F \<noteq> 31"
      "perm_read_length (b AND 0x1F) d = Inr (n, e)" "pr n e = Inr (ps, d')"
  | (Pairs_break) ps where "drop_bit 5 b = 5" "b AND 0x1F = 31" "prb d = Inr (ps, d')"
  | (Tag) n e w where "drop_bit 5 b = 6" "perm_read_argument (b AND 0x1F) d = Inr (n, e)"
      "rv e = Inr (w, d')"
  using assms unfolding item_body_def Let_def
  by (auto simp: res_simps split: if_splits
      dest: perm_read_argument_advances read_byte_or_text_advances perm_read_simple_advances)

lemma read_item_psimp:
  "perm_dom (Inl (Inr (Inl d))) \<Longrightarrow> read_item d = and_then (perm_next_byte d) (\<lambda>(b, d).
     item_body perm_read_value perm_items perm_items_break perm_pairs perm_pairs_break b d)"
  by (simp add: read_item.psimps item_body_def)

lemma perm_consumes:
  "perm_dom (Inl (Inl d)) \<Longrightarrow> perm_read_value d = Inr (v, d') \<Longrightarrow> consumes d d'"
  "perm_dom (Inl (Inr (Inl d))) \<Longrightarrow> read_item d = Inr (i, d') \<Longrightarrow> consumes d d'"
  "perm_dom (Inl (Inr (Inr (n, d)))) \<Longrightarrow> perm_items n d = Inr (vs, d') \<Longrightarrow> advances d d'"
  "perm_dom (Inr (Inl d)) \<Longrightarrow> perm_items_break d = Inr (vs, d') \<Longrightarrow> advances d d'"
  "perm_dom (Inr (Inr (Inl (n, d)))) \<Longrightarrow> perm_pairs n d = Inr (ps, d') \<Longrightarrow> advances d d'"
  "perm_dom (Inr (Inr (Inr d))) \<Longrightarrow> perm_pairs_break d = Inr (ps, d') \<Longrightarrow> advances d d'"
proof (induction d and d and n d and d and n d and d
    arbitrary: v d' and i d' and vs d' and vs d' and ps d' and ps d' rule:
    perm_read_value_read_item_perm_items_perm_items_break_perm_pairs_perm_pairs_break.pinduct)
  case (1 d)
  then obtain i e where "read_item d = Inr (i, e)" by (auto simp: perm_read_value.psimps res_simps)
  with 1 show ?case by (cases i) (auto simp: perm_read_value.psimps)
next
  case (2 d)
  obtain b e where b: "perm_next_byte d = Inr (b, e)"
    and body: "item_body perm_read_value perm_items perm_items_break perm_pairs perm_pairs_break b e = Inr (i, d')"
    using "2.prems" "2.hyps" by (auto simp: read_item_psimp res_simps)
  from body have "advances e d'"
  proof (cases rule: item_body_cases)
    case (Items n f vs)
    then have "advances f d'" using "2.IH"(2)[OF b refl refl refl] by simp
    with Items show ?thesis by (blast intro: advances_trans perm_read_length_advances)
  next
    case (Items_break vs)
    then show ?thesis using "2.IH"(1)[OF b refl refl refl] by simp
  next
    case (Pairs n f ps)
    then have "advances f d'" using "2.IH"(4)[OF b refl refl refl] by simp
    with Pairs show ?thesis by (blast intro: advances_trans perm_read_length_advances)
  next
    case (Pairs_break vs)
    then show ?thesis using "2.IH"(3)[OF b refl refl refl] by simp
  next
    case (Tag n f w)
    then have "consumes f d'" using "2.IH"(5)[OF b refl refl refl] by simp
    with Tag show ?thesis by (blast intro: advances_trans perm_read_argument_advances consumes_imp_advances)
  qed
  then show ?case using consumes_advances [OF next_byte_consumes] b by simp
next
  case (3 n d)
  show ?case
  proof (cases "n = 0")
    case True
    then show ?thesis using "3.prems" "3.hyps" by (simp add: perm_items.psimps)
  next
    case False
    with "3.prems" "3.hyps" obtain x e xs where x: "perm_read_value d = Inr (x, e)"
      and xs: "perm_items (n - 1) e = Inr (xs, d')" by (auto simp: perm_items.psimps res_simps)
    from "3.IH"(1)[OF False x] "3.IH"(2)[OF False x refl xs] show ?thesis
      by (blast intro: consumes_imp_advances advances_trans)
  qed
next
  case (4 d)
  then obtain x e where x: "read_item d = Inr (x, e)" by (auto simp: perm_items_break.psimps res_simps)
  then show ?case using 4
    by (cases x) (auto simp: perm_items_break.psimps res_simps intro: consumes_imp_advances advances_trans)
next
  case (5 n d)
  show ?case
  proof (cases "n = 0")
    case True
    then show ?thesis using "5.prems" "5.hyps" by (simp add: perm_pairs.psimps)
  next
    case False
    with "5.prems" "5.hyps" obtain k e x f xs where k: "perm_read_value d = Inr (k, e)"
      and x: "perm_read_value e = Inr (x, f)"
      and xs: "perm_pairs (n - 1) f = Inr (xs, d')" by (auto simp: perm_pairs.psimps res_simps)
    from "5.IH"(1)[OF False k] "5.IH"(2)[OF False k refl x] "5.IH"(3)[OF False k refl x refl xs] show ?thesis
      by (blast intro: consumes_imp_advances advances_trans)
  qed
next
  case (6 d)
  then obtain k e where k: "read_item d = Inr (k, e)" by (auto simp: perm_pairs_break.psimps res_simps)
  show ?case
  proof (cases k)
    case PBreak
    then show ?thesis using 6 k
      by (auto simp: perm_pairs_break.psimps intro: consumes_imp_advances)
  next
    case (PValue kv)
    then obtain x f xs where x: "perm_read_value e = Inr (x, f)" and xs: "perm_pairs_break f = Inr (xs, d')"
      using "6.prems" "6.hyps" k by (auto simp: perm_pairs_break.psimps res_simps)
    from "6.IH"(1)[OF k] "6.IH"(2)[OF k refl PValue x] "6.IH"(3)[OF k refl PValue x refl xs] show ?thesis
      by (blast intro: consumes_imp_advances advances_trans)
  qed
qed

lemma unread_item:
  "next_byte d = Inr (b, e) \<Longrightarrow> unread e < unread d"
  "perm_read_length a e = Inr (n, f) \<Longrightarrow> unread f \<le> unread e"
  "perm_read_argument a e = Inr (w, f) \<Longrightarrow> unread f \<le> unread e"
  by (simp_all add: unread_consumes next_byte_consumes unread_advances perm_read_length_advances
      perm_read_argument_advances)

lemmas unread_perm = unread_item unread_consumes [OF perm_consumes(1)] unread_consumes [OF perm_consumes(2)]

termination perm_read_value
  by (relation "measures [
    \<lambda>a. case a of Inl (Inl d) \<Rightarrow> unread d | Inl (Inr (Inl d)) \<Rightarrow> unread d | Inl (Inr (Inr (n, d))) \<Rightarrow> unread d
      | Inr (Inl d) \<Rightarrow> unread d | Inr (Inr (Inl (n, d))) \<Rightarrow> unread d | Inr (Inr (Inr d)) \<Rightarrow> unread d,
    \<lambda>a. case a of Inl (Inl d) \<Rightarrow> 1 | Inl (Inr (Inl d)) \<Rightarrow> 0 | _ \<Rightarrow> 2]")
    (auto dest!: unread_perm split: prod.splits)

declare perm_read_value.simps [simp del] read_item.simps [simp del] perm_items.simps [simp del]
  perm_items_break.simps [simp del] perm_pairs.simps [simp del] perm_pairs_break.simps [simp del]

lemma read_item_eq:
  "read_item d = and_then (next_byte d) (\<lambda>(b, d).
     item_body perm_read_value perm_items perm_items_break perm_pairs perm_pairs_break b d)"
  by (simp add: read_item.simps item_body_def)

definition decode_cbor_permissive :: "bytes \<Rightarrow> CanonicalCborError + PermissiveValue" where
  "decode_cbor_permissive bs =
     and_then (perm_read_value \<lparr>ddata = bs, dpos = 0\<rparr>) (\<lambda>(value, d).
       if dpos d \<noteq> length bs then Inl (Malformed ''trailing bytes after the top-level item'')
       else Inr value)"

section \<open>The tolerant decoder extends the strict one\<close>

primrec perm_of :: "CborValue \<Rightarrow> PermissiveValue" where
  "perm_of (Unsigned n) = PUnsigned n"
| "perm_of (Negative m) = PNegative m"
| "perm_of (Bytes b) = PBytes b"
| "perm_of (Text s) = PText s"
| "perm_of (Array items) = PArray (map perm_of items)"
| "perm_of (CMap pairs) = PMap (map (map_prod perm_of perm_of) pairs)"
| "perm_of (CBool b) = PBool b"
| "perm_of Null = PNull"

lemma perm_read_argument_of: "read_argument a d = Inr x \<Longrightarrow> perm_read_argument a d = Inr x"
  by (auto simp: read_argument_def perm_read_argument_def res_simps Let_def split: if_splits)

lemma perm_read_length_of: "read_length a d = Inr x \<Longrightarrow> perm_read_length a d = Inr x"
  by (auto simp: read_length_def perm_read_length_def res_simps dest!: perm_read_argument_of)

lemma read_length_definite: "read_length a d = Inr x \<Longrightarrow> a \<noteq> 31"
  by (auto simp: read_length_def read_argument_def)

definition perm_accepts :: "CborValue \<Rightarrow> bool" where
  "perm_accepts v \<longleftrightarrow> (\<forall>d r. inside d \<longrightarrow> rest d = enc_cbor v @ r \<longrightarrow>
     read_item d = Inr (PValue (perm_of v), skip (length (enc_cbor v)) d))"

lemma perm_acceptsD:
  "perm_accepts v \<Longrightarrow> inside d \<Longrightarrow> rest d = enc_cbor v @ r \<Longrightarrow>
   perm_read_value d = Inr (perm_of v, skip (length (enc_cbor v)) d)"
  by (simp add: perm_accepts_def perm_read_value.simps)

lemma perm_items_complete:
  "\<forall>v\<in>set vs. perm_accepts v \<Longrightarrow> inside d \<Longrightarrow> rest d = concat (map enc_cbor vs) @ r \<Longrightarrow>
   perm_items (length vs) d = Inr (map perm_of vs, skip (length (concat (map enc_cbor vs))) d)"
proof (induction vs arbitrary: d)
  case Nil
  then show ?case by (simp add: perm_items.simps)
next
  case (Cons v vs)
  let ?e = "skip (length (enc_cbor v)) d"
  have d: "rest d = enc_cbor v @ concat (map enc_cbor vs) @ r" using Cons.prems(3) by simp
  have "perm_read_value d = Inr (perm_of v, ?e)" using Cons.prems(1,2) d by (intro perm_acceptsD) auto
  moreover have "perm_items (length vs) ?e = Inr (map perm_of vs, skip (length (concat (map enc_cbor vs))) ?e)"
    using Cons.prems(1,2) d by (intro Cons.IH) (auto intro: inside_skip rest_skip)
  ultimately show ?case by (simp add: perm_items.simps [of "Suc (length vs)"])
qed

lemma perm_pairs_complete:
  "\<forall>(k, v)\<in>set ps. perm_accepts k \<and> perm_accepts v \<Longrightarrow> inside d \<Longrightarrow>
   rest d = concat (map (\<lambda>(k, v). enc_cbor k @ enc_cbor v) ps) @ r \<Longrightarrow>
   perm_pairs (length ps) d = Inr (map (map_prod perm_of perm_of) ps,
     skip (length (concat (map (\<lambda>(k, v). enc_cbor k @ enc_cbor v) ps))) d)"
proof (induction ps arbitrary: d)
  case Nil
  then show ?case by (simp add: perm_pairs.simps)
next
  case (Cons p ps)
  obtain k v where p: "p = (k, v)" by (cases p)
  let ?l = "\<lambda>ps. concat (map (\<lambda>(k, v). enc_cbor k @ enc_cbor v) ps)"
  let ?e = "skip (length (enc_cbor k)) d"
  let ?f = "skip (length (enc_cbor v)) ?e"
  have d: "rest d = enc_cbor k @ enc_cbor v @ ?l ps @ r" using Cons.prems(3) p by simp
  then have e: "rest ?e = enc_cbor v @ ?l ps @ r" by (rule rest_skip)
  then have f: "rest ?f = ?l ps @ r" by (rule rest_skip)
  have ie: "inside ?e" using Cons.prems(2) d by (rule inside_skip)
  then have "inside ?f" using e by (rule inside_skip)
  then have "perm_pairs (length ps) ?f = Inr (map (map_prod perm_of perm_of) ps, skip (length (?l ps)) ?f)"
    using Cons.prems(1) f by (intro Cons.IH) auto
  moreover have "perm_read_value d = Inr (perm_of k, ?e)" "perm_read_value ?e = Inr (perm_of v, ?f)"
    using perm_acceptsD [OF _ Cons.prems(2) d] perm_acceptsD [OF _ ie e] Cons.prems(1) p by auto
  ultimately show ?case using p by (simp add: perm_pairs.simps [of "Suc (length ps)"] add.assoc)
qed

lemma item_body_major [simp]:
  "drop_bit 5 b = 0 \<Longrightarrow> item_body rv it itb pr prb b d =
     and_then (perm_read_argument (b AND 0x1F) d) (\<lambda>(n, d). Inr (PValue (PUnsigned n), d))"
  "drop_bit 5 b = 1 \<Longrightarrow> item_body rv it itb pr prb b d =
     and_then (perm_read_argument (b AND 0x1F) d) (\<lambda>(n, d). Inr (PValue (PNegative n), d))"
  "drop_bit 5 b = 2 \<Longrightarrow> item_body rv it itb pr prb b d = read_byte_or_text (b AND 0x1F) False d"
  "drop_bit 5 b = 3 \<Longrightarrow> item_body rv it itb pr prb b d = read_byte_or_text (b AND 0x1F) True d"
  "drop_bit 5 b = 4 \<Longrightarrow> b AND 0x1F \<noteq> 31 \<Longrightarrow> item_body rv it itb pr prb b d =
     and_then (perm_read_length (b AND 0x1F) d) (\<lambda>(len, d).
       and_then (it len d) (\<lambda>(items, d). Inr (PValue (PArray items), d)))"
  "drop_bit 5 b = 5 \<Longrightarrow> b AND 0x1F \<noteq> 31 \<Longrightarrow> item_body rv it itb pr prb b d =
     and_then (perm_read_length (b AND 0x1F) d) (\<lambda>(len, d).
       and_then (pr len d) (\<lambda>(pairs, d). Inr (PValue (PMap pairs), d)))"
  by (simp_all add: item_body_def)

lemma perm_accepts_length:
  assumes len: "k < usize_limit" "m < 8"
    and enc: "enc_cbor v = write_type_and_argument m (of_nat k) @ body"
    and body: "\<And>b e f r. inside f \<Longrightarrow> rest f = body @ r \<Longrightarrow> drop_bit 5 b = m \<Longrightarrow> b AND 0x1F \<noteq> 31 \<Longrightarrow>
      perm_read_length (b AND 0x1F) e = Inr (k, f) \<Longrightarrow>
      item_body perm_read_value perm_items perm_items_break perm_pairs perm_pairs_break b e =
        Inr (PValue (perm_of v), skip (length body) f)"
  shows "perm_accepts v"
  unfolding perm_accepts_def
proof (intro allI impI)
  fix d r
  assume d: "inside d" and "rest d = enc_cbor v @ r"
  then have r: "rest d = write_type_and_argument m (of_nat k) @ body @ r" using enc by simp
  let ?f = "skip (length (write_type_and_argument m (of_nat k))) d"
  obtain b e where "next_byte d = Inr (b, e)" "drop_bit 5 b = m" "read_length (b AND 0x1F) e = Inr (k, ?f)"
    using read_head_length [OF d r len(2,1)] by blast
  moreover from this have "item_body perm_read_value perm_items perm_items_break perm_pairs perm_pairs_break b e =
      Inr (PValue (perm_of v), skip (length body) ?f)"
    using inside_skip [OF d r] rest_skip [OF r] read_length_definite
    by (intro body) (auto simp: perm_read_length_of)
  ultimately show "read_item d = Inr (PValue (perm_of v), skip (length (enc_cbor v)) d)"
    using enc by (simp add: read_item_eq)
qed

lemma perm_accepts_argument:
  assumes "m < 8" "enc_cbor v = write_type_and_argument m n"
    and "\<And>b e f. drop_bit 5 b = m \<Longrightarrow> perm_read_argument (b AND 0x1F) e = Inr (n, f) \<Longrightarrow>
      item_body perm_read_value perm_items perm_items_break perm_pairs perm_pairs_break b e =
        Inr (PValue (perm_of v), f)"
  shows "perm_accepts v"
  unfolding perm_accepts_def
proof (intro allI impI)
  fix d r
  assume "inside d" "rest d = enc_cbor v @ r"
  then obtain b e where "next_byte d = Inr (b, e)" "drop_bit 5 b = m"
    "read_argument (b AND 0x1F) e = Inr (n, skip (length (enc_cbor v)) d)"
    using read_head [of d m n r] assms(1,2) by auto
  then show "read_item d = Inr (PValue (perm_of v), skip (length (enc_cbor v)) d)"
    by (simp add: read_item_eq assms(3) perm_read_argument_of)
qed

lemma canonical_perm_accepts: "canonical v \<Longrightarrow> perm_accepts v"
proof (induction v)
  case (Unsigned n)
  show ?case by (rule perm_accepts_argument [where m = 0 and n = n]) auto
next
  case (Negative n)
  show ?case by (rule perm_accepts_argument [where m = 1 and n = n]) auto
next
  case (Bytes bs)
  then show ?case
    by (intro perm_accepts_length [where k = "length bs" and m = 2 and body = bs])
      (auto simp: canonical_def inside_def take_bytes_rest read_byte_or_text_def finish_string_def)
next
  case (Text bs)
  then show ?case
    by (intro perm_accepts_length [where k = "length bs" and m = 3 and body = bs])
      (auto simp: canonical_def inside_def take_bytes_rest read_byte_or_text_def finish_string_def)
next
  case (Array vs)
  then show ?case
    by (intro perm_accepts_length [where k = "length vs" and m = 4 and body = "concat (map enc_cbor vs)"])
      (auto simp: canonical_simps perm_items_complete)
next
  case (CMap ps)
  have "\<forall>(k, v)\<in>set ps. perm_accepts k \<and> perm_accepts v"
    using CMap by (fastforce simp: canonical_simps)
  with CMap.prems show ?case
    by (intro perm_accepts_length [where k = "length ps" and m = 5
          and body = "concat (map (\<lambda>(k, v). enc_cbor k @ enc_cbor v) ps)"])
      (auto simp: canonical_simps enc_CMap perm_pairs_complete simp del: enc_cbor.simps)
next
  case (CBool b)
  show ?case unfolding perm_accepts_def
    by (auto simp: read_item_eq write_header_def item_body_def perm_read_simple_def dest!: next_byte_rest)
next
  case Null
  show ?case unfolding perm_accepts_def
    by (auto simp: read_item_eq write_header_def item_body_def perm_read_simple_def dest!: next_byte_rest)
qed

lemma permissive_of_enc:
  assumes "canonical v" "length (enc_cbor v) < usize_limit"
  shows "decode_cbor_permissive (enc_cbor v) = Inr (perm_of v)"
proof -
  let ?d = "\<lparr>ddata = enc_cbor v, dpos = 0\<rparr>"
  have "inside ?d" "rest ?d = enc_cbor v @ []"
    using assms by (auto simp: inside_def rest_def)
  then have "perm_read_value ?d = Inr (perm_of v, skip (length (enc_cbor v)) ?d)"
    using canonical_perm_accepts [OF assms(1)] perm_acceptsD by blast
  then show ?thesis by (simp add: decode_cbor_permissive_def)
qed

section \<open>Properties\<close>

text \<open>
  C1: The strict decoder accepts a byte string exactly when it is the canonical layout of a value, and
  returns that value: it refines the deterministic-encoding profile, no more and no less.
\<close>

theorem decode_exactly_canonical:
  assumes "length bs < usize_limit"
  shows "decode_canonical_cbor bs = Inr v \<longleftrightarrow> canonical v \<and> bs = enc_cbor v"
  by (rule decode_iff_canonical [OF assms])

lemma decode_exactly_canonical_witness:
  "decode_canonical_cbor [0x82, 0x01, 0xF6] = Inr (Array [Unsigned 1, Null]) \<and>
   \<not> (canonical (Array [Unsigned 1]) \<and> [0x98, 0x01, 0x01] = enc_cbor (Array [Unsigned 1]))"
proof -
  have "canonical (Array [Unsigned 1, Null]) \<and> [0x82, 0x01, 0xF6] = enc_cbor (Array [Unsigned 1, Null])"
    by code_simp
  moreover have "length [0x82 :: u8, 0x01, 0xF6] < usize_limit" by simp
  ultimately have "decode_canonical_cbor [0x82, 0x01, 0xF6] = Inr (Array [Unsigned 1, Null])"
    by (simp only: decode_exactly_canonical simp_thms)
  moreover have "[0x98, 0x01, 0x01] \<noteq> enc_cbor (Array [Unsigned 1])" by code_simp
  ultimately show ?thesis by simp
qed

text \<open>Every accepted byte string is re-encoded byte for byte.\<close>

theorem decode_then_encode:
  assumes "decode_canonical_cbor bs = Inr v"
  shows "encode_canonical_cbor v = Inr bs"
  using assms by (rule cbor.enc_dec)

lemma decode_then_encode_witness:
  "encode_canonical_cbor (CMap [(Unsigned 1, CBool True)]) = Inr [0xA1, 0x01, 0xF5]"
proof -
  have "decode_canonical_cbor [0xA1, 0x01, 0xF5] = Inr (CMap [(Unsigned 1, CBool True)])"
    by (subst decode_iff_canonical) (simp, code_simp)
  then show ?thesis by (rule decode_then_encode)
qed

text \<open>
  What the encoder writes for a well-formed value, the decoder reads back as the value with its maps
  sorted.
\<close>

theorem encode_then_decode:
  assumes "wf_cbor v" "encode_canonical_cbor v = Inr bs" "length bs < usize_limit"
  shows "decode_canonical_cbor bs = Inr (canon_cbor v)"
  using assms canonical_canon by (simp add: decode_iff_canonical encode_canonical_cbor_Inr_iff)

lemma encode_then_decode_witness:
  "decode_canonical_cbor [0xA2, 0x01, 0x02, 0x61, 0x61, 0xF6] =
     Inr (canon_cbor (CMap [(Text [0x61], Null), (Unsigned 1, Unsigned 2)]))"
proof (rule encode_then_decode)
  show "wf_cbor (CMap [(Text [0x61], Null), (Unsigned 1, Unsigned 2)])"
    "encode_canonical_cbor (CMap [(Text [0x61], Null), (Unsigned 1, Unsigned 2)]) =
      Inr [0xA2, 0x01, 0x02, 0x61, 0x61, 0xF6]"
    by code_simp+
qed simp

text \<open>
  The encoder fails exactly on a value with two map keys, at any depth, that have one canonical
  encoding; otherwise it writes the layout of the sorted value.
\<close>

theorem encode_result:
  "encode_canonical_cbor v =
     (if keys_distinct v then Inr (enc_cbor (canon_cbor v)) else Inl (Malformed ''map contains a duplicate key''))"
  by (simp add: encode_canonical_cbor_def write_value_canon)

text \<open>The order in which a map's entries are inserted never reaches the wire.\<close>

theorem encode_order_free:
  assumes "mset ps = mset qs"
  shows "encode_canonical_cbor (CMap ps) = encode_canonical_cbor (CMap qs)"
  using assms by (rule encode_map_perm)

lemma encode_order_free_witness:
  "encode_canonical_cbor (CMap [(Unsigned 2, Null), (Unsigned 1, Null)]) =
   encode_canonical_cbor (CMap [(Unsigned 1, Null), (Unsigned 2, Null)])"
  by (rule encode_order_free) simp

text \<open>
  Every read moves the cursor forward and never past the end of the input, whatever length the head
  of the item claims, and the bytes it consumed are the canonical layout of the value it returns.
\<close>

theorem decoder_cursor_bounds:
  assumes "read_value d = Inr (v, d')"
  shows "dpos d < dpos d' \<and> dpos d' \<le> length (ddata d) \<and> ddata d' = ddata d \<and>
    take (dpos d' - dpos d) (drop (dpos d) (ddata d)) = enc_cbor v"
proof -
  have r: "reads d (enc_cbor v) d'" using read_sound(1) [OF assms] by simp
  then have "length (rest d) = length (enc_cbor v) + length (rest d')" and d': "d' = skip (length (enc_cbor v)) d"
    by (auto simp: reads_def)
  moreover have "0 < length (enc_cbor v)" by (cases v) (simp_all add: write_head write_header_def)
  moreover have "length (rest d) = length (ddata d) - dpos d" by (simp add: rest_def)
  ultimately have "0 < length (enc_cbor v)" "dpos d + length (enc_cbor v) \<le> length (ddata d)" by linarith+
  then show ?thesis using reads_slice [OF r] d' by (simp del: length_greater_0_conv)
qed

lemma decoder_cursor_bounds_witness:
  "0 < dpos \<lparr>ddata = [0xF6, 0x00], dpos = 1\<rparr>"
proof -
  have "read_value \<lparr>ddata = [0xF6, 0x00], dpos = 0\<rparr> = Inr (Null, \<lparr>ddata = [0xF6, 0x00], dpos = 1\<rparr>)"
    by (simp add: read_value_eq next_byte_def value_body_def read_simple_def)
  from decoder_cursor_bounds [OF this] show ?thesis by simp
qed

text \<open>
  The tolerant decoder extends the strict one: whatever the strict decoder accepts, it reads as the
  same value.
\<close>

theorem permissive_extends_strict:
  assumes "decode_canonical_cbor bs = Inr v" "length bs < usize_limit"
  shows "decode_cbor_permissive bs = Inr (perm_of v)"
  using assms decode_canonical permissive_of_enc by blast

lemma permissive_extends_strict_witness:
  "decode_cbor_permissive [0x82, 0x01, 0xF6] = Inr (perm_of (Array [Unsigned 1, Null]))"
proof (rule permissive_extends_strict)
  show "decode_canonical_cbor [0x82, 0x01, 0xF6] = Inr (Array [Unsigned 1, Null])"
    by (subst decode_iff_canonical) (simp, code_simp)
qed simp

end
