(* ===== verification/Merkle_Tree.thy ===== *)
theory Merkle_Tree
  imports L309_Prelude
begin

text \<open>
  The tree primitives of \<open>src/merkle.rs\<close> (RFC 9162): root, inclusion proof and the iterative
  verification. SHA-256 is the \<open>sha2\<close> crate's, so every function takes the hash function \<open>H\<close> as a
  parameter; what the code relies on is that it returns 32 bytes.

  The verification walks from the leaf to the root with two shrinking counters, the tree is built from
  the root down by splitting at a power of two. \<open>path_root\<close> is the verification written along the
  tree, and \<open>verify_fold_path_root\<close> shows that the loop computes it: the counters name, level by level,
  the side of the sibling. Completeness of the proofs and the extraction of a hash collision from any
  forged one then follow by induction on the tree.
\<close>

section \<open>The code\<close>

definition MERKLE_ALG_ID :: rstring where
  "MERKLE_ALG_ID = lit ''rfc9162-sha256''"

definition DIGEST_LENGTH :: nat where
  "DIGEST_LENGTH = 32"

definition MAX_TREE_SIZE :: nat where
  "MAX_TREE_SIZE = 0xffffffff"

datatype MerkleError =
    EmptyTree
  | IndexOutOfRange nat nat
  | TreeSizeOutOfRange nat

definition validate_tree_range :: "nat \<Rightarrow> nat \<Rightarrow> MerkleError + unit" where
  "validate_tree_range index tree_size =
     (if \<not> (1 \<le> tree_size \<and> tree_size \<le> MAX_TREE_SIZE) then Inl (TreeSizeOutOfRange tree_size)
      else if index \<ge> tree_size then Inl (IndexOutOfRange index tree_size)
      else Inr ())"

text \<open>
  The loop \<open>while k * 2 < n { k *= 2 }\<close> from \<open>k = 1\<close>; \<open>k = 0\<close>, which would not terminate, is never
  reached.
\<close>

function pow2_loop :: "nat \<Rightarrow> nat \<Rightarrow> nat" where
  "pow2_loop n k = (if 0 < k \<and> k * 2 < n then pow2_loop n (k * 2) else k)"
  by pat_completeness auto
termination
  by (relation "measure (\<lambda>(n, k). n - k)") auto

declare pow2_loop.simps [simp del]

definition largest_pow2_lt :: "nat \<Rightarrow> nat" where
  "largest_pow2_lt n = pow2_loop n 1"

definition hash_leaf :: "(bytes \<Rightarrow> bytes) \<Rightarrow> bytes \<Rightarrow> bytes" where
  "hash_leaf H d = H (0x00 # d)"

definition hash_node :: "(bytes \<Rightarrow> bytes) \<Rightarrow> bytes \<Rightarrow> bytes \<Rightarrow> bytes" where
  "hash_node H l r = H (0x01 # l @ r)"

lemma pow2_loop_bounds:
  "0 < k \<Longrightarrow> k < n \<Longrightarrow> k \<le> pow2_loop n k \<and> pow2_loop n k < n"
proof (induction n k rule: pow2_loop.induct)
  case (1 n k)
  then show ?case by (cases "k * 2 < n") (auto simp: pow2_loop.simps [of n k])
qed

lemma largest_pow2_lt_bounds: "2 \<le> n \<Longrightarrow> 1 \<le> largest_pow2_lt n \<and> largest_pow2_lt n < n"
  using pow2_loop_bounds [of 1 n] by (simp add: largest_pow2_lt_def)

text \<open>An empty slice would panic in the source; \<open>merkle_root\<close> and the leaves-list decoder exclude it.\<close>

function root_unchecked :: "(bytes \<Rightarrow> bytes) \<Rightarrow> bytes list \<Rightarrow> bytes" where
  "root_unchecked H leaves =
     (if length leaves \<le> 1 then (case leaves of [] \<Rightarrow> [] | d # _ \<Rightarrow> hash_leaf H d)
      else let k = largest_pow2_lt (length leaves);
               left = root_unchecked H (take k leaves);
               right = root_unchecked H (drop k leaves)
           in hash_node H left right)"
  by pat_completeness auto
termination
proof (relation "measure (\<lambda>(H, leaves). length leaves)", goal_cases)
  case (2 H leaves k)
  then show ?case using largest_pow2_lt_bounds [of "length leaves"] by auto
next
  case (3 H leaves k)
  then show ?case using largest_pow2_lt_bounds [of "length leaves"] by auto
qed simp

function audit_path :: "(bytes \<Rightarrow> bytes) \<Rightarrow> bytes list \<Rightarrow> nat \<Rightarrow> bytes list" where
  "audit_path H leaves index =
     (if length leaves \<le> 1 then []
      else let k = largest_pow2_lt (length leaves)
           in if index < k then audit_path H (take k leaves) index @ [root_unchecked H (drop k leaves)]
              else audit_path H (drop k leaves) (index - k) @ [root_unchecked H (take k leaves)])"
  by pat_completeness auto
termination
proof (relation "measure (\<lambda>(H, leaves, i). length leaves)", goal_cases)
  case (2 H leaves i k)
  then show ?case using largest_pow2_lt_bounds [of "length leaves"] by auto
next
  case (3 H leaves i k)
  then show ?case using largest_pow2_lt_bounds [of "length leaves"] by auto
qed simp

declare root_unchecked.simps [simp del] audit_path.simps [simp del]

definition merkle_root :: "(bytes \<Rightarrow> bytes) \<Rightarrow> bytes list \<Rightarrow> MerkleError + bytes" where
  "merkle_root H leaves = (if leaves = [] then Inl EmptyTree else Inr (root_unchecked H leaves))"

definition merkle_inclusion_proof ::
  "(bytes \<Rightarrow> bytes) \<Rightarrow> bytes list \<Rightarrow> nat \<Rightarrow> MerkleError + bytes list" where
  "merkle_inclusion_proof H leaves index =
     (if leaves = [] then Inl EmptyTree
      else and_then (validate_tree_range index (length leaves)) (\<lambda>_. Inr (audit_path H leaves index)))"

text \<open>The inner loop \<open>while (m & 1) == 0 && m != 0\<close>.\<close>

function strip_even :: "nat \<Rightarrow> nat \<Rightarrow> nat \<times> nat" where
  "strip_even m lst =
     (if m mod 2 = 0 \<and> m \<noteq> 0 then strip_even (m div 2) (lst div 2) else (m, lst))"
  by pat_completeness auto
termination
  by (relation "measure fst") auto

declare strip_even.simps [simp del]

text \<open>
  The loop over the proof: \<open>None\<close> is its early \<open>return false\<close>, otherwise the final \<open>lst\<close> and \<open>h\<close>.
\<close>

fun verify_fold :: "(bytes \<Rightarrow> bytes) \<Rightarrow> nat \<Rightarrow> nat \<Rightarrow> bytes \<Rightarrow> bytes list \<Rightarrow> (nat \<times> bytes) option" where
  "verify_fold H m lst h [] = Some (lst, h)"
| "verify_fold H m lst h (sibling # proof) =
     (if lst = 0 then None
      else if m mod 2 = 1 \<or> m = lst then
        (let h' = hash_node H sibling h; (m', lst') = strip_even m lst
         in verify_fold H (m' div 2) (lst' div 2) h' proof)
      else verify_fold H (m div 2) (lst div 2) (hash_node H h sibling) proof)"

definition verify_inclusion ::
  "(bytes \<Rightarrow> bytes) \<Rightarrow> bytes \<Rightarrow> nat \<Rightarrow> nat \<Rightarrow> bytes list \<Rightarrow> bytes \<Rightarrow> bool" where
  "verify_inclusion H leaf index tree_size proof root =
     (if length leaf \<noteq> DIGEST_LENGTH \<or> length root \<noteq> DIGEST_LENGTH then False
      else case validate_tree_range index tree_size of
        Inl _ \<Rightarrow> False
      | Inr _ \<Rightarrow>
          if tree_size = 1 then
            (if proof \<noteq> [] \<or> index \<noteq> 0 then False else hash_leaf H leaf = root)
          else case verify_fold H index (tree_size - 1) (hash_leaf H leaf) proof of
            None \<Rightarrow> False
          | Some (lst, h) \<Rightarrow> if lst \<noteq> 0 then False else h = root)"

section \<open>The split point\<close>

lemma pow2_loop_pow2:
  "k = 2 ^ a \<Longrightarrow> k < n \<Longrightarrow> \<exists>j. pow2_loop n k = 2 ^ j \<and> 2 ^ j < n \<and> n \<le> 2 * 2 ^ j"
proof (induction n k arbitrary: a rule: pow2_loop.induct)
  case (1 n k)
  show ?case
  proof (cases "k * 2 < n")
    case True
    have k: "0 < k" using "1.prems" by simp
    then have "pow2_loop n k = pow2_loop n (k * 2)" using True by (simp add: pow2_loop.simps [of n k])
    moreover have "k * 2 = 2 ^ Suc a" using "1.prems" by simp
    ultimately show ?thesis using "1.IH" [of "Suc a"] k True by (simp add: mult.commute)
  next
    case False
    then have "pow2_loop n k = k" by (simp add: pow2_loop.simps [of n k])
    then show ?thesis using "1.prems" False by (metis linorder_not_less mult.commute)
  qed
qed

lemma largest_pow2_lt_pow2:
  assumes "2 \<le> n"
  obtains j where "largest_pow2_lt n = 2 ^ j" "2 ^ j < n" "n \<le> 2 ^ Suc j"
  using pow2_loop_pow2 [of 1 0 n] assms by (auto simp: largest_pow2_lt_def)

section \<open>Which side the sibling is on\<close>

text \<open>\<open>True\<close>: the sibling is on the left. The sides the loop takes, from the leaf up.\<close>

function sides :: "nat \<Rightarrow> nat \<Rightarrow> bool list" where
  "sides m lst =
     (if lst = 0 then []
      else if m mod 2 = 1 \<or> m = lst then
        (let (m', lst') = strip_even m lst in True # sides (m' div 2) (lst' div 2))
      else False # sides (m div 2) (lst div 2))"
  by pat_completeness auto

lemma strip_even_le: "strip_even m lst = (m', lst') \<Longrightarrow> lst' \<le> lst"
proof (induction m lst rule: strip_even.induct)
  case (1 m lst)
  then show ?case by (cases "m mod 2 = 0 \<and> m \<noteq> 0") (auto simp: strip_even.simps [of m lst])
qed

termination sides
proof (relation "measure snd", goal_cases)
  case (2 m lst p m' lst')
  then have "lst' \<le> lst" using strip_even_le [of m lst m' lst'] by simp
  with 2 show ?case by auto
qed auto

declare sides.simps [simp del]

lemma strip_even_odd: "m mod 2 = 1 \<Longrightarrow> strip_even m lst = (m, lst)"
  by (simp add: strip_even.simps [of m lst])

lemma sides_0 [simp]: "sides m 0 = []"
  by (simp add: sides.simps [of m 0])

lemma sides_eq_Nil [simp]: "sides m lst = [] \<longleftrightarrow> lst = 0"
  by (subst sides.simps) (auto split: prod.splits)

lemma sides_odd: "m mod 2 = 1 \<Longrightarrow> lst \<noteq> 0 \<Longrightarrow> sides m lst = True # sides (m div 2) (lst div 2)"
  by (simp add: sides.simps [of m lst] strip_even_odd)

lemma sides_even: "m mod 2 = 0 \<Longrightarrow> m \<noteq> lst \<Longrightarrow> lst \<noteq> 0 \<Longrightarrow> sides m lst = False # sides (m div 2) (lst div 2)"
  by (simp add: sides.simps [of m lst])

lemma strip_even_even: "m mod 2 = 0 \<Longrightarrow> m \<noteq> 0 \<Longrightarrow> strip_even m lst = strip_even (m div 2) (lst div 2)"
  by (simp add: strip_even.simps [of m lst])

lemma sides_last_even:
  assumes "m mod 2 = 0" "m \<noteq> 0"
  shows "sides m m = sides (m div 2) (m div 2)"
proof -
  have "m div 2 \<noteq> 0" using assms by auto
  then show ?thesis using assms
    by (simp add: sides.simps [of m m] sides.simps [of "m div 2" "m div 2"] strip_even_even)
qed

lemma sides_left:
  "i < 2 ^ j \<Longrightarrow> 2 ^ j \<le> lst \<Longrightarrow> lst < 2 ^ Suc j \<Longrightarrow> sides i lst = sides i (2 ^ j - 1) @ [False]"
proof (induction j arbitrary: i lst)
  case 0
  then have "i = 0" "lst = 1" by auto
  then show ?case by (simp add: sides_even)
next
  case (Suc j)
  have half: "i div 2 < 2 ^ j" "2 ^ j \<le> lst div 2" "lst div 2 < 2 ^ Suc j"
    using Suc.prems by auto
  have top: "(2 ^ Suc j - 1) div 2 = (2 ^ j - 1 :: nat)" "2 ^ Suc j - 1 \<noteq> (0 :: nat)"
    "(2 ^ Suc j - 1 :: nat) mod 2 = 1"
    using one_le_power [of "2 :: nat" j] by (simp_all only: power_Suc) presburger+
  show ?case
  proof (cases "i mod 2 = 1")
    case True
    then show ?thesis using Suc.prems Suc.IH [OF half] top by (simp only: sides_odd) (simp add: sides_odd)
  next
    case False
    then have "i mod 2 = 0" "i \<noteq> lst" "i \<noteq> 2 ^ Suc j - 1" using Suc.prems top(3) by auto
    then show ?thesis using Suc.prems Suc.IH [OF half] top by (simp add: sides_even)
  qed
qed

lemma sides_right:
  "2 ^ j \<le> i \<Longrightarrow> i \<le> lst \<Longrightarrow> lst < 2 ^ Suc j \<Longrightarrow> sides i lst = sides (i - 2 ^ j) (lst - 2 ^ j) @ [True]"
proof (induction j arbitrary: i lst)
  case 0
  then have "i = 1" "lst = 1" by auto
  then show ?case by (simp add: sides_odd)
next
  case (Suc j)
  have half: "2 ^ j \<le> i div 2" "i div 2 \<le> lst div 2" "lst div 2 < 2 ^ Suc j"
    using Suc.prems by auto
  obtain a where a: "i = 2 ^ Suc j + a" using Suc.prems by (metis le_Suc_ex)
  obtain b where b: "lst = 2 ^ Suc j + b" using Suc.prems by (metis le_Suc_ex le_trans)
  have sub: "(i - 2 ^ Suc j) div 2 = i div 2 - 2 ^ j" "(lst - 2 ^ Suc j) div 2 = lst div 2 - 2 ^ j"
    "(i - 2 ^ Suc j) mod 2 = i mod 2"
    by (simp_all add: a b)
  show ?case
  proof (cases "i mod 2 = 1")
    case True
    then have "i - 2 ^ Suc j \<noteq> 0" using sub by auto
    then have "lst - 2 ^ Suc j \<noteq> 0" "lst \<noteq> 0" using Suc.prems by linarith+
    then show ?thesis using \<open>lst \<noteq> 0\<close> Suc.IH [OF half] sub True by (simp add: sides_odd)
  next
    case False
    then have even: "i mod 2 = 0" "(i - 2 ^ Suc j) mod 2 = 0" using sub by simp_all
    show ?thesis
    proof (cases "i = lst")
      case True
      have "sides i lst = sides (i div 2 - 2 ^ j) (lst div 2 - 2 ^ j) @ [True]"
        using even(1) Suc.prems sides_last_even [of i] Suc.IH [OF half] True by simp
      also have "sides (i div 2 - 2 ^ j) (lst div 2 - 2 ^ j) = sides (i - 2 ^ Suc j) (lst - 2 ^ Suc j)"
        using even(2) sides_last_even [of "i - 2 ^ Suc j"] sub True
        by (cases "i - 2 ^ Suc j = 0") simp_all
      finally show ?thesis .
    next
      case False
      then have "lst \<noteq> 0" "lst - 2 ^ Suc j \<noteq> 0" "i - 2 ^ Suc j \<noteq> lst - 2 ^ Suc j"
        using Suc.prems by linarith+
      then show ?thesis using False Suc.IH [OF half] sub even by (simp add: sides_even)
    qed
  qed
qed

section \<open>The verification along the tree\<close>

definition fold_step :: "(bytes \<Rightarrow> bytes) \<Rightarrow> bytes \<Rightarrow> bool \<times> bytes \<Rightarrow> bytes" where
  "fold_step H h = (\<lambda>(on_left, s). if on_left then hash_node H s h else hash_node H h s)"

lemma fold_step:
  "fold_step H h (True, s) = hash_node H s h" "fold_step H h (False, s) = hash_node H h s"
  by (simp_all add: fold_step_def)

lemma verify_fold_sides:
  "verify_fold H m lst h path = Some (0, x) \<longleftrightarrow>
     length path = length (sides m lst) \<and> x = foldl (fold_step H) h (zip (sides m lst) path)"
proof (induction path arbitrary: m lst h)
  case Nil
  show ?case by (cases "lst = 0") (auto simp: sides.simps [of m lst] split: prod.splits if_splits)
next
  case (Cons s path)
  show ?case
  proof (cases "lst = 0")
    case False
    then show ?thesis
      by (auto simp: sides.simps [of m lst] Cons.IH fold_step_def split: prod.splits)
  qed simp
qed

function path_root :: "(bytes \<Rightarrow> bytes) \<Rightarrow> bytes \<Rightarrow> nat \<Rightarrow> nat \<Rightarrow> bytes list \<Rightarrow> bytes option" where
  "path_root H leaf i n path =
     (if n \<le> 1 then (if path = [] then Some (hash_leaf H leaf) else None)
      else if path = [] then None
      else let k = largest_pow2_lt n
           in if i < k
              then map_option (\<lambda>h. hash_node H h (last path)) (path_root H leaf i k (butlast path))
              else map_option (\<lambda>h. hash_node H (last path) h)
                     (path_root H leaf (i - k) (n - k) (butlast path)))"
  by pat_completeness auto
termination
proof (relation "measure (\<lambda>(H, leaf, i, n, path). n)", goal_cases)
  case (2 H leaf i n path k)
  then show ?case using largest_pow2_lt_bounds [of n] by auto
next
  case (3 H leaf i n path k)
  then show ?case using largest_pow2_lt_bounds [of n] by auto
qed simp

declare path_root.simps [simp del]

lemma path_root_1 [simp]: "path_root H leaf i (Suc 0) path = (if path = [] then Some (hash_leaf H leaf) else None)"
  by (simp add: path_root.simps [of H leaf i "Suc 0" path])

lemma path_root_sides:
  "i < n \<Longrightarrow> path_root H leaf i n path =
     (if length path = length (sides i (n - 1))
      then Some (foldl (fold_step H) (hash_leaf H leaf) (zip (sides i (n - 1)) path)) else None)"
proof (induction H leaf i n path rule: path_root.induct)
  case (1 H leaf i n path)
  show ?case
  proof (cases "n \<le> 1 \<or> path = []")
    case True
    consider "n \<le> 1" | "n > 1" "path = []" using True by fastforce
    then show ?thesis
    proof cases
      case 1
      then show ?thesis using "1.prems" by (simp add: path_root.simps [of H leaf i n path])
    next
      case 2
      then have "sides i (n - 1) \<noteq> []" by simp
      then show ?thesis using 2 by (simp add: path_root.simps [of H leaf i n "[]"])
    qed
  next
    case False
    then have n: "2 \<le> n" by simp
    from largest_pow2_lt_pow2 [OF n] obtain j
      where j: "largest_pow2_lt n = 2 ^ j" "2 ^ j < n" "n \<le> 2 ^ Suc j" by blast
    obtain p y where path: "path = p @ [y]" using False by (cases path rule: rev_cases) auto
    show ?thesis
    proof (cases "i < 2 ^ j")
      case True
      have s: "sides i (n - 1) = sides i (2 ^ j - 1) @ [False]"
        by (rule sides_left) (use True j in auto)
      have ih: "path_root H leaf i (2 ^ j) p =
          (if length p = length (sides i (2 ^ j - 1))
           then Some (foldl (fold_step H) (hash_leaf H leaf) (zip (sides i (2 ^ j - 1)) p))
           else None)"
        using "1.IH"(1) [OF _ _ refl] False True j by (simp add: path)
      show ?thesis using False True ih
        by (simp add: path_root.simps [of H leaf i n "p @ [y]"] Let_def j(1) s path fold_step del: One_nat_def)
    next
      case right: False
      have s: "sides i (n - 1) = sides (i - 2 ^ j) (n - 1 - 2 ^ j) @ [True]"
        by (rule sides_right) (use right j "1.prems" in auto)
      have ih: "path_root H leaf (i - 2 ^ j) (n - 2 ^ j) p =
          (if length p = length (sides (i - 2 ^ j) (n - 1 - 2 ^ j))
           then Some (foldl (fold_step H) (hash_leaf H leaf)
                 (zip (sides (i - 2 ^ j) (n - 1 - 2 ^ j)) p)) else None)"
        using "1.IH"(2) [OF _ _ refl] False right j "1.prems" by (simp add: path diff_right_commute)
      show ?thesis using False right ih
        by (simp add: path_root.simps [of H leaf i n "p @ [y]"] Let_def j(1) s path fold_step del: One_nat_def)
    qed
  qed
qed

lemma length_hash_leaf [simp]: "\<forall>x. length (H x) = 32 \<Longrightarrow> length (hash_leaf H d) = 32"
  and length_hash_node [simp]: "\<forall>x. length (H x) = 32 \<Longrightarrow> length (hash_node H l r) = 32"
  by (simp_all add: hash_leaf_def hash_node_def)

lemma verify_inclusion_path_root:
  "verify_inclusion H leaf index n path root \<longleftrightarrow>
     length leaf = 32 \<and> length root = 32 \<and> 1 \<le> n \<and> n \<le> MAX_TREE_SIZE \<and> index < n \<and>
     path_root H leaf index n path = Some root"
proof (cases "n = 1")
  case True
  then show ?thesis
    by (auto simp: verify_inclusion_def validate_tree_range_def DIGEST_LENGTH_def)
next
  case False
  have "(case verify_fold H index (n - 1) (hash_leaf H leaf) path of
           None \<Rightarrow> False | Some (lst, h) \<Rightarrow> if lst \<noteq> 0 then False else h = root) \<longleftrightarrow>
        verify_fold H index (n - 1) (hash_leaf H leaf) path = Some (0, root)"
    by (auto split: option.split)
  then show ?thesis using False
    by (auto simp: verify_inclusion_def validate_tree_range_def DIGEST_LENGTH_def
        verify_fold_sides path_root_sides)
qed

section \<open>Completeness, and a collision from every forgery\<close>

lemma root_unchecked_Suc_0: "length leaves = Suc 0 \<Longrightarrow> root_unchecked H leaves = hash_leaf H (leaves ! 0)"
  by (cases leaves) (simp_all add: root_unchecked.simps)

lemma root_unchecked_split:
  "2 \<le> length leaves \<Longrightarrow> k = largest_pow2_lt (length leaves) \<Longrightarrow>
   root_unchecked H leaves = hash_node H (root_unchecked H (take k leaves)) (root_unchecked H (drop k leaves))"
  by (simp add: root_unchecked.simps [of H leaves] Let_def)

lemma audit_path_path_root:
  "i < length leaves \<Longrightarrow>
   path_root H (leaves ! i) i (length leaves) (audit_path H leaves i) = Some (root_unchecked H leaves)"
proof (induction H leaves i rule: audit_path.induct)
  case (1 H leaves i)
  show ?case
  proof (cases "length leaves \<le> 1")
    case True
    then have "length leaves = Suc 0" "i = 0" using "1.prems" by auto
    then show ?thesis by (simp add: root_unchecked_Suc_0 audit_path.simps [of H leaves])
  next
    case False
    define k where "k = largest_pow2_lt (length leaves)"
    have k: "1 \<le> k" "k < length leaves"
      using largest_pow2_lt_bounds [of "length leaves"] False by (simp_all add: k_def)
    have path: "path_root H x i (length leaves) (p @ [y]) =
        (if i < k then map_option (\<lambda>h. hash_node H h y) (path_root H x i k p)
         else map_option (\<lambda>h. hash_node H y h) (path_root H x (i - k) (length leaves - k) p))" for x y p
      using False by (simp add: path_root.simps [of H x i "length leaves"] Let_def flip: k_def)
    have root: "root_unchecked H leaves =
        hash_node H (root_unchecked H (take k leaves)) (root_unchecked H (drop k leaves))"
      using False by (intro root_unchecked_split) (simp_all add: k_def)
    show ?thesis
    proof (cases "i < k")
      case True
      then have "audit_path H leaves i = audit_path H (take k leaves) i @ [root_unchecked H (drop k leaves)]"
        using False by (simp add: audit_path.simps [of H leaves] Let_def flip: k_def)
      then show ?thesis using "1.IH"(1) [OF False k_def True] True k by (simp add: path root)
    next
      case right: False
      then have "audit_path H leaves i =
          audit_path H (drop k leaves) (i - k) @ [root_unchecked H (take k leaves)]"
        using False by (simp add: audit_path.simps [of H leaves] Let_def flip: k_def)
      then show ?thesis using "1.IH"(2) [OF False k_def right] right k "1.prems" by (simp add: path root)
    qed
  qed
qed

text \<open>
  From a path that verifies against the root of \<open>leaves\<close> but proves another leaf, or is not the
  generated path: the two inputs on which the hash function collides.
\<close>

function find_collision ::
  "(bytes \<Rightarrow> bytes) \<Rightarrow> bytes \<Rightarrow> nat \<Rightarrow> bytes list \<Rightarrow> bytes list \<Rightarrow> (bytes \<times> bytes) option" where
  "find_collision H leaf i leaves path =
     (if length leaves \<le> 1 then
        (if leaf \<noteq> leaves ! 0 then Some (0x00 # leaf, 0x00 # leaves ! 0) else None)
      else let k = largest_pow2_lt (length leaves);
               l = root_unchecked H (take k leaves);
               r = root_unchecked H (drop k leaves)
           in if i < k then
                (case path_root H leaf i k (butlast path) of
                   None \<Rightarrow> None
                 | Some l' \<Rightarrow>
                     if l' @ last path \<noteq> l @ r then Some (0x01 # l' @ last path, 0x01 # l @ r)
                     else find_collision H leaf i (take k leaves) (butlast path))
              else
                (case path_root H leaf (i - k) (length leaves - k) (butlast path) of
                   None \<Rightarrow> None
                 | Some r' \<Rightarrow>
                     if last path @ r' \<noteq> l @ r then Some (0x01 # last path @ r', 0x01 # l @ r)
                     else find_collision H leaf (i - k) (drop k leaves) (butlast path)))"
  by pat_completeness auto
termination
proof (relation "measure (\<lambda>(H, leaf, i, leaves, path). length leaves)", goal_cases)
  case (2 H leaf i leaves path k)
  then show ?case using largest_pow2_lt_bounds [of "length leaves"] by auto
next
  case (3 H leaf i leaves path k)
  then show ?case using largest_pow2_lt_bounds [of "length leaves"] by auto
qed simp

declare find_collision.simps [simp del]

lemma path_root_length:
  "\<forall>x. length (H x) = 32 \<Longrightarrow> path_root H leaf i n path = Some r \<Longrightarrow> length r = 32"
  by (subst (asm) path_root.simps) (auto simp: Let_def split: if_splits)

lemma root_unchecked_length:
  "\<forall>x. length (H x) = 32 \<Longrightarrow> leaves \<noteq> [] \<Longrightarrow> length (root_unchecked H leaves) = 32"
  by (subst root_unchecked.simps) (auto simp: Let_def split: list.split)

lemma find_collision:
  assumes H: "\<forall>x. length (H x) = 32"
  shows "i < length leaves \<Longrightarrow> path_root H leaf i (length leaves) path = Some (root_unchecked H leaves) \<Longrightarrow>
    leaf \<noteq> leaves ! i \<or> path \<noteq> audit_path H leaves i \<Longrightarrow>
    \<exists>x y. find_collision H leaf i leaves path = Some (x, y) \<and> x \<noteq> y \<and> H x = H y"
proof (induction "length leaves" arbitrary: leaf i leaves path rule: less_induct)
  case less
  show ?case
  proof (cases "length leaves \<le> 1")
    case True
    then have "length leaves = Suc 0" "i = 0" using less.prems by auto
    then show ?thesis using less.prems
      by (auto simp: root_unchecked_Suc_0 find_collision.simps [of H leaf] audit_path.simps [of H leaves]
          hash_leaf_def split: if_splits)
  next
    case False
    define k where "k = largest_pow2_lt (length leaves)"
    define l r where "l = root_unchecked H (take k leaves)" and "r = root_unchecked H (drop k leaves)"
    have k: "1 \<le> k" "k < length leaves"
      using largest_pow2_lt_bounds [of "length leaves"] False by (simp_all add: k_def)
    have root: "root_unchecked H leaves = H (0x01 # l @ r)"
      using root_unchecked_split [OF _ k_def] False by (simp add: l_def r_def hash_node_def)
    have len: "length l = 32" "length r = 32"
      unfolding l_def r_def using k by (auto intro!: root_unchecked_length [OF H])
    have nonempty: "path \<noteq> []"
      using less.prems(2) False by (auto simp: path_root.simps [of H leaf])
    then have snoc: "path = butlast path @ [last path]" by simp
    show ?thesis
    proof (cases "i < k")
      case True
      then obtain l' where l': "path_root H leaf i k (butlast path) = Some l'"
        "H (0x01 # l' @ last path) = H (0x01 # l @ r)"
        using less.prems(2) False nonempty root
        by (auto simp: path_root.simps [of H leaf i "length leaves"] Let_def hash_node_def simp flip: k_def)
      have fc: "find_collision H leaf i leaves path =
          (if l' @ last path \<noteq> l @ r then Some (0x01 # l' @ last path, 0x01 # l @ r)
           else find_collision H leaf i (take k leaves) (butlast path))"
        using False True l'(1)
        by (simp add: find_collision.simps [of H leaf i leaves] Let_def l_def r_def flip: k_def)
      show ?thesis
      proof (cases "l' @ last path = l @ r")
        case same: True
        then have eq: "l' = l" "last path = r"
          using path_root_length [OF H l'(1)] len by auto
        have ap: "audit_path H leaves i = audit_path H (take k leaves) i @ [r]"
          using False True by (simp add: audit_path.simps [of H leaves] Let_def r_def flip: k_def)
        have "leaf \<noteq> take k leaves ! i \<or> butlast path \<noteq> audit_path H (take k leaves) i"
          using less.prems(3) True ap snoc eq(2) by auto
        then show ?thesis
          using less.hyps [of "take k leaves" i leaf "butlast path"] True k l'(1) eq(1) fc same
          by (simp add: l_def)
      next
        case False
        then show ?thesis using l'(2) fc by simp
      qed
    next
      case right: False
      then obtain r' where r': "path_root H leaf (i - k) (length leaves - k) (butlast path) = Some r'"
        "H (0x01 # last path @ r') = H (0x01 # l @ r)"
        using less.prems(2) False nonempty root
        by (auto simp: path_root.simps [of H leaf i "length leaves"] Let_def hash_node_def simp flip: k_def)
      have fc: "find_collision H leaf i leaves path =
          (if last path @ r' \<noteq> l @ r then Some (0x01 # last path @ r', 0x01 # l @ r)
           else find_collision H leaf (i - k) (drop k leaves) (butlast path))"
        using False right r'(1)
        by (simp add: find_collision.simps [of H leaf i leaves] Let_def l_def r_def flip: k_def)
      show ?thesis
      proof (cases "last path @ r' = l @ r")
        case same: True
        then have eq: "last path = l" "r' = r"
          using path_root_length [OF H r'(1)] len by auto
        have ap: "audit_path H leaves i = audit_path H (drop k leaves) (i - k) @ [l]"
          using False right by (simp add: audit_path.simps [of H leaves] Let_def l_def flip: k_def)
        have "leaf \<noteq> drop k leaves ! (i - k) \<or> butlast path \<noteq> audit_path H (drop k leaves) (i - k)"
          using less.prems(1,3) right ap snoc eq(1) k by auto
        then show ?thesis
          using less.hyps [of "drop k leaves" "i - k" leaf "butlast path"] right k less.prems(1) r'(1) eq(2) fc same
          by (simp add: r_def)
      next
        case False
        then show ?thesis using r'(2) fc by simp
      qed
    qed
  qed
qed

text \<open>
  Two different leaf lists, of whatever lengths, with one root: again two colliding inputs. The \<open>0x00\<close>
  and \<open>0x01\<close> prefixes decide the case where the two trees have different shapes.
\<close>

function root_collision :: "(bytes \<Rightarrow> bytes) \<Rightarrow> bytes list \<Rightarrow> bytes list \<Rightarrow> (bytes \<times> bytes) option" where
  "root_collision H xs ys =
     (let n = length xs; m = length ys; k = largest_pow2_lt n; j = largest_pow2_lt m;
          node = (\<lambda>zs i. 0x01 # root_unchecked H (take i zs) @ root_unchecked H (drop i zs))
      in if n \<le> 1 then
           (let x = 0x00 # xs ! 0; y = (if m \<le> 1 then 0x00 # ys ! 0 else node ys j)
            in if x \<noteq> y then Some (x, y) else None)
         else if m \<le> 1 then Some (node xs k, 0x00 # ys ! 0)
         else if node xs k \<noteq> node ys j then Some (node xs k, node ys j)
         else if take k xs \<noteq> take j ys then root_collision H (take k xs) (take j ys)
         else root_collision H (drop k xs) (drop j ys))"
  by pat_completeness auto
termination
proof (relation "measure (\<lambda>(H, xs, ys). length xs)", goal_cases)
  case (2 H xs ys n m k j)
  then show ?case using largest_pow2_lt_bounds [of "length xs"] by auto
next
  case (3 H xs ys n m k j)
  then show ?case using largest_pow2_lt_bounds [of "length xs"] by auto
qed simp

declare root_collision.simps [simp del]

lemma root_collision:
  assumes H: "\<forall>x. length (H x) = 32"
  shows "xs \<noteq> [] \<Longrightarrow> ys \<noteq> [] \<Longrightarrow> xs \<noteq> ys \<Longrightarrow> root_unchecked H xs = root_unchecked H ys \<Longrightarrow>
    \<exists>x y. root_collision H xs ys = Some (x, y) \<and> x \<noteq> y \<and> H x = H y"
proof (induction "length xs" arbitrary: xs ys rule: less_induct)
  case less
  define k j where "k = largest_pow2_lt (length xs)" and "j = largest_pow2_lt (length ys)"
  have root: "root_unchecked H zs =
      (if length zs \<le> 1 then H (0x00 # zs ! 0)
       else H (0x01 # root_unchecked H (take (largest_pow2_lt (length zs)) zs) @
            root_unchecked H (drop (largest_pow2_lt (length zs)) zs)))" if "zs \<noteq> []" for zs
    using that root_unchecked_Suc_0 [of zs H] root_unchecked_split [OF _ refl, of zs H]
    by (cases "length zs \<le> 1") (auto simp: hash_leaf_def hash_node_def le_Suc_eq)
  note roots = root [OF less.prems(1), folded k_def] root [OF less.prems(2), folded j_def]
  show ?case
  proof (cases "length xs \<le> 1 \<or> length ys \<le> 1")
    case True
    have "length xs \<le> 1 \<Longrightarrow> length ys \<le> 1 \<Longrightarrow> xs ! 0 \<noteq> ys ! 0"
      using less.prems by (cases xs; cases ys) auto
    then show ?thesis using True less.prems(4) roots
      by (simp add: root_collision.simps [of H xs ys] Let_def flip: k_def j_def) auto
  next
    case False
    define node where "node = (\<lambda>zs i. 0x01 # root_unchecked H (take i zs) @ root_unchecked H (drop i zs))"
    have step: "root_collision H xs ys =
        (if node xs k \<noteq> node ys j then Some (node xs k, node ys j)
         else if take k xs \<noteq> take j ys then root_collision H (take k xs) (take j ys)
         else root_collision H (drop k xs) (drop j ys))"
      using False by (simp add: root_collision.simps [of H xs ys] Let_def node_def flip: k_def j_def)
    have k: "1 \<le> k" "k < length xs" "1 \<le> j" "j < length ys"
      using largest_pow2_lt_bounds [of "length xs"] largest_pow2_lt_bounds [of "length ys"] False
      by (simp_all add: k_def j_def)
    have lens: "length (root_unchecked H (take k xs)) = length (root_unchecked H (take j ys))"
      using k less.prems(1,2) root_unchecked_length [OF H, of "take k xs"]
        root_unchecked_length [OF H, of "take j ys"] by auto
    show ?thesis
    proof (cases "node xs k = node ys j")
      case True
      then have eq: "root_unchecked H (take k xs) = root_unchecked H (take j ys)"
        "root_unchecked H (drop k xs) = root_unchecked H (drop j ys)"
        using lens by (simp_all add: node_def)
      have "take k xs \<noteq> take j ys \<or> drop k xs \<noteq> drop j ys"
        using less.prems(3) append_take_drop_id [of k xs] append_take_drop_id [of j ys] by metis
      then show ?thesis
        using less.hyps [of "take k xs" "take j ys"] less.hyps [of "drop k xs" "drop j ys"] k less.prems(1,2) eq step True
        by auto
    next
      case diff: False
      then show ?thesis using False less.prems(4) roots step by (simp add: node_def)
    qed
  qed
qed

lemma sides_length: "lst < 2 ^ d \<Longrightarrow> length (sides m lst) \<le> d"
proof (induction m lst arbitrary: d rule: sides.induct)
  case (1 m lst)
  show ?case
  proof (cases "lst = 0")
    case False
    then obtain e where d: "d = Suc e" using "1.prems" by (cases d) auto
    have half: "l div 2 < 2 ^ e" if "l \<le> lst" for l using that "1.prems" d by auto
    show ?thesis
    proof (cases "m mod 2 = 1 \<or> m = lst")
      case True
      obtain m' lst' where s: "strip_even m lst = (m', lst')" by fastforce
      have "length (sides (m' div 2) (lst' div 2)) \<le> e"
        using "1.IH"(1)[OF False True s [symmetric] refl] half [OF strip_even_le [OF s]] by simp
      then show ?thesis using False True s d by (simp add: sides.simps [of m lst])
    next
      case False2: False
      then have "length (sides (m div 2) (lst div 2)) \<le> e" using "1.IH"(2)[OF False False2] half by simp
      then show ?thesis using False False2 d by (simp add: sides.simps [of m lst])
    qed
  qed simp
qed

section \<open>Properties\<close>

text \<open>
  The witnesses below use the hash function that cuts its argument, padded with zeros, to 32 bytes; it
  meets the one law the theorems ask of the hash, and collides easily.
\<close>

definition cut_hash :: "bytes \<Rightarrow> bytes" where
  "cut_hash x = take 32 (x @ replicate 32 0)"

lemma cut_hash_length [simp]: "length (cut_hash x) = 32"
  by (simp add: cut_hash_def)

text \<open>
  C10: For every leaf of a non-empty list that fits the tree range, the generated inclusion proof is
  accepted against the computed root.
\<close>

theorem merkle_proof_verifies:
  assumes "\<forall>x. length (H x) = 32" "length leaves \<le> MAX_TREE_SIZE" "i < length leaves"
    and "length (leaves ! i) = DIGEST_LENGTH"
  shows "\<exists>path root. merkle_inclusion_proof H leaves i = Inr path \<and> merkle_root H leaves = Inr root \<and>
    verify_inclusion H (leaves ! i) i (length leaves) path root"
proof -
  have "leaves \<noteq> []" "1 \<le> length leaves" using assms(3) by auto
  then show ?thesis
    using assms audit_path_path_root [OF assms(3), of H] root_unchecked_length [OF assms(1)]
    by (simp add: merkle_inclusion_proof_def merkle_root_def validate_tree_range_def verify_inclusion_path_root
        DIGEST_LENGTH_def)
qed

lemma merkle_proof_verifies_witness:
  "\<exists>path root. merkle_inclusion_proof cut_hash [replicate 32 1, replicate 32 2, replicate 32 3] 2 = Inr path \<and>
     merkle_root cut_hash [replicate 32 1, replicate 32 2, replicate 32 3] = Inr root \<and>
     verify_inclusion cut_hash (replicate 32 3) 2 3 path root"
  using merkle_proof_verifies [of cut_hash "[replicate 32 1, replicate 32 2, replicate 32 3]" 2]
  by (simp add: MAX_TREE_SIZE_def DIGEST_LENGTH_def numeral_3_eq_3)

text \<open>
  C3: Soundness by reduction: from an accepted proof that is not the honest one, for the leaf or the
  path, \<open>find_collision\<close> computes two different inputs with one hash.
\<close>

theorem forged_proof_collides:
  assumes "\<forall>x. length (H x) = 32" "merkle_root H leaves = Inr root"
    and "verify_inclusion H leaf i (length leaves) path root"
    and "leaf \<noteq> leaves ! i \<or> merkle_inclusion_proof H leaves i \<noteq> Inr path"
  shows "\<exists>x y. find_collision H leaf i leaves path = Some (x, y) \<and> x \<noteq> y \<and> H x = H y"
proof (rule find_collision [OF assms(1)])
  have v: "i < length leaves" "length leaves \<le> MAX_TREE_SIZE" "path_root H leaf i (length leaves) path = Some root"
    using assms(3) by (simp_all add: verify_inclusion_path_root)
  then have "merkle_inclusion_proof H leaves i = Inr (audit_path H leaves i)"
    by (cases leaves) (simp_all add: merkle_inclusion_proof_def validate_tree_range_def)
  then show "i < length leaves" "leaf \<noteq> leaves ! i \<or> path \<noteq> audit_path H leaves i"
    using assms(4) v(1) by auto
  show "path_root H leaf i (length leaves) path = Some (root_unchecked H leaves)"
    using v assms(2) by (auto simp: merkle_root_def split: if_splits)
qed

lemma forged_proof_collides_witness:
  "\<exists>x y. find_collision cut_hash (replicate 32 1) 0 [replicate 32 1, replicate 32 2]
     [replicate 32 3] = Some (x, y) \<and> x \<noteq> y \<and> cut_hash x = cut_hash y"
proof (rule forged_proof_collides)
  show "merkle_root cut_hash [replicate 32 1, replicate 32 2] = Inr (0x01 # 0x00 # replicate 30 1)"
    "verify_inclusion cut_hash (replicate 32 1) 0 (length [replicate 32 1 :: bytes, replicate 32 2]) [replicate 32 3]
       (0x01 # 0x00 # replicate 30 1)"
    "(replicate 32 1 :: bytes) \<noteq> [replicate 32 1, replicate 32 2] ! 0 \<or>
     merkle_inclusion_proof cut_hash [replicate 32 1, replicate 32 2] 0 \<noteq> Inr [replicate 32 3]"
    by code_simp+
qed simp

text \<open>C13: Two different lists of leaves, of whatever lengths, with one root yield a hash collision.\<close>

theorem root_binds_leaves:
  assumes "\<forall>x. length (H x) = 32" "merkle_root H xs = Inr root" "merkle_root H ys = Inr root" "xs \<noteq> ys"
  shows "\<exists>x y. root_collision H xs ys = Some (x, y) \<and> x \<noteq> y \<and> H x = H y"
  using assms by (intro root_collision) (auto simp: merkle_root_def split: if_splits)

lemma root_binds_leaves_witness:
  "\<exists>x y. root_collision cut_hash [replicate 32 1, replicate 32 2] [replicate 32 1, replicate 32 3] = Some (x, y) \<and>
     x \<noteq> y \<and> cut_hash x = cut_hash y"
proof (rule root_binds_leaves)
  show "merkle_root cut_hash [replicate 32 1, replicate 32 2] = Inr (0x01 # 0x00 # replicate 30 1)"
    "merkle_root cut_hash [replicate 32 1, replicate 32 3] = Inr (0x01 # 0x00 # replicate 30 1)"
    "[replicate 32 1, replicate 32 2] \<noteq> [replicate 32 1, replicate 32 3 :: bytes]"
    by code_simp+
qed simp

text \<open>
  The verification loop with its two shrinking counters computes the root along the tree of the
  announced size, and accepts exactly when that is the given root.
\<close>

theorem verify_walks_tree:
  "verify_inclusion H leaf index n path root \<longleftrightarrow>
     length leaf = DIGEST_LENGTH \<and> length root = DIGEST_LENGTH \<and> 1 \<le> n \<and> n \<le> MAX_TREE_SIZE \<and> index < n \<and>
     path_root H leaf index n path = Some root"
  by (simp add: verify_inclusion_path_root DIGEST_LENGTH_def)

text \<open>An accepted proof has at most one sibling per bit of the tree size, so at most 32.\<close>

theorem verified_proof_length:
  assumes "verify_inclusion H leaf index n path root"
  shows "length path \<le> 32 \<and> (n \<le> 2 ^ d \<longrightarrow> length path \<le> d)"
proof -
  have v: "index < n" "n \<le> MAX_TREE_SIZE" "path_root H leaf index n path = Some root"
    using assms by (simp_all add: verify_inclusion_path_root)
  then have "length path = length (sides index (n - 1))" by (auto simp: path_root_sides split: if_splits)
  moreover have "n - 1 < 2 ^ 32" using v(2) by (simp add: MAX_TREE_SIZE_def)
  moreover have "n \<le> 2 ^ d \<Longrightarrow> n - 1 < 2 ^ d" using v(1) by linarith
  ultimately show ?thesis using sides_length by metis
qed

lemma verified_proof_length_witness: "length [replicate 32 2 :: bytes] \<le> 32"
proof -
  have "verify_inclusion cut_hash (replicate 32 1) 0 2 [replicate 32 2] (0x01 # 0x00 # replicate 30 1)" by code_simp
  from verified_proof_length [OF this, of 1] show ?thesis by simp
qed

end
