(* ===== verification/Cbor_Maps.thy ===== *)
theory Cbor_Maps
  imports Cbor_Decode
begin

text \<open>
  The accessors through which the record codecs read a decoded CBOR map (\<open>src/poe_standard.rs\<close>, and the
  \<open>map_get\<close> of \<open>src/merkle.rs\<close>, which is the same function), and what they find after a round trip.

  Sorting a map with distinct keys does not change what \<open>map_get\<close> finds in it. Conversely, a map that is
  taken apart by \<open>map_get\<close> over a list of field names is put together again by listing the fields in any
  order: \<open>rebuilds v w\<close> says that the encoder, given \<open>v\<close>, writes the canonical value \<open>w\<close>.
\<close>

section \<open>The accessors\<close>

type_synonym cbor_pairs = "(CborValue \<times> CborValue) list"

definition map_get :: "cbor_pairs \<Rightarrow> rstring \<Rightarrow> CborValue option" where
  "map_get pairs key = map_of pairs (Text key)"

definition map_has :: "cbor_pairs \<Rightarrow> rstring \<Rightarrow> bool" where
  "map_has pairs key \<longleftrightarrow> map_get pairs key \<noteq> None"

fun as_map :: "CborValue \<Rightarrow> cbor_pairs option" where
  "as_map (CMap pairs) = Some pairs"
| "as_map _ = None"

fun as_bytes :: "CborValue \<Rightarrow> bytes option" where
  "as_bytes (Bytes b) = Some b"
| "as_bytes _ = None"

fun as_text :: "CborValue \<Rightarrow> rstring option" where
  "as_text (Text t) = Some t"
| "as_text _ = None"

definition text_keys :: "cbor_pairs \<Rightarrow> rstring list" where
  "text_keys pairs = List.map_filter (\<lambda>(k, _). as_text k) pairs"

fun is_non_text_key_map :: "CborValue \<Rightarrow> bool" where
  "is_non_text_key_map (CMap pairs) = (\<exists>(k, _)\<in>set pairs. as_text k = None)"
| "is_non_text_key_map _ = False"

lemma as_Some [simp]:
  "as_map v = Some ps \<longleftrightarrow> v = CMap ps" "as_bytes v = Some b \<longleftrightarrow> v = Bytes b" "as_text v = Some t \<longleftrightarrow> v = Text t"
  by (cases v; auto)+

lemma text_keys_set: "t \<in> set (text_keys pairs) \<longleftrightarrow> Text t \<in> fst ` set pairs"
  by (force simp: text_keys_def List.map_filter_def)

lemma text_key_mapD: "\<not> is_non_text_key_map (CMap pairs) \<Longrightarrow> (k, v) \<in> set pairs \<Longrightarrow> \<exists>t. k = Text t"
  by (cases k) auto

lemma map_get_set: "map_get pairs key = Some v \<Longrightarrow> (Text key, v) \<in> set pairs"
  by (simp add: map_get_def map_of_SomeD)

lemma map_get_in: "distinct (map fst pairs) \<Longrightarrow> (Text key, v) \<in> set pairs \<Longrightarrow> map_get pairs key = Some v"
  by (simp add: map_get_def)

lemma map_get_None: "map_get pairs key = None \<longleftrightarrow> Text key \<notin> fst ` set pairs"
  by (simp add: map_get_def map_of_eq_None_iff)

lemma map_get_mset:
  assumes "mset ps = mset qs" "distinct (map fst ps)"
  shows "map_get ps = map_get qs"
proof -
  have "distinct (map fst qs)" using assms by (metis mset_eq_imp_distinct_iff mset_map)
  then show ?thesis using assms
    by (intro ext) (metis map_get_def map_of_eqI map_of_inject_set mset_eq_setD)
qed

section \<open>Text keys encode injectively\<close>

lemma length_head: "length (write_type_and_argument m n) \<le> 9"
  by (simp add: write_type_and_argument_def write_header_def)

lemma enc_Text_inj:
  assumes len: "length s < usize_limit" "length t < usize_limit" and eq: "enc_cbor (Text s) = enc_cbor (Text t)"
  shows "s = t"
proof -
  let ?h = "\<lambda>k. write_type_and_argument 3 (of_nat k)"
  let ?d = "\<lparr>ddata = take 9 (enc_cbor (Text s)), dpos = 0\<rparr>"
  have d: "inside ?d" by (simp add: inside_def)
  have cut: "take 9 (enc_cbor (Text x)) = ?h (length x) @ take (9 - length (?h (length x))) x" for x
    using length_head by simp
  have r: "rest ?d = ?h (length s) @ take (9 - length (?h (length s))) s"
    "rest ?d = ?h (length t) @ take (9 - length (?h (length t))) t"
    by (simp_all only: rest_def decoder.select_convs drop_0 cut [symmetric] eq)
  have "(3 :: u8) < 8" by simp
  then have "length s = length t"
    using read_head_length [OF d r(1) _ len(1)] read_head_length [OF d r(2) _ len(2)] by auto
  then show ?thesis using eq by simp
qed

text \<open>A map of text keys can be encoded iff the keys are distinct and the values can be.\<close>

lemma keys_distinct_text:
  assumes "list_all (\<lambda>(k, v). length k < usize_limit) kvs"
  shows "keys_distinct (CMap (map (\<lambda>(k, v). (Text k, v)) kvs)) \<longleftrightarrow>
    distinct (map fst kvs) \<and> list_all (\<lambda>(k, v). keys_distinct v) kvs"
proof -
  have "inj_on (\<lambda>k. enc_cbor (Text k)) (set (map fst kvs))"
    using assms by (auto simp: inj_on_def list_all_iff intro!: enc_Text_inj simp del: enc_cbor.simps)
  then have "distinct (map (\<lambda>k. enc_cbor (Text k)) (map fst kvs)) \<longleftrightarrow> distinct (map fst kvs)"
    by (simp only: distinct_map simp_thms)
  then show ?thesis
    by (auto simp: comp_def case_prod_unfold list_all_iff simp del: enc_cbor.simps)
qed

section \<open>Lookups in the canonical form\<close>

lemma canon_cbor_eq_Text: "canon_cbor v = Text s \<longleftrightarrow> v = Text s" "Text s = canon_cbor v \<longleftrightarrow> v = Text s"
  by (cases v; auto)+

lemma map_of_canon_pairs:
  "map_of (map (map_prod canon_cbor canon_cbor) ps) (Text key) = map_option canon_cbor (map_of ps (Text key))"
  by (induction ps) (auto simp: canon_cbor_eq_Text)

text \<open>What a decoder finds in the canonical form of a map.\<close>

lemma map_get_canon:
  assumes "keys_distinct (CMap ps)" "canon_cbor (CMap ps) = CMap qs"
  shows "map_get qs key = map_option canon_cbor (map_get ps key)"
proof -
  let ?ps = "map (map_prod canon_cbor canon_cbor) ps"
  have "distinct (map enc_cbor (map fst ?ps))" using assms(1) by (simp add: comp_def)
  then have "distinct (map fst ?ps)" by (simp only: distinct_map)
  moreover have "mset ?ps = mset qs" using assms(2) by auto
  ultimately have "map_get ?ps = map_get qs" by (intro map_get_mset)
  then have "map_get qs key = map_get ?ps key" by simp
  then show ?thesis by (simp add: map_get_def map_of_canon_pairs)
qed

lemma canonical_distinct_keys: "canonical (CMap qs) \<Longrightarrow> distinct (map fst qs)"
proof -
  assume "canonical (CMap qs)"
  then have "distinct (map enc_cbor (map fst qs))"
    by (simp add: canonical_def strict_sorted_iff)
  then show ?thesis by (simp only: distinct_map)
qed

lemma canonical_map_get: "canonical (CMap qs) \<Longrightarrow> map_get qs key = Some v \<Longrightarrow> canonical v"
  using map_get_set by (fastforce simp: canonical_simps)

lemma canonical_Array_in: "canonical (Array vs) \<Longrightarrow> v \<in> set vs \<Longrightarrow> canonical v"
  by (simp add: canonical_simps)

section \<open>Taking a map apart and putting it together\<close>

definition fields_of :: "rstring list \<Rightarrow> cbor_pairs \<Rightarrow> cbor_pairs" where
  "fields_of ks qs = concat (map (\<lambda>k. case map_get qs k of None \<Rightarrow> [] | Some v \<Rightarrow> [(Text k, v)]) ks)"

lemma set_fields_of:
  assumes "distinct (map fst qs)"
  shows "set (fields_of ks qs) = {p \<in> set qs. fst p \<in> Text ` set ks}"
proof -
  have "(k, v) \<in> set (fields_of ks qs) \<longleftrightarrow> (\<exists>t\<in>set ks. k = Text t \<and> map_get qs t = Some v)" for k v
    by (auto simp: fields_of_def split: option.splits)
  moreover have "map_get qs t = Some v \<longleftrightarrow> (Text t, v) \<in> set qs" for t v
    using assms map_get_set map_get_in by blast
  ultimately show ?thesis by auto
qed

lemma distinct_fields_of: "distinct ks \<Longrightarrow> distinct (fields_of ks qs)"
proof (induction ks)
  case (Cons k ks)
  have "(Text k, v) \<notin> set (fields_of ks qs)" for v
    using Cons.prems by (auto simp: fields_of_def split: option.splits)
  then show ?case using Cons by (auto simp: fields_of_def split: option.splits)
qed (simp add: fields_of_def)

lemma mset_fields_of:
  assumes "distinct (map fst qs)" "distinct ks"
  shows "mset (fields_of ks qs @ filter (\<lambda>p. fst p \<notin> Text ` set ks) qs) = mset qs"
proof -
  have "distinct qs" using assms(1) by (simp add: distinct_map)
  then show ?thesis
    using assms distinct_fields_of [of ks qs] set_fields_of [of qs ks]
    by (subst set_eq_iff_mset_eq_distinct [symmetric]) auto
qed

lemma mset_fields_of_closed:
  assumes "distinct (map fst qs)" "distinct ks" "\<And>k v. (k, v) \<in> set qs \<Longrightarrow> k \<in> Text ` set ks"
  shows "mset (fields_of ks qs) = mset qs"
proof -
  have "filter (\<lambda>p. fst p \<notin> Text ` set ks) qs = []" using assms(3) by (fastforce simp: filter_empty_conv)
  then show ?thesis using mset_fields_of [OF assms(1,2)] by simp
qed

definition rebuilds :: "CborValue \<Rightarrow> CborValue \<Rightarrow> bool" where
  "rebuilds v w \<longleftrightarrow> keys_distinct v \<and> canon_cbor v = w"

lemma rebuilds_leaf [simp, intro]:
  "rebuilds (Text s) (Text s)" "rebuilds (Bytes b) (Bytes b)" "rebuilds (Unsigned n) (Unsigned n)"
  by (simp_all add: rebuilds_def)

lemma rebuilds_refl: "canonical v \<Longrightarrow> rebuilds v v"
  by (simp add: rebuilds_def canonical_def keys_distinct_ordered canon_cbor_ordered)

lemma rebuilds_Array: "list_all2 rebuilds vs ws \<Longrightarrow> rebuilds (Array vs) (Array ws)"
  by (auto simp: rebuilds_def list_all2_conv_all_nth list_all_length intro: nth_equalityI)

definition rebuilds_pairs :: "cbor_pairs \<Rightarrow> cbor_pairs \<Rightarrow> bool" where
  "rebuilds_pairs = list_all2 (\<lambda>(k, v) (k', v'). rebuilds k k' \<and> rebuilds v v')"

lemma rebuilds_pairs_canon:
  "rebuilds_pairs ps qs \<longleftrightarrow>
     map (map_prod canon_cbor canon_cbor) ps = qs \<and> (\<forall>(k, v)\<in>set ps. keys_distinct k \<and> keys_distinct v)"
  unfolding rebuilds_pairs_def rebuilds_def
  by (induction ps arbitrary: qs) (auto simp: list_all2_Cons1)

lemma rebuilds_CMap:
  assumes can: "canonical (CMap qs)" and ps: "rebuilds_pairs ps qs'" and perm: "mset qs' = mset qs"
  shows "rebuilds (CMap ps) (CMap qs)"
proof -
  let ?ps = "map (map_prod canon_cbor canon_cbor) ps"
  have sorted: "sorted (map (\<lambda>p. enc_cbor (fst p)) qs)" and dist: "distinct (map (\<lambda>p. enc_cbor (fst p)) qs)"
    using can by (auto simp: canonical_def strict_sorted_iff comp_def)
  have m: "mset ?ps = mset qs" using ps perm by (simp add: rebuilds_pairs_canon)
  then have "mset (map (\<lambda>p. enc_cbor (fst p)) ?ps) = mset (map (\<lambda>p. enc_cbor (fst p)) qs)"
    by (simp only: mset_map)
  then have "distinct (map (\<lambda>p. enc_cbor (fst p)) ?ps)" using dist mset_eq_imp_distinct_iff by blast
  then have d: "distinct (map (\<lambda>p. enc_cbor (canon_cbor (fst p))) ps)" by (simp add: comp_def)
  have kd: "keys_distinct (CMap ps)"
    using ps d by (auto simp: rebuilds_pairs_canon list_all_iff)
  have "sort_by (\<lambda>a b. compare_encoded_keys (enc_cbor (fst a)) (enc_cbor (fst b))) ?ps =
      sort_by (\<lambda>a b. compare_encoded_keys (enc_cbor (fst a)) (enc_cbor (fst b))) qs"
    using map_keys.sort_by_perm [OF m [symmetric] dist] by simp
  then show ?thesis using kd map_keys.sort_by_sorted [OF sorted] by (simp add: rebuilds_def)
qed

lemma rebuilds_pairs_append:
  "rebuilds_pairs ps qs \<Longrightarrow> rebuilds_pairs ps' qs' \<Longrightarrow> rebuilds_pairs (ps @ ps') (qs @ qs')"
  unfolding rebuilds_pairs_def by (rule list_all2_appendI)

lemma rebuilds_encode: "canonical w \<Longrightarrow> rebuilds v w \<Longrightarrow> encode_canonical_cbor v = Inr (enc_cbor w)"
  by (simp add: rebuilds_def encode_canonical_cbor_Inr_iff)

end
