(* ===== verification/Leaves_List.thy ===== *)
theory Leaves_List
  imports Cbor_Maps Merkle_Tree
begin

text \<open>
  The leaves-list codec of \<open>src/merkle.rs\<close>: the canonical-CBOR artefact that pins the leaves behind a
  Merkle commitment. Errors are their \<open>MerkleLeavesListErrorCode\<close>; the human-readable detail that
  travels with the code is not modelled.
\<close>

section \<open>The codec\<close>

datatype MerkleLeavesListErrorCode =
    MalformedLeaves
  | FormatUnsupported
  | LeafCountMismatch
  | RootMismatch

fun leaves_error_code :: "MerkleLeavesListErrorCode \<Rightarrow> rstring" where
  "leaves_error_code MalformedLeaves = lit ''SCHEMA_MERKLE_LEAVES_MALFORMED''"
| "leaves_error_code FormatUnsupported = lit ''SCHEMA_MERKLE_LEAVES_FORMAT_UNSUPPORTED''"
| "leaves_error_code LeafCountMismatch = lit ''SCHEMA_MERKLE_LEAF_COUNT_MISMATCH''"
| "leaves_error_code RootMismatch = lit ''MERKLE_ROOT_MISMATCH''"

definition LEAVES_LIST_FORMAT_V1 :: rstring where
  "LEAVES_LIST_FORMAT_V1 = lit ''cardano-poe-merkle-leaves-v1''"

record DecodedLeavesList =
  dl_format :: rstring
  dl_tree_alg :: rstring
  dl_root :: bytes
  dl_leaves :: "bytes list"
  dl_leaf_count :: nat
  dl_leaf_alg :: "rstring option"

definition leaves_list_pairs ::
  "bytes list \<Rightarrow> bytes \<Rightarrow> rstring option \<Rightarrow> (CborValue \<times> CborValue) list" where
  "leaves_list_pairs leaves root leaf_alg =
     [(cbor_text ''format'', Text LEAVES_LIST_FORMAT_V1),
      (cbor_text ''tree_alg'', Text MERKLE_ALG_ID),
      (cbor_text ''root'', Bytes root),
      (cbor_text ''leaves'', Array (map Bytes leaves)),
      (cbor_text ''leaf_count'', Unsigned (of_nat (length leaves)))] @
     (case leaf_alg of None \<Rightarrow> [] | Some alg \<Rightarrow> [(cbor_text ''leaf_alg'', Text alg)])"

definition encode_leaves_list ::
  "bytes list \<Rightarrow> bytes \<Rightarrow> rstring option \<Rightarrow> MerkleLeavesListErrorCode + bytes" where
  "encode_leaves_list leaves root leaf_alg =
     (if leaves = [] then Inl MalformedLeaves
      else case encode_canonical_cbor (CMap (leaves_list_pairs leaves root leaf_alg)) of
        Inl _ \<Rightarrow> Inl MalformedLeaves
      | Inr bs \<Rightarrow> Inr bs)"

text \<open>The loop over \<open>leaves_raw\<close>: every item a 32-byte string.\<close>

definition leaf_of_item :: "CborValue \<Rightarrow> MerkleLeavesListErrorCode + bytes" where
  "leaf_of_item item = (case item of
       Bytes b \<Rightarrow> if length b = DIGEST_LENGTH then Inr b else Inl MalformedLeaves
     | _ \<Rightarrow> Inl MalformedLeaves)"

definition text_field :: "(CborValue \<times> CborValue) list \<Rightarrow> string \<Rightarrow> MerkleLeavesListErrorCode + rstring" where
  "text_field pairs key = (case map_get pairs (lit key) of Some (Text s) \<Rightarrow> Inr s | _ \<Rightarrow> Inl MalformedLeaves)"

definition decode_leaves_pairs ::
  "(bytes \<Rightarrow> bytes) \<Rightarrow> (CborValue \<times> CborValue) list \<Rightarrow> MerkleLeavesListErrorCode + DecodedLeavesList" where
  "decode_leaves_pairs H pairs =
     and_then (text_field pairs ''format'') (\<lambda>format.
     if format \<noteq> LEAVES_LIST_FORMAT_V1 then Inl FormatUnsupported else
     and_then (text_field pairs ''tree_alg'') (\<lambda>tree_alg.
     if tree_alg \<noteq> MERKLE_ALG_ID then Inl MalformedLeaves else
     and_then (case map_get pairs (lit ''root'') of
         Some (Bytes b) \<Rightarrow> if length b = DIGEST_LENGTH then Inr b else Inl MalformedLeaves
       | _ \<Rightarrow> Inl MalformedLeaves) (\<lambda>root.
     and_then (case map_get pairs (lit ''leaves'') of
         Some (Array items) \<Rightarrow> if items \<noteq> [] then Inr items else Inl MalformedLeaves
       | _ \<Rightarrow> Inl MalformedLeaves) (\<lambda>leaves_raw.
     and_then (collect_res (map leaf_of_item leaves_raw)) (\<lambda>leaves.
     and_then (case map_get pairs (lit ''leaf_count'') of
         Some (Unsigned n) \<Rightarrow> Inr n
       | _ \<Rightarrow> Inl MalformedLeaves) (\<lambda>leaf_count.
     if leaf_count \<noteq> of_nat (length leaves) then Inl LeafCountMismatch else
     and_then (case map_get pairs (lit ''leaf_alg'') of
         None \<Rightarrow> Inr None
       | Some (Text s) \<Rightarrow> Inr (Some s)
       | Some _ \<Rightarrow> Inl MalformedLeaves) (\<lambda>leaf_alg.
     if root_unchecked H leaves \<noteq> root then Inl RootMismatch
     else Inr \<lparr>dl_format = format, dl_tree_alg = tree_alg, dl_root = root, dl_leaves = leaves,
            dl_leaf_count = length leaves, dl_leaf_alg = leaf_alg\<rparr>)))))))"

definition decode_leaves_list ::
  "(bytes \<Rightarrow> bytes) \<Rightarrow> bytes \<Rightarrow> MerkleLeavesListErrorCode + DecodedLeavesList" where
  "decode_leaves_list H bs = (case decode_canonical_cbor bs of
       Inr (CMap pairs) \<Rightarrow> decode_leaves_pairs H pairs
     | _ \<Rightarrow> Inl MalformedLeaves)"

section \<open>Lemmas\<close>

lemma leaves_keys_distinct: "keys_distinct (CMap (leaves_list_pairs leaves root leaf_alg))"
proof -
  have k: "distinct (map enc_cbor [cbor_text ''format'', cbor_text ''tree_alg'', cbor_text ''root'',
      cbor_text ''leaves'', cbor_text ''leaf_count'', cbor_text ''leaf_alg''])"
    by code_simp
  have "list_all id (map keys_distinct (map Bytes leaves))" by (simp add: list_all_iff)
  then show ?thesis using k
    by (cases leaf_alg) (auto simp: leaves_list_pairs_def cbor_text_def)
qed

lemma wf_leaves_list_pairs:
  assumes "list_all (\<lambda>l. length l = 32) leaves" "length root = 32" "length leaves < usize_limit"
    "\<And>s. leaf_alg = Some s \<Longrightarrow> utf8_valid s \<and> length s < usize_limit"
  shows "wf_cbor (CMap (leaves_list_pairs leaves root leaf_alg))"
proof -
  have u: "list_all utf8_valid [lit ''format'', lit ''tree_alg'', lit ''root'', lit ''leaves'', lit ''leaf_count'',
      lit ''leaf_alg'', LEAVES_LIST_FORMAT_V1, MERKLE_ALG_ID]"
    by code_simp
  have l: "length LEAVES_LIST_FORMAT_V1 = 28" "length MERKLE_ALG_ID = 14"
    by (simp_all add: LEAVES_LIST_FORMAT_V1_def MERKLE_ALG_ID_def)
  show ?thesis using assms u l
    by (cases leaf_alg) (auto simp: leaves_list_pairs_def cbor_text_def list_all_iff)
qed

lemma map_get_leaves_list_pairs:
  "map_get (leaves_list_pairs leaves root leaf_alg) (lit ''format'') = Some (Text LEAVES_LIST_FORMAT_V1)"
  "map_get (leaves_list_pairs leaves root leaf_alg) (lit ''tree_alg'') = Some (Text MERKLE_ALG_ID)"
  "map_get (leaves_list_pairs leaves root leaf_alg) (lit ''root'') = Some (Bytes root)"
  "map_get (leaves_list_pairs leaves root leaf_alg) (lit ''leaves'') = Some (Array (map Bytes leaves))"
  "map_get (leaves_list_pairs leaves root leaf_alg) (lit ''leaf_count'') =
     Some (Unsigned (of_nat (length leaves)))"
  "map_get (leaves_list_pairs leaves root leaf_alg) (lit ''leaf_alg'') = map_option Text leaf_alg"
proof -
  have k: "distinct [lit ''format'', lit ''tree_alg'', lit ''root'', lit ''leaves'', lit ''leaf_count'',
      lit ''leaf_alg'']"
    by code_simp
  then show
    "map_get (leaves_list_pairs leaves root leaf_alg) (lit ''format'') = Some (Text LEAVES_LIST_FORMAT_V1)"
    "map_get (leaves_list_pairs leaves root leaf_alg) (lit ''tree_alg'') = Some (Text MERKLE_ALG_ID)"
    "map_get (leaves_list_pairs leaves root leaf_alg) (lit ''root'') = Some (Bytes root)"
    "map_get (leaves_list_pairs leaves root leaf_alg) (lit ''leaves'') = Some (Array (map Bytes leaves))"
    "map_get (leaves_list_pairs leaves root leaf_alg) (lit ''leaf_count'') =
       Some (Unsigned (of_nat (length leaves)))"
    "map_get (leaves_list_pairs leaves root leaf_alg) (lit ''leaf_alg'') = map_option Text leaf_alg"
    by (auto simp: map_get_def leaves_list_pairs_def cbor_text_def split: option.split)
qed

lemma encode_leaves_list_Inr:
  "encode_leaves_list leaves root leaf_alg = Inr bs \<longleftrightarrow>
     leaves \<noteq> [] \<and> bs = enc_cbor (canon_cbor (CMap (leaves_list_pairs leaves root leaf_alg)))"
  using leaves_keys_distinct [of leaves root leaf_alg]
  by (auto simp: encode_leaves_list_def encode_canonical_cbor_def write_value_canon
      simp del: canon_cbor.simps keys_distinct.simps)

lemma encode_leaves_list_Inl:
  "encode_leaves_list leaves root leaf_alg = Inl e \<longleftrightarrow> leaves = [] \<and> e = MalformedLeaves"
  using leaves_keys_distinct [of leaves root leaf_alg]
  by (auto simp: encode_leaves_list_def encode_canonical_cbor_def write_value_canon
      simp del: canon_cbor.simps keys_distinct.simps)

lemma leaf_of_item_Bytes [simp]: "length b = 32 \<Longrightarrow> leaf_of_item (Bytes b) = Inr b"
  by (simp add: leaf_of_item_def DIGEST_LENGTH_def)

lemma leaf_of_item_Inr: "leaf_of_item item = Inr l \<longleftrightarrow> item = Bytes l \<and> length l = 32"
  by (auto simp: leaf_of_item_def DIGEST_LENGTH_def split: CborValue.splits if_splits)

lemma leaf_items: "map leaf_of_item items = map Inr ls \<longleftrightarrow> items = map Bytes ls \<and> list_all (\<lambda>l. length l = 32) ls"
  by (induction ls arbitrary: items) (auto simp: map_eq_Cons_conv leaf_of_item_Inr)

text \<open>What the encoder writes, the decoder reads back; a root that is not the tree's is refused.\<close>

lemma decode_encode_leaves:
  assumes enc: "encode_leaves_list leaves root leaf_alg = Inr bs"
    and size: "length bs < usize_limit" "length leaves < usize_limit"
    and digests: "list_all (\<lambda>l. length l = 32) leaves" "length root = 32"
    and alg: "\<And>s. leaf_alg = Some s \<Longrightarrow> utf8_valid s \<and> length s < usize_limit"
  shows "decode_leaves_list H bs =
    (if root_unchecked H leaves \<noteq> root then Inl RootMismatch
     else Inr \<lparr>dl_format = LEAVES_LIST_FORMAT_V1, dl_tree_alg = MERKLE_ALG_ID, dl_root = root,
            dl_leaves = leaves, dl_leaf_count = length leaves, dl_leaf_alg = leaf_alg\<rparr>)"
proof -
  let ?v = "CMap (leaves_list_pairs leaves root leaf_alg)"
  have ne: "leaves \<noteq> []" and bs: "bs = enc_cbor (canon_cbor ?v)"
    using enc by (simp_all add: encode_leaves_list_Inr)
  have "canonical (canon_cbor ?v)"
    using wf_leaves_list_pairs [OF digests size(2) alg] leaves_keys_distinct by (rule canonical_canon)
  then have dec: "decode_canonical_cbor bs = Inr (canon_cbor ?v)"
    using decode_iff_canonical [OF size(1)] bs by blast
  obtain qs where qs: "canon_cbor ?v = CMap qs" by simp
  have dec: "decode_canonical_cbor bs = Inr (CMap qs)" using dec qs by (simp only:)
  have get: "map_get qs key = map_option canon_cbor (map_get (leaves_list_pairs leaves root leaf_alg) key)" for key
    by (rule map_get_canon [OF leaves_keys_distinct qs])
  have items: "collect_res (map (leaf_of_item \<circ> (canon_cbor \<circ> Bytes)) leaves) = Inr leaves"
    using digests(1) by (induction leaves) auto
  show ?thesis
    using ne digests(2) items
    by (cases leaf_alg) (auto simp: decode_leaves_list_def dec decode_leaves_pairs_def text_field_def get
        map_get_leaves_list_pairs DIGEST_LENGTH_def simp del: canon_cbor.simps(6))
qed

text \<open>What the decoder accepts.\<close>

lemma decode_leaves_list_sound:
  assumes "decode_leaves_list H bs = Inr dl"
  shows "dl_format dl = LEAVES_LIST_FORMAT_V1" "dl_tree_alg dl = MERKLE_ALG_ID"
    "dl_leaves dl \<noteq> []" "list_all (\<lambda>l. length l = 32) (dl_leaves dl)"
    "dl_leaf_count dl = length (dl_leaves dl)"
    "merkle_root H (dl_leaves dl) = Inr (dl_root dl)" "length (dl_root dl) = 32"
proof -
  obtain pairs where p: "decode_leaves_pairs H pairs = Inr dl"
    using assms by (auto simp: decode_leaves_list_def split: sum.splits CborValue.splits)
  then show "dl_format dl = LEAVES_LIST_FORMAT_V1" "dl_tree_alg dl = MERKLE_ALG_ID"
    "dl_leaf_count dl = length (dl_leaves dl)" "length (dl_root dl) = 32"
    by (auto simp: decode_leaves_pairs_def res_simps DIGEST_LENGTH_def
        split: if_splits option.splits CborValue.splits)
  have ne: "dl_leaves dl \<noteq> []" and root: "root_unchecked H (dl_leaves dl) = dl_root dl"
    using p by (auto simp: decode_leaves_pairs_def res_simps split: if_splits option.splits CborValue.splits)
  show "dl_leaves dl \<noteq> []" by (rule ne)
  show "merkle_root H (dl_leaves dl) = Inr (dl_root dl)" using ne root by (simp add: merkle_root_def)
  show "list_all (\<lambda>l. length l = 32) (dl_leaves dl)"
    using p by (auto simp: decode_leaves_pairs_def res_simps leaf_items
        split: if_splits option.splits CborValue.splits)
qed

section \<open>Properties\<close>

text \<open>
  C26: What the leaves-list encoder writes, the decoder reads back, and it refuses a root that is not the
  tree's.
\<close>

theorem leaves_roundtrip:
  assumes "encode_leaves_list leaves root leaf_alg = Inr bs"
    and "length bs < usize_limit" "length leaves < usize_limit"
    and "list_all (\<lambda>l. length l = 32) leaves" "length root = 32"
    and "\<And>s. leaf_alg = Some s \<Longrightarrow> utf8_valid s \<and> length s < usize_limit"
  shows "decode_leaves_list H bs =
    (if merkle_root H leaves \<noteq> Inr root then Inl RootMismatch
     else Inr \<lparr>dl_format = LEAVES_LIST_FORMAT_V1, dl_tree_alg = MERKLE_ALG_ID, dl_root = root,
            dl_leaves = leaves, dl_leaf_count = length leaves, dl_leaf_alg = leaf_alg\<rparr>)"
  using decode_encode_leaves [OF assms] assms(1) by (simp add: merkle_root_def encode_leaves_list_Inr)

definition sample_list :: bytes where
  "sample_list = enc_cbor (canon_cbor (CMap
     (leaves_list_pairs [replicate 32 1] (0x00 # replicate 31 1) (Some (lit ''sha2-256'')))))"

lemma sample_list: "encode_leaves_list [replicate 32 1] (0x00 # replicate 31 1) (Some (lit ''sha2-256'')) = Inr sample_list"
  "length sample_list < usize_limit" "utf8_valid (lit ''sha2-256'')"
  "root_unchecked cut_hash [replicate 32 1] = 0x00 # replicate 31 1"
  by (simp add: encode_leaves_list_Inr sample_list_def)
    (simp only: sample_list_def length_enc_canon, code_simp+)

lemma leaves_roundtrip_witness:
  "decode_leaves_list cut_hash sample_list =
     Inr \<lparr>dl_format = LEAVES_LIST_FORMAT_V1, dl_tree_alg = MERKLE_ALG_ID, dl_root = 0x00 # replicate 31 1,
       dl_leaves = [replicate 32 1], dl_leaf_count = 1, dl_leaf_alg = Some (lit ''sha2-256'')\<rparr>"
  using leaves_roundtrip [OF sample_list(1,2), of cut_hash] sample_list(3,4) by (simp add: merkle_root_def)

text \<open>
  C27: Whatever the decoder accepts is a well-formed list: the two identifiers of the format, at least
  one leaf, digests of 32 bytes, the true leaf count, and the root of its own leaves.
\<close>

theorem leaves_list_sound:
  assumes "decode_leaves_list H bs = Inr dl"
  shows "dl_format dl = LEAVES_LIST_FORMAT_V1 \<and> dl_tree_alg dl = MERKLE_ALG_ID \<and> dl_leaves dl \<noteq> [] \<and>
    list_all (\<lambda>l. length l = DIGEST_LENGTH) (dl_leaves dl) \<and> dl_leaf_count dl = length (dl_leaves dl) \<and>
    length (dl_root dl) = DIGEST_LENGTH \<and> merkle_root H (dl_leaves dl) = Inr (dl_root dl)"
  using decode_leaves_list_sound [OF assms] by (simp add: DIGEST_LENGTH_def)

lemma leaves_list_sound_witness: "\<exists>dl. decode_leaves_list cut_hash sample_list = Inr dl \<and>
    merkle_root cut_hash (dl_leaves dl) = Inr (dl_root dl)"
proof -
  have "\<exists>dl. decode_leaves_list cut_hash sample_list = Inr dl"
    using decode_encode_leaves [OF sample_list(1,2), of cut_hash] sample_list(3,4) by simp
  then obtain dl where dl: "decode_leaves_list cut_hash sample_list = Inr dl" by blast
  from leaves_list_sound [OF dl] dl show ?thesis by blast
qed

end
