(* ===== verification/Stream64k.thy ===== *)
theory Stream64k
  imports L309_Prelude
begin

text \<open>
  The content format of \<open>src/sealed_poe/stream.rs\<close>: ChaCha20-Poly1305 in 64 KiB chunks, each under
  the nonce \<open>uint88_be(counter) || final_flag\<close>.

  The cipher is the \<open>chacha20poly1305\<close> crate's, so \<open>encrypt\<close> and \<open>decrypt\<close> are parameters
  (key, nonce, associated data, message). \<open>aead_laws\<close> is what RFC 8439 says of them: a 16-byte tag is
  appended, and decryption returns a plaintext exactly for its encryption (the cipher is
  deterministic). A panic of the source is \<open>None\<close>, an error \<open>Inl StreamError\<close>.

  \<open>sealed_chunks\<close> says what a stream is, chunk by chunk; the sealer is shown to produce it without a
  panic and the opener, which computes the layout from the total length, to accept nothing else.
\<close>

section \<open>The chunk machines\<close>

type_synonym encryption = "bytes \<Rightarrow> bytes \<Rightarrow> bytes \<Rightarrow> bytes \<Rightarrow> bytes"
type_synonym decryption = "bytes \<Rightarrow> bytes \<Rightarrow> bytes \<Rightarrow> bytes \<Rightarrow> bytes option"

definition CHUNK_SIZE :: nat where
  "CHUNK_SIZE = 65536"

definition TAG_SIZE :: nat where
  "TAG_SIZE = 16"

definition SEALED_CHUNK_SIZE :: nat where
  "SEALED_CHUNK_SIZE = CHUNK_SIZE + TAG_SIZE"

definition MAX_CHUNK_COUNT :: nat where
  "MAX_CHUNK_COUNT = 2 ^ 88"

definition PAYLOAD_KEY_LENGTH :: nat where
  "PAYLOAD_KEY_LENGTH = 32"

datatype StreamError = StreamError

definition chunk_nonce :: "nat \<Rightarrow> bool \<Rightarrow> bytes" where
  "chunk_nonce counter final = be_bytes 11 counter @ [if final then 1 else 0]"

definition payload_key_array :: "bytes \<Rightarrow> bytes option" where
  "payload_key_array payload_key = (if length payload_key = PAYLOAD_KEY_LENGTH then Some payload_key else None)"

record StreamSealer =
  sl_key :: bytes
  sl_counter :: nat
  sl_finished :: bool

definition sealer_new :: "bytes \<Rightarrow> StreamSealer option" where
  "sealer_new payload_key =
     map_option (\<lambda>k. \<lparr>sl_key = k, sl_counter = 0, sl_finished = False\<rparr>) (payload_key_array payload_key)"

definition seal_chunk ::
  "encryption \<Rightarrow> StreamSealer \<Rightarrow> bytes \<Rightarrow> bool \<Rightarrow> (bytes \<times> StreamSealer) option" where
  "seal_chunk encrypt s plaintext final =
     (if sl_finished s then None
      else if \<not> sl_counter s < MAX_CHUNK_COUNT then None
      else if final \<and> \<not> length plaintext \<le> CHUNK_SIZE then None
      else if final \<and> \<not> (plaintext \<noteq> [] \<or> sl_counter s = 0) then None
      else if \<not> final \<and> length plaintext \<noteq> CHUNK_SIZE then None
      else let nonce = chunk_nonce (sl_counter s) final
           in Some (encrypt (sl_key s) nonce [] plaintext,
                s\<lparr>sl_counter := sl_counter s + 1, sl_finished := final\<rparr>))"

record StreamOpener =
  op_key :: bytes
  op_counter :: nat
  op_finished :: bool

definition opener_new :: "bytes \<Rightarrow> StreamOpener option" where
  "opener_new payload_key =
     map_option (\<lambda>k. \<lparr>op_key = k, op_counter = 0, op_finished = False\<rparr>) (payload_key_array payload_key)"

definition open_chunk ::
  "decryption \<Rightarrow> StreamOpener \<Rightarrow> bytes \<Rightarrow> bool \<Rightarrow> StreamError + bytes \<times> StreamOpener" where
  "open_chunk decrypt s sealed final =
     (if op_finished s \<or> op_counter s \<ge> MAX_CHUNK_COUNT then Inl StreamError
      else if final \<and> (length sealed < TAG_SIZE \<or> length sealed > SEALED_CHUNK_SIZE) then Inl StreamError
      else if final \<and> length sealed = TAG_SIZE \<and> op_counter s \<noteq> 0 then Inl StreamError
      else if \<not> final \<and> length sealed \<noteq> SEALED_CHUNK_SIZE then Inl StreamError
      else let nonce = chunk_nonce (op_counter s) final
           in case decrypt (op_key s) nonce [] sealed of
                None \<Rightarrow> Inl StreamError
              | Some plaintext \<Rightarrow>
                  Inr (plaintext, s\<lparr>op_counter := op_counter s + 1, op_finished := final\<rparr>))"

section \<open>Whole buffers\<close>

text \<open>\<open>slice::chunks\<close>.\<close>

function chunks :: "nat \<Rightarrow> 'a list \<Rightarrow> 'a list list" where
  "chunks n xs = (if xs = [] \<or> n = 0 then [] else take n xs # chunks n (drop n xs))"
  by pat_completeness auto
termination
  by (relation "measure (\<lambda>(n, xs). length xs)") auto

declare chunks.simps [simp del]

fun seal_loop :: "encryption \<Rightarrow> StreamSealer \<Rightarrow> bytes list \<Rightarrow> bytes option" where
  "seal_loop encrypt sealer [] = Some []"
| "seal_loop encrypt sealer (chunk # rest) =
     (case seal_chunk encrypt sealer chunk (rest = []) of
        None \<Rightarrow> None
      | Some (sealed, sealer') \<Rightarrow> map_option (\<lambda>out. sealed @ out) (seal_loop encrypt sealer' rest))"

definition stream_seal :: "encryption \<Rightarrow> bytes \<Rightarrow> bytes \<Rightarrow> bytes option" where
  "stream_seal encrypt payload_key plaintext =
     (case sealer_new payload_key of
        None \<Rightarrow> None
      | Some sealer \<Rightarrow>
          if plaintext = [] then map_option fst (seal_chunk encrypt sealer [] True)
          else seal_loop encrypt sealer (chunks CHUNK_SIZE plaintext))"

text \<open>The loop \<open>for i in 0..full_chunks\<close>: the plaintext so far and the opener after it.\<close>

fun open_loop :: "decryption \<Rightarrow> bytes \<Rightarrow> nat \<Rightarrow> nat \<Rightarrow> StreamOpener \<Rightarrow> StreamError + bytes \<times> StreamOpener" where
  "open_loop decrypt ciphertext i 0 opener = Inr ([], opener)"
| "open_loop decrypt ciphertext i (Suc n) opener =
     and_then (open_chunk decrypt opener (take SEALED_CHUNK_SIZE (drop (i * SEALED_CHUNK_SIZE) ciphertext)) False)
       (\<lambda>(plaintext, opener').
         and_then (open_loop decrypt ciphertext (i + 1) n opener')
           (\<lambda>(out, opener''). Inr (plaintext @ out, opener'')))"

definition stream_layout :: "nat \<Rightarrow> StreamError + nat" where
  "stream_layout size_c =
     (if size_c < TAG_SIZE then Inl StreamError
      else let remainder = size_c mod SEALED_CHUNK_SIZE
           in if remainder = 0 then Inr (size_c div SEALED_CHUNK_SIZE - 1)
              else if remainder \<ge> TAG_SIZE then Inr (size_c div SEALED_CHUNK_SIZE)
              else Inl StreamError)"

definition stream_open :: "decryption \<Rightarrow> bytes \<Rightarrow> bytes \<Rightarrow> (StreamError + bytes) option" where
  "stream_open decrypt payload_key ciphertext =
     (case stream_layout (length ciphertext) of
        Inl e \<Rightarrow> Some (Inl e)
      | Inr full_chunks \<Rightarrow> (case opener_new payload_key of
          None \<Rightarrow> None
        | Some opener \<Rightarrow> Some
            (and_then (open_loop decrypt ciphertext 0 full_chunks opener) (\<lambda>(out, opener').
             and_then (open_chunk decrypt opener' (drop (full_chunks * SEALED_CHUNK_SIZE) ciphertext) True)
               (\<lambda>(plaintext, _). Inr (out @ plaintext))))))"

section \<open>What a stream is\<close>

definition aead_laws :: "encryption \<Rightarrow> decryption \<Rightarrow> bool" where
  "aead_laws encrypt decrypt \<longleftrightarrow>
     (\<forall>k n a p. length (encrypt k n a p) = length p + TAG_SIZE) \<and>
     (\<forall>k n a c p. decrypt k n a c = Some p \<longleftrightarrow> c = encrypt k n a p)"

fun sealed_chunks :: "encryption \<Rightarrow> bytes \<Rightarrow> nat \<Rightarrow> bytes list \<Rightarrow> bytes" where
  "sealed_chunks encrypt k i [] = []"
| "sealed_chunks encrypt k i (c # cs) =
     encrypt k (chunk_nonce i (cs = [])) [] c @ sealed_chunks encrypt k (i + 1) cs"

fun wf_chunks :: "nat \<Rightarrow> bytes list \<Rightarrow> bool" where
  "wf_chunks i [] = False"
| "wf_chunks i [c] = (length c \<le> CHUNK_SIZE \<and> (c \<noteq> [] \<or> i = 0))"
| "wf_chunks i (c # cs) = (length c = CHUNK_SIZE \<and> wf_chunks (i + 1) cs)"

definition plain_chunks :: "bytes \<Rightarrow> bytes list" where
  "plain_chunks p = (if p = [] then [[]] else chunks CHUNK_SIZE p)"

lemma CHUNK_SIZE_pos [simp]: "0 < CHUNK_SIZE" "CHUNK_SIZE \<noteq> 0"
  by (simp_all add: CHUNK_SIZE_def)

lemma wf_chunks_Cons: "cs \<noteq> [] \<Longrightarrow> wf_chunks i (c # cs) \<longleftrightarrow> length c = CHUNK_SIZE \<and> wf_chunks (i + 1) cs"
  by (cases cs) auto

lemma concat_chunks [simp]: "0 < n \<Longrightarrow> concat (chunks n xs) = xs"
  by (induction n xs rule: chunks.induct) (subst chunks.simps, auto)

lemma chunks_eq_Nil [simp]: "0 < n \<Longrightarrow> chunks n xs = [] \<longleftrightarrow> xs = []"
  by (subst chunks.simps) auto

lemma wf_chunks_chunks: "p \<noteq> [] \<Longrightarrow> wf_chunks i (chunks CHUNK_SIZE p)"
proof (induction "length p" arbitrary: p i rule: less_induct)
  case less
  then show ?case
    by (subst chunks.simps, cases "length p \<le> CHUNK_SIZE")
      (auto simp: wf_chunks_Cons chunks.simps [of _ "[]"])
qed

lemma wf_plain_chunks: "wf_chunks 0 (plain_chunks p)"
  by (simp add: plain_chunks_def wf_chunks_chunks)

lemma concat_plain_chunks [simp]: "concat (plain_chunks p) = p"
  by (simp add: plain_chunks_def)

text \<open>The chunks of a well-formed stream are determined by the plaintext.\<close>

lemma wf_chunks_nonempty: "wf_chunks i cs \<Longrightarrow> i \<noteq> 0 \<Longrightarrow> concat cs \<noteq> []"
  by (induction i cs rule: wf_chunks.induct) auto

lemma wf_chunks_unique: "wf_chunks i cs \<Longrightarrow> concat cs \<noteq> [] \<Longrightarrow> cs = chunks CHUNK_SIZE (concat cs)"
proof (induction cs arbitrary: i)
  case (Cons c cs)
  show ?case
  proof (cases "cs = []")
    case True
    then show ?thesis using Cons.prems by (subst chunks.simps) (auto simp: chunks.simps [of _ "[]"])
  next
    case False
    then have c: "length c = CHUNK_SIZE" "wf_chunks (i + 1) cs" using Cons.prems by (auto simp: wf_chunks_Cons)
    then have "cs = chunks CHUNK_SIZE (concat cs)" using Cons.IH wf_chunks_nonempty by auto
    then show ?thesis using c(1) Cons.prems(2) by (subst chunks.simps) auto
  qed
qed simp

lemma wf_chunks_plain: "wf_chunks 0 cs \<Longrightarrow> cs = plain_chunks (concat cs)"
proof (cases "concat cs = []")
  case True
  assume "wf_chunks 0 cs"
  then show ?thesis using True
  proof (cases cs)
    case (Cons c cs')
    then show ?thesis using \<open>wf_chunks 0 cs\<close> True wf_chunks_nonempty [of 1 cs']
      by (cases "cs' = []") (auto simp: plain_chunks_def wf_chunks_Cons)
  qed simp
next
  case False
  assume "wf_chunks 0 cs"
  then have "cs = chunks CHUNK_SIZE (concat cs)" using wf_chunks_unique False by blast
  then show ?thesis using False by (simp only: plain_chunks_def if_False)
qed

section \<open>Sealing\<close>

lemma seal_loop_sealed_chunks:
  "wf_chunks i cs \<Longrightarrow> i + length cs \<le> MAX_CHUNK_COUNT \<Longrightarrow>
   seal_loop encrypt \<lparr>sl_key = k, sl_counter = i, sl_finished = False\<rparr> cs = Some (sealed_chunks encrypt k i cs)"
proof (induction cs arbitrary: i)
  case (Cons c cs)
  then show ?case
    by (cases "cs = []") (auto simp: seal_chunk_def wf_chunks_Cons Let_def)
qed simp

lemma length_chunks: "0 < n \<Longrightarrow> length (chunks n xs) \<le> length xs"
proof (induction n xs rule: chunks.induct)
  case (1 n xs)
  then show ?case by (subst chunks.simps) (cases xs; force)
qed

lemma stream_seal_eq:
  assumes "length key = 32" "length p < usize_limit"
  shows "stream_seal encrypt key p = Some (sealed_chunks encrypt key 0 (plain_chunks p))"
proof -
  have "length (chunks CHUNK_SIZE p) \<le> MAX_CHUNK_COUNT"
    using length_chunks [of CHUNK_SIZE p] assms(2) by (simp add: MAX_CHUNK_COUNT_def)
  then show ?thesis using assms(1) seal_loop_sealed_chunks [of 0 "chunks CHUNK_SIZE p" encrypt key]
    by (auto simp: stream_seal_def sealer_new_def payload_key_array_def PAYLOAD_KEY_LENGTH_def plain_chunks_def
        seal_chunk_def MAX_CHUNK_COUNT_def Let_def wf_chunks_chunks)
qed

lemma chunk_nonce_inj:
  "i < MAX_CHUNK_COUNT \<Longrightarrow> j < MAX_CHUNK_COUNT \<Longrightarrow> chunk_nonce i a = chunk_nonce j b \<longleftrightarrow> i = j \<and> a = b"
proof
  assume "i < MAX_CHUNK_COUNT" "j < MAX_CHUNK_COUNT" "chunk_nonce i a = chunk_nonce j b"
  then have "be_bytes 11 i = be_bytes 11 j" "a = b" "i < 256 ^ 11" "j < 256 ^ 11"
    by (auto simp: chunk_nonce_def MAX_CHUNK_COUNT_def split: if_splits)
  then show "i = j \<and> a = b" by (metis nat_of_be_be_bytes)
qed simp

section \<open>Opening\<close>

text \<open>The opener, written along the chunks.\<close>

function open_chunks :: "decryption \<Rightarrow> bytes \<Rightarrow> nat \<Rightarrow> bytes \<Rightarrow> StreamError + bytes" where
  "open_chunks decrypt key i c =
     (let s = \<lparr>op_key = key, op_counter = i, op_finished = False\<rparr>
      in if length c \<le> SEALED_CHUNK_SIZE
         then and_then (open_chunk decrypt s c True) (\<lambda>(p, _). Inr p)
         else and_then (open_chunk decrypt s (take SEALED_CHUNK_SIZE c) False) (\<lambda>(p, _).
              and_then (open_chunks decrypt key (i + 1) (drop SEALED_CHUNK_SIZE c)) (\<lambda>q. Inr (p @ q))))"
  by pat_completeness auto
termination
  by (relation "measure (\<lambda>(d, k, i, c). length c)") (auto simp: SEALED_CHUNK_SIZE_def CHUNK_SIZE_def)

declare open_chunks.simps [simp del]

lemma and_then_assoc: "and_then (and_then m f) g = and_then m (\<lambda>x. and_then (f x) g)"
  by (cases m) auto

lemma open_chunk_Inr:
  "open_chunk decrypt s c final = Inr (p, s') \<Longrightarrow> s' = s\<lparr>op_counter := op_counter s + 1, op_finished := final\<rparr>"
  by (auto simp: open_chunk_def Let_def split: if_splits option.splits)

lemma open_loop_open_chunks:
  "length c = (i + n) * SEALED_CHUNK_SIZE + f \<Longrightarrow> 0 < f \<Longrightarrow> f \<le> SEALED_CHUNK_SIZE \<Longrightarrow>
   and_then (open_loop decrypt c i n \<lparr>op_key = key, op_counter = j, op_finished = False\<rparr>) (\<lambda>(out, s).
     and_then (open_chunk decrypt s (drop ((i + n) * SEALED_CHUNK_SIZE) c) True) (\<lambda>(p, _). Inr (out @ p))) =
   open_chunks decrypt key j (drop (i * SEALED_CHUNK_SIZE) c)"
proof (induction n arbitrary: i j)
  case 0
  then show ?case by (simp add: open_chunks.simps [of _ _ _ "drop (i * SEALED_CHUNK_SIZE) c"])
next
  case (Suc n)
  let ?s = "\<lparr>op_key = key, op_counter = j, op_finished = False\<rparr>"
  let ?c = "drop (i * SEALED_CHUNK_SIZE) c"
  have len: "length ?c > SEALED_CHUNK_SIZE" using Suc.prems by (simp add: add_mult_distrib)
  have ih: "and_then (open_loop decrypt c (i + 1) n \<lparr>op_key = key, op_counter = j + 1, op_finished = False\<rparr>)
      (\<lambda>(out, s). and_then (open_chunk decrypt s (drop ((i + Suc n) * SEALED_CHUNK_SIZE) c) True)
        (\<lambda>(p, _). Inr (out @ p))) =
      open_chunks decrypt key (j + 1) (drop SEALED_CHUNK_SIZE ?c)"
    using Suc.IH [of "i + 1" "j + 1"] Suc.prems by (simp add: algebra_simps)
  show ?case
  proof (cases "open_chunk decrypt ?s (take SEALED_CHUNK_SIZE ?c) False")
    case (Inl e)
    then show ?thesis using len by (simp add: open_chunks.simps [of _ _ _ ?c] Let_def)
  next
    case (Inr r)
    then obtain p where r: "r = (p, \<lparr>op_key = key, op_counter = j + 1, op_finished = False\<rparr>)"
      by (cases r) (auto dest: open_chunk_Inr)
    show ?thesis using len Inr r ih [symmetric]
      by (simp add: open_chunks.simps [of _ _ _ ?c] Let_def)
        (cases "open_loop decrypt c (i + 1) n \<lparr>op_key = key, op_counter = j + 1, op_finished = False\<rparr>";
          auto split: prod.splits simp: and_then_assoc case_prod_unfold)
  qed
qed

lemma sealed_size: "SEALED_CHUNK_SIZE = 65552" "TAG_SIZE = 16" "CHUNK_SIZE = 65536"
  by (simp_all add: SEALED_CHUNK_SIZE_def CHUNK_SIZE_def TAG_SIZE_def)

lemma open_chunks_size:
  "open_chunks decrypt key i c = Inr p \<Longrightarrow>
   TAG_SIZE \<le> length c \<and> (length c mod SEALED_CHUNK_SIZE = 0 \<or> TAG_SIZE \<le> length c mod SEALED_CHUNK_SIZE)"
proof (induction decrypt key i c arbitrary: p rule: open_chunks.induct)
  case (1 decrypt key i c)
  let ?s = "\<lparr>op_key = key, op_counter = i, op_finished = False\<rparr>"
  show ?case
  proof (cases "length c \<le> SEALED_CHUNK_SIZE")
    case True
    then have "TAG_SIZE \<le> length c" using "1.prems"
      by (auto simp: open_chunks.simps [of _ _ _ c] Let_def open_chunk_def res_simps split: if_splits)
    then show ?thesis using True by (cases "length c = SEALED_CHUNK_SIZE") auto
  next
    case False
    obtain p1 s1 where r: "open_chunk decrypt ?s (take SEALED_CHUNK_SIZE c) False = Inr (p1, s1)"
      and "\<exists>q. open_chunks decrypt key (i + 1) (drop SEALED_CHUNK_SIZE c) = Inr q"
      using "1.prems" False by (auto simp: open_chunks.simps [of _ _ _ c] Let_def res_simps)
    then have "TAG_SIZE \<le> length c - SEALED_CHUNK_SIZE \<and>
        ((length c - SEALED_CHUNK_SIZE) mod SEALED_CHUNK_SIZE = 0 \<or>
         TAG_SIZE \<le> (length c - SEALED_CHUNK_SIZE) mod SEALED_CHUNK_SIZE)"
      using "1.IH" [OF refl False r refl] by auto
    then show ?thesis using False by (auto simp: le_mod_geq)
  qed
qed

lemma stream_open_eq:
  assumes key: "length key = 32"
  shows "stream_open decrypt key c = Some (open_chunks decrypt key 0 c)"
proof -
  let ?s = "\<lparr>op_key = key, op_counter = 0, op_finished = False\<rparr>"
  have new: "opener_new key = Some ?s"
    using key by (simp add: opener_new_def payload_key_array_def PAYLOAD_KEY_LENGTH_def)
  show ?thesis
  proof (cases "stream_layout (length c)")
    case (Inl e)
    have "open_chunks decrypt key 0 c \<noteq> Inr p" for p
      using Inl open_chunks_size [of decrypt key 0 c p] by (auto simp: stream_layout_def Let_def split: if_splits)
    then have "open_chunks decrypt key 0 c = Inl e"
      by (cases "open_chunks decrypt key 0 c"; cases e) (auto intro: StreamError.exhaust)
    then show ?thesis using Inl by (simp add: stream_open_def)
  next
    case (Inr n)
    have "\<exists>f. length c = n * SEALED_CHUNK_SIZE + f \<and> 0 < f \<and> f \<le> SEALED_CHUNK_SIZE"
    proof (cases "length c mod SEALED_CHUNK_SIZE = 0")
      case True
      then have "n = length c div SEALED_CHUNK_SIZE - 1" "length c \<ge> SEALED_CHUNK_SIZE"
        using Inr by (auto simp: stream_layout_def sealed_size Let_def split: if_splits)
      then show ?thesis using True
        by (intro exI [of _ SEALED_CHUNK_SIZE]) (auto simp: sealed_size)
    next
      case False
      then have "n = length c div SEALED_CHUNK_SIZE" "TAG_SIZE \<le> length c mod SEALED_CHUNK_SIZE"
        using Inr by (auto simp: stream_layout_def Let_def split: if_splits)
      then show ?thesis
        by (intro exI [of _ "length c mod SEALED_CHUNK_SIZE"]) (auto simp: sealed_size)
    qed
    then obtain f where "length c = (0 + n) * SEALED_CHUNK_SIZE + f" "0 < f" "f \<le> SEALED_CHUNK_SIZE" by auto
    from open_loop_open_chunks [OF this, of decrypt key 0] show ?thesis
      by (simp add: stream_open_def Inr new)
  qed
qed

lemma open_chunk_aead:
  assumes "aead_laws encrypt decrypt" "i < MAX_CHUNK_COUNT"
  shows "open_chunk decrypt \<lparr>op_key = key, op_counter = i, op_finished = False\<rparr> c final = Inr (p, s) \<longleftrightarrow>
    c = encrypt key (chunk_nonce i final) [] p \<and> s = \<lparr>op_key = key, op_counter = i + 1, op_finished = final\<rparr> \<and>
    (if final then length p \<le> CHUNK_SIZE \<and> (p \<noteq> [] \<or> i = 0) else length p = CHUNK_SIZE)"
proof -
  let ?s = "\<lparr>op_key = key, op_counter = i, op_finished = False\<rparr>"
  have len: "length (encrypt key (chunk_nonce i final) [] p) = length p + TAG_SIZE"
    and dec: "decrypt key (chunk_nonce i final) [] c = Some p \<longleftrightarrow> c = encrypt key (chunk_nonce i final) [] p"
    using assms(1) by (simp_all add: aead_laws_def)
  have "open_chunk decrypt ?s c final = Inr (p, s) \<longleftrightarrow>
      decrypt key (chunk_nonce i final) [] c = Some p \<and>
      s = \<lparr>op_key = key, op_counter = i + 1, op_finished = final\<rparr> \<and>
      (if final then TAG_SIZE \<le> length c \<and> length c \<le> SEALED_CHUNK_SIZE \<and> (length c \<noteq> TAG_SIZE \<or> i = 0)
       else length c = SEALED_CHUNK_SIZE)"
    using assms(2) by (auto simp: open_chunk_def Let_def split: option.splits if_splits)
  then show ?thesis unfolding dec using len by (auto simp: SEALED_CHUNK_SIZE_def)
qed

lemma sealed_chunks_length:
  "aead_laws encrypt decrypt \<Longrightarrow> length (sealed_chunks encrypt k i cs) = length (concat cs) + length cs * TAG_SIZE"
  by (induction cs arbitrary: i) (auto simp: aead_laws_def)

text \<open>The opener accepts exactly the well-formed streams.\<close>

lemma open_chunks_iff:
  assumes laws: "aead_laws encrypt decrypt"
  shows "i + length c \<le> MAX_CHUNK_COUNT \<Longrightarrow> 
   open_chunks decrypt key i c = Inr p \<longleftrightarrow>
     (\<exists>cs. wf_chunks i cs \<and> p = concat cs \<and> c = sealed_chunks encrypt key i cs)"
proof (induction "length c" arbitrary: i c p rule: less_induct)
  case less
  have len: "length (encrypt key n [] q) = length q + TAG_SIZE" for n q
    using laws by (simp add: aead_laws_def)
  have size: "length c = length (concat cs) + length cs * TAG_SIZE"
    if "c = sealed_chunks encrypt key i cs" for cs
    using that sealed_chunks_length [OF laws] by simp
  show ?case
  proof (cases "length c \<le> SEALED_CHUNK_SIZE")
    case True
    have single: "\<exists>q. cs = [q]" if "c = sealed_chunks encrypt key i cs" "wf_chunks i cs" for cs
    proof (cases cs)
      case (Cons q cs')
      then show ?thesis using size [OF that(1)] that(2) True
        by (cases cs') (auto simp: sealed_size)
    qed (use that in simp)
    have rhs: "(\<exists>cs. wf_chunks i cs \<and> p = concat cs \<and> c = sealed_chunks encrypt key i cs) \<longleftrightarrow>
        wf_chunks i [p] \<and> c = encrypt key (chunk_nonce i True) [] p"
    proof
      assume "\<exists>cs. wf_chunks i cs \<and> p = concat cs \<and> c = sealed_chunks encrypt key i cs"
      then show "wf_chunks i [p] \<and> c = encrypt key (chunk_nonce i True) [] p"
        using single by fastforce
    next
      assume "wf_chunks i [p] \<and> c = encrypt key (chunk_nonce i True) [] p"
      then show "\<exists>cs. wf_chunks i cs \<and> p = concat cs \<and> c = sealed_chunks encrypt key i cs"
        by (intro exI [of _ "[p]"]) simp
    qed
    show ?thesis
    proof (cases "c = []")
      case True
      then have "open_chunks decrypt key i c \<noteq> Inr p" using open_chunks_size by (fastforce simp: TAG_SIZE_def)
      then show ?thesis unfolding rhs using True len [of "chunk_nonce i True" p]
        by (metis TAG_SIZE_def add_is_0 list.size(3) zero_neq_numeral)
    next
      case False
      then have "i < MAX_CHUNK_COUNT" using less.prems by (cases c) auto
      then show ?thesis unfolding rhs using True open_chunk_aead [OF laws, of i key c True p]
        by (auto simp: open_chunks.simps [of _ _ _ c] Let_def res_simps)
    qed
  next
    case False
    let ?c = "drop SEALED_CHUNK_SIZE c"
    have bound: "i < MAX_CHUNK_COUNT" "length ?c < length c" "i + 1 + length ?c \<le> MAX_CHUNK_COUNT"
      using False less.prems by (auto simp: sealed_size)
    note ih = less.hyps [OF bound(2,3)]
    show ?thesis
    proof
      assume "open_chunks decrypt key i c = Inr p"
      then obtain q s p' where "open_chunk decrypt \<lparr>op_key = key, op_counter = i, op_finished = False\<rparr>
          (take SEALED_CHUNK_SIZE c) False = Inr (q, s)"
        "open_chunks decrypt key (i + 1) ?c = Inr p'" "p = q @ p'"
        using False by (auto simp: open_chunks.simps [of _ _ _ c] Let_def res_simps)
      then have q: "take SEALED_CHUNK_SIZE c = encrypt key (chunk_nonce i False) [] q" "length q = CHUNK_SIZE"
        using open_chunk_aead [OF laws bound(1)] by simp_all
      obtain cs where cs: "wf_chunks (i + 1) cs" "p' = concat cs" "?c = sealed_chunks encrypt key (i + 1) cs"
        using ih \<open>open_chunks decrypt key (i + 1) ?c = Inr p'\<close> by blast
      have "cs \<noteq> []" using cs(1) by auto
      moreover have "c = take SEALED_CHUNK_SIZE c @ ?c" by simp
      ultimately show "\<exists>cs. wf_chunks i cs \<and> p = concat cs \<and> c = sealed_chunks encrypt key i cs"
        using q cs \<open>p = q @ p'\<close> by (intro exI [of _ "q # cs"]) (simp add: wf_chunks_Cons)
    next
      assume "\<exists>cs. wf_chunks i cs \<and> p = concat cs \<and> c = sealed_chunks encrypt key i cs"
      then obtain cs where cs: "wf_chunks i cs" "p = concat cs" "c = sealed_chunks encrypt key i cs" by blast
      then obtain q cs' where c: "cs = q # cs'" by (cases cs) auto
      have "cs' \<noteq> []" using False size [OF cs(3)] cs(1) c by (auto simp: sealed_size)
      then have q: "length q = CHUNK_SIZE" "wf_chunks (i + 1) cs'"
        and app: "c = encrypt key (chunk_nonce i False) [] q @ sealed_chunks encrypt key (i + 1) cs'"
        using cs c by (auto simp: wf_chunks_Cons)
      have "length (encrypt key (chunk_nonce i False) [] q) = SEALED_CHUNK_SIZE"
        using len q by (simp add: SEALED_CHUNK_SIZE_def)
      then have split: "take SEALED_CHUNK_SIZE c = encrypt key (chunk_nonce i False) [] q"
        "?c = sealed_chunks encrypt key (i + 1) cs'"
        using app by simp_all
      have "open_chunk decrypt \<lparr>op_key = key, op_counter = i, op_finished = False\<rparr>
          (take SEALED_CHUNK_SIZE c) False =
          Inr (q, \<lparr>op_key = key, op_counter = i + 1, op_finished = False\<rparr>)"
        using open_chunk_aead [OF laws bound(1)] split(1) q(1) by simp
      moreover have "open_chunks decrypt key (i + 1) ?c = Inr (concat cs')"
        unfolding split(2) using ih split(2) q(2) by (metis less.hyps bound(2,3))
      ultimately show "open_chunks decrypt key i c = Inr p"
        using False cs(2) c by (simp add: open_chunks.simps [of _ _ _ c] Let_def)
    qed
  qed
qed

text \<open>The whole-buffer functions are inverse to each other.\<close>

lemma stream_open_iff_seal:
  assumes laws: "aead_laws encrypt decrypt" and key: "length key = 32"
    and c: "length c < usize_limit" and p: "length p < usize_limit"
  shows "stream_open decrypt key c = Some (Inr p) \<longleftrightarrow> stream_seal encrypt key p = Some c"
proof -
  have "0 + length c \<le> MAX_CHUNK_COUNT" using c by (simp add: MAX_CHUNK_COUNT_def)
  from open_chunks_iff [OF laws this]
  have "open_chunks decrypt key 0 c = Inr p \<longleftrightarrow> c = sealed_chunks encrypt key 0 (plain_chunks p)"
    using wf_chunks_plain wf_plain_chunks concat_plain_chunks by metis
  then show ?thesis by (auto simp: stream_open_eq [OF key] stream_seal_eq [OF key p])
qed

text \<open>Sealing adds one tag per chunk, and an empty plaintext still has one chunk.\<close>

lemma length_plain_chunks: "length (plain_chunks p) = max 1 ((length p + CHUNK_SIZE - 1) div CHUNK_SIZE)"
proof -
  have "length (chunks n xs) = (length xs + n - 1) div n" if "0 < n" for n and xs :: bytes
    using that
  proof (induction n xs rule: chunks.induct)
    case (1 n xs)
    show ?case
    proof (cases "length xs \<le> n")
      case True
      then show ?thesis using "1.prems"
        by (subst chunks.simps, cases xs) (auto simp: chunks.simps [of n "[]"] div_eq_dividend_iff
            intro!: div_nat_eqI [symmetric])
    next
      case False
      then have "length (chunks n xs) = Suc ((length xs - n + n - 1) div n)"
        using 1 by (subst chunks.simps) auto
      also have "\<dots> = (length xs + n - 1) div n"
        using False "1.prems" by (simp add: le_div_geq)
      finally show ?thesis .
    qed
  qed
  then show ?thesis by (cases "length p") (auto simp: plain_chunks_def CHUNK_SIZE_def)
qed

lemma stream_seal_length:
  assumes "aead_laws encrypt decrypt" "length key = 32" "length p < usize_limit"
    and "stream_seal encrypt key p = Some c"
  shows "length c = length p + max 1 ((length p + CHUNK_SIZE - 1) div CHUNK_SIZE) * TAG_SIZE"
  using assms sealed_chunks_length [OF assms(1)] length_plain_chunks by (auto simp: stream_seal_eq)

section \<open>Properties\<close>

text \<open>
  The witnesses use a cipher without secrecy: the message is followed by a tag that repeats the nonce.
\<close>

definition plain_encrypt :: encryption where
  "plain_encrypt k n a p = p @ take 16 (n @ replicate 16 0)"

definition plain_decrypt :: decryption where
  "plain_decrypt k n a c =
     (if 16 \<le> length c \<and> drop (length c - 16) c = take 16 (n @ replicate 16 0)
      then Some (take (length c - 16) c) else None)"

lemma plain_laws: "aead_laws plain_encrypt plain_decrypt"
proof -
  have "plain_decrypt k n a c = Some p \<longleftrightarrow> c = plain_encrypt k n a p" for k n a c p
  proof
    assume "plain_decrypt k n a c = Some p"
    then show "c = plain_encrypt k n a p"
      by (simp add: plain_decrypt_def plain_encrypt_def split: if_splits) (metis append_take_drop_id)
  qed (simp add: plain_decrypt_def plain_encrypt_def)
  then show ?thesis by (auto simp: aead_laws_def plain_encrypt_def TAG_SIZE_def min_def)
qed

text \<open>
  C11: Opening a stream returns a plaintext exactly when the stream is that plaintext's sealing: the
  two whole-buffer functions are inverse, and nothing else is accepted.
\<close>

theorem stream_open_inverts_seal:
  assumes "aead_laws encrypt decrypt" "length key = PAYLOAD_KEY_LENGTH"
    and "length c < usize_limit" "length p < usize_limit"
  shows "stream_open decrypt key c = Some (Inr p) \<longleftrightarrow> stream_seal encrypt key p = Some c"
  using stream_open_iff_seal assms by (simp add: PAYLOAD_KEY_LENGTH_def)

lemma stream_open_inverts_seal_witness:
  "stream_open plain_decrypt (replicate 32 7) ([1, 2, 3] @ replicate 11 0 @ [1, 0, 0, 0, 0]) = Some (Inr [1, 2, 3])"
proof -
  have "stream_seal plain_encrypt (replicate 32 7) [1, 2, 3] = Some ([1, 2, 3] @ replicate 11 0 @ [1, 0, 0, 0, 0])"
    by code_simp
  then show ?thesis
    using stream_open_inverts_seal [OF plain_laws, of "replicate 32 7"] by (simp add: PAYLOAD_KEY_LENGTH_def)
qed

text \<open>
  A sealed stream is as long as its plaintext plus one tag per 64 KiB chunk, with one chunk even
  when the plaintext is empty.
\<close>

theorem sealed_stream_length:
  assumes "aead_laws encrypt decrypt" "length key = PAYLOAD_KEY_LENGTH" "length p < usize_limit"
  shows "\<exists>c. stream_seal encrypt key p = Some c \<and>
    length c = length p + max 1 ((length p + CHUNK_SIZE - 1) div CHUNK_SIZE) * TAG_SIZE"
proof -
  have key: "length key = 32" using assms(2) by (simp add: PAYLOAD_KEY_LENGTH_def)
  from stream_seal_eq [OF this assms(3)] obtain c where "stream_seal encrypt key p = Some c" by blast
  with stream_seal_length [OF assms(1) key assms(3) this] show ?thesis by blast
qed

lemma sealed_stream_length_witness:
  "\<exists>c. stream_seal plain_encrypt (replicate 32 7) [1, 2, 3] = Some c \<and> length c = 19"
  using sealed_stream_length [OF plain_laws, of "replicate 32 7" "[1, 2, 3]"]
  by (simp add: PAYLOAD_KEY_LENGTH_def CHUNK_SIZE_def TAG_SIZE_def)

text \<open>A caller's run of the sealer, whatever chunks and flags it passes.\<close>

fun sealer_run :: "encryption \<Rightarrow> StreamSealer \<Rightarrow> (bytes \<times> bool) list \<Rightarrow> (bytes list \<times> StreamSealer) option" where
  "sealer_run encrypt s [] = Some ([], s)"
| "sealer_run encrypt s ((p, final) # xs) = (case seal_chunk encrypt s p final of
       None \<Rightarrow> None
     | Some (c, s') \<Rightarrow> map_option (\<lambda>(cs, s''). (c # cs, s'')) (sealer_run encrypt s' xs))"

fun nonces_from :: "nat \<Rightarrow> (bytes \<times> bool) list \<Rightarrow> bytes list" where
  "nonces_from i [] = []"
| "nonces_from i ((p, final) # xs) = chunk_nonce i final # nonces_from (i + 1) xs"

lemma nonces_from_counter: "n \<in> set (nonces_from i xs) \<Longrightarrow> \<exists>j f. i \<le> j \<and> j < i + length xs \<and> n = chunk_nonce j f"
proof (induction i xs rule: nonces_from.induct)
  case (2 i p final xs)
  show ?case
  proof (cases "n = chunk_nonce i final")
    case False
    then have "n \<in> set (nonces_from (i + 1) xs)" using "2.prems" by simp
    from "2.IH" [OF this] obtain j f where "i + 1 \<le> j" "j < i + 1 + length xs" "n = chunk_nonce j f" by blast
    then show ?thesis by (intro exI [of _ j] exI [of _ f]) simp
  qed auto
qed simp

lemma distinct_nonces_from: "i + length xs \<le> MAX_CHUNK_COUNT \<Longrightarrow> distinct (nonces_from i xs)"
proof (induction i xs rule: nonces_from.induct)
  case (2 i p final xs)
  have "chunk_nonce i final \<notin> set (nonces_from (i + 1) xs)"
    using "2.prems" by (auto dest!: nonces_from_counter simp: chunk_nonce_inj)
  then show ?case using 2 by simp
qed simp

lemma sealer_run_spec:
  "sealer_run encrypt s xs = Some (cs, s') \<Longrightarrow> sl_counter s \<le> MAX_CHUNK_COUNT \<Longrightarrow>
   sl_counter s' = sl_counter s + length xs \<and> sl_counter s' \<le> MAX_CHUNK_COUNT \<and>
   cs = map2 (\<lambda>n (p, _). encrypt (sl_key s) n [] p) (nonces_from (sl_counter s) xs) xs \<and>
   (\<forall>x\<in>set (butlast xs). \<not> snd x)"
proof (induction encrypt s xs arbitrary: cs rule: sealer_run.induct)
  case (2 encrypt s p final xs)
  obtain c s1 where c: "seal_chunk encrypt s p final = Some (c, s1)" using "2.prems" by (auto split: option.splits)
  with "2.prems" obtain cs1 where cs: "sealer_run encrypt s1 xs = Some (cs1, s')" "cs = c # cs1" by auto
  have s1: "s1 = s\<lparr>sl_counter := sl_counter s + 1, sl_finished := final\<rparr>" "sl_counter s < MAX_CHUNK_COUNT"
    "c = encrypt (sl_key s) (chunk_nonce (sl_counter s) final) [] p"
    using c by (auto simp: seal_chunk_def Let_def split: if_splits)
  have "xs \<noteq> [] \<Longrightarrow> \<not> final"
    using cs(1) s1(1) by (cases xs) (auto simp: seal_chunk_def)
  then show ?case using "2.IH" [OF c refl cs(1)] s1 cs(2) by auto
qed simp

text \<open>
  C12: Whatever a caller feeds to a sealer, no two chunks of the run are encrypted under one nonce, the
  counter never exceeds its 88 bits, and only the last chunk carries the final flag.
\<close>

theorem sealer_nonces_distinct:
  assumes "sealer_new key = Some s" "sealer_run encrypt s xs = Some (cs, s')"
  shows "distinct (nonces_from 0 xs) \<and> cs = map2 (\<lambda>n (p, _). encrypt key n [] p) (nonces_from 0 xs) xs \<and>
    length xs \<le> MAX_CHUNK_COUNT \<and> (\<forall>x\<in>set (butlast xs). \<not> snd x)"
proof -
  have "sl_counter s = 0" "sl_key s = key"
    using assms(1) by (auto simp: sealer_new_def payload_key_array_def split: if_splits)
  then show ?thesis using sealer_run_spec [OF assms(2)] distinct_nonces_from [of 0 xs] by auto
qed

lemma sealer_nonces_distinct_witness:
  "distinct (nonces_from 0 [(replicate CHUNK_SIZE 1, False), ([2], True)])"
proof -
  let ?xs = "[(replicate CHUNK_SIZE 1, False), ([2], True)]"
  let ?s = "\<lparr>sl_key = replicate 32 7, sl_counter = 0, sl_finished = False\<rparr>"
  have "sealer_new (replicate 32 7) = Some ?s"
    by (simp add: sealer_new_def payload_key_array_def PAYLOAD_KEY_LENGTH_def)
  moreover have "\<exists>cs s'. sealer_run plain_encrypt ?s ?xs = Some (cs, s')"
    by (simp add: seal_chunk_def MAX_CHUNK_COUNT_def Let_def) (simp add: CHUNK_SIZE_def)
  ultimately show ?thesis using sealer_nonces_distinct by blast
qed

end
