(* ===== verification/Poe_Codes.thy ===== *)
theory Poe_Codes
  imports L309_Prelude
begin

text \<open>
  The error-code catalogue of \<open>src/poe_standard.rs\<close>: the codes in registry order, their wire strings,
  severities and emitting layers. The derived order of the Rust enum is the registry order, so
  \<open>ErrorCode\<close> is an instance of \<open>linorder\<close> by \<open>registry_index\<close>.
\<close>

datatype ErrorCode =
    MalformedCbor
  | SchemaTypeMismatch
  | SchemaMissingRequired
  | SchemaUnknownField
  | SchemaInvalidLiteral
  | SchemaEmptyRecord
  | HashDigestLengthMismatch
  | UnsupportedHashAlg
  | UnsupportedMerkleCommitAlg
  | SchemaMerkleLeafCountInvalid
  | InvalidUri
  | ChunkTooLarge
  | UnauthenticatedCipherForbidden
  | UnsupportedAeadAlg
  | NonceLengthMismatch
  | UnsupportedEnvelopeScheme
  | EncUnsupported
  | EncSlotsEmpty
  | EncSlotInvalidShape
  | UnsupportedKemAlg
  | EncKemRequired
  | KemEpkLengthMismatch
  | KemCtLengthMismatch
  | WrapLengthMismatch
  | EncSlotsMacInvalidLength
  | EncSlotsMacRequired
  | EncSlotsRequired
  | EncSlotsDuplicateKemMaterial
  | EncSlotsTooMany
  | EncEnvelopeTooLarge
  | EncExclusivityViolation
  | EncNoKeyPath
  | EncRequiresContentHash
  | EncPassphraseAlgUnsupported
  | EncPassphraseSaltTooShort
  | EncPassphraseSaltTooLong
  | EncPassphraseArgon2ParamsTooLow
  | EncPassphraseParamsExceedPolicy
  | MalformedSigCoseSign1
  | SignatureUnsupported
  | SigEntryInvalidShape
  | SigEntryKidCoseKeyConflict
  | SigPrivateKeyLeaked
  | SupersedesTxInvalidLength
  | ExtensionUnsupportedCritical
  | CritShapeInvalid
  | TxNotFound
  | ProviderUnavailable
  | TxIntegrityMismatch
  | MetadataNotFound
  | InsufficientConfirmations
  | SignatureInvalid
  | SignerKeyUnresolved
  | WalletAddressMismatch
  | UriTargetForbidden
  | UriIntegrityMismatch
  | UriProviderIntegrityMismatch
  | UriFetchFailed
  | ContentUnavailable
  | ContentFetchLimitExceeded
  | CiphertextUnavailable
  | ServiceIndependenceViolation
  | WrongDecryptionInputShape
  | WrongRecipientKey
  | TamperedHeader
  | TamperedCiphertext
  | KdfDerivationFailed
  | EncPassphraseUnnormalizable
  | EncPassphraseEmpty
  | SchemaMerkleLeafCountMismatch
  | SchemaMerkleLeavesFormatUnsupported
  | SchemaMerkleLeavesMalformed
  | MerkleRootMismatch
  | MerkleLeavesUnavailable
  | MerkleUnsupported
  | OutOfProfileSkipped

datatype Severity = SevError | SevWarning | SevInfo

datatype ErrorCodePart = PartA | PartB | Carriage

definition ERROR_CODES :: "ErrorCode list" where
  "ERROR_CODES = [
     MalformedCbor, SchemaTypeMismatch, SchemaMissingRequired, SchemaUnknownField,
     SchemaInvalidLiteral, SchemaEmptyRecord, HashDigestLengthMismatch, UnsupportedHashAlg,
     UnsupportedMerkleCommitAlg, SchemaMerkleLeafCountInvalid, InvalidUri, ChunkTooLarge,
     UnauthenticatedCipherForbidden, UnsupportedAeadAlg, NonceLengthMismatch,
     UnsupportedEnvelopeScheme, EncUnsupported, EncSlotsEmpty, EncSlotInvalidShape,
     UnsupportedKemAlg, EncKemRequired, KemEpkLengthMismatch, KemCtLengthMismatch,
     WrapLengthMismatch, EncSlotsMacInvalidLength, EncSlotsMacRequired, EncSlotsRequired,
     EncSlotsDuplicateKemMaterial, EncSlotsTooMany, EncEnvelopeTooLarge, EncExclusivityViolation,
     EncNoKeyPath, EncRequiresContentHash, EncPassphraseAlgUnsupported, EncPassphraseSaltTooShort,
     EncPassphraseSaltTooLong, EncPassphraseArgon2ParamsTooLow, EncPassphraseParamsExceedPolicy,
     MalformedSigCoseSign1, SignatureUnsupported, SigEntryInvalidShape, SigEntryKidCoseKeyConflict,
     SigPrivateKeyLeaked, SupersedesTxInvalidLength, ExtensionUnsupportedCritical,
     CritShapeInvalid, TxNotFound, ProviderUnavailable, TxIntegrityMismatch, MetadataNotFound,
     InsufficientConfirmations, SignatureInvalid, SignerKeyUnresolved, WalletAddressMismatch,
     UriTargetForbidden, UriIntegrityMismatch, UriProviderIntegrityMismatch, UriFetchFailed,
     ContentUnavailable, ContentFetchLimitExceeded, CiphertextUnavailable,
     ServiceIndependenceViolation, WrongDecryptionInputShape, WrongRecipientKey, TamperedHeader,
     TamperedCiphertext, KdfDerivationFailed, EncPassphraseUnnormalizable, EncPassphraseEmpty,
     SchemaMerkleLeafCountMismatch, SchemaMerkleLeavesFormatUnsupported,
     SchemaMerkleLeavesMalformed, MerkleRootMismatch, MerkleLeavesUnavailable, MerkleUnsupported,
     OutOfProfileSkipped]"

primrec code_string :: "ErrorCode \<Rightarrow> string" where
  "code_string MalformedCbor = ''MALFORMED_CBOR''"
| "code_string SchemaTypeMismatch = ''SCHEMA_TYPE_MISMATCH''"
| "code_string SchemaMissingRequired = ''SCHEMA_MISSING_REQUIRED''"
| "code_string SchemaUnknownField = ''SCHEMA_UNKNOWN_FIELD''"
| "code_string SchemaInvalidLiteral = ''SCHEMA_INVALID_LITERAL''"
| "code_string SchemaEmptyRecord = ''SCHEMA_EMPTY_RECORD''"
| "code_string HashDigestLengthMismatch = ''HASH_DIGEST_LENGTH_MISMATCH''"
| "code_string UnsupportedHashAlg = ''UNSUPPORTED_HASH_ALG''"
| "code_string UnsupportedMerkleCommitAlg = ''UNSUPPORTED_MERKLE_COMMIT_ALG''"
| "code_string SchemaMerkleLeafCountInvalid = ''SCHEMA_MERKLE_LEAF_COUNT_INVALID''"
| "code_string InvalidUri = ''INVALID_URI''"
| "code_string ChunkTooLarge = ''CHUNK_TOO_LARGE''"
| "code_string UnauthenticatedCipherForbidden = ''UNAUTHENTICATED_CIPHER_FORBIDDEN''"
| "code_string UnsupportedAeadAlg = ''UNSUPPORTED_AEAD_ALG''"
| "code_string NonceLengthMismatch = ''NONCE_LENGTH_MISMATCH''"
| "code_string UnsupportedEnvelopeScheme = ''UNSUPPORTED_ENVELOPE_SCHEME''"
| "code_string EncUnsupported = ''ENC_UNSUPPORTED''"
| "code_string EncSlotsEmpty = ''ENC_SLOTS_EMPTY''"
| "code_string EncSlotInvalidShape = ''ENC_SLOT_INVALID_SHAPE''"
| "code_string UnsupportedKemAlg = ''UNSUPPORTED_KEM_ALG''"
| "code_string EncKemRequired = ''ENC_KEM_REQUIRED''"
| "code_string KemEpkLengthMismatch = ''KEM_EPK_LENGTH_MISMATCH''"
| "code_string KemCtLengthMismatch = ''KEM_CT_LENGTH_MISMATCH''"
| "code_string WrapLengthMismatch = ''WRAP_LENGTH_MISMATCH''"
| "code_string EncSlotsMacInvalidLength = ''ENC_SLOTS_MAC_INVALID_LENGTH''"
| "code_string EncSlotsMacRequired = ''ENC_SLOTS_MAC_REQUIRED''"
| "code_string EncSlotsRequired = ''ENC_SLOTS_REQUIRED''"
| "code_string EncSlotsDuplicateKemMaterial = ''ENC_SLOTS_DUPLICATE_KEM_MATERIAL''"
| "code_string EncSlotsTooMany = ''ENC_SLOTS_TOO_MANY''"
| "code_string EncEnvelopeTooLarge = ''ENC_ENVELOPE_TOO_LARGE''"
| "code_string EncExclusivityViolation = ''ENC_EXCLUSIVITY_VIOLATION''"
| "code_string EncNoKeyPath = ''ENC_NO_KEY_PATH''"
| "code_string EncRequiresContentHash = ''ENC_REQUIRES_CONTENT_HASH''"
| "code_string EncPassphraseAlgUnsupported = ''ENC_PASSPHRASE_ALG_UNSUPPORTED''"
| "code_string EncPassphraseSaltTooShort = ''ENC_PASSPHRASE_SALT_TOO_SHORT''"
| "code_string EncPassphraseSaltTooLong = ''ENC_PASSPHRASE_SALT_TOO_LONG''"
| "code_string EncPassphraseArgon2ParamsTooLow = ''ENC_PASSPHRASE_ARGON2_PARAMS_TOO_LOW''"
| "code_string EncPassphraseParamsExceedPolicy = ''ENC_PASSPHRASE_PARAMS_EXCEED_POLICY''"
| "code_string MalformedSigCoseSign1 = ''MALFORMED_SIG_COSE_SIGN1''"
| "code_string SignatureUnsupported = ''SIGNATURE_UNSUPPORTED''"
| "code_string SigEntryInvalidShape = ''SIG_ENTRY_INVALID_SHAPE''"
| "code_string SigEntryKidCoseKeyConflict = ''SIG_ENTRY_KID_COSE_KEY_CONFLICT''"
| "code_string SigPrivateKeyLeaked = ''SIG_PRIVATE_KEY_LEAKED''"
| "code_string SupersedesTxInvalidLength = ''SUPERSEDES_TX_INVALID_LENGTH''"
| "code_string ExtensionUnsupportedCritical = ''EXTENSION_UNSUPPORTED_CRITICAL''"
| "code_string CritShapeInvalid = ''CRIT_SHAPE_INVALID''"
| "code_string TxNotFound = ''TX_NOT_FOUND''"
| "code_string ProviderUnavailable = ''PROVIDER_UNAVAILABLE''"
| "code_string TxIntegrityMismatch = ''TX_INTEGRITY_MISMATCH''"
| "code_string MetadataNotFound = ''METADATA_NOT_FOUND''"
| "code_string InsufficientConfirmations = ''INSUFFICIENT_CONFIRMATIONS''"
| "code_string SignatureInvalid = ''SIGNATURE_INVALID''"
| "code_string SignerKeyUnresolved = ''SIGNER_KEY_UNRESOLVED''"
| "code_string WalletAddressMismatch = ''WALLET_ADDRESS_MISMATCH''"
| "code_string UriTargetForbidden = ''URI_TARGET_FORBIDDEN''"
| "code_string UriIntegrityMismatch = ''URI_INTEGRITY_MISMATCH''"
| "code_string UriProviderIntegrityMismatch = ''URI_PROVIDER_INTEGRITY_MISMATCH''"
| "code_string UriFetchFailed = ''URI_FETCH_FAILED''"
| "code_string ContentUnavailable = ''CONTENT_UNAVAILABLE''"
| "code_string ContentFetchLimitExceeded = ''CONTENT_FETCH_LIMIT_EXCEEDED''"
| "code_string CiphertextUnavailable = ''CIPHERTEXT_UNAVAILABLE''"
| "code_string ServiceIndependenceViolation = ''SERVICE_INDEPENDENCE_VIOLATION''"
| "code_string WrongDecryptionInputShape = ''WRONG_DECRYPTION_INPUT_SHAPE''"
| "code_string WrongRecipientKey = ''WRONG_RECIPIENT_KEY''"
| "code_string TamperedHeader = ''TAMPERED_HEADER''"
| "code_string TamperedCiphertext = ''TAMPERED_CIPHERTEXT''"
| "code_string KdfDerivationFailed = ''KDF_DERIVATION_FAILED''"
| "code_string EncPassphraseUnnormalizable = ''ENC_PASSPHRASE_UNNORMALIZABLE''"
| "code_string EncPassphraseEmpty = ''ENC_PASSPHRASE_EMPTY''"
| "code_string SchemaMerkleLeafCountMismatch = ''SCHEMA_MERKLE_LEAF_COUNT_MISMATCH''"
| "code_string SchemaMerkleLeavesFormatUnsupported = ''SCHEMA_MERKLE_LEAVES_FORMAT_UNSUPPORTED''"
| "code_string SchemaMerkleLeavesMalformed = ''SCHEMA_MERKLE_LEAVES_MALFORMED''"
| "code_string MerkleRootMismatch = ''MERKLE_ROOT_MISMATCH''"
| "code_string MerkleLeavesUnavailable = ''MERKLE_LEAVES_UNAVAILABLE''"
| "code_string MerkleUnsupported = ''MERKLE_UNSUPPORTED''"
| "code_string OutOfProfileSkipped = ''OUT_OF_PROFILE_SKIPPED''"

definition severity :: "ErrorCode \<Rightarrow> Severity" where
  "severity c =
     (if c \<in> {EncUnsupported, SignatureUnsupported, InsufficientConfirmations, MerkleUnsupported,
         OutOfProfileSkipped} then SevInfo
      else if c \<in> {UriProviderIntegrityMismatch, UriFetchFailed, MerkleLeavesUnavailable} then SevWarning
      else SevError)"

definition STRUCTURAL_ERROR_CODES :: "ErrorCode list" where
  "STRUCTURAL_ERROR_CODES = [
     MalformedCbor, SchemaTypeMismatch, SchemaMissingRequired, SchemaUnknownField,
     SchemaInvalidLiteral, SchemaEmptyRecord, HashDigestLengthMismatch, UnsupportedHashAlg,
     UnsupportedMerkleCommitAlg, SchemaMerkleLeafCountInvalid, InvalidUri,
     UnauthenticatedCipherForbidden, UnsupportedAeadAlg, NonceLengthMismatch,
     UnsupportedEnvelopeScheme, EncUnsupported, EncSlotsEmpty, EncSlotInvalidShape,
     UnsupportedKemAlg, EncKemRequired, KemEpkLengthMismatch, KemCtLengthMismatch,
     WrapLengthMismatch, EncSlotsMacInvalidLength, EncSlotsMacRequired, EncSlotsRequired,
     EncSlotsDuplicateKemMaterial, EncSlotsTooMany, EncEnvelopeTooLarge, EncExclusivityViolation,
     EncNoKeyPath, EncRequiresContentHash, EncPassphraseAlgUnsupported, EncPassphraseSaltTooShort,
     EncPassphraseSaltTooLong, EncPassphraseArgon2ParamsTooLow, EncPassphraseParamsExceedPolicy,
     MalformedSigCoseSign1, SignatureUnsupported, SigEntryInvalidShape, SigEntryKidCoseKeyConflict,
     SigPrivateKeyLeaked, SupersedesTxInvalidLength, ExtensionUnsupportedCritical, CritShapeInvalid]"

definition CARRIAGE_ERROR_CODES :: "ErrorCode list" where
  "CARRIAGE_ERROR_CODES = [ChunkTooLarge]"

definition VERIFIER_ERROR_CODES :: "ErrorCode list" where
  "VERIFIER_ERROR_CODES = [
     TxNotFound, ProviderUnavailable, TxIntegrityMismatch, MetadataNotFound,
     InsufficientConfirmations, SignatureInvalid, SignerKeyUnresolved, WalletAddressMismatch,
     UriTargetForbidden, UriIntegrityMismatch, UriProviderIntegrityMismatch, UriFetchFailed,
     ContentUnavailable, ContentFetchLimitExceeded, CiphertextUnavailable,
     ServiceIndependenceViolation, WrongDecryptionInputShape, WrongRecipientKey, TamperedHeader,
     TamperedCiphertext, KdfDerivationFailed, EncPassphraseUnnormalizable, EncPassphraseEmpty,
     SchemaMerkleLeafCountMismatch, SchemaMerkleLeavesFormatUnsupported,
     SchemaMerkleLeavesMalformed, MerkleRootMismatch, MerkleLeavesUnavailable, MerkleUnsupported,
     OutOfProfileSkipped]"

definition code_part :: "ErrorCode \<Rightarrow> ErrorCodePart" where
  "code_part c =
     (if c = ChunkTooLarge then Carriage
      else if c \<in> {
         MalformedCbor, SchemaTypeMismatch, SchemaMissingRequired, SchemaUnknownField,
         SchemaInvalidLiteral, SchemaEmptyRecord, HashDigestLengthMismatch, UnsupportedHashAlg,
         UnsupportedMerkleCommitAlg, SchemaMerkleLeafCountInvalid, InvalidUri,
         UnauthenticatedCipherForbidden, UnsupportedAeadAlg, NonceLengthMismatch,
         UnsupportedEnvelopeScheme, EncUnsupported, EncSlotsEmpty, EncSlotInvalidShape,
         UnsupportedKemAlg, EncKemRequired, KemEpkLengthMismatch, KemCtLengthMismatch,
         WrapLengthMismatch, EncSlotsMacInvalidLength, EncSlotsMacRequired, EncSlotsRequired,
         EncSlotsDuplicateKemMaterial, EncSlotsTooMany, EncEnvelopeTooLarge,
         EncExclusivityViolation, EncNoKeyPath, EncRequiresContentHash,
         EncPassphraseAlgUnsupported, EncPassphraseSaltTooShort, EncPassphraseSaltTooLong,
         EncPassphraseArgon2ParamsTooLow, EncPassphraseParamsExceedPolicy, MalformedSigCoseSign1,
         SignatureUnsupported, SigEntryInvalidShape, SigEntryKidCoseKeyConflict,
         SigPrivateKeyLeaked, SupersedesTxInvalidLength, ExtensionUnsupportedCritical,
         CritShapeInvalid} then PartA
      else PartB)"

definition is_dual_severity :: "ErrorCode \<Rightarrow> bool" where
  "is_dual_severity c \<longleftrightarrow>
     c \<in> {EncUnsupported, MerkleLeavesUnavailable, MerkleUnsupported, OutOfProfileSkipped}"

text \<open>\<open>self as usize\<close>.\<close>

primrec registry_index :: "ErrorCode \<Rightarrow> nat" where
  "registry_index MalformedCbor = 0"
| "registry_index SchemaTypeMismatch = 1"
| "registry_index SchemaMissingRequired = 2"
| "registry_index SchemaUnknownField = 3"
| "registry_index SchemaInvalidLiteral = 4"
| "registry_index SchemaEmptyRecord = 5"
| "registry_index HashDigestLengthMismatch = 6"
| "registry_index UnsupportedHashAlg = 7"
| "registry_index UnsupportedMerkleCommitAlg = 8"
| "registry_index SchemaMerkleLeafCountInvalid = 9"
| "registry_index InvalidUri = 10"
| "registry_index ChunkTooLarge = 11"
| "registry_index UnauthenticatedCipherForbidden = 12"
| "registry_index UnsupportedAeadAlg = 13"
| "registry_index NonceLengthMismatch = 14"
| "registry_index UnsupportedEnvelopeScheme = 15"
| "registry_index EncUnsupported = 16"
| "registry_index EncSlotsEmpty = 17"
| "registry_index EncSlotInvalidShape = 18"
| "registry_index UnsupportedKemAlg = 19"
| "registry_index EncKemRequired = 20"
| "registry_index KemEpkLengthMismatch = 21"
| "registry_index KemCtLengthMismatch = 22"
| "registry_index WrapLengthMismatch = 23"
| "registry_index EncSlotsMacInvalidLength = 24"
| "registry_index EncSlotsMacRequired = 25"
| "registry_index EncSlotsRequired = 26"
| "registry_index EncSlotsDuplicateKemMaterial = 27"
| "registry_index EncSlotsTooMany = 28"
| "registry_index EncEnvelopeTooLarge = 29"
| "registry_index EncExclusivityViolation = 30"
| "registry_index EncNoKeyPath = 31"
| "registry_index EncRequiresContentHash = 32"
| "registry_index EncPassphraseAlgUnsupported = 33"
| "registry_index EncPassphraseSaltTooShort = 34"
| "registry_index EncPassphraseSaltTooLong = 35"
| "registry_index EncPassphraseArgon2ParamsTooLow = 36"
| "registry_index EncPassphraseParamsExceedPolicy = 37"
| "registry_index MalformedSigCoseSign1 = 38"
| "registry_index SignatureUnsupported = 39"
| "registry_index SigEntryInvalidShape = 40"
| "registry_index SigEntryKidCoseKeyConflict = 41"
| "registry_index SigPrivateKeyLeaked = 42"
| "registry_index SupersedesTxInvalidLength = 43"
| "registry_index ExtensionUnsupportedCritical = 44"
| "registry_index CritShapeInvalid = 45"
| "registry_index TxNotFound = 46"
| "registry_index ProviderUnavailable = 47"
| "registry_index TxIntegrityMismatch = 48"
| "registry_index MetadataNotFound = 49"
| "registry_index InsufficientConfirmations = 50"
| "registry_index SignatureInvalid = 51"
| "registry_index SignerKeyUnresolved = 52"
| "registry_index WalletAddressMismatch = 53"
| "registry_index UriTargetForbidden = 54"
| "registry_index UriIntegrityMismatch = 55"
| "registry_index UriProviderIntegrityMismatch = 56"
| "registry_index UriFetchFailed = 57"
| "registry_index ContentUnavailable = 58"
| "registry_index ContentFetchLimitExceeded = 59"
| "registry_index CiphertextUnavailable = 60"
| "registry_index ServiceIndependenceViolation = 61"
| "registry_index WrongDecryptionInputShape = 62"
| "registry_index WrongRecipientKey = 63"
| "registry_index TamperedHeader = 64"
| "registry_index TamperedCiphertext = 65"
| "registry_index KdfDerivationFailed = 66"
| "registry_index EncPassphraseUnnormalizable = 67"
| "registry_index EncPassphraseEmpty = 68"
| "registry_index SchemaMerkleLeafCountMismatch = 69"
| "registry_index SchemaMerkleLeavesFormatUnsupported = 70"
| "registry_index SchemaMerkleLeavesMalformed = 71"
| "registry_index MerkleRootMismatch = 72"
| "registry_index MerkleLeavesUnavailable = 73"
| "registry_index MerkleUnsupported = 74"
| "registry_index OutOfProfileSkipped = 75"

section \<open>The registry\<close>

lemma nth_registry_index: "ERROR_CODES ! registry_index c = c \<and> registry_index c < length ERROR_CODES"
  by (cases c) (simp_all add: ERROR_CODES_def)

lemma registry_index_inj [simp]: "registry_index c = registry_index d \<longleftrightarrow> c = d"
  by (metis nth_registry_index)

instantiation ErrorCode :: linorder
begin

definition less_eq_ErrorCode :: "ErrorCode \<Rightarrow> ErrorCode \<Rightarrow> bool" where
  "c \<le> d \<longleftrightarrow> registry_index c \<le> registry_index d"

definition less_ErrorCode :: "ErrorCode \<Rightarrow> ErrorCode \<Rightarrow> bool" where
  "c < d \<longleftrightarrow> registry_index c < registry_index d"

instance
  by standard (auto simp: less_eq_ErrorCode_def less_ErrorCode_def simp flip: registry_index_inj)

end

lemma map_registry_index: "map registry_index ERROR_CODES = [0..<length ERROR_CODES]"
  by code_simp

lemma ERROR_CODES_complete: "set ERROR_CODES = UNIV"
  using nth_registry_index by (metis UNIV_eq_I nth_mem)

lemma part_lists:
  "set STRUCTURAL_ERROR_CODES = {c. code_part c = PartA}"
  "set CARRIAGE_ERROR_CODES = {c. code_part c = Carriage}"
  "set VERIFIER_ERROR_CODES = {c. code_part c = PartB}"
proof -
  have "list_all (\<lambda>c. (c \<in> set STRUCTURAL_ERROR_CODES \<longleftrightarrow> code_part c = PartA) \<and>
      (c \<in> set CARRIAGE_ERROR_CODES \<longleftrightarrow> code_part c = Carriage) \<and>
      (c \<in> set VERIFIER_ERROR_CODES \<longleftrightarrow> code_part c = PartB)) ERROR_CODES"
    by code_simp
  then have "(c \<in> set STRUCTURAL_ERROR_CODES \<longleftrightarrow> code_part c = PartA) \<and>
      (c \<in> set CARRIAGE_ERROR_CODES \<longleftrightarrow> code_part c = Carriage) \<and>
      (c \<in> set VERIFIER_ERROR_CODES \<longleftrightarrow> code_part c = PartB)" for c
    using ERROR_CODES_complete by (auto simp: list_all_iff)
  then show "set STRUCTURAL_ERROR_CODES = {c. code_part c = PartA}"
    "set CARRIAGE_ERROR_CODES = {c. code_part c = Carriage}"
    "set VERIFIER_ERROR_CODES = {c. code_part c = PartB}" by auto
qed

lemma code_string_distinct: "distinct (map code_string ERROR_CODES)"
  by code_simp

lemma code_string_inj: "code_string c = code_string d \<longleftrightarrow> c = d"
  using code_string_distinct ERROR_CODES_complete by (auto simp: distinct_map inj_on_def)

section \<open>Properties\<close>

text \<open>
  The registry of error codes is complete, its positions are those the sort order uses, the wire
  identifiers are pairwise different, and the three sub-lists are exactly the codes of their part.
\<close>

theorem error_registry:
  "ERROR_CODES ! registry_index c = c \<and> (code_string c = code_string d \<longleftrightarrow> c = d) \<and>
   (c \<in> set STRUCTURAL_ERROR_CODES \<longleftrightarrow> code_part c = PartA) \<and>
   (c \<in> set CARRIAGE_ERROR_CODES \<longleftrightarrow> code_part c = Carriage) \<and>
   (c \<in> set VERIFIER_ERROR_CODES \<longleftrightarrow> code_part c = PartB)"
  using nth_registry_index [of c] code_string_inj [of c d] part_lists by auto

end
