(* ===== verification/Poe_Record.thy ===== *)
theory Poe_Record
  imports Cbor_Maps
begin

text \<open>
  The record model of \<open>src/poe_standard.rs\<close> and its encoder: the structs of the wire format,
  \<open>record_to_cbor\<close> with its helpers, and the two public encoders.

  The lemmas say when the encoder fails (exactly when two keys of one map coincide), that the order of
  the extension fields does not reach the wire, and that the signing body is the record without \<open>sigs\<close>.
\<close>

section \<open>The record\<close>

record Slot =
  slot_epk :: "bytes option"
  slot_kem_ct :: "bytes option"
  slot_wrap :: "bytes option"

record PassphraseBlock =
  pp_alg :: rstring
  pp_salt :: bytes
  pp_params :: "(rstring \<times> u64) list"

record EncScheme1 =
  enc_scheme :: u64
  enc_aead :: rstring
  enc_nonce :: bytes
  enc_kem :: "rstring option"
  enc_slots :: "Slot list option"
  enc_slots_mac :: "bytes option"
  enc_passphrase :: "PassphraseBlock option"

datatype EncryptionEnvelope = Scheme1 EncScheme1 | Opaque CborValue

record ItemEntry =
  item_hashes :: "(rstring \<times> bytes) list"
  item_uris :: "rstring list option"
  item_enc :: "EncryptionEnvelope option"

record MerkleCommit =
  mc_alg :: rstring
  mc_root :: bytes
  mc_leaf_count :: u64
  mc_uris :: "rstring list option"

record SigEntry =
  sig_cose_sign1 :: bytes
  sig_cose_key :: "bytes option"

record PoeRecord =
  rec_v :: u64
  rec_items :: "ItemEntry list option"
  rec_merkle :: "MerkleCommit list option"
  rec_supersedes :: "bytes option"
  rec_sigs :: "SigEntry list option"
  rec_crit :: "rstring list option"
  rec_extensions :: "(rstring \<times> CborValue) list"

section \<open>The encoder\<close>

text \<open>\<open>if let Some(x) = field { pairs.push((key, x)) }\<close>.\<close>

definition opt_pair :: "string \<Rightarrow> CborValue option \<Rightarrow> cbor_pairs" where
  "opt_pair key v = (case v of None \<Rightarrow> [] | Some x \<Rightarrow> [(cbor_text key, x)])"

definition uris_to_cbor :: "rstring list \<Rightarrow> CborValue" where
  "uris_to_cbor uris = Array (map Text uris)"

definition slot_to_cbor :: "Slot \<Rightarrow> CborValue" where
  "slot_to_cbor slot =
     (let wrap = Bytes (case slot_wrap slot of None \<Rightarrow> [] | Some w \<Rightarrow> w)
      in case slot_kem_ct slot of
           Some kem_ct \<Rightarrow> CMap [(cbor_text ''kem_ct'', Bytes kem_ct), (cbor_text ''wrap'', wrap)]
         | None \<Rightarrow> CMap
             [(cbor_text ''epk'', Bytes (case slot_epk slot of None \<Rightarrow> [] | Some e \<Rightarrow> e)),
              (cbor_text ''wrap'', wrap)])"

definition passphrase_to_cbor :: "PassphraseBlock \<Rightarrow> CborValue" where
  "passphrase_to_cbor pp =
     (let params = map (\<lambda>(name, value). (Text name, Unsigned value)) (pp_params pp)
      in CMap
          [(cbor_text ''alg'', Text (pp_alg pp)),
           (cbor_text ''salt'', Bytes (pp_salt pp)),
           (cbor_text ''params'', CMap params)])"

definition scheme1_to_cbor :: "EncScheme1 \<Rightarrow> CborValue" where
  "scheme1_to_cbor enc = CMap
     ([(cbor_text ''scheme'', Unsigned (enc_scheme enc)),
       (cbor_text ''aead'', Text (enc_aead enc)),
       (cbor_text ''nonce'', Bytes (enc_nonce enc))] @
      opt_pair ''kem'' (map_option Text (enc_kem enc)) @
      opt_pair ''slots'' (map_option (\<lambda>slots. Array (map slot_to_cbor slots)) (enc_slots enc)) @
      opt_pair ''slots_mac'' (map_option Bytes (enc_slots_mac enc)) @
      opt_pair ''passphrase'' (map_option passphrase_to_cbor (enc_passphrase enc)))"

fun envelope_to_cbor :: "EncryptionEnvelope \<Rightarrow> CborValue" where
  "envelope_to_cbor (Scheme1 typed) = scheme1_to_cbor typed"
| "envelope_to_cbor (Opaque v) = v"

definition item_to_cbor :: "ItemEntry \<Rightarrow> CborValue" where
  "item_to_cbor item =
     (let hashes = map (\<lambda>(alg, digest). (Text alg, Bytes digest)) (item_hashes item)
      in CMap
          ([(cbor_text ''hashes'', CMap hashes)] @
           opt_pair ''uris'' (map_option uris_to_cbor (item_uris item)) @
           opt_pair ''enc'' (map_option envelope_to_cbor (item_enc item))))"

definition merkle_to_cbor :: "MerkleCommit \<Rightarrow> CborValue" where
  "merkle_to_cbor commit = CMap
     ([(cbor_text ''alg'', Text (mc_alg commit)),
       (cbor_text ''root'', Bytes (mc_root commit)),
       (cbor_text ''leaf_count'', Unsigned (mc_leaf_count commit))] @
      opt_pair ''uris'' (map_option uris_to_cbor (mc_uris commit)))"

definition sig_entry_to_cbor :: "SigEntry \<Rightarrow> CborValue" where
  "sig_entry_to_cbor entry = CMap
     ([(cbor_text ''cose_sign1'', Bytes (sig_cose_sign1 entry))] @
      opt_pair ''cose_key'' (map_option Bytes (sig_cose_key entry)))"

definition record_to_cbor :: "PoeRecord \<Rightarrow> bool \<Rightarrow> CborValue" where
  "record_to_cbor r include_sigs = CMap
     ([(cbor_text ''v'', Unsigned (rec_v r))] @
      opt_pair ''items'' (map_option (\<lambda>items. Array (map item_to_cbor items)) (rec_items r)) @
      opt_pair ''merkle'' (map_option (\<lambda>merkle. Array (map merkle_to_cbor merkle)) (rec_merkle r)) @
      opt_pair ''supersedes'' (map_option Bytes (rec_supersedes r)) @
      (if include_sigs
       then opt_pair ''sigs'' (map_option (\<lambda>sigs. Array (map sig_entry_to_cbor sigs)) (rec_sigs r)) else []) @
      opt_pair ''crit'' (map_option (\<lambda>crit. Array (map Text crit)) (rec_crit r)) @
      map (\<lambda>(key, value). (Text key, value)) (rec_extensions r))"

definition encode_poe_record :: "PoeRecord \<Rightarrow> CanonicalCborError + bytes" where
  "encode_poe_record r = encode_canonical_cbor (record_to_cbor r True)"

definition encode_record_body_for_signing :: "PoeRecord \<Rightarrow> CanonicalCborError + bytes" where
  "encode_record_body_for_signing r = encode_canonical_cbor (record_to_cbor r False)"

section \<open>Lemmas\<close>

text \<open>The signing body is the encoding of the record with its signatures removed.\<close>

lemma record_to_cbor_no_sigs: "record_to_cbor r False = record_to_cbor (r\<lparr>rec_sigs := None\<rparr>) b"
  by (simp add: record_to_cbor_def opt_pair_def)

lemma signing_body_strips_sigs:
  "encode_record_body_for_signing r = encode_poe_record (r\<lparr>rec_sigs := None\<rparr>)"
  unfolding encode_record_body_for_signing_def encode_poe_record_def
  by (rule arg_cong [OF record_to_cbor_no_sigs])

text \<open>The order of the extensions, of the hashes or of the KDF parameters does not reach the wire.\<close>

lemma encode_extensions_perm:
  assumes "mset (rec_extensions r) = mset es"
  shows "encode_poe_record r = encode_poe_record (r\<lparr>rec_extensions := es\<rparr>)"
  unfolding encode_poe_record_def record_to_cbor_def
  by (rule encode_map_perm) (use assms in simp)

text \<open>Which records cannot be encoded: those with two equal keys in one map.\<close>

definition text_pairs :: "(rstring \<times> CborValue) list \<Rightarrow> cbor_pairs" where
  "text_pairs kvs = map (\<lambda>(k, v). (Text k, v)) kvs"

lemma keys_distinct_text_pairs:
  "list_all (\<lambda>(k, v). length k < usize_limit) kvs \<Longrightarrow>
   keys_distinct (CMap (text_pairs kvs)) \<longleftrightarrow> distinct (map fst kvs) \<and> list_all (\<lambda>(k, v). keys_distinct v) kvs"
  unfolding text_pairs_def by (rule keys_distinct_text)

fun opt_kv :: "string \<Rightarrow> CborValue option \<Rightarrow> (rstring \<times> CborValue) list" where
  "opt_kv key None = []"
| "opt_kv key (Some v) = [(lit key, v)]"

lemma text_pairs_simps:
  "text_pairs [] = []" "text_pairs ((k, v) # kvs) = (Text k, v) # text_pairs kvs"
  "text_pairs (xs @ ys) = text_pairs xs @ text_pairs ys"
  "opt_pair key x = text_pairs (opt_kv key x)"
  by (simp_all add: text_pairs_def) (cases x; simp add: opt_pair_def cbor_text_def)

definition item_encodable :: "ItemEntry \<Rightarrow> bool" where
  "item_encodable item \<longleftrightarrow> distinct (map fst (item_hashes item)) \<and>
     (case item_enc item of
        None \<Rightarrow> True
      | Some (Opaque v) \<Rightarrow> keys_distinct v
      | Some (Scheme1 e) \<Rightarrow> (case enc_passphrase e of None \<Rightarrow> True | Some pp \<Rightarrow> distinct (map fst (pp_params pp))))"

definition base_key_present :: "PoeRecord \<Rightarrow> rstring \<Rightarrow> bool" where
  "base_key_present r k \<longleftrightarrow> k = lit ''v'' \<or> k = lit ''items'' \<and> rec_items r \<noteq> None \<or>
     k = lit ''merkle'' \<and> rec_merkle r \<noteq> None \<or> k = lit ''supersedes'' \<and> rec_supersedes r \<noteq> None \<or>
     k = lit ''sigs'' \<and> rec_sigs r \<noteq> None \<or> k = lit ''crit'' \<and> rec_crit r \<noteq> None"

lemma slot_keys_distinct [simp]: "keys_distinct (slot_to_cbor s)"
proof -
  have "keys_distinct (CMap (text_pairs [(lit k, Bytes x), (lit ''wrap'', Bytes y)]))"
    if "k = ''kem_ct'' \<or> k = ''epk''" for k x y
    using that by (subst keys_distinct_text_pairs) auto
  then show ?thesis
    by (simp add: slot_to_cbor_def Let_def cbor_text_def text_pairs_simps split: option.split del: keys_distinct.simps)
qed

lemma list_all_opt_kv [simp]:
  "list_all P (opt_kv k v) \<longleftrightarrow> (case v of None \<Rightarrow> True | Some x \<Rightarrow> P (lit k, x))"
  by (cases v) auto

lemma set_opt_kv: "set (map fst (opt_kv k v)) = (if v = None then {} else {lit k})"
  by (cases v) auto

lemma passphrase_keys_distinct:
  assumes "list_all (\<lambda>(k, v). length k < usize_limit) (pp_params pp)"
  shows "keys_distinct (passphrase_to_cbor pp) \<longleftrightarrow> distinct (map fst (pp_params pp))"
proof -
  have p: "map (\<lambda>(name, value). (Text name, Unsigned value)) (pp_params pp) =
      text_pairs (map (\<lambda>(k, v). (k, Unsigned v)) (pp_params pp))"
    by (auto simp: text_pairs_def)
  have "keys_distinct (CMap (text_pairs (map (\<lambda>(k, v). (k, Unsigned v)) (pp_params pp)))) \<longleftrightarrow>
      distinct (map fst (pp_params pp))"
    using assms by (subst keys_distinct_text_pairs) (auto simp: list_all_iff comp_def case_prod_unfold)
  moreover have "keys_distinct (CMap (text_pairs [(lit ''alg'', Text a), (lit ''salt'', Bytes b), (lit ''params'', c)])) \<longleftrightarrow>
      keys_distinct c" for a b c
    by (subst keys_distinct_text_pairs) auto
  ultimately show ?thesis
    by (simp add: passphrase_to_cbor_def Let_def p cbor_text_def text_pairs_simps del: keys_distinct.simps)
qed

lemma in_opt_kv [simp]: "(a, b) \<in> set (opt_kv k v) \<longleftrightarrow> v = Some b \<and> a = lit k"
  by (cases v) auto

lemma distinct_opt_kv [simp]: "distinct (map fst (opt_kv k v))"
  by (cases v) auto

lemma fst_opt_kv: "fst ` set (opt_kv k v) = (if v = None then {} else {lit k})"
  by (cases v) auto

lemma scheme1_keys_distinct:
  assumes "case enc_passphrase e of None \<Rightarrow> True
    | Some pp \<Rightarrow> list_all (\<lambda>(k, v). length k < usize_limit) (pp_params pp)"
  shows "keys_distinct (scheme1_to_cbor e) \<longleftrightarrow>
    (case enc_passphrase e of None \<Rightarrow> True | Some pp \<Rightarrow> distinct (map fst (pp_params pp)))"
proof -
  let ?kvs = "[(lit ''scheme'', Unsigned (enc_scheme e)), (lit ''aead'', Text (enc_aead e)),
      (lit ''nonce'', Bytes (enc_nonce e))] @ opt_kv ''kem'' (map_option Text (enc_kem e)) @
      opt_kv ''slots'' (map_option (\<lambda>slots. Array (map slot_to_cbor slots)) (enc_slots e)) @
      opt_kv ''slots_mac'' (map_option Bytes (enc_slots_mac e)) @
      opt_kv ''passphrase'' (map_option passphrase_to_cbor (enc_passphrase e))"
  have "scheme1_to_cbor e = CMap (text_pairs ?kvs)"
    by (simp add: scheme1_to_cbor_def text_pairs_simps cbor_text_def)
  moreover have "distinct (map fst ?kvs)" by (auto simp: fst_opt_kv)
  moreover have "list_all (\<lambda>(k, v). length k < usize_limit) ?kvs" by (auto split: option.split)
  moreover have "list_all (\<lambda>(k, v). keys_distinct v) ?kvs \<longleftrightarrow>
      (case enc_passphrase e of None \<Rightarrow> True | Some pp \<Rightarrow> distinct (map fst (pp_params pp)))"
    using assms by (auto simp: list_all_iff passphrase_keys_distinct split: option.split)
  ultimately show ?thesis using keys_distinct_text_pairs [of ?kvs] by (simp only: simp_thms)
qed

definition small_item :: "ItemEntry \<Rightarrow> bool" where
  "small_item item \<longleftrightarrow> list_all (\<lambda>(k, v). length k < usize_limit) (item_hashes item) \<and>
     (case item_enc item of Some (Scheme1 e) \<Rightarrow> (case enc_passphrase e of None \<Rightarrow> True
        | Some pp \<Rightarrow> list_all (\<lambda>(k, v). length k < usize_limit) (pp_params pp)) | _ \<Rightarrow> True)"

lemma item_keys_distinct:
  assumes "small_item item"
  shows "keys_distinct (item_to_cbor item) \<longleftrightarrow> item_encodable item"
proof -
  let ?hs = "map (\<lambda>(k, v). (k, Bytes v)) (item_hashes item)"
  let ?kvs = "[(lit ''hashes'', CMap (text_pairs ?hs))] @ opt_kv ''uris'' (map_option uris_to_cbor (item_uris item)) @
      opt_kv ''enc'' (map_option envelope_to_cbor (item_enc item))"
  have "map (\<lambda>(alg, digest). (Text alg, Bytes digest)) (item_hashes item) = text_pairs ?hs"
    by (auto simp: text_pairs_def)
  then have v: "item_to_cbor item = CMap (text_pairs ?kvs)"
    by (simp add: item_to_cbor_def text_pairs_simps cbor_text_def)
  have hs: "keys_distinct (CMap (text_pairs ?hs)) \<longleftrightarrow> distinct (map fst (item_hashes item))"
    using assms
    by (subst keys_distinct_text_pairs) (auto simp: small_item_def list_all_iff comp_def case_prod_unfold)
  have enc: "(case item_enc item of None \<Rightarrow> True | Some e \<Rightarrow> keys_distinct (envelope_to_cbor e)) \<longleftrightarrow>
     (case item_enc item of None \<Rightarrow> True
      | Some (Opaque v) \<Rightarrow> keys_distinct v
      | Some (Scheme1 e) \<Rightarrow> (case enc_passphrase e of None \<Rightarrow> True | Some pp \<Rightarrow> distinct (map fst (pp_params pp))))"
    using assms
    by (auto simp: small_item_def scheme1_keys_distinct split: option.splits EncryptionEnvelope.splits)
  have uris: "keys_distinct (uris_to_cbor u)" for u by (simp add: uris_to_cbor_def list_all_iff)
  have "distinct (map fst ?kvs)" by (auto simp: fst_opt_kv)
  moreover have "list_all (\<lambda>(k, v). length k < usize_limit) ?kvs" by (auto split: option.split)
  moreover have "list_all (\<lambda>(k, v). keys_distinct v) ?kvs \<longleftrightarrow> item_encodable item"
    using enc uris hs
    by (simp add: item_encodable_def del: keys_distinct.simps split: option.splits)
  ultimately show ?thesis using v keys_distinct_text_pairs [of ?kvs] by (simp only: simp_thms)
qed

lemma merkle_keys_distinct [simp]: "keys_distinct (merkle_to_cbor c)"
proof -
  let ?kvs = "[(lit ''alg'', Text (mc_alg c)), (lit ''root'', Bytes (mc_root c)),
      (lit ''leaf_count'', Unsigned (mc_leaf_count c))] @ opt_kv ''uris'' (map_option uris_to_cbor (mc_uris c))"
  have "merkle_to_cbor c = CMap (text_pairs ?kvs)"
    by (simp add: merkle_to_cbor_def text_pairs_simps cbor_text_def)
  moreover have "distinct (map fst ?kvs)" "list_all (\<lambda>(k, v). length k < usize_limit) ?kvs"
    "list_all (\<lambda>(k, v). keys_distinct v) ?kvs"
    by (auto simp: fst_opt_kv uris_to_cbor_def list_all_iff split: option.split)
  ultimately show ?thesis using keys_distinct_text_pairs [of ?kvs] by (simp only: simp_thms)
qed

lemma sig_entry_keys_distinct [simp]: "keys_distinct (sig_entry_to_cbor e)"
proof -
  let ?kvs = "[(lit ''cose_sign1'', Bytes (sig_cose_sign1 e))] @ opt_kv ''cose_key'' (map_option Bytes (sig_cose_key e))"
  have "sig_entry_to_cbor e = CMap (text_pairs ?kvs)"
    by (simp add: sig_entry_to_cbor_def text_pairs_simps cbor_text_def)
  moreover have "distinct (map fst ?kvs)" "list_all (\<lambda>(k, v). length k < usize_limit) ?kvs"
    "list_all (\<lambda>(k, v). keys_distinct v) ?kvs"
    by (auto simp: fst_opt_kv split: option.split)
  ultimately show ?thesis using keys_distinct_text_pairs [of ?kvs] by (simp only: simp_thms)
qed

definition record_encodable :: "PoeRecord \<Rightarrow> bool" where
  "record_encodable r \<longleftrightarrow> distinct (map fst (rec_extensions r)) \<and>
     list_all (\<lambda>(k, v). \<not> base_key_present r k \<and> keys_distinct v) (rec_extensions r) \<and>
     (case rec_items r of None \<Rightarrow> True | Some items \<Rightarrow> list_all item_encodable items)"

definition small_record :: "PoeRecord \<Rightarrow> bool" where
  "small_record r \<longleftrightarrow> list_all (\<lambda>(k, v). length k < usize_limit) (rec_extensions r) \<and>
     (case rec_items r of None \<Rightarrow> True | Some items \<Rightarrow> list_all small_item items)"

lemma disjoint_keys: "{k. P k} \<inter> set (map fst kvs) = {} \<longleftrightarrow> list_all (\<lambda>(k, v). \<not> P k) kvs"
  by (induction kvs) auto

lemma list_all_both:
  "list_all (\<lambda>(k, v). P k \<and> Q v) kvs \<longleftrightarrow> list_all (\<lambda>(k, v). P k) kvs \<and> list_all (\<lambda>(k, v). Q v) kvs"
  by (induction kvs) auto

lemma record_keys_distinct:
  assumes "small_record r"
  shows "keys_distinct (record_to_cbor r True) \<longleftrightarrow> record_encodable r"
proof -
  let ?base = "[(lit ''v'', Unsigned (rec_v r))] @
      opt_kv ''items'' (map_option (\<lambda>items. Array (map item_to_cbor items)) (rec_items r)) @
      opt_kv ''merkle'' (map_option (\<lambda>merkle. Array (map merkle_to_cbor merkle)) (rec_merkle r)) @
      opt_kv ''supersedes'' (map_option Bytes (rec_supersedes r)) @
      opt_kv ''sigs'' (map_option (\<lambda>sigs. Array (map sig_entry_to_cbor sigs)) (rec_sigs r)) @
      opt_kv ''crit'' (map_option (\<lambda>crit. Array (map Text crit)) (rec_crit r))"
  let ?kvs = "?base @ rec_extensions r"
  have v: "record_to_cbor r True = CMap (text_pairs ?kvs)"
    by (simp add: record_to_cbor_def text_pairs_simps cbor_text_def) (simp add: text_pairs_def)
  have base: "distinct (map fst ?base)" "set (map fst ?base) = {k. base_key_present r k}"
    by (auto simp: fst_opt_kv base_key_present_def)
  have "distinct (map fst ?kvs) \<longleftrightarrow> distinct (map fst (rec_extensions r)) \<and>
      list_all (\<lambda>(k, v). \<not> base_key_present r k) (rec_extensions r)"
  proof -
    have "set (map fst ?base) \<inter> set (map fst (rec_extensions r)) = {} \<longleftrightarrow>
        list_all (\<lambda>(k, v). \<not> base_key_present r k) (rec_extensions r)"
      unfolding base(2) by (rule disjoint_keys)
    then show ?thesis using base(1) by (simp only: map_append distinct_append simp_thms)
  qed
  moreover have "list_all (\<lambda>(k, v). length k < usize_limit) ?kvs"
    using assms by (auto simp: small_record_def split: option.split)
  moreover have "list_all (\<lambda>(k, v). keys_distinct v) ?kvs \<longleftrightarrow>
      (case rec_items r of None \<Rightarrow> True | Some items \<Rightarrow> list_all item_encodable items) \<and>
      list_all (\<lambda>(k, v). keys_distinct v) (rec_extensions r)"
    using assms by (auto simp: small_record_def list_all_iff item_keys_distinct split: option.splits)
  ultimately have "keys_distinct (CMap (text_pairs ?kvs)) \<longleftrightarrow> record_encodable r"
    using keys_distinct_text_pairs [of ?kvs] unfolding record_encodable_def list_all_both by argo
  then show ?thesis using v by (simp only:)
qed

lemma encode_poe_record_cases:
  assumes "small_record r"
  shows "encode_poe_record r =
    (if record_encodable r then Inr (enc_cbor (canon_cbor (record_to_cbor r True))) else Inl dup_error)"
  using record_keys_distinct [OF assms]
  by (simp add: encode_poe_record_def encode_canonical_cbor_def write_value_canon)

section \<open>Properties\<close>

text \<open>C28: 
  A record is refused by the encoder exactly when two entries of one of its maps have the same key:
  two extensions, an extension and a base field that is present, or two hashes or KDF parameters.
\<close>

theorem encode_record_result:
  assumes "small_record r"
  shows "encode_poe_record r =
    (if record_encodable r then Inr (enc_cbor (canon_cbor (record_to_cbor r True)))
     else Inl (Malformed ''map contains a duplicate key''))"
  using assms by (rule encode_poe_record_cases)

lemma encode_record_result_witness:
  "encode_poe_record \<lparr>rec_v = 1, rec_items = Some [], rec_merkle = None, rec_supersedes = None, rec_sigs = None,
     rec_crit = None, rec_extensions = [(lit ''items'', Null)]\<rparr> = Inl (Malformed ''map contains a duplicate key'')"
  by (subst encode_record_result)
    (simp_all add: small_record_def record_encodable_def base_key_present_def)

text \<open>The body that signatures cover does not depend on the signatures the record carries.\<close>

theorem signing_body_ignores_sigs:
  "encode_record_body_for_signing (r\<lparr>rec_sigs := sigs\<rparr>) = encode_record_body_for_signing r \<and>
   encode_record_body_for_signing r = encode_poe_record (r\<lparr>rec_sigs := None\<rparr>)"
  by (simp add: signing_body_strips_sigs)

text \<open>The order in which a record lists its extensions never reaches the wire.\<close>

theorem extensions_order_free:
  assumes "mset (rec_extensions r) = mset es"
  shows "encode_poe_record r = encode_poe_record (r\<lparr>rec_extensions := es\<rparr>)"
  using assms by (rule encode_extensions_perm)

lemma extensions_order_free_witness:
  "encode_poe_record \<lparr>rec_v = 1, rec_items = None, rec_merkle = None, rec_supersedes = None, rec_sigs = None,
     rec_crit = None, rec_extensions = [(lit ''x-b'', Null), (lit ''x-a'', Null)]\<rparr> =
   encode_poe_record \<lparr>rec_v = 1, rec_items = None, rec_merkle = None, rec_supersedes = None, rec_sigs = None,
     rec_crit = None, rec_extensions = [(lit ''x-a'', Null), (lit ''x-b'', Null)]\<rparr>"
proof -
  let ?r = "\<lparr>rec_v = 1, rec_items = None, rec_merkle = None, rec_supersedes = None, rec_sigs = None,
     rec_crit = None, rec_extensions = [(lit ''x-b'', Null), (lit ''x-a'', Null)]\<rparr>"
  show ?thesis using extensions_order_free [of ?r "[(lit ''x-a'', Null), (lit ''x-b'', Null)]"] by simp
qed

end
