(* ===== verification/Cid_Profile.thy ===== *)
theory Cid_Profile
  imports L309_Prelude
begin

unbundle bit_operations_syntax

text \<open>
  The offline CID check of \<open>src/poe_standard.rs\<close> for \<open>ipfs://\<close> URIs: the multibase decoders
  (base16, base32, base58btc), the varint reader and \<open>validate_cid_profile\<close>.

  The base58 decoder works in a byte buffer of an estimated size and tracks how many bytes are in use.
  \<open>decode_base58btc_spec\<close> shows that the estimate is always enough, so that no carry is lost and the
  result is the number the string denotes, after one zero byte per leading \<open>1\<close>.
\<close>

section \<open>Decoders\<close>

fun position :: "'a \<Rightarrow> 'a list \<Rightarrow> nat option" where
  "position x [] = None"
| "position x (y # ys) = (if x = y then Some 0 else map_option Suc (position x ys))"

definition hex_digit :: "u8 \<Rightarrow> bool \<Rightarrow> u8 option" where
  "hex_digit b upper =
     (if in_range 0x30 0x39 b then Some (b - 0x30)
      else if in_range 0x61 0x66 b \<and> \<not> upper then Some (b - 0x61 + 10)
      else if in_range 0x41 0x46 b \<and> upper then Some (b - 0x41 + 10)
      else None)"

text \<open>The loop over pairs of digits; an odd length is refused before it starts.\<close>

fun base16_loop :: "bytes \<Rightarrow> bool \<Rightarrow> bytes option" where
  "base16_loop (a # b # s) upper =
     (case hex_digit a upper of
        None \<Rightarrow> None
      | Some hi \<Rightarrow> (case hex_digit b upper of
          None \<Rightarrow> None
        | Some lo \<Rightarrow> map_option (\<lambda>out. (push_bit 4 hi OR lo) # out) (base16_loop s upper)))"
| "base16_loop s upper = Some []"

definition decode_base16 :: "rstring \<Rightarrow> bool \<Rightarrow> bytes option" where
  "decode_base16 s upper = (if length s mod 2 \<noteq> 0 then None else base16_loop s upper)"

definition base32_alphabet :: "bool \<Rightarrow> bytes" where
  "base32_alphabet upper =
     (if upper then lit ''ABCDEFGHIJKLMNOPQRSTUVWXYZ234567'' else lit ''abcdefghijklmnopqrstuvwxyz234567'')"

text \<open>\<open>buf\<close> is a \<open>u32\<close> that keeps every digit seen so far and drops the oldest bits off its top.\<close>

fun base32_loop :: "bytes \<Rightarrow> bool \<Rightarrow> 32 word \<Rightarrow> nat \<Rightarrow> bytes option" where
  "base32_loop [] upper buf bits = Some []"
| "base32_loop (ch # s) upper buf bits =
     (case position ch (base32_alphabet upper) of
        None \<Rightarrow> None
      | Some idx \<Rightarrow>
          let buf = push_bit 5 buf OR of_nat idx; bits = bits + 5
          in if bits \<ge> 8
             then let bits = bits - 8
                  in map_option (\<lambda>out. ucast (drop_bit bits buf AND 0xFF) # out) (base32_loop s upper buf bits)
             else base32_loop s upper buf bits)"

definition trim_end_matches :: "u8 \<Rightarrow> rstring \<Rightarrow> rstring" where
  "trim_end_matches c s = rev (dropWhile (\<lambda>b. b = c) (rev s))"

definition decode_base32 :: "rstring \<Rightarrow> bool \<Rightarrow> bytes option" where
  "decode_base32 s upper = base32_loop (trim_end_matches 0x3D s) upper 0 0"

definition BASE58_ALPHABET :: bytes where
  "BASE58_ALPHABET = lit ''123456789ABCDEFGHJKLMNPQRSTUVWXYZabcdefghijkmnopqrstuvwxyz''"

text \<open>The inner loop: multiply the buffer by 58 and add the digit held in \<open>carry\<close>.\<close>

fun base58_carry :: "bytes \<Rightarrow> nat \<Rightarrow> nat \<Rightarrow> nat \<Rightarrow> nat \<Rightarrow> bytes \<times> nat" where
  "base58_carry b256 carry k len 0 = (b256, k)"
| "base58_carry b256 carry k len (Suc j) =
     (if carry \<noteq> 0 \<or> k < len then
        (let c = carry + 58 * unat (b256 ! j)
         in base58_carry (b256[j := of_nat (c mod 256)]) (c div 256) (k + 1) len j)
      else (b256, k))"

fun base58_loop :: "bytes \<Rightarrow> nat \<Rightarrow> bytes \<Rightarrow> nat \<Rightarrow> (bytes \<times> nat) option" where
  "base58_loop [] sz b256 len = Some (b256, len)"
| "base58_loop (ch # chars) sz b256 len =
     (case position ch BASE58_ALPHABET of
        None \<Rightarrow> None
      | Some carry \<Rightarrow>
          (let (b256, len) = base58_carry b256 carry 0 len sz
           in base58_loop chars sz b256 len))"

definition decode_base58btc :: "rstring \<Rightarrow> bytes option" where
  "decode_base58btc s =
     (if s = [] then Some []
      else let zeros = length (takeWhile (\<lambda>b. b = 0x31) s);
               chars = drop zeros s;
               sz = length chars * 733 div 1000 + 1
           in map_option
                (\<lambda>(b256, len). replicate zeros 0 @ dropWhile (\<lambda>b. b = 0) (drop (sz - len) b256))
                (base58_loop chars sz (replicate sz 0) 0))"

definition decode_multibase :: "u8 \<Rightarrow> rstring \<Rightarrow> bytes option" where
  "decode_multibase prefix body =
     (if prefix = of_char (CHR ''b'') then decode_base32 body False
      else if prefix = of_char (CHR ''B'') then decode_base32 body True
      else if prefix = of_char (CHR ''f'') then decode_base16 body False
      else if prefix = of_char (CHR ''F'') then decode_base16 body True
      else if prefix = of_char (CHR ''z'') then decode_base58btc body
      else None)"

section \<open>The profile\<close>

function varint_loop :: "bytes \<Rightarrow> nat \<Rightarrow> u64 \<Rightarrow> nat \<Rightarrow> (u64 \<times> nat) option" where
  "varint_loop bs i value shift =
     (if i < length bs then
        (let b = bs ! i;
             value = value OR push_bit shift (ucast (b AND 0x7F))
         in if b AND 0x80 = 0 then Some (value, i + 1)
            else if shift + 7 > 28 then None
            else varint_loop bs (i + 1) value (shift + 7))
      else None)"
  by pat_completeness auto
termination
  by (relation "measure (\<lambda>(bs, i, value, shift). length bs - i)") auto

declare varint_loop.simps [simp del]

definition read_varint :: "bytes \<Rightarrow> nat \<Rightarrow> (u64 \<times> nat) option" where
  "read_varint bs start = varint_loop bs start 0 0"

text \<open>The CIDv1 layout \<open><version> <multicodec> <multihash>\<close> over the decoded bytes.\<close>

definition cid_v1_layout :: "bytes \<Rightarrow> bool" where
  "cid_v1_layout bs =
     (if length bs < 4 then False
      else case read_varint bs 0 of None \<Rightarrow> False | Some (version, pos) \<Rightarrow>
        if version \<noteq> 1 then False
        else case read_varint bs pos of None \<Rightarrow> False | Some (codec, pos) \<Rightarrow>
          if codec \<notin> {0x55, 0x70, 0x71} then False
          else case read_varint bs pos of None \<Rightarrow> False | Some (mh_code, pos) \<Rightarrow>
            case read_varint bs pos of None \<Rightarrow> False | Some (digest_len, pos) \<Rightarrow>
              if mh_code \<notin> {0x12, 0xb220} then False
              else if digest_len \<noteq> 32 then False
              else pos + unat digest_len = length bs)"

definition validate_cid_profile :: "rstring \<Rightarrow> bool" where
  "validate_cid_profile cid =
     (case cid of
        [] \<Rightarrow> False
      | mb_prefix # body \<Rightarrow>
          if take 2 cid = lit ''Qm'' then
            (case decode_base58btc cid of
               Some decoded \<Rightarrow> length decoded = 34 \<and> decoded ! 0 = 0x12 \<and> decoded ! 1 = 0x20
             | None \<Rightarrow> False)
          else if mb_prefix \<notin> set (lit ''bBfFz'') then False
          else (case decode_multibase mb_prefix body of None \<Rightarrow> False | Some bs \<Rightarrow> cid_v1_layout bs))"

section \<open>Base58: the buffer is large enough\<close>

fun base58_value :: "bytes \<Rightarrow> nat \<Rightarrow> nat option" where
  "base58_value [] n = Some n"
| "base58_value (ch # s) n =
     (case position ch BASE58_ALPHABET of None \<Rightarrow> None | Some d \<Rightarrow> base58_value s (n * 58 + d))"

lemma position_bound: "position x ys = Some i \<Longrightarrow> i < length ys"
  by (induction ys arbitrary: i) (auto split: if_splits)

lemma nat_of_be_append: "nat_of_be (xs @ ys) = nat_of_be xs * 256 ^ length ys + nat_of_be ys"
proof (induction ys rule: rev_induct)
  case (snoc y ys)
  have "nat_of_be (xs @ ys @ [y]) = nat_of_be (xs @ ys) * 256 + unat y"
    using nat_of_be_snoc [of "xs @ ys" y] by simp
  also have "\<dots> = nat_of_be xs * 256 ^ length (ys @ [y]) + nat_of_be (ys @ [y])"
    by (simp add: snoc.IH algebra_simps)
  finally show ?case by simp
qed simp

lemma nat_of_be_Cons: "nat_of_be (b # bs) = unat b * 256 ^ length bs + nat_of_be bs"
  using nat_of_be_append [of "[b]" bs] nat_of_be_snoc [of "[]" b] by simp

lemma nat_of_be_zeros [simp]: "nat_of_be (replicate n 0) = 0"
  by (induction n) (simp_all add: nat_of_be_Cons)

lemma nat_of_be_dropWhile: "nat_of_be (dropWhile (\<lambda>b. b = 0) bs) = nat_of_be bs"
proof (induction bs)
  case (Cons b bs)
  then show ?case by (simp add: nat_of_be_Cons)
qed simp

lemma shift256: "a * (256 * p) + (b * p + l) = (256 * a + b) * p + (l :: nat)"
  by (simp add: algebra_simps)

text \<open>
  The inner loop: \<open>lo\<close> is the part of the buffer already multiplied, \<open>hi\<close> the part still to do; only
  the last \<open>len\<close> bytes of the buffer are in use. When the loop stops, the whole buffer has been multiplied.
\<close>

lemma base58_carry:
  "length hi = j \<Longrightarrow> (\<And>i. i < j \<Longrightarrow> i + len < j + length lo \<Longrightarrow> hi ! i = 0) \<Longrightarrow>
   58 * nat_of_be hi + carry < 256 ^ j \<Longrightarrow>
   base58_carry (hi @ lo) carry (length lo) len j = (b, k) \<Longrightarrow>
   length b = j + length lo \<and> k \<le> length b \<and>
   nat_of_be b = (58 * nat_of_be hi + carry) * 256 ^ length lo + nat_of_be lo \<and>
   (\<forall>i. i + k < length b \<longrightarrow> b ! i = 0)"
proof (induction j arbitrary: hi lo carry)
  case 0
  then show ?case by auto
next
  case (Suc j)
  obtain hi' x where hi: "hi = hi' @ [x]" "length hi' = j" using Suc.prems(1) by (cases hi rule: rev_cases) auto
  let ?c = "carry + 58 * unat x"
  show ?case
  proof (cases "carry \<noteq> 0 \<or> length lo < len")
    case True
    let ?lo = "of_nat (?c mod 256) # lo"
    have split: "58 * nat_of_be hi + carry = 256 * (58 * nat_of_be hi' + ?c div 256) + ?c mod 256"
      by (simp add: hi)
    have "(hi @ lo)[j := of_nat (?c mod 256)] = hi' @ ?lo" using hi by (simp add: list_update_append)
    moreover have "(hi @ lo) ! j = x" using hi by (simp add: nth_append)
    ultimately have run: "base58_carry (hi' @ ?lo) (?c div 256) (length ?lo) len j = (b, k)"
      using Suc.prems(4) True by (simp add: Let_def)
    have zero: "hi' ! i = 0" if "i < j" "i + len < j + length ?lo" for i
      using Suc.prems(2) [of i] that hi by (simp add: nth_append)
    have "256 * (58 * nat_of_be hi' + ?c div 256) < 256 * 256 ^ j"
      using Suc.prems(3) split by simp
    then have small: "58 * nat_of_be hi' + ?c div 256 < 256 ^ j" by simp
    have "nat_of_be ?lo = ?c mod 256 * 256 ^ length lo + nat_of_be lo"
      by (simp add: nat_of_be_Cons unat_of_nat_u8)
    then have "(58 * nat_of_be hi' + ?c div 256) * 256 ^ length ?lo + nat_of_be ?lo =
        (58 * nat_of_be hi + carry) * 256 ^ length lo + nat_of_be lo"
      unfolding split list.size(4) add_Suc_right add_0_right power_Suc by (simp only: shift256)
    then show ?thesis using Suc.IH [OF hi(2) zero small run] by simp
  next
    case False
    have "hi ! i = 0" if "i < Suc j" for i using Suc.prems(2) [of i] that False by simp
    then have "hi = replicate (Suc j) 0" using Suc.prems(1) by (intro nth_equalityI) (auto simp del: replicate.simps)
    then show ?thesis using Suc.prems(4) False
      by (auto simp: nat_of_be_append nth_append simp del: replicate.simps)
  qed
qed

definition base58_buffer :: "nat \<Rightarrow> bytes \<Rightarrow> nat \<Rightarrow> nat \<Rightarrow> bool" where
  "base58_buffer sz b256 len n \<longleftrightarrow> length b256 = sz \<and> len \<le> sz \<and> nat_of_be b256 = n \<and>
     (\<forall>i. i + len < sz \<longrightarrow> b256 ! i = 0)"

lemma base58_value_mono: "base58_value s n = Some m \<Longrightarrow> n \<le> m"
  by (induction s n rule: base58_value.induct) (auto split: option.splits)

lemma base58_value_bound: "base58_value s n = Some m \<Longrightarrow> m < (n + 1) * 58 ^ length s"
proof (induction s n rule: base58_value.induct)
  case (2 ch s n)
  then obtain d where d: "position ch BASE58_ALPHABET = Some d" "base58_value s (n * 58 + d) = Some m"
    by (auto split: option.splits)
  have "d < 58" using position_bound [OF d(1)] by (simp add: BASE58_ALPHABET_def)
  then have "(n * 58 + d + 1) * 58 ^ length s \<le> ((n + 1) * 58) * 58 ^ length s" by (intro mult_le_mono1) simp
  then have "m < ((n + 1) * 58) * 58 ^ length s" using "2.IH" [OF d] by (rule less_le_trans [rotated])
  then show ?case by (simp only: list.size(4) power_Suc add_Suc_right add_0_right mult.assoc)
qed simp

lemma base58_loop:
  "base58_buffer sz b256 len n \<Longrightarrow> base58_value s n = Some m \<Longrightarrow> m < 256 ^ sz \<Longrightarrow>
   \<exists>b l. base58_loop s sz b256 len = Some (b, l) \<and> base58_buffer sz b l m"
proof (induction s arbitrary: b256 len n)
  case (Cons ch s)
  obtain d where d: "position ch BASE58_ALPHABET = Some d" "base58_value s (n * 58 + d) = Some m"
    using Cons.prems(2) by (auto split: option.splits)
  obtain b k where run: "base58_carry b256 d 0 len sz = (b, k)" by (cases "base58_carry b256 d 0 len sz")
  have "58 * nat_of_be b256 + d < 256 ^ sz"
    using Cons.prems(1,3) base58_value_mono [OF d(2)] by (simp add: base58_buffer_def)
  then have "base58_buffer sz b k (n * 58 + d)"
    using base58_carry [of b256 sz len "[]" d b k] Cons.prems(1) run by (auto simp: base58_buffer_def)
  from Cons.IH [OF this d(2) Cons.prems(3)] show ?case using d(1) run by simp
qed simp

lemma base58_loop_None:
  "base58_loop s sz b256 len = None \<longleftrightarrow> (\<exists>ch\<in>set s. position ch BASE58_ALPHABET = None)"
proof (induction s arbitrary: b256 len)
  case (Cons ch s)
  show ?case
  proof (cases "position ch BASE58_ALPHABET")
    case (Some d)
    then show ?thesis using Cons.IH by (cases "base58_carry b256 d 0 len sz") simp
  qed simp
qed simp

lemma base58_value_None:
  "base58_value s n = None \<longleftrightarrow> (\<exists>ch\<in>set s. position ch BASE58_ALPHABET = None)"
  by (induction s arbitrary: n) (simp_all split: option.split)

lemma log58: 
  assumes "733 * n = 1000 * q + r" "r < (1000 :: nat)" shows "52 * n < 71 * (q + 1)"
proof -
  have "71 * (733 * n) = 71 * (1000 * q + r)" by (simp only: assms(1))
  also have "\<dots> = 71000 * q + 71 * r" by simp
  also have "\<dots> < 71000 * q + 71000" using assms(2) by simp
  finally have "1000 * (52 * n) < 1000 * (71 * (q + 1))" by simp
  then show ?thesis by (simp only: mult_less_cancel1)
qed

text \<open>
  \<open>733 / 1000\<close> is just above the base-256 logarithm of 58, and so is \<open>52 / 71\<close>, which is smaller.
\<close>

lemma base58_size: "(58 :: nat) ^ n < 256 ^ (n * 733 div 1000 + 1)"
proof -
  define k where "k = n * 733 div 1000 + 1"
  have le: "(58 :: nat) ^ 71 \<le> 256 ^ 52" by code_simp
  define q r where "q = n * 733 div 1000" and "r = n * 733 mod 1000"
  have "733 * n = 1000 * q + r" "r < 1000" by (simp_all add: q_def r_def mult.commute)
  then have "52 * n < 71 * (q + 1)" by (rule log58)
  then have k: "52 * n < 71 * k" by (simp only: k_def q_def)
  have "((58 :: nat) ^ n) ^ 71 = (58 ^ 71) ^ n" by (simp only: power_mult [symmetric] mult.commute)
  also have "\<dots> \<le> (256 ^ 52) ^ n" using le by (rule power_mono) (rule zero_le)
  also have "\<dots> = 256 ^ (52 * n)" by (simp only: power_mult)
  also have "\<dots> < 256 ^ (71 * k)" using k by (rule power_strict_increasing) simp
  also have "\<dots> = (256 ^ k) ^ 71" by (simp only: power_mult [symmetric] mult.commute)
  finally have "((58 :: nat) ^ n) ^ 71 < (256 ^ k) ^ 71" .
  then show ?thesis unfolding k_def by (rule power_less_imp_less_base) (rule zero_le)
qed

lemma base58_value_zeros:
  "base58_value (replicate k 0x31 @ s) 0 = base58_value s 0"
proof -
  have "position 0x31 BASE58_ALPHABET = Some 0" by code_simp
  then show ?thesis by (induction k) simp_all
qed

text \<open>What the decoder returns: one zero byte per leading \<open>1\<close>, then the number without leading zeros.\<close>

lemma decode_base58btc_spec:
  "case base58_value s 0 of
     None \<Rightarrow> decode_base58btc s = None
   | Some m \<Rightarrow> \<exists>d. decode_base58btc s = Some (replicate (length (takeWhile (\<lambda>b. b = 0x31) s)) 0 @ d) \<and>
       nat_of_be d = m \<and> (d = [] \<or> hd d \<noteq> 0)"
proof (cases "s = []")
  case True
  then show ?thesis by (simp add: decode_base58btc_def)
next
  case False
  define z where "z = length (takeWhile (\<lambda>b. b = (0x31 :: u8)) s)"
  define chars where "chars = drop z s"
  define sz where "sz = length chars * 733 div 1000 + 1"
  have "takeWhile (\<lambda>b. b = 0x31) s = replicate z 0x31"
    unfolding z_def by (rule replicate_eqI) (auto dest: set_takeWhileD)
  then have "s = replicate z 0x31 @ chars"
    using append_take_drop_id [of z s] takeWhile_eq_take [of "\<lambda>b. b = 0x31" s] by (simp add: chars_def z_def)
  then have val: "base58_value s 0 = base58_value chars 0" by (metis base58_value_zeros)
  have dec: "decode_base58btc s = map_option
      (\<lambda>(b, l). replicate z 0 @ dropWhile (\<lambda>b. b = 0) (drop (sz - l) b)) (base58_loop chars sz (replicate sz 0) 0)"
    using False by (simp add: decode_base58btc_def Let_def z_def chars_def sz_def)
  show ?thesis
  proof (cases "base58_value chars 0")
    case None
    then have "base58_loop chars sz (replicate sz 0) 0 = None"
      by (simp only: base58_loop_None base58_value_None)
    then show ?thesis using val dec None by simp
  next
    case (Some m)
    have "m < 256 ^ sz"
      using base58_value_bound [OF Some] base58_size [of "length chars"] by (simp add: sz_def)
    moreover have "base58_buffer sz (replicate sz 0) 0 0" by (simp add: base58_buffer_def)
    ultimately obtain b l where run: "base58_loop chars sz (replicate sz 0) 0 = Some (b, l)"
      and buf: "base58_buffer sz b l m" using base58_loop Some by blast
    have "take (sz - l) b = replicate (sz - l) 0"
      using buf by (intro nth_equalityI) (auto simp: base58_buffer_def)
    then have "nat_of_be (drop (sz - l) b) = m"
      using buf nat_of_be_append [of "take (sz - l) b" "drop (sz - l) b"]
      by (simp add: base58_buffer_def del: append_take_drop_id) (metis append_take_drop_id)
    then have "nat_of_be (dropWhile (\<lambda>b. b = 0) (drop (sz - l) b)) = m" by (simp add: nat_of_be_dropWhile)
    moreover have "dropWhile (\<lambda>b. b = 0) xs = [] \<or> hd (dropWhile (\<lambda>b. b = 0) xs) \<noteq> 0" for xs :: bytes
      by (induction xs) simp_all
    ultimately show ?thesis using val Some dec run by (auto simp: z_def)
  qed
qed

section \<open>Properties\<close>

text \<open>
  The base58 decoder computes the number its digits denote, in the shortest big-endian bytes after
  one zero byte per leading \<open>1\<close>, and fails exactly on a character outside the alphabet: the estimated
  buffer never loses a carry.
\<close>

theorem base58_decodes_number:
  "case base58_value s 0 of
     None \<Rightarrow> decode_base58btc s = None
   | Some m \<Rightarrow> \<exists>d. decode_base58btc s = Some (replicate (length (takeWhile (\<lambda>b. b = 0x31) s)) 0 @ d) \<and>
       nat_of_be d = m \<and> dropWhile (\<lambda>b. b = 0) d = d"
proof -
  have "dropWhile (\<lambda>b. b = 0) d = d" if "d = [] \<or> hd d \<noteq> 0" for d :: bytes using that by (cases d) auto
  then show ?thesis using decode_base58btc_spec [of s] by (auto split: option.splits)
qed

end
