(* ===== verification/Poe_Issues.thy ===== *)
theory Poe_Issues
  imports Poe_Codes Cbor_Maps "HOL-Library.Product_Lexorder"
begin

text \<open>
  The issues of the structural validator (\<open>src/poe_standard.rs\<close>) and their order. An issue is a path, a
  code and a severity; the human-readable message, which the source excludes from the parity contract,
  is not modelled.

  \<open>compare_issues\<close> walks two paths segment by segment and falls back on length and registry position.
  It is shown to be the comparison of the keys \<open>(path, registry_index code)\<close> in the lexicographic order,
  so that \<open>sort_issues\<close> inherits the laws of the sorting interface.
\<close>

section \<open>Paths and issues\<close>

datatype PathSegment = Key rstring | Index nat

abbreviation key :: "string \<Rightarrow> PathSegment" where
  "key s \<equiv> Key (lit s)"

type_synonym path = "PathSegment list"

record ValidationIssue =
  vi_path :: path
  vi_code :: ErrorCode
  vi_severity :: Severity

definition issue :: "ErrorCode \<Rightarrow> path \<Rightarrow> ValidationIssue" where
  "issue code p = \<lparr>vi_path = p, vi_code = code, vi_severity = severity code\<rparr>"

lemma issue_simps [simp]:
  "vi_path (issue c p) = p" "vi_code (issue c p) = c" "vi_severity (issue c p) = severity c"
  by (simp_all add: issue_def)

text \<open>\<open>for (i, x) in xs.iter().enumerate()\<close>, collecting the issues of every round.\<close>

definition each :: "(nat \<Rightarrow> 'a \<Rightarrow> 'b list) \<Rightarrow> 'a list \<Rightarrow> 'b list" where
  "each f xs = concat (map (\<lambda>(i, x). f i x) (enumerate 0 xs))"

lemma set_each: "y \<in> set (each f xs) \<longleftrightarrow> (\<exists>i<length xs. y \<in> set (f i (xs ! i)))"
proof -
  have "(i, x) \<in> set (enumerate 0 xs) \<longleftrightarrow> i < length xs \<and> x = xs ! i" for i x
    by (auto simp: in_set_enumerate_eq)
  then have "set (enumerate 0 xs) = {(i, xs ! i) | i. i < length xs}" by auto
  then show ?thesis by (auto simp: each_def)
qed

lemma each_Nil_iff: "each f xs = [] \<longleftrightarrow> (\<forall>i<length xs. f i (xs ! i) = [])"
  using set_each [of _ f xs] by (metis all_not_in_conv set_empty)

section \<open>The order of issues\<close>

fun compare_segments :: "PathSegment \<Rightarrow> PathSegment \<Rightarrow> ordering" where
  "compare_segments (Index x) (Index y) = compare_key x y"
| "compare_segments (Index _) (Key _) = Less"
| "compare_segments (Key _) (Index _) = Greater"
| "compare_segments (Key x) (Key y) = compare_key x y"

text \<open>The loop over the common length of the two paths.\<close>

fun compare_common :: "path \<Rightarrow> path \<Rightarrow> ordering" where
  "compare_common (x # xs) (y # ys) =
     (if compare_segments x y \<noteq> Equal then compare_segments x y else compare_common xs ys)"
| "compare_common _ _ = Equal"

definition compare_issues :: "ValidationIssue \<Rightarrow> ValidationIssue \<Rightarrow> ordering" where
  "compare_issues a b =
     (let ord = compare_common (vi_path a) (vi_path b)
      in if ord \<noteq> Equal then ord
         else case compare_key (length (vi_path a)) (length (vi_path b)) of
                Equal \<Rightarrow> compare_key (registry_index (vi_code a)) (registry_index (vi_code b))
              | o' \<Rightarrow> o')"

definition sort_issues :: "ValidationIssue list \<Rightarrow> ValidationIssue list" where
  "sort_issues issues = sort_by compare_issues issues"

instantiation PathSegment :: linorder
begin

fun less_eq_PathSegment :: "PathSegment \<Rightarrow> PathSegment \<Rightarrow> bool" where
  "less_eq_PathSegment (Index x) (Index y) = (x \<le> y)"
| "less_eq_PathSegment (Index _) (Key _) = True"
| "less_eq_PathSegment (Key _) (Index _) = False"
| "less_eq_PathSegment (Key x) (Key y) = (x \<le> y)"

definition less_PathSegment :: "PathSegment \<Rightarrow> PathSegment \<Rightarrow> bool" where
  "less_PathSegment x y \<longleftrightarrow> x \<le> y \<and> \<not> y \<le> x"

instance
proof
  fix x y z :: PathSegment
  show "x < y \<longleftrightarrow> x \<le> y \<and> \<not> y \<le> x" by (simp add: less_PathSegment_def)
  show "x \<le> x" by (cases x) simp_all
  show "x \<le> y \<Longrightarrow> y \<le> z \<Longrightarrow> x \<le> z" by (cases x; cases y; cases z) auto
  show "x \<le> y \<Longrightarrow> y \<le> x \<Longrightarrow> x = y" by (cases x; cases y) auto
  show "x \<le> y \<or> y \<le> x" by (cases x; cases y) auto
qed

end

lemma compare_segments_key: "compare_segments x y = compare_key x y"
  by (cases x; cases y) (auto simp: compare_key_def less_PathSegment_def)

lemma compare_common_key:
  "compare_key xs ys = (if compare_common xs ys \<noteq> Equal then compare_common xs ys
     else compare_key (length xs) (length ys))"
proof (induction xs ys rule: compare_common.induct, goal_cases)
  case (1 x xs y ys)
  then show ?case by (auto simp: compare_segments_key compare_key_def split: if_splits)
next
  case (2 ys)
  then show ?case by (cases ys) (simp_all add: compare_key_def)
next
  case (3 xs)
  then show ?case by (cases xs) (simp_all add: compare_key_def)
qed

definition issue_key :: "ValidationIssue \<Rightarrow> path \<times> nat" where
  "issue_key i = (vi_path i, registry_index (vi_code i))"

lemma compare_issues_key: "compare_issues a b = compare_key (issue_key a) (issue_key b)"
  using compare_common_key [of "vi_path a" "vi_path b"]
  by (auto simp: compare_issues_def Let_def issue_key_def compare_key_def less_prod_simp
      split: ordering.splits if_splits)

interpretation issues: key_comparator compare_issues issue_key
  by unfold_locales (rule compare_issues_key)

lemma set_sort_issues [simp]: "set (sort_issues is) = set is"
  unfolding sort_issues_def by (rule issues.set_sort_by)

lemma sort_issues_Nil_iff [simp]: "sort_issues is = [] \<longleftrightarrow> is = []"
  by (metis set_empty set_sort_issues)

end
