(* ===== verification/Poe_Schema.thy ===== *)
theory Poe_Schema
  imports Poe_Issues
begin

text \<open>
  The first passes of the structural validator (\<open>src/poe_standard.rs\<close>) over a decoded record: the guard
  against maps with non-text keys and the schema parse with its closed shapes. Each Rust function that
  pushes onto an issue list is the list of issues it pushes.
\<close>

section \<open>Registries and closed key sets\<close>

definition TOP_LEVEL_BASE_KEYS :: "rstring list" where
  "TOP_LEVEL_BASE_KEYS = map lit [''v'', ''items'', ''merkle'', ''supersedes'', ''sigs'', ''crit'']"

definition ITEM_KEYS :: "rstring list" where
  "ITEM_KEYS = map lit [''hashes'', ''uris'', ''enc'']"

definition MERKLE_KEYS :: "rstring list" where
  "MERKLE_KEYS = map lit [''alg'', ''root'', ''leaf_count'', ''uris'']"

definition SIG_ENTRY_KEYS :: "rstring list" where
  "SIG_ENTRY_KEYS = map lit [''cose_sign1'', ''cose_key'']"

section \<open>Non-text keys at the typed positions\<close>

definition flag_non_text :: "path \<Rightarrow> CborValue \<Rightarrow> ValidationIssue list" where
  "flag_non_text p v = (if is_non_text_key_map v then [issue SchemaTypeMismatch p] else [])"

definition non_text_entry_issues :: "string \<Rightarrow> nat \<Rightarrow> CborValue \<Rightarrow> ValidationIssue list" where
  "non_text_entry_issues field i entry =
     (if is_non_text_key_map entry then [issue SchemaTypeMismatch [key field, Index i]]
      else if field \<noteq> ''items'' then []
      else case as_map entry of
        None \<Rightarrow> []
      | Some item_map \<Rightarrow> concat (map (\<lambda>sub. case map_get item_map (lit sub) of
            None \<Rightarrow> []
          | Some v \<Rightarrow> flag_non_text [key field, Index i, key sub] v) [''hashes'', ''enc'']))"

definition collect_non_text_key_map_issues :: "CborValue \<Rightarrow> ValidationIssue list" where
  "collect_non_text_key_map_issues decoded =
     (if is_non_text_key_map decoded then [issue SchemaTypeMismatch []]
      else case as_map decoded of
        None \<Rightarrow> []
      | Some record_map \<Rightarrow> concat (map (\<lambda>field. case map_get record_map (lit field) of
            Some (Array entries) \<Rightarrow> each (non_text_entry_issues field) entries
          | _ \<Rightarrow> []) [''items'', ''merkle'', ''sigs'']))"

section \<open>The schema parse\<close>

definition unknown_keys :: "ErrorCode \<Rightarrow> path \<Rightarrow> rstring list \<Rightarrow> cbor_pairs \<Rightarrow> ValidationIssue list" where
  "unknown_keys code base known m =
     map (\<lambda>k. issue code (base @ [Key k])) (filter (\<lambda>k. k \<notin> set known) (text_keys m))"

definition schema_uris_issues :: "CborValue \<Rightarrow> path \<Rightarrow> ValidationIssue list" where
  "schema_uris_issues raw base = (case raw of
       Array uris \<Rightarrow> each (\<lambda>j uri. case uri of Text _ \<Rightarrow> [] | _ \<Rightarrow> [issue SchemaTypeMismatch (base @ [Index j])]) uris
     | _ \<Rightarrow> [issue SchemaTypeMismatch base])"

definition schema_item_issues :: "nat \<Rightarrow> CborValue \<Rightarrow> ValidationIssue list" where
  "schema_item_issues i entry =
     (let base = [key ''items'', Index i]
      in case as_map entry of
        None \<Rightarrow> [issue SchemaTypeMismatch base]
      | Some item_map \<Rightarrow>
          (case map_get item_map (lit ''hashes'') of
             None \<Rightarrow> [issue SchemaMissingRequired (base @ [key ''hashes''])]
           | Some (CMap pairs) \<Rightarrow> concat (map (\<lambda>(alg, digest). case alg of
               Text a \<Rightarrow> (case digest of Bytes _ \<Rightarrow> []
                 | _ \<Rightarrow> [issue SchemaTypeMismatch (base @ [key ''hashes'', Key a])])
             | _ \<Rightarrow> []) pairs)
           | Some _ \<Rightarrow> [issue SchemaTypeMismatch (base @ [key ''hashes''])]) @
          (case map_get item_map (lit ''uris'') of
             None \<Rightarrow> [] | Some uris_raw \<Rightarrow> schema_uris_issues uris_raw (base @ [key ''uris''])) @
          unknown_keys SchemaUnknownField base ITEM_KEYS item_map)"

definition schema_merkle_issues :: "nat \<Rightarrow> CborValue \<Rightarrow> ValidationIssue list" where
  "schema_merkle_issues i entry =
     (let base = [key ''merkle'', Index i]
      in case as_map entry of
        None \<Rightarrow> [issue SchemaTypeMismatch base]
      | Some commit_map \<Rightarrow>
          (case map_get commit_map (lit ''alg'') of
             None \<Rightarrow> [issue SchemaMissingRequired (base @ [key ''alg''])]
           | Some (Text _) \<Rightarrow> []
           | Some _ \<Rightarrow> [issue SchemaTypeMismatch (base @ [key ''alg''])]) @
          (case map_get commit_map (lit ''root'') of
             None \<Rightarrow> [issue SchemaMissingRequired (base @ [key ''root''])]
           | Some (Bytes _) \<Rightarrow> []
           | Some _ \<Rightarrow> [issue SchemaTypeMismatch (base @ [key ''root''])]) @
          (case map_get commit_map (lit ''leaf_count'') of
             Some (Unsigned _) \<Rightarrow> []
           | Some (Negative _) \<Rightarrow> []
           | _ \<Rightarrow> [issue SchemaTypeMismatch (base @ [key ''leaf_count''])]) @
          (case map_get commit_map (lit ''uris'') of
             None \<Rightarrow> [] | Some uris_raw \<Rightarrow> schema_uris_issues uris_raw (base @ [key ''uris''])) @
          unknown_keys SchemaUnknownField base MERKLE_KEYS commit_map)"

definition schema_sig_issues :: "nat \<Rightarrow> CborValue \<Rightarrow> ValidationIssue list" where
  "schema_sig_issues i entry =
     (let base = [key ''sigs'', Index i]
      in case as_map entry of
        None \<Rightarrow> [issue SigEntryInvalidShape base]
      | Some entry_map \<Rightarrow>
          (case map_get entry_map (lit ''cose_sign1'') of
             None \<Rightarrow> [issue SigEntryInvalidShape (base @ [key ''cose_sign1''])]
           | Some (Bytes _) \<Rightarrow> []
           | Some _ \<Rightarrow> [issue SigEntryInvalidShape (base @ [key ''cose_sign1''])]) @
          (case map_get entry_map (lit ''cose_key'') of
             None \<Rightarrow> []
           | Some (Bytes _) \<Rightarrow> []
           | Some _ \<Rightarrow> [issue SigEntryInvalidShape (base @ [key ''cose_key''])]) @
          unknown_keys SigEntryInvalidShape base SIG_ENTRY_KEYS entry_map)"

text \<open>The array fields of the record: absent, an array of entries, or a type mismatch.\<close>

definition schema_array ::
  "cbor_pairs \<Rightarrow> string \<Rightarrow> (nat \<Rightarrow> CborValue \<Rightarrow> ValidationIssue list) \<Rightarrow> ValidationIssue list" where
  "schema_array record_map field entry_issues = (case map_get record_map (lit field) of
       None \<Rightarrow> []
     | Some (Array entries) \<Rightarrow> each entry_issues entries
     | Some _ \<Rightarrow> [issue SchemaTypeMismatch [key field]])"

definition schema_issues :: "cbor_pairs \<Rightarrow> ValidationIssue list" where
  "schema_issues record_map =
     (case map_get record_map (lit ''v'') of
        None \<Rightarrow> [issue SchemaMissingRequired [key ''v'']]
      | Some v \<Rightarrow> if v = Unsigned 1 then [] else [issue SchemaInvalidLiteral [key ''v'']]) @
     schema_array record_map ''items'' schema_item_issues @
     schema_array record_map ''merkle'' schema_merkle_issues @
     (case map_get record_map (lit ''supersedes'') of
        None \<Rightarrow> []
      | Some (Bytes b) \<Rightarrow> if length b = 32 then [] else [issue SupersedesTxInvalidLength [key ''supersedes'']]
      | Some _ \<Rightarrow> [issue SchemaTypeMismatch [key ''supersedes'']]) @
     schema_array record_map ''sigs'' schema_sig_issues @
     schema_array record_map ''crit'' (\<lambda>i entry. case entry of
         Text _ \<Rightarrow> [] | _ \<Rightarrow> [issue SchemaTypeMismatch [key ''crit'', Index i]])"

section \<open>What a clean parse guarantees\<close>

definition typed_array :: "(CborValue \<Rightarrow> bool) \<Rightarrow> CborValue option \<Rightarrow> bool" where
  "typed_array P v \<longleftrightarrow> (case v of None \<Rightarrow> True | Some (Array xs) \<Rightarrow> list_all P xs | Some _ \<Rightarrow> False)"

definition is_text :: "CborValue \<Rightarrow> bool" where
  "is_text v \<longleftrightarrow> (\<exists>t. v = Text t)"

definition is_bytes :: "CborValue \<Rightarrow> bool" where
  "is_bytes v \<longleftrightarrow> (\<exists>b. v = Bytes b)"

definition closed_keys :: "rstring list \<Rightarrow> cbor_pairs \<Rightarrow> bool" where
  "closed_keys known m \<longleftrightarrow> (\<forall>(k, v)\<in>set m. k \<in> Text ` set known)"

text \<open>The type tests of the source, as they occur in the definitions.\<close>

lemma type_test_Nil:
  "(case v of Text _ \<Rightarrow> [] | _ \<Rightarrow> [x]) = [] \<longleftrightarrow> is_text v"
  "(case v of Bytes _ \<Rightarrow> [] | _ \<Rightarrow> [x]) = [] \<longleftrightarrow> is_bytes v"
  "(case u of None \<Rightarrow> [y] | Some (Text _) \<Rightarrow> [] | Some _ \<Rightarrow> [x]) = [] \<longleftrightarrow> (\<exists>t. u = Some (Text t))"
  "(case u of None \<Rightarrow> [y] | Some (Bytes _) \<Rightarrow> [] | Some _ \<Rightarrow> [x]) = [] \<longleftrightarrow> (\<exists>b. u = Some (Bytes b))"
  "(case u of None \<Rightarrow> [] | Some (Bytes _) \<Rightarrow> [] | Some _ \<Rightarrow> [x]) = [] \<longleftrightarrow> (\<forall>w. u = Some w \<longrightarrow> is_bytes w)"
  by (auto simp: is_text_def is_bytes_def split: CborValue.split option.split)

lemma unknown_keys_Nil:
  assumes "\<not> is_non_text_key_map (CMap m)"
  shows "unknown_keys c base known m = [] \<longleftrightarrow> closed_keys known m"
proof -
  have "unknown_keys c base known m = [] \<longleftrightarrow> (\<forall>t\<in>set (text_keys m). t \<in> set known)"
    by (simp add: unknown_keys_def filter_empty_conv)
  also have "\<dots> \<longleftrightarrow> (\<forall>t. Text t \<in> fst ` set m \<longrightarrow> t \<in> set known)"
    by (simp add: text_keys_set Ball_def)
  also have "\<dots> \<longleftrightarrow> closed_keys known m"
    using text_key_mapD [OF assms] by (fastforce simp: closed_keys_def image_iff)
  finally show ?thesis .
qed

lemma schema_uris_Nil: "schema_uris_issues raw base = [] \<longleftrightarrow> typed_array is_text (Some raw)"
  by (cases raw) (simp_all add: schema_uris_issues_def typed_array_def each_Nil_iff list_all_length type_test_Nil)

definition text_bytes_map :: "CborValue \<Rightarrow> bool" where
  "text_bytes_map v \<longleftrightarrow> (\<exists>ps. v = CMap ps \<and> (\<forall>(k, d)\<in>set ps. is_text k \<and> is_bytes d))"

text \<open>An item as the schema leaves it: closed, with its \<open>enc\<close> not yet looked into.\<close>

definition item_shape :: "CborValue \<Rightarrow> bool" where
  "item_shape entry \<longleftrightarrow> (\<exists>m. entry = CMap m \<and> closed_keys ITEM_KEYS m \<and>
     (\<exists>h. map_get m (lit ''hashes'') = Some h \<and> text_bytes_map h) \<and>
     typed_array is_text (map_get m (lit ''uris'')) \<and>
     (\<forall>e. map_get m (lit ''enc'') = Some e \<longrightarrow> \<not> is_non_text_key_map e))"

definition merkle_shape :: "CborValue \<Rightarrow> bool" where
  "merkle_shape entry \<longleftrightarrow> (\<exists>m. entry = CMap m \<and> closed_keys MERKLE_KEYS m \<and>
     (\<exists>a. map_get m (lit ''alg'') = Some (Text a)) \<and> (\<exists>r. map_get m (lit ''root'') = Some (Bytes r)) \<and>
     (\<exists>n. map_get m (lit ''leaf_count'') = Some (Unsigned n) \<or> map_get m (lit ''leaf_count'') = Some (Negative n)) \<and>
     typed_array is_text (map_get m (lit ''uris'')))"

definition sig_shape :: "CborValue \<Rightarrow> bool" where
  "sig_shape entry \<longleftrightarrow> (\<exists>m. entry = CMap m \<and> closed_keys SIG_ENTRY_KEYS m \<and>
     (\<exists>b. map_get m (lit ''cose_sign1'') = Some (Bytes b)) \<and>
     (\<forall>v. map_get m (lit ''cose_key'') = Some v \<longrightarrow> is_bytes v))"

definition record_shape :: "cbor_pairs \<Rightarrow> bool" where
  "record_shape m \<longleftrightarrow> \<not> is_non_text_key_map (CMap m) \<and> map_get m (lit ''v'') = Some (Unsigned 1) \<and>
     typed_array item_shape (map_get m (lit ''items'')) \<and>
     typed_array merkle_shape (map_get m (lit ''merkle'')) \<and>
     (\<forall>v. map_get m (lit ''supersedes'') = Some v \<longrightarrow> (\<exists>b. v = Bytes b \<and> length b = 32)) \<and>
     typed_array sig_shape (map_get m (lit ''sigs'')) \<and>
     typed_array is_text (map_get m (lit ''crit''))"

lemma uris_Nil:
  "(case u of None \<Rightarrow> [] | Some raw \<Rightarrow> schema_uris_issues raw base) = [] \<longleftrightarrow> typed_array is_text u"
  by (cases u) (simp_all add: schema_uris_Nil, simp add: typed_array_def)

lemma schema_merkle_Nil:
  assumes "non_text_entry_issues ''merkle'' i entry = []"
  shows "schema_merkle_issues i entry = [] \<longleftrightarrow> merkle_shape entry"
proof (cases entry)
  case (CMap m)
  have "\<not> is_non_text_key_map (CMap m)" using assms CMap by (auto simp: non_text_entry_issues_def split: if_splits)
  moreover have "(case u of Some (Unsigned _) \<Rightarrow> [] | Some (Negative _) \<Rightarrow> [] | _ \<Rightarrow> [x]) = [] \<longleftrightarrow>
      (\<exists>n. u = Some (Unsigned n) \<or> u = Some (Negative n))" for u and x :: ValidationIssue
    by (auto split: option.split CborValue.split)
  ultimately show ?thesis
    by (auto simp: CMap schema_merkle_issues_def Let_def merkle_shape_def unknown_keys_Nil type_test_Nil uris_Nil)
qed (auto simp: schema_merkle_issues_def merkle_shape_def)

lemma schema_sig_Nil:
  assumes "non_text_entry_issues ''sigs'' i entry = []"
  shows "schema_sig_issues i entry = [] \<longleftrightarrow> sig_shape entry"
proof (cases entry)
  case (CMap m)
  have "\<not> is_non_text_key_map (CMap m)" using assms CMap by (auto simp: non_text_entry_issues_def split: if_splits)
  then show ?thesis
    by (auto simp: CMap schema_sig_issues_def Let_def sig_shape_def unknown_keys_Nil type_test_Nil)
qed (auto simp: schema_sig_issues_def sig_shape_def)

lemma flag_non_text_Nil [simp]: "flag_non_text p v = [] \<longleftrightarrow> \<not> is_non_text_key_map v"
  by (simp add: flag_non_text_def)

lemma item_entry_Nil:
  "non_text_entry_issues ''items'' i (CMap m) = [] \<longleftrightarrow> \<not> is_non_text_key_map (CMap m) \<and>
     (\<forall>v. map_get m (lit ''hashes'') = Some v \<longrightarrow> \<not> is_non_text_key_map v) \<and>
     (\<forall>v. map_get m (lit ''enc'') = Some v \<longrightarrow> \<not> is_non_text_key_map v)"
  by (auto simp: non_text_entry_issues_def split: option.splits)

lemma hashes_Nil:
  assumes "\<not> is_non_text_key_map (CMap ps)"
  shows "concat (map (\<lambda>(alg, digest). case alg of
      Text a \<Rightarrow> (case digest of Bytes _ \<Rightarrow> [] | _ \<Rightarrow> [f a]) | _ \<Rightarrow> []) ps) = [] \<longleftrightarrow> text_bytes_map (CMap ps)"
proof -
  have "(case alg of Text a \<Rightarrow> (case digest of Bytes _ \<Rightarrow> [] | _ \<Rightarrow> [f a]) | _ \<Rightarrow> []) = [] \<longleftrightarrow>
      is_text alg \<and> is_bytes digest" if "(alg, digest) \<in> set ps" for alg digest
    using text_key_mapD [OF assms that] by (auto simp: type_test_Nil is_text_def)
  then show ?thesis by (auto simp: text_bytes_map_def)
qed

lemma schema_item_Nil:
  assumes "non_text_entry_issues ''items'' i entry = []"
  shows "schema_item_issues i entry = [] \<longleftrightarrow> item_shape entry"
proof (cases entry)
  case (CMap m)
  note guard = assms [unfolded CMap item_entry_Nil]
  have "(case map_get m (lit ''hashes'') of
      None \<Rightarrow> [x]
    | Some (CMap pairs) \<Rightarrow> concat (map (\<lambda>(alg, digest). case alg of
        Text a \<Rightarrow> (case digest of Bytes _ \<Rightarrow> [] | _ \<Rightarrow> [f a]) | _ \<Rightarrow> []) pairs)
    | Some _ \<Rightarrow> [y]) = [] \<longleftrightarrow> (\<exists>h. map_get m (lit ''hashes'') = Some h \<and> text_bytes_map h)"
    for x y :: ValidationIssue and f
  proof (cases "map_get m (lit ''hashes'')")
    case (Some h)
    then have "\<not> is_non_text_key_map h" using guard by blast
    then show ?thesis using Some
      by (cases h)
        (simp_all add: hashes_Nil del: is_non_text_key_map.simps(1) concat_eq_Nil_conv, simp_all add: text_bytes_map_def)
  qed simp
  then show ?thesis using guard
    by (simp add: CMap schema_item_issues_def Let_def item_shape_def unknown_keys_Nil uris_Nil del: is_non_text_key_map.simps)
      blast
qed (auto simp: schema_item_issues_def item_shape_def)

lemma collect_Nil:
  assumes "collect_non_text_key_map_issues (CMap m) = []"
  shows "\<not> is_non_text_key_map (CMap m)"
    and "field \<in> {''items'', ''merkle'', ''sigs''} \<Longrightarrow> map_get m (lit field) = Some (Array entries) \<Longrightarrow>
      i < length entries \<Longrightarrow> non_text_entry_issues field i (entries ! i) = []"
proof -
  show guard: "\<not> is_non_text_key_map (CMap m)"
    using assms by (auto simp: collect_non_text_key_map_issues_def split: if_splits)
  assume f: "field \<in> {''items'', ''merkle'', ''sigs''}" "map_get m (lit field) = Some (Array entries)"
    "i < length entries"
  have "\<forall>field\<in>{''items'', ''merkle'', ''sigs''}. (case map_get m (lit field) of
      Some (Array entries) \<Rightarrow> each (non_text_entry_issues field) entries | _ \<Rightarrow> []) = []"
    using assms guard by (simp add: collect_non_text_key_map_issues_def)
  from bspec [OF this f(1)] have "each (non_text_entry_issues field) entries = []" by (simp add: f(2))
  then show "non_text_entry_issues field i (entries ! i) = []" using f(3) by (simp add: each_Nil_iff)
qed

lemma schema_array_Nil:
  assumes "\<And>entries i. map_get m (lit field) = Some (Array entries) \<Longrightarrow> i < length entries \<Longrightarrow>
    g i (entries ! i) = [] \<longleftrightarrow> P (entries ! i)"
  shows "schema_array m field g = [] \<longleftrightarrow> typed_array P (map_get m (lit field))"
proof (cases "map_get m (lit field)")
  case None
  then show ?thesis by (simp add: schema_array_def typed_array_def)
next
  case (Some v)
  then show ?thesis using assms
    by (cases v) (auto simp: schema_array_def typed_array_def each_Nil_iff list_all_length)
qed

text \<open>The two passes together accept exactly the records of the right shape.\<close>

lemma schema_Nil:
  assumes "collect_non_text_key_map_issues (CMap m) = []"
  shows "schema_issues m = [] \<longleftrightarrow> record_shape m"
proof -
  have items: "schema_array m ''items'' schema_item_issues = [] \<longleftrightarrow> typed_array item_shape (map_get m (lit ''items''))"
    by (rule schema_array_Nil, rule schema_item_Nil, rule collect_Nil [OF assms]) auto
  have merkle: "schema_array m ''merkle'' schema_merkle_issues = [] \<longleftrightarrow>
      typed_array merkle_shape (map_get m (lit ''merkle''))"
    by (rule schema_array_Nil, rule schema_merkle_Nil, rule collect_Nil [OF assms]) auto
  have sigs: "schema_array m ''sigs'' schema_sig_issues = [] \<longleftrightarrow> typed_array sig_shape (map_get m (lit ''sigs''))"
    by (rule schema_array_Nil, rule schema_sig_Nil, rule collect_Nil [OF assms]) auto
  have crit: "schema_array m ''crit'' (\<lambda>i entry. case entry of
        Text _ \<Rightarrow> [] | _ \<Rightarrow> [issue SchemaTypeMismatch [key ''crit'', Index i]]) = [] \<longleftrightarrow>
      typed_array is_text (map_get m (lit ''crit''))"
    by (rule schema_array_Nil) (rule type_test_Nil)
  have sup: "(case u of None \<Rightarrow> [] | Some (Bytes b) \<Rightarrow> if length b = 32 then [] else [x] | Some _ \<Rightarrow> [y]) = [] \<longleftrightarrow>
      (\<forall>v. u = Some v \<longrightarrow> (\<exists>b. v = Bytes b \<and> length b = 32))" for u and x y :: ValidationIssue
    by (auto split: option.split CborValue.split)
  have v: "(case u of None \<Rightarrow> [x] | Some v \<Rightarrow> if v = Unsigned 1 then [] else [y]) = [] \<longleftrightarrow> u = Some (Unsigned 1)"
    for u and x y :: ValidationIssue
    by (auto split: option.split)
  show ?thesis using collect_Nil(1) [OF assms]
    by (simp only: schema_issues_def record_shape_def append_is_Nil_conv items merkle sigs crit sup v simp_thms)
qed

end
