(* ===== verification/Poe_Domain.thy ===== *)
theory Poe_Domain
  imports Poe_Schema Cid_Profile
begin

text \<open>
  The domain checks of the structural validator (\<open>src/poe_standard.rs\<close>): content commitment, \<open>crit\<close>,
  hashes, URIs, the encryption envelope with its typed and opaque readings, Merkle commitments and
  signature entries. Each check is the list of issues it pushes, in the order it pushes them.
\<close>

section \<open>Options\<close>

datatype ValidatorRole = Public | RecipientOrStrict

record Argon2ParamsCeiling =
  ceil_m :: u64
  ceil_t :: u64
  ceil_p :: u64

definition DEFAULT_PASSPHRASE_PARAMS_CEILING :: Argon2ParamsCeiling where
  "DEFAULT_PASSPHRASE_PARAMS_CEILING = \<lparr>ceil_m = 2097152, ceil_t = 16, ceil_p = 8\<rparr>"

record ValidatorOptions =
  vo_supported_critical_extensions :: "rstring set"
  vo_role :: ValidatorRole
  vo_max_slots :: nat
  vo_max_enc_envelope_bytes :: nat
  vo_passphrase_params_ceiling :: "Argon2ParamsCeiling option"

definition MAX_SLOTS :: nat where
  "MAX_SLOTS = 1024"

definition MAX_DECODED_ENVELOPE_BYTES :: nat where
  "MAX_DECODED_ENVELOPE_BYTES = 65536"

definition default_options :: ValidatorOptions where
  "default_options = \<lparr>
     vo_supported_critical_extensions = {},
     vo_role = Public,
     vo_max_slots = MAX_SLOTS,
     vo_max_enc_envelope_bytes = MAX_DECODED_ENVELOPE_BYTES,
     vo_passphrase_params_ceiling = Some DEFAULT_PASSPHRASE_PARAMS_CEILING\<rparr>"

section \<open>Registries\<close>

type_synonym registry = "(string \<times> nat) list"

definition HASH_ALG_LENGTHS :: registry where
  "HASH_ALG_LENGTHS = [(''sha2-256'', 32), (''blake2b-256'', 32)]"

definition MERKLE_COMMIT_ALG_LENGTHS :: registry where
  "MERKLE_COMMIT_ALG_LENGTHS = [(''rfc9162-sha256'', 32)]"

definition AEAD_NONCE_LENGTHS :: registry where
  "AEAD_NONCE_LENGTHS = [(''chacha20-poly1305-stream64k'', 24)]"

definition PASSPHRASE_KDF_ALGS :: "rstring list" where
  "PASSPHRASE_KDF_ALGS = [lit ''argon2id'']"

definition KNOWN_SIG_ALG_IDS :: "int list" where
  "KNOWN_SIG_ALG_IDS = [-8, -19]"

definition UINT32_MAX :: u64 where
  "UINT32_MAX = 0xffffffff"

definition ARGON2_FLOORS :: "(string \<times> u64) list" where
  "ARGON2_FLOORS = [(''m'', 65536), (''t'', 3), (''p'', 1)]"

definition SLOT_KEY_UNIVERSE :: "rstring list" where
  "SLOT_KEY_UNIVERSE = map lit [''epk'', ''kem_ct'', ''wrap'']"

definition ENC_KEYS :: "rstring list" where
  "ENC_KEYS = map lit [''scheme'', ''aead'', ''kem'', ''nonce'', ''slots'', ''slots_mac'', ''passphrase'']"

definition PASSPHRASE_KEYS :: "rstring list" where
  "PASSPHRASE_KEYS = map lit [''alg'', ''salt'', ''params'']"

definition registry_lookup :: "registry \<Rightarrow> rstring \<Rightarrow> nat option" where
  "registry_lookup reg k = map_option snd (find (\<lambda>(name, _). lit name = k) reg)"

record KemSlotDescriptor =
  kd_field :: string
  kd_field_length :: nat
  kd_wrap_length :: nat
  kd_field_length_code :: ErrorCode

definition kem_slot_descriptor :: "rstring \<Rightarrow> KemSlotDescriptor option" where
  "kem_slot_descriptor kem =
     (if kem = lit ''x25519'' then Some
        \<lparr>kd_field = ''epk'', kd_field_length = 32, kd_wrap_length = 48,
         kd_field_length_code = KemEpkLengthMismatch\<rparr>
      else if kem = lit ''mlkem768x25519'' then Some
        \<lparr>kd_field = ''kem_ct'', kd_field_length = 1120, kd_wrap_length = 48,
         kd_field_length_code = KemCtLengthMismatch\<rparr>
      else None)"

section \<open>Names\<close>

text \<open>
  A control character of a UTF-8 string is a byte below \<open>0x20\<close>, \<open>0x7F\<close>, or \<open>0xC2\<close> followed by a byte in
  \<open>0x80..0x9F\<close>; in valid UTF-8 none of these occurs inside another character.
\<close>

fun has_control :: "rstring \<Rightarrow> bool" where
  "has_control [] = False"
| "has_control [b] = (b < 0x20 \<or> b = 0x7F)"
| "has_control (b # c # s) =
     (b < 0x20 \<or> b = 0x7F \<or> (b = 0xC2 \<and> in_range 0x80 0x9F c) \<or> has_control (c # s))"

abbreviation is_ascii_lowercase :: "u8 \<Rightarrow> bool" where
  "is_ascii_lowercase b \<equiv> in_range 0x61 0x7A b"

abbreviation is_ascii_uppercase :: "u8 \<Rightarrow> bool" where
  "is_ascii_uppercase b \<equiv> in_range 0x41 0x5A b"

abbreviation is_ascii_alphabetic :: "u8 \<Rightarrow> bool" where
  "is_ascii_alphabetic b \<equiv> is_ascii_lowercase b \<or> is_ascii_uppercase b"

abbreviation is_ascii_alphanumeric :: "u8 \<Rightarrow> bool" where
  "is_ascii_alphanumeric b \<equiv> is_ascii_alphabetic b \<or> in_range 0x30 0x39 b"

definition to_ascii_lowercase :: "rstring \<Rightarrow> rstring" where
  "to_ascii_lowercase s = map (\<lambda>b. if is_ascii_uppercase b then b + 0x20 else b) s"

definition is_extension_key :: "rstring \<Rightarrow> bool" where
  "is_extension_key k =
     (if has_control k then False
      else if take 2 k = lit ''x-'' then drop 2 k \<noteq> []
      else let i = length (takeWhile is_ascii_lowercase k)
           in i \<ge> 1 \<and> i < length k \<and> k ! i = 0x2D \<and> i + 1 < length k)"

definition find_subslice :: "bytes \<Rightarrow> bytes \<Rightarrow> nat option" where
  "find_subslice haystack needle =
     (if needle = [] \<or> length haystack < length needle then None
      else find (\<lambda>i. take (length needle) (drop i haystack) = needle) [0..<length haystack - length needle + 1])"

lemma find_in_set: "find P xs = Some x \<Longrightarrow> x \<in> set xs \<and> P x"
  by (induction xs) (auto split: if_splits)

lemma find_subslice_Some: "find_subslice h n = Some r \<Longrightarrow> r + length n \<le> length h \<and> n \<noteq> []"
  by (auto simp: find_subslice_def dest!: find_in_set split: if_splits)

abbreviation is_delim :: "u8 \<Rightarrow> bool" where
  "is_delim b \<equiv> b = 0x2D \<or> b = 0x5F"

text \<open>The search for a delimited mode token, restarted one byte after each undelimited occurrence.\<close>

function mode_loop :: "bytes \<Rightarrow> bytes \<Rightarrow> nat \<Rightarrow> bool" where
  "mode_loop bs m start = (case find_subslice (drop start bs) m of
       None \<Rightarrow> False
     | Some rel \<Rightarrow>
         let idx = start + rel;
             before_ok = (idx = 0 \<or> is_delim (bs ! (idx - 1)));
             after = idx + length m;
             after_ok = (after = length bs \<or> is_delim (bs ! after))
         in if before_ok \<and> after_ok then True else mode_loop bs m (idx + 1))"
  by pat_completeness auto
termination
proof (relation "measure (\<lambda>(bs, m, start). length bs - start)", goal_cases)
  case (2 bs m start rel idx before_ok after after_ok)
  then show ?case using find_subslice_Some [of "drop start bs" m rel] by auto
qed simp

declare mode_loop.simps [simp del]

definition is_unauthenticated_cipher :: "rstring \<Rightarrow> bool" where
  "is_unauthenticated_cipher aead =
     (let bs = to_ascii_lowercase aead
      in list_ex (\<lambda>mode. mode_loop bs (lit mode) 0) [''cbc'', ''ctr'', ''ecb'', ''cfb'', ''ofb''] \<or>
         list_ex (\<lambda>legacy. take (length legacy) bs = lit legacy \<and>
             (length legacy = length bs \<or> is_delim (bs ! length legacy))) [''rc4'', ''des'', ''3des''])"

section \<open>Record-level checks\<close>

definition array_length :: "cbor_pairs \<Rightarrow> string \<Rightarrow> nat option" where
  "array_length record_map field = (case map_get record_map (lit field) of
       Some (Array a) \<Rightarrow> Some (length a) | _ \<Rightarrow> None)"

definition check_content_commitment_presence :: "cbor_pairs \<Rightarrow> ValidationIssue list" where
  "check_content_commitment_presence record_map =
     (let items_len = array_length record_map ''items''; merkle_len = array_length record_map ''merkle''
      in if (items_len = None \<or> items_len = Some 0) \<and> (merkle_len = None \<or> merkle_len = Some 0)
         then [issue SchemaEmptyRecord []]
         else (if items_len = Some 0 then [issue SchemaTypeMismatch [key ''items'']] else []) @
              (if merkle_len = Some 0 then [issue SchemaTypeMismatch [key ''merkle'']] else []))"

fun crit_loop ::
  "cbor_pairs \<Rightarrow> ValidatorOptions \<Rightarrow> nat \<Rightarrow> rstring list \<Rightarrow> CborValue list \<Rightarrow> ValidationIssue list" where
  "crit_loop record_map options i seen [] = []"
| "crit_loop record_map options i seen (entry # es) = (case as_text entry of
       None \<Rightarrow> crit_loop record_map options (i + 1) seen es
     | Some name \<Rightarrow>
         (let p = [key ''crit'', Index i];
              bad = name \<in> set TOP_LEVEL_BASE_KEYS \<or> \<not> is_extension_key name \<or>
                    \<not> map_has record_map name \<or> name \<in> set seen
          in (if bad then [issue CritShapeInvalid p]
              else if name \<notin> vo_supported_critical_extensions options
              then [issue ExtensionUnsupportedCritical p] else []) @
             crit_loop record_map options (i + 1) (name # seen) es))"

definition check_crit :: "cbor_pairs \<Rightarrow> ValidatorOptions \<Rightarrow> ValidationIssue list" where
  "check_crit record_map options = (case map_get record_map (lit ''crit'') of
       Some (Array crit) \<Rightarrow>
         if crit = [] then [issue SchemaTypeMismatch [key ''crit'']]
         else crit_loop record_map options 0 [] crit
     | _ \<Rightarrow> [])"

definition check_unknown_top_level :: "cbor_pairs \<Rightarrow> ValidationIssue list" where
  "check_unknown_top_level record_map =
     map (\<lambda>k. issue SchemaUnknownField [Key k])
       (filter (\<lambda>k. \<not> (k \<in> set TOP_LEVEL_BASE_KEYS \<or> is_extension_key k)) (text_keys record_map))"

section \<open>Hashes and URIs\<close>

definition check_item_hashes :: "cbor_pairs \<Rightarrow> nat \<Rightarrow> ValidationIssue list" where
  "check_item_hashes item_map idx =
     (let base = [key ''items'', Index idx, key ''hashes'']
      in case map_get item_map (lit ''hashes'') of
        Some (CMap entries) \<Rightarrow>
          if entries = [] then [issue SchemaTypeMismatch base]
          else concat (map (\<lambda>(alg_key, digest). case (as_text alg_key, as_bytes digest) of
              (Some alg, Some d) \<Rightarrow> (case registry_lookup HASH_ALG_LENGTHS alg of
                 None \<Rightarrow> [issue UnsupportedHashAlg (base @ [Key alg])]
               | Some expected \<Rightarrow>
                   if length d \<noteq> expected then [issue HashDigestLengthMismatch (base @ [Key alg])] else [])
            | _ \<Rightarrow> []) entries)
      | _ \<Rightarrow> [])"

definition is_uri_scheme :: "rstring \<Rightarrow> bool" where
  "is_uri_scheme scheme = (case scheme of
       [] \<Rightarrow> False
     | b # bs \<Rightarrow> is_ascii_alphabetic b \<and>
         list_all (\<lambda>b. is_ascii_alphanumeric b \<or> b = 0x2B \<or> b = 0x2E \<or> b = 0x2D) bs)"

definition uri_body_ok :: "rstring \<Rightarrow> rstring \<Rightarrow> bool" where
  "uri_body_ok scheme body =
     (if scheme = lit ''ar'' then
        length body = 43 \<and> list_all (\<lambda>b. is_ascii_alphanumeric b \<or> b = 0x5F \<or> b = 0x2D) body
      else if scheme = lit ''ipfs'' then validate_cid_profile (takeWhile (\<lambda>b. b \<noteq> 0x2F) body)
      else False)"

definition check_one_uri :: "rstring \<Rightarrow> path \<Rightarrow> ValidationIssue list" where
  "check_one_uri uri p =
     (if 0x23 \<in> set uri then [issue InvalidUri p]
      else case find_subslice uri (lit ''://'') of
        None \<Rightarrow> [issue InvalidUri p]
      | Some sep_idx \<Rightarrow>
          if sep_idx = 0 \<or> \<not> is_uri_scheme (take sep_idx uri) then [issue InvalidUri p]
          else if uri_body_ok (to_ascii_lowercase (take sep_idx uri)) (drop (sep_idx + 3) uri) then []
          else [issue InvalidUri p])"

definition check_uris :: "CborValue \<Rightarrow> path \<Rightarrow> ValidationIssue list" where
  "check_uris raw base = (case raw of
       Array uris \<Rightarrow>
         if uris = [] then [issue SchemaTypeMismatch base]
         else each (\<lambda>j uri. case as_text uri of
             None \<Rightarrow> [] | Some u \<Rightarrow> check_one_uri u (base @ [Index j])) uris
     | _ \<Rightarrow> [])"

section \<open>The encryption envelope\<close>

definition has_content_hash :: "cbor_pairs \<Rightarrow> bool" where
  "has_content_hash item_map = (case map_get item_map (lit ''hashes'') of
       Some (CMap pairs) \<Rightarrow> list_ex (\<lambda>(k, _). case k of
           Text alg \<Rightarrow> registry_lookup HASH_ALG_LENGTHS alg \<noteq> None | _ \<Rightarrow> False) pairs
     | _ \<Rightarrow> False)"

text \<open>The identifiers outside the implemented set, with the code each one has.\<close>

definition unsupported_ids :: "u64 \<Rightarrow> cbor_pairs \<Rightarrow> (string \<times> ErrorCode) list" where
  "unsupported_ids scheme enc_map =
     (if scheme \<noteq> 1 then [(''scheme'', UnsupportedEnvelopeScheme)] else []) @
     (case map_get enc_map (lit ''kem'') of
        Some (Text kem) \<Rightarrow> if kem_slot_descriptor kem = None then [(''kem'', UnsupportedKemAlg)] else []
      | _ \<Rightarrow> []) @
     (case map_get enc_map (lit ''aead'') of
        Some (Text aead) \<Rightarrow>
          if registry_lookup AEAD_NONCE_LENGTHS aead = None then [(''aead'', UnsupportedAeadAlg)] else []
      | _ \<Rightarrow> [])"

definition opaque_issues :: "path \<Rightarrow> ValidatorRole \<Rightarrow> (string \<times> ErrorCode) list \<Rightarrow> ValidationIssue list" where
  "opaque_issues enc_path role unsupported = (case role of
       RecipientOrStrict \<Rightarrow>
         \<lparr>vi_path = enc_path, vi_code = EncUnsupported, vi_severity = SevError\<rparr> #
         map (\<lambda>(field, code). issue code (enc_path @ [key field])) unsupported
     | Public \<Rightarrow> [\<lparr>vi_path = enc_path, vi_code = EncUnsupported, vi_severity = SevInfo\<rparr>])"

definition enc_internal_non_text_key_issues :: "cbor_pairs \<Rightarrow> path \<Rightarrow> ValidationIssue list" where
  "enc_internal_non_text_key_issues enc_map enc_path =
     (case map_get enc_map (lit ''slots'') of
        Some (Array slots) \<Rightarrow> each (\<lambda>j. flag_non_text (enc_path @ [key ''slots'', Index j])) slots
      | _ \<Rightarrow> []) @
     (case map_get enc_map (lit ''passphrase'') of
        None \<Rightarrow> []
      | Some passphrase \<Rightarrow>
          if is_non_text_key_map passphrase
          then [issue SchemaTypeMismatch (enc_path @ [key ''passphrase''])]
          else (case as_map passphrase of
              None \<Rightarrow> []
            | Some pp_map \<Rightarrow> (case map_get pp_map (lit ''params'') of
                None \<Rightarrow> []
              | Some params \<Rightarrow> flag_non_text (enc_path @ [key ''passphrase'', key ''params'']) params)))"

definition slot_schema_issues :: "path \<Rightarrow> CborValue \<Rightarrow> ValidationIssue list" where
  "slot_schema_issues slot_path slot = (case as_map slot of
       None \<Rightarrow> [issue EncSlotInvalidShape slot_path]
     | Some slot_map \<Rightarrow> concat (map (\<lambda>field. case map_get slot_map field of
           None \<Rightarrow> []
         | Some (Bytes _) \<Rightarrow> []
         | Some _ \<Rightarrow> [issue EncSlotInvalidShape (slot_path @ [Key field])]) SLOT_KEY_UNIVERSE))"

definition passphrase_schema_issues :: "path \<Rightarrow> CborValue \<Rightarrow> ValidationIssue list" where
  "passphrase_schema_issues pp_path passphrase = (case as_map passphrase of
       None \<Rightarrow> [issue SchemaTypeMismatch pp_path]
     | Some pp_map \<Rightarrow>
         (case map_get pp_map (lit ''alg'') of
            None \<Rightarrow> [issue SchemaMissingRequired (pp_path @ [key ''alg''])]
          | Some (Text _) \<Rightarrow> []
          | Some _ \<Rightarrow> [issue SchemaTypeMismatch (pp_path @ [key ''alg''])]) @
         (case map_get pp_map (lit ''salt'') of
            None \<Rightarrow> [issue SchemaTypeMismatch (pp_path @ [key ''salt''])]
          | Some (Bytes salt) \<Rightarrow>
              if length salt < 16 then [issue EncPassphraseSaltTooShort (pp_path @ [key ''salt''])]
              else if length salt > 64 then [issue EncPassphraseSaltTooLong (pp_path @ [key ''salt''])]
              else []
          | Some _ \<Rightarrow> [issue SchemaTypeMismatch (pp_path @ [key ''salt''])]) @
         (case map_get pp_map (lit ''params'') of
            None \<Rightarrow> [issue SchemaMissingRequired (pp_path @ [key ''params''])]
          | Some (CMap _) \<Rightarrow> []
          | Some _ \<Rightarrow> [issue SchemaTypeMismatch (pp_path @ [key ''params''])]) @
         unknown_keys SchemaUnknownField pp_path PASSPHRASE_KEYS pp_map)"

definition enc_scheme1_schema_issues :: "cbor_pairs \<Rightarrow> path \<Rightarrow> ValidationIssue list" where
  "enc_scheme1_schema_issues enc_map enc_path =
     (case map_get enc_map (lit ''aead'') of
        None \<Rightarrow> [issue SchemaMissingRequired (enc_path @ [key ''aead''])]
      | Some (Text _) \<Rightarrow> []
      | Some _ \<Rightarrow> [issue SchemaTypeMismatch (enc_path @ [key ''aead''])]) @
     (case map_get enc_map (lit ''kem'') of
        None \<Rightarrow> []
      | Some (Text _) \<Rightarrow> []
      | Some _ \<Rightarrow> [issue SchemaTypeMismatch (enc_path @ [key ''kem''])]) @
     (case map_get enc_map (lit ''nonce'') of
        None \<Rightarrow> [issue SchemaMissingRequired (enc_path @ [key ''nonce''])]
      | Some (Bytes _) \<Rightarrow> []
      | Some _ \<Rightarrow> [issue SchemaTypeMismatch (enc_path @ [key ''nonce''])]) @
     (case map_get enc_map (lit ''slots'') of
        None \<Rightarrow> []
      | Some (Array slots) \<Rightarrow> each (\<lambda>j. slot_schema_issues (enc_path @ [key ''slots'', Index j])) slots
      | Some _ \<Rightarrow> [issue SchemaTypeMismatch (enc_path @ [key ''slots''])]) @
     (case map_get enc_map (lit ''slots_mac'') of
        None \<Rightarrow> []
      | Some (Bytes mac) \<Rightarrow>
          if length mac \<noteq> 32 then [issue EncSlotsMacInvalidLength (enc_path @ [key ''slots_mac''])] else []
      | Some _ \<Rightarrow> [issue SchemaTypeMismatch (enc_path @ [key ''slots_mac''])]) @
     (case map_get enc_map (lit ''passphrase'') of
        None \<Rightarrow> []
      | Some passphrase \<Rightarrow> passphrase_schema_issues (enc_path @ [key ''passphrase'']) passphrase) @
     unknown_keys SchemaUnknownField enc_path ENC_KEYS enc_map"

definition check_slot_shape :: "cbor_pairs \<Rightarrow> KemSlotDescriptor \<Rightarrow> path \<Rightarrow> ValidationIssue list" where
  "check_slot_shape slot_map descriptor slot_path =
     (let field = kd_field descriptor;
          foreign_field = (if field = ''epk'' then ''kem_ct'' else ''epk'')
      in (if map_has slot_map (lit foreign_field)
          then [issue EncSlotInvalidShape (slot_path @ [key foreign_field])] else []) @
         unknown_keys EncSlotInvalidShape slot_path SLOT_KEY_UNIVERSE slot_map @
         (case Option.bind (map_get slot_map (lit field)) as_bytes of
            None \<Rightarrow> [issue EncSlotInvalidShape (slot_path @ [key field])]
          | Some ct \<Rightarrow>
              if length ct \<noteq> kd_field_length descriptor
              then [issue (kd_field_length_code descriptor) (slot_path @ [key field])] else []) @
         (case Option.bind (map_get slot_map (lit ''wrap'')) as_bytes of
            None \<Rightarrow> [issue EncSlotInvalidShape (slot_path @ [key ''wrap''])]
          | Some wrap \<Rightarrow>
              if length wrap \<noteq> kd_wrap_length descriptor
              then [issue WrapLengthMismatch (slot_path @ [key ''wrap''])] else []))"

text \<open>The loop over the slots; \<open>seen\<close> is the set of encapsulation material met so far.\<close>

fun slot_loop ::
  "KemSlotDescriptor \<Rightarrow> path \<Rightarrow> nat \<Rightarrow> bytes list \<Rightarrow> CborValue list \<Rightarrow> ValidationIssue list" where
  "slot_loop descriptor slots_path j seen [] = []"
| "slot_loop descriptor slots_path j seen (slot # slots) = (case as_map slot of
       None \<Rightarrow> slot_loop descriptor slots_path (j + 1) seen slots
     | Some slot_map \<Rightarrow>
         (let slot_path = slots_path @ [Index j];
              shape = check_slot_shape slot_map descriptor slot_path
          in case Option.bind (map_get slot_map (lit (kd_field descriptor))) as_bytes of
               None \<Rightarrow> shape @ slot_loop descriptor slots_path (j + 1) seen slots
             | Some material \<Rightarrow>
                 shape @
                 (if material \<in> set seen
                  then [issue EncSlotsDuplicateKemMaterial (slot_path @ [key (kd_field descriptor)])] else []) @
                 slot_loop descriptor slots_path (j + 1) (material # seen) slots))"

definition argon2_param_issues ::
  "cbor_pairs \<Rightarrow> path \<Rightarrow> Argon2ParamsCeiling option \<Rightarrow> string \<Rightarrow> u64 \<Rightarrow> ValidationIssue list" where
  "argon2_param_issues params params_path ceiling name floor =
     (let p = params_path @ [key name]
      in case map_get params (lit name) of
        None \<Rightarrow> [issue SchemaMissingRequired p]
      | Some (Unsigned n) \<Rightarrow>
          if n > UINT32_MAX then [issue SchemaTypeMismatch p]
          else if n < floor then [issue EncPassphraseArgon2ParamsTooLow p]
          else (case ceiling of
              None \<Rightarrow> []
            | Some c \<Rightarrow>
                let maximum = (if name = ''m'' then ceil_m c else if name = ''t'' then ceil_t c else ceil_p c)
                in if n > maximum then [issue EncPassphraseParamsExceedPolicy p] else [])
      | Some _ \<Rightarrow> [issue SchemaTypeMismatch p])"

definition check_passphrase_block :: "cbor_pairs \<Rightarrow> path \<Rightarrow> ValidatorOptions \<Rightarrow> ValidationIssue list" where
  "check_passphrase_block pp_map pp_path options =
     (let alg = (case Option.bind (map_get pp_map (lit ''alg'')) as_text of None \<Rightarrow> [] | Some a \<Rightarrow> a)
      in if alg \<notin> set PASSPHRASE_KDF_ALGS then [issue EncPassphraseAlgUnsupported (pp_path @ [key ''alg''])]
         else case map_get pp_map (lit ''params'') of
           Some (CMap params) \<Rightarrow>
             (let params_path = pp_path @ [key ''params'']
              in unknown_keys SchemaUnknownField params_path (map lit [''m'', ''t'', ''p'']) params @
                 concat (map (\<lambda>(name, floor).
                     argon2_param_issues params params_path (vo_passphrase_params_ceiling options) name floor)
                   ARGON2_FLOORS))
         | _ \<Rightarrow> [])"

definition key_path_issues :: "cbor_pairs \<Rightarrow> path \<Rightarrow> ValidationIssue list" where
  "key_path_issues enc_map enc_path =
     (let has_slots = map_has enc_map (lit ''slots'');
          has_slots_mac = map_has enc_map (lit ''slots_mac'');
          has_passphrase = map_has enc_map (lit ''passphrase'');
          has_kem = Option.bind (map_get enc_map (lit ''kem'')) as_text \<noteq> None
      in (if has_passphrase \<and> (has_slots \<or> has_slots_mac \<or> has_kem)
          then [issue EncExclusivityViolation enc_path] else []) @
         (if has_slots \<and> \<not> has_slots_mac then [issue EncSlotsMacRequired enc_path] else []) @
         (if has_slots_mac \<and> \<not> has_slots then [issue EncSlotsRequired enc_path] else []) @
         (if has_slots \<and> \<not> has_kem then [issue EncKemRequired enc_path] else []) @
         (if \<not> has_slots \<and> \<not> has_passphrase then [issue EncNoKeyPath enc_path] else []))"

definition slots_issues :: "cbor_pairs \<Rightarrow> path \<Rightarrow> ValidatorOptions \<Rightarrow> ValidationIssue list" where
  "slots_issues enc_map enc_path options = (case map_get enc_map (lit ''slots'') of
       Some (Array slots) \<Rightarrow>
         (let slots_path = enc_path @ [key ''slots'']
          in if slots = [] then [issue EncSlotsEmpty slots_path]
             else if length slots > vo_max_slots options then [issue EncSlotsTooMany slots_path]
             else case Option.bind (Option.bind (map_get enc_map (lit ''kem'')) as_text) kem_slot_descriptor of
                    None \<Rightarrow> []
                  | Some descriptor \<Rightarrow> slot_loop descriptor slots_path 0 [] slots)
     | _ \<Rightarrow> [])"

definition check_scheme1_envelope :: "cbor_pairs \<Rightarrow> path \<Rightarrow> ValidatorOptions \<Rightarrow> ValidationIssue list" where
  "check_scheme1_envelope enc_map enc_path options =
     (let aead = (case Option.bind (map_get enc_map (lit ''aead'')) as_text of None \<Rightarrow> [] | Some a \<Rightarrow> a)
      in (case (registry_lookup AEAD_NONCE_LENGTHS aead, Option.bind (map_get enc_map (lit ''nonce'')) as_bytes) of
            (Some expected, Some nonce) \<Rightarrow>
              if length nonce \<noteq> expected then [issue NonceLengthMismatch (enc_path @ [key ''nonce''])] else []
          | _ \<Rightarrow> []) @
         key_path_issues enc_map enc_path @
         slots_issues enc_map enc_path options @
         (case Option.bind (map_get enc_map (lit ''passphrase'')) as_map of
            None \<Rightarrow> []
          | Some pp_map \<Rightarrow> check_passphrase_block pp_map (enc_path @ [key ''passphrase'']) options))"

text \<open>The typed pass: each stage forecloses the next.\<close>

definition typed_envelope_issues :: "cbor_pairs \<Rightarrow> path \<Rightarrow> ValidatorOptions \<Rightarrow> ValidationIssue list" where
  "typed_envelope_issues enc_map enc_path options =
     (let internal = enc_internal_non_text_key_issues enc_map enc_path;
          parse = enc_scheme1_schema_issues enc_map enc_path
      in if internal \<noteq> [] then internal
         else if parse \<noteq> [] then parse
         else check_scheme1_envelope enc_map enc_path options)"

definition envelope_dispatch :: "cbor_pairs \<Rightarrow> path \<Rightarrow> ValidatorOptions \<Rightarrow> ValidationIssue list" where
  "envelope_dispatch enc_map enc_path options = (case map_get enc_map (lit ''scheme'') of
       None \<Rightarrow> [issue SchemaMissingRequired (enc_path @ [key ''scheme''])]
     | Some (Unsigned scheme) \<Rightarrow>
         if (case map_get enc_map (lit ''aead'') of
               Some (Text aead) \<Rightarrow> is_unauthenticated_cipher aead | _ \<Rightarrow> False)
         then [issue UnauthenticatedCipherForbidden (enc_path @ [key ''aead''])]
         else if unsupported_ids scheme enc_map \<noteq> []
         then opaque_issues enc_path (vo_role options) (unsupported_ids scheme enc_map)
         else typed_envelope_issues enc_map enc_path options
     | Some _ \<Rightarrow> [issue SchemaTypeMismatch (enc_path @ [key ''scheme''])])"

definition check_item_enc ::
  "cbor_pairs \<Rightarrow> CborValue \<Rightarrow> nat \<Rightarrow> ValidatorOptions \<Rightarrow> ValidationIssue list" where
  "check_item_enc item_map raw_enc idx options =
     (let enc_path = [key ''items'', Index idx, key ''enc'']
      in (if has_content_hash item_map then [] else [issue EncRequiresContentHash enc_path]) @
         (case as_map raw_enc of
            None \<Rightarrow> [issue SchemaTypeMismatch enc_path]
          | Some enc_map \<Rightarrow>
              (case encode_canonical_cbor raw_enc of
                 Inl _ \<Rightarrow> []
               | Inr envelope_bytes \<Rightarrow>
                   if length envelope_bytes > vo_max_enc_envelope_bytes options
                   then [issue EncEnvelopeTooLarge enc_path] else []) @
              envelope_dispatch enc_map enc_path options))"

definition check_item :: "ValidatorOptions \<Rightarrow> nat \<Rightarrow> CborValue \<Rightarrow> ValidationIssue list" where
  "check_item options idx item = (case as_map item of
       None \<Rightarrow> []
     | Some item_map \<Rightarrow>
         check_item_hashes item_map idx @
         (case map_get item_map (lit ''uris'') of
            None \<Rightarrow> []
          | Some uris_raw \<Rightarrow> check_uris uris_raw [key ''items'', Index idx, key ''uris'']) @
         (case map_get item_map (lit ''enc'') of
            None \<Rightarrow> []
          | Some enc_raw \<Rightarrow> check_item_enc item_map enc_raw idx options))"

section \<open>Merkle commitments\<close>

definition check_merkle_commit :: "nat \<Rightarrow> CborValue \<Rightarrow> ValidationIssue list" where
  "check_merkle_commit idx commit =
     (let base = [key ''merkle'', Index idx]
      in case as_map commit of
        None \<Rightarrow> []
      | Some commit_map \<Rightarrow>
          (let alg = (case Option.bind (map_get commit_map (lit ''alg'')) as_text of None \<Rightarrow> [] | Some a \<Rightarrow> a)
           in (case registry_lookup MERKLE_COMMIT_ALG_LENGTHS alg of
                 None \<Rightarrow> [issue UnsupportedMerkleCommitAlg (base @ [key ''alg''])]
               | Some expected \<Rightarrow> (case Option.bind (map_get commit_map (lit ''root'')) as_bytes of
                   None \<Rightarrow> []
                 | Some root \<Rightarrow>
                     if length root \<noteq> expected
                     then [issue HashDigestLengthMismatch (base @ [key ''root''])] else [])) @
              (case map_get commit_map (lit ''leaf_count'') of
                 Some (Unsigned n) \<Rightarrow>
                   if \<not> (1 \<le> n \<and> n \<le> UINT32_MAX)
                   then [issue SchemaMerkleLeafCountInvalid (base @ [key ''leaf_count''])] else []
               | Some (Negative _) \<Rightarrow> [issue SchemaTypeMismatch (base @ [key ''leaf_count''])]
               | _ \<Rightarrow> []) @
              (case map_get commit_map (lit ''uris'') of
                 None \<Rightarrow> []
               | Some uris_raw \<Rightarrow> check_uris uris_raw (base @ [key ''uris'']))))"

section \<open>Signature entries\<close>

text \<open>\<open>i64::try_from\<close> fails from \<open>2^63\<close> on; \<open>Negative m\<close> is \<open>-1 - m\<close>.\<close>

fun int_value :: "CborValue \<Rightarrow> int option" where
  "int_value (Unsigned n) = (if uint n < 2 ^ 63 then Some (uint n) else None)"
| "int_value (Negative m) = (if uint m < 2 ^ 63 then Some (-1 - uint m) else None)"
| "int_value _ = None"

definition int_keyed_get :: "cbor_pairs \<Rightarrow> int \<Rightarrow> CborValue option" where
  "int_keyed_get m label = map_option snd (find (\<lambda>(k, _). int_value k = Some label) m)"

definition inspect_cose_key :: "bytes \<Rightarrow> path \<Rightarrow> ValidationIssue option" where
  "inspect_cose_key key_bytes p = (case decode_canonical_cbor key_bytes of
       Inl _ \<Rightarrow> Some (issue MalformedSigCoseSign1 p)
     | Inr decoded \<Rightarrow>
         (let get_label = (\<lambda>label. Option.bind (as_map decoded) (\<lambda>pairs. int_keyed_get pairs label))
          in if get_label (-4) \<noteq> None then Some (issue SigPrivateKeyLeaked p)
             else if get_label 1 \<noteq> Some (Unsigned 1) then Some (issue MalformedSigCoseSign1 p)
             else if get_label (-1) \<noteq> Some (Unsigned 6) then Some (issue MalformedSigCoseSign1 p)
             else case get_label (-2) of
                    Some (Bytes x) \<Rightarrow> if length x = 32 then None else Some (issue MalformedSigCoseSign1 p)
                  | _ \<Rightarrow> Some (issue MalformedSigCoseSign1 p)))"

record CoseSign1Structural =
  cs_protected_header :: "cbor_pairs option"
  cs_payload_present :: bool

text \<open>\<open>None\<close> is the \<open>Err\<close> of the source, whose string is only a message.\<close>

definition decode_cose_sign1_structural :: "bytes \<Rightarrow> CoseSign1Structural option" where
  "decode_cose_sign1_structural data = (case decode_canonical_cbor data of
       Inr (Array [e0, e1, e2, e3]) \<Rightarrow>
         (case (e0, e1, e3) of
            (Bytes protected_bytes, CMap _, Bytes sig) \<Rightarrow>
              (case (case e2 of Null \<Rightarrow> Some False | Bytes _ \<Rightarrow> Some True | _ \<Rightarrow> None) of
                 None \<Rightarrow> None
               | Some payload_present \<Rightarrow>
                   if length sig \<noteq> 64 then None
                   else if protected_bytes = []
                   then Some \<lparr>cs_protected_header = None, cs_payload_present = payload_present\<rparr>
                   else (case decode_canonical_cbor protected_bytes of
                       Inr (CMap m) \<Rightarrow>
                         if m = [] then None
                         else Some \<lparr>cs_protected_header = Some m, cs_payload_present = payload_present\<rparr>
                     | _ \<Rightarrow> None))
          | _ \<Rightarrow> None)
     | _ \<Rightarrow> None)"

definition check_cose_sign1 :: "CoseSign1Structural \<Rightarrow> bool \<Rightarrow> path \<Rightarrow> ValidationIssue list" where
  "check_cose_sign1 cose has_cose_key base =
     (if cs_payload_present cose then [issue MalformedSigCoseSign1 base]
      else
        (let alg = Option.bind (Option.bind (cs_protected_header cose) (\<lambda>h. int_keyed_get h 1)) int_value;
             kid = Option.bind (cs_protected_header cose) (\<lambda>h. int_keyed_get h 4);
             kid_32 = (case kid of Some (Bytes b) \<Rightarrow> length b = 32 | _ \<Rightarrow> False)
         in (if (case alg of Some a \<Rightarrow> a \<in> set KNOWN_SIG_ALG_IDS | None \<Rightarrow> False) then []
             else [issue SignatureUnsupported base]) @
            (if kid_32 \<and> has_cose_key then [issue SigEntryKidCoseKeyConflict base] else [])))"

definition check_sig_entry :: "nat \<Rightarrow> CborValue \<Rightarrow> ValidationIssue list" where
  "check_sig_entry idx entry =
     (let base = [key ''sigs'', Index idx]
      in case as_map entry of
        None \<Rightarrow> []
      | Some entry_map \<Rightarrow>
          (let cose_key = Option.bind (map_get entry_map (lit ''cose_key'')) as_bytes
           in case Option.bind cose_key (\<lambda>b. inspect_cose_key b (base @ [key ''cose_key''])) of
             Some key_issue \<Rightarrow> [key_issue]
           | None \<Rightarrow> (case Option.bind (map_get entry_map (lit ''cose_sign1'')) as_bytes of
               None \<Rightarrow> []
             | Some cose_bytes \<Rightarrow> (case decode_cose_sign1_structural cose_bytes of
                 None \<Rightarrow> [issue MalformedSigCoseSign1 base]
               | Some cose \<Rightarrow> check_cose_sign1 cose (cose_key \<noteq> None) base))))"

section \<open>All domain checks\<close>

definition array_checks ::
  "cbor_pairs \<Rightarrow> string \<Rightarrow> (nat \<Rightarrow> CborValue \<Rightarrow> ValidationIssue list) \<Rightarrow> ValidationIssue list" where
  "array_checks record_map field check = (case map_get record_map (lit field) of
       Some (Array entries) \<Rightarrow> each check entries | _ \<Rightarrow> [])"

definition domain_issues :: "cbor_pairs \<Rightarrow> ValidatorOptions \<Rightarrow> ValidationIssue list" where
  "domain_issues record_map options =
     check_content_commitment_presence record_map @
     check_crit record_map options @
     check_unknown_top_level record_map @
     array_checks record_map ''items'' (check_item options) @
     array_checks record_map ''merkle'' check_merkle_commit @
     (if array_length record_map ''sigs'' = Some 0 then [issue SchemaTypeMismatch [key ''sigs'']] else []) @
     array_checks record_map ''sigs'' check_sig_entry"

end
