(* ===== verification/Poe_Validate.thy ===== *)
theory Poe_Validate
  imports Poe_Domain Poe_Record
begin

text \<open>
  The rest of the structural validator (\<open>src/poe_standard.rs\<close>): the typed record is read back from the
  decoded map, and \<open>validate_poe_record\<close> composes decoding, guard, schema, domain checks and result.
\<close>

section \<open>Reading the record back\<close>

text \<open>\<open>if let Some(CborValue::Array(xs))\<close> with a collected map: the outer \<open>None\<close> is the \<open>?\<close> that fails.\<close>

definition opt_array :: "(CborValue \<Rightarrow> 'a option) \<Rightarrow> CborValue option \<Rightarrow> 'a list option option" where
  "opt_array f u = (case u of
       Some (Array xs) \<Rightarrow> (case collect_opt (map f xs) of None \<Rightarrow> None | Some ys \<Rightarrow> Some (Some ys))
     | _ \<Rightarrow> Some None)"

definition slot_from_cbor :: "CborValue \<Rightarrow> Slot option" where
  "slot_from_cbor value = Option.bind (as_map value) (\<lambda>m. Some
     \<lparr>slot_epk = Option.bind (map_get m (lit ''epk'')) as_bytes,
      slot_kem_ct = Option.bind (map_get m (lit ''kem_ct'')) as_bytes,
      slot_wrap = Option.bind (map_get m (lit ''wrap'')) as_bytes\<rparr>)"

definition param_from_cbor :: "CborValue \<times> CborValue \<Rightarrow> (rstring \<times> u64) option" where
  "param_from_cbor p = (case p of
       (k, Unsigned n) \<Rightarrow> Option.bind (as_text k) (\<lambda>t. Some (t, n)) | _ \<Rightarrow> None)"

definition passphrase_from_cbor :: "CborValue \<Rightarrow> PassphraseBlock option" where
  "passphrase_from_cbor value = Option.bind (as_map value) (\<lambda>m.
     Option.bind (map_get m (lit ''params'')) (\<lambda>ps.
     Option.bind (case ps of CMap ps \<Rightarrow> collect_opt (map param_from_cbor ps) | _ \<Rightarrow> None) (\<lambda>params.
     Option.bind (Option.bind (map_get m (lit ''alg'')) as_text) (\<lambda>alg.
     Option.bind (Option.bind (map_get m (lit ''salt'')) as_bytes) (\<lambda>salt.
     Some \<lparr>pp_alg = alg, pp_salt = salt, pp_params = params\<rparr>)))))"

text \<open>The typed-versus-opaque dispatch, replayed.\<close>

definition identifiers_supported :: "u64 \<Rightarrow> cbor_pairs \<Rightarrow> bool" where
  "identifiers_supported scheme m \<longleftrightarrow> scheme = 1 \<and>
     (case map_get m (lit ''kem'') of
        Some (Text kem) \<Rightarrow> kem_slot_descriptor kem \<noteq> None | None \<Rightarrow> True | Some _ \<Rightarrow> False) \<and>
     (case map_get m (lit ''aead'') of
        Some (Text aead) \<Rightarrow> registry_lookup AEAD_NONCE_LENGTHS aead \<noteq> None | _ \<Rightarrow> False)"

definition scheme1_from_cbor :: "u64 \<Rightarrow> cbor_pairs \<Rightarrow> EncScheme1 option" where
  "scheme1_from_cbor scheme m =
     Option.bind (Option.bind (map_get m (lit ''aead'')) as_text) (\<lambda>aead.
     Option.bind (Option.bind (map_get m (lit ''nonce'')) as_bytes) (\<lambda>nonce.
     Option.bind (opt_array slot_from_cbor (map_get m (lit ''slots''))) (\<lambda>slots.
     Option.bind (case map_get m (lit ''passphrase'') of
         None \<Rightarrow> Some None | Some pp \<Rightarrow> map_option Some (passphrase_from_cbor pp)) (\<lambda>passphrase.
     Some \<lparr>enc_scheme = scheme, enc_aead = aead, enc_nonce = nonce,
       enc_kem = Option.bind (map_get m (lit ''kem'')) as_text, enc_slots = slots,
       enc_slots_mac = Option.bind (map_get m (lit ''slots_mac'')) as_bytes,
       enc_passphrase = passphrase\<rparr>))))"

definition envelope_from_cbor :: "CborValue \<Rightarrow> EncryptionEnvelope option" where
  "envelope_from_cbor value = Option.bind (as_map value) (\<lambda>m.
     case map_get m (lit ''scheme'') of
       Some (Unsigned scheme) \<Rightarrow>
         if \<not> identifiers_supported scheme m then Some (Opaque value)
         else map_option Scheme1 (scheme1_from_cbor scheme m)
     | _ \<Rightarrow> Some (Opaque value))"

definition hash_from_cbor :: "CborValue \<times> CborValue \<Rightarrow> (rstring \<times> bytes) option" where
  "hash_from_cbor p = Option.bind (as_text (fst p)) (\<lambda>k. Option.bind (as_bytes (snd p)) (\<lambda>d. Some (k, d)))"

definition item_from_cbor :: "CborValue \<Rightarrow> ItemEntry option" where
  "item_from_cbor value = Option.bind (as_map value) (\<lambda>m.
     Option.bind (map_get m (lit ''hashes'')) (\<lambda>h.
     Option.bind (case h of CMap ps \<Rightarrow> collect_opt (map hash_from_cbor ps) | _ \<Rightarrow> None) (\<lambda>hashes.
     Option.bind (opt_array as_text (map_get m (lit ''uris''))) (\<lambda>uris.
     Option.bind (case map_get m (lit ''enc'') of
         None \<Rightarrow> Some None | Some e \<Rightarrow> map_option Some (envelope_from_cbor e)) (\<lambda>enc.
     Some \<lparr>item_hashes = hashes, item_uris = uris, item_enc = enc\<rparr>)))))"

definition merkle_from_cbor :: "CborValue \<Rightarrow> MerkleCommit option" where
  "merkle_from_cbor value = Option.bind (as_map value) (\<lambda>m.
     Option.bind (Option.bind (map_get m (lit ''alg'')) as_text) (\<lambda>alg.
     Option.bind (Option.bind (map_get m (lit ''root'')) as_bytes) (\<lambda>root.
     Option.bind (case map_get m (lit ''leaf_count'') of Some (Unsigned n) \<Rightarrow> Some n | _ \<Rightarrow> None) (\<lambda>leaf_count.
     Option.bind (opt_array as_text (map_get m (lit ''uris''))) (\<lambda>uris.
     Some \<lparr>mc_alg = alg, mc_root = root, mc_leaf_count = leaf_count, mc_uris = uris\<rparr>)))))"

definition sig_from_cbor :: "CborValue \<Rightarrow> SigEntry option" where
  "sig_from_cbor value = Option.bind (as_map value) (\<lambda>m.
     Option.bind (Option.bind (map_get m (lit ''cose_sign1'')) as_bytes) (\<lambda>cose_sign1.
     Some \<lparr>sig_cose_sign1 = cose_sign1, sig_cose_key = Option.bind (map_get m (lit ''cose_key'')) as_bytes\<rparr>))"

definition extensions_from_cbor :: "cbor_pairs \<Rightarrow> (rstring \<times> CborValue) list" where
  "extensions_from_cbor m = List.map_filter (\<lambda>(k, v). case k of
       Text t \<Rightarrow> if t \<notin> set TOP_LEVEL_BASE_KEYS then Some (t, v) else None | _ \<Rightarrow> None) m"

definition record_from_cbor :: "CborValue \<Rightarrow> PoeRecord option" where
  "record_from_cbor decoded = Option.bind (as_map decoded) (\<lambda>m.
     Option.bind (case map_get m (lit ''v'') of Some (Unsigned n) \<Rightarrow> Some n | _ \<Rightarrow> None) (\<lambda>v.
     Option.bind (opt_array item_from_cbor (map_get m (lit ''items''))) (\<lambda>items.
     Option.bind (opt_array merkle_from_cbor (map_get m (lit ''merkle''))) (\<lambda>merkle.
     Option.bind (opt_array sig_from_cbor (map_get m (lit ''sigs''))) (\<lambda>sigs.
     Option.bind (opt_array as_text (map_get m (lit ''crit''))) (\<lambda>crit.
     Some \<lparr>rec_v = v, rec_items = items, rec_merkle = merkle,
       rec_supersedes = Option.bind (map_get m (lit ''supersedes'')) as_bytes,
       rec_sigs = sigs, rec_crit = crit, rec_extensions = extensions_from_cbor m\<rparr>))))))"

section \<open>The validator\<close>

datatype ValidateResult =
    VOk PoeRecord "ValidationIssue list" "ValidationIssue list"
  | VFail "ValidationIssue list"

definition result_emission ::
  "CborValue \<Rightarrow> ValidationIssue list \<Rightarrow> ValidateResult" where
  "result_emission decoded issues =
     (let sorted = sort_issues issues
      in if list_ex (\<lambda>i. vi_severity i = SevError) sorted then VFail sorted
         else case record_from_cbor decoded of
           Some r \<Rightarrow> VOk r (filter (\<lambda>i. vi_severity i = SevWarning) sorted)
             (filter (\<lambda>i. vi_severity i = SevInfo) sorted)
         | None \<Rightarrow> VFail [issue SchemaTypeMismatch []])"

definition validate_poe_record :: "bytes \<Rightarrow> ValidatorOptions \<Rightarrow> ValidateResult" where
  "validate_poe_record bs options = (case decode_canonical_cbor bs of
       Inl cause \<Rightarrow> VFail [issue MalformedCbor []]
     | Inr decoded \<Rightarrow>
         (let pre_guard = collect_non_text_key_map_issues decoded
          in if pre_guard \<noteq> [] then VFail (sort_issues pre_guard)
             else case as_map decoded of
               None \<Rightarrow> VFail [issue SchemaTypeMismatch []]
             | Some record_map \<Rightarrow>
                 (let schema = schema_issues record_map
                  in if schema \<noteq> [] then VFail (sort_issues schema)
                     else result_emission decoded (domain_issues record_map options))))"

fun is_ok :: "ValidateResult \<Rightarrow> bool" where
  "is_ok (VOk _ _ _) = True"
| "is_ok (VFail _) = False"

fun error_codes :: "ValidateResult \<Rightarrow> ErrorCode set" where
  "error_codes (VOk _ _ _) = {}"
| "error_codes (VFail issues) = set (map vi_code (filter (\<lambda>i. vi_severity i = SevError) issues))"

fun info_codes :: "ValidateResult \<Rightarrow> ErrorCode set" where
  "info_codes (VOk _ _ info) = set (map vi_code info)"
| "info_codes (VFail issues) = set (map vi_code (filter (\<lambda>i. vi_severity i = SevInfo) issues))"

end
