(* ===== verification/Poe_Roundtrip.thy ===== *)
theory Poe_Roundtrip
  imports Poe_Validate
begin

text \<open>
  The validator against the encoder: a record that the validator accepts is read back completely, and
  encoding what was read gives the bytes that were validated.

  For each struct of the record one lemma says that a CBOR value of the shape the passes leave over is
  read back (\<open>*_from_cbor\<close> is not \<open>None\<close>) to a value that \<open>rebuilds\<close> it. \<open>clean\<close> is the absence of
  error-severity issues, and the lemmas about it say which shape a clean domain pass leaves.
\<close>

section \<open>Issues without errors\<close>

definition clean :: "ValidationIssue list \<Rightarrow> bool" where
  "clean xs \<longleftrightarrow> list_all (\<lambda>i. vi_severity i \<noteq> SevError) xs"

lemma clean_simps [simp]:
  "clean []" "clean (xs @ ys) \<longleftrightarrow> clean xs \<and> clean ys"
  "clean (i # xs) \<longleftrightarrow> vi_severity i \<noteq> SevError \<and> clean xs"
  by (simp_all add: clean_def)

lemma clean_each: "clean (each f xs) \<longleftrightarrow> (\<forall>i<length xs. clean (f i (xs ! i)))"
  unfolding clean_def list_all_iff by (auto simp: set_each)

lemma clean_concat: "clean (concat (map f xs)) \<longleftrightarrow> (\<forall>x\<in>set xs. clean (f x))"
  by (auto simp: clean_def list_all_iff)

lemma clean_map: "clean (map f xs) \<longleftrightarrow> (\<forall>x\<in>set xs. vi_severity (f x) \<noteq> SevError)"
  by (auto simp: clean_def list_all_iff)

lemma clean_if: "clean (if b then xs else ys) \<longleftrightarrow> (if b then clean xs else clean ys)"
  by simp

lemma severity_error [simp]:
  "severity SchemaTypeMismatch = SevError" "severity SchemaMissingRequired = SevError"
  "severity SchemaUnknownField = SevError" "severity SchemaInvalidLiteral = SevError"
  "severity SchemaEmptyRecord = SevError" "severity HashDigestLengthMismatch = SevError"
  "severity UnsupportedHashAlg = SevError" "severity UnsupportedMerkleCommitAlg = SevError"
  "severity SchemaMerkleLeafCountInvalid = SevError" "severity InvalidUri = SevError"
  "severity UnauthenticatedCipherForbidden = SevError" "severity UnsupportedAeadAlg = SevError"
  "severity NonceLengthMismatch = SevError" "severity UnsupportedEnvelopeScheme = SevError"
  "severity EncSlotsEmpty = SevError" "severity EncSlotInvalidShape = SevError"
  "severity UnsupportedKemAlg = SevError" "severity EncKemRequired = SevError"
  "severity KemEpkLengthMismatch = SevError" "severity KemCtLengthMismatch = SevError"
  "severity WrapLengthMismatch = SevError" "severity EncSlotsMacInvalidLength = SevError"
  "severity EncSlotsMacRequired = SevError" "severity EncSlotsRequired = SevError"
  "severity EncSlotsDuplicateKemMaterial = SevError" "severity EncSlotsTooMany = SevError"
  "severity EncEnvelopeTooLarge = SevError" "severity EncExclusivityViolation = SevError"
  "severity EncNoKeyPath = SevError" "severity EncRequiresContentHash = SevError"
  "severity EncPassphraseAlgUnsupported = SevError" "severity EncPassphraseSaltTooShort = SevError"
  "severity EncPassphraseSaltTooLong = SevError" "severity EncPassphraseArgon2ParamsTooLow = SevError"
  "severity EncPassphraseParamsExceedPolicy = SevError" "severity MalformedSigCoseSign1 = SevError"
  "severity SigEntryInvalidShape = SevError" "severity SigEntryKidCoseKeyConflict = SevError"
  "severity SigPrivateKeyLeaked = SevError" "severity SupersedesTxInvalidLength = SevError"
  "severity ExtensionUnsupportedCritical = SevError" "severity CritShapeInvalid = SevError"
  "severity MalformedCbor = SevError"
  and severity_info [simp]: "severity SignatureUnsupported = SevInfo" "severity EncUnsupported = SevInfo"
  by (simp_all add: severity_def)

section \<open>Rebuilding maps from their fields\<close>

lemma rebuilds_opt_pair:
  "rel_option rebuilds u (map_get m (lit k)) \<Longrightarrow>
   rebuilds_pairs (opt_pair k u) (case map_get m (lit k) of None \<Rightarrow> [] | Some v \<Rightarrow> [(Text (lit k), v)])"
  by (cases u; cases "map_get m (lit k)") (auto simp: opt_pair_def rebuilds_pairs_def cbor_text_def)

definition pairs_of :: "(string \<times> CborValue option) list \<Rightarrow> cbor_pairs" where
  "pairs_of kus = concat (map (\<lambda>(k, u). opt_pair k u) kus)"

lemma pairs_of_simps:
  "pairs_of [] = []" "pairs_of ((k, u) # kus) = opt_pair k u @ pairs_of kus"
  "opt_pair k (Some v) = [(cbor_text k, v)]"
  by (simp_all add: pairs_of_def opt_pair_def)

lemma rebuilds_pairs_of:
  "list_all (\<lambda>(k, u). rel_option rebuilds u (map_get m (lit k))) kus \<Longrightarrow>
   rebuilds_pairs (pairs_of kus) (fields_of (map (\<lambda>p. lit (fst p)) kus) m)"
proof (induction kus)
  case Nil
  then show ?case by (simp add: pairs_of_def fields_of_def rebuilds_pairs_def)
next
  case (Cons p kus)
  obtain k u where p: "p = (k, u)" by (cases p)
  have "rebuilds_pairs (opt_pair k u) (case map_get m (lit k) of None \<Rightarrow> [] | Some v \<Rightarrow> [(Text (lit k), v)])"
    using Cons.prems p by (intro rebuilds_opt_pair) simp
  from rebuilds_pairs_append [OF this, of "pairs_of kus" "fields_of (map (\<lambda>p. lit (fst p)) kus) m"]
  show ?case using Cons p by (simp add: pairs_of_def fields_of_def)
qed

text \<open>A closed map is rebuilt by its fields, in whatever order the encoder pushes them.\<close>

lemma rebuilds_closed:
  assumes can: "canonical (CMap m)" and closed: "closed_keys known m"
    and ks: "set known = set (map (\<lambda>p. lit (fst p)) kus)" "distinct (map (\<lambda>p. lit (fst p)) kus)"
    and kus: "list_all (\<lambda>(k, u). rel_option rebuilds u (map_get m (lit k))) kus"
  shows "rebuilds (CMap (pairs_of kus)) (CMap m)"
proof (rule rebuilds_CMap [OF can rebuilds_pairs_of [OF kus]])
  show "mset (fields_of (map (\<lambda>p. lit (fst p)) kus) m) = mset m"
    using canonical_distinct_keys [OF can] ks(2) closed
    by (intro mset_fields_of_closed) (auto simp: closed_keys_def ks(1))
qed

text \<open>The record map keeps its other keys as well.\<close>

lemma rebuilds_open:
  assumes can: "canonical (CMap m)" and ks: "distinct (map (\<lambda>p. lit (fst p)) kus)"
    and kus: "list_all (\<lambda>(k, u). rel_option rebuilds u (map_get m (lit k))) kus"
  shows "rebuilds (CMap (pairs_of kus @ filter (\<lambda>p. fst p \<notin> Text ` set (map (\<lambda>p. lit (fst p)) kus)) m)) (CMap m)"
proof (rule rebuilds_CMap [OF can rebuilds_pairs_append [OF rebuilds_pairs_of [OF kus]]])
  let ?rest = "filter (\<lambda>p. fst p \<notin> Text ` set (map (\<lambda>p. lit (fst p)) kus)) m"
  have "rebuilds k k \<and> rebuilds v v" if "(k, v) \<in> set m" for k v
    using can that by (fastforce simp: canonical_simps intro: rebuilds_refl)
  then show "rebuilds_pairs ?rest ?rest"
    unfolding rebuilds_pairs_def by (intro list.rel_refl_strong) auto
  show "mset (fields_of (map (\<lambda>p. lit (fst p)) kus) m @ ?rest) = mset m"
    by (rule mset_fields_of [OF canonical_distinct_keys [OF can] ks])
qed

text \<open>Fields that are leaves, or arrays of leaves.\<close>

lemma rebuilds_bytes_field:
  "(\<And>v. u = Some v \<Longrightarrow> is_bytes v) \<Longrightarrow> rel_option rebuilds (map_option Bytes (Option.bind u as_bytes)) u"
  by (cases u) (auto simp: is_bytes_def)

lemma rebuilds_text_field:
  "(\<And>v. u = Some v \<Longrightarrow> is_text v) \<Longrightarrow> rel_option rebuilds (map_option Text (Option.bind u as_text)) u"
  by (cases u) (auto simp: is_text_def)

lemma rebuilds_text_array:
  assumes "typed_array is_text u" "\<And>v. u = Some v \<Longrightarrow> canonical v"
  shows "\<exists>ts. opt_array as_text u = Some ts \<and>
    rel_option rebuilds (map_option (\<lambda>ts. Array (map Text ts)) ts) u"
proof (cases u)
  case (Some v)
  then obtain us where us: "v = Array us" "list_all is_text us"
    using assms(1) by (auto simp: typed_array_def split: CborValue.splits)
  then have "\<forall>x\<in>set us. \<exists>t. x = Text t" by (auto simp: list_all_iff is_text_def)
  then obtain ts where ts: "us = map Text ts" by (metis ex_map_conv)
  have "collect_opt (map as_text us) = Some ts" unfolding ts by (simp add: comp_def)
  then show ?thesis using Some us ts assms(2) rebuilds_refl by (auto simp: opt_array_def)
qed (simp add: opt_array_def)

text \<open>Arrays of structs.\<close>

lemma rebuilds_struct_array:
  assumes "typed_array P u" "\<And>v. u = Some v \<Longrightarrow> canonical v"
    and "\<And>x xs. u = Some (Array xs) \<Longrightarrow> x \<in> set xs \<Longrightarrow> P x \<Longrightarrow> canonical x \<Longrightarrow>
      \<exists>y. f x = Some y \<and> rebuilds (g y) x"
  shows "\<exists>ys. opt_array f u = Some ys \<and> rel_option rebuilds (map_option (\<lambda>ys. Array (map g ys)) ys) u"
proof (cases u)
  case (Some v)
  then obtain xs where xs: "v = Array xs" "list_all P xs"
    using assms(1) by (auto simp: typed_array_def split: CborValue.splits)
  have "\<exists>y. f x = Some y \<and> rebuilds (g y) x" if "x \<in> set xs" for x
    using assms(2,3) Some xs that canonical_Array_in by (metis list_all_iff)
  then obtain h where h: "\<And>x. x \<in> set xs \<Longrightarrow> f x = Some (h x) \<and> rebuilds (g (h x)) x" by metis
  have "map f xs = map (\<lambda>x. Some (h x)) xs" using h by simp
  then have "collect_opt (map f xs) = Some (map h xs)" by (simp only: collect_opt_map_Some)
  moreover have "rebuilds (Array (map g (map h xs))) (Array xs)"
    using h by (intro rebuilds_Array) (simp add: list_all2_conv_all_nth)
  ultimately show ?thesis using Some xs by (auto simp: opt_array_def)
qed (simp add: opt_array_def)

section \<open>The structs\<close>

lemma sig_rebuilds:
  assumes "sig_shape entry" "canonical entry"
  shows "\<exists>y. sig_from_cbor entry = Some y \<and> rebuilds (sig_entry_to_cbor y) entry"
proof -
  obtain m b where m: "entry = CMap m" "closed_keys SIG_ENTRY_KEYS m"
    "map_get m (lit ''cose_sign1'') = Some (Bytes b)" "\<And>v. map_get m (lit ''cose_key'') = Some v \<Longrightarrow> is_bytes v"
    using assms(1) by (auto simp: sig_shape_def)
  let ?y = "\<lparr>sig_cose_sign1 = b, sig_cose_key = Option.bind (map_get m (lit ''cose_key'')) as_bytes\<rparr>"
  let ?kus = "[(''cose_sign1'', Some (Bytes b)),
      (''cose_key'', map_option Bytes (Option.bind (map_get m (lit ''cose_key'')) as_bytes))]"
  have "rebuilds (CMap (pairs_of ?kus)) (CMap m)"
    by (rule rebuilds_closed [OF assms(2) [unfolded m(1)] m(2)])
      (use m(3,4) in \<open>auto simp: SIG_ENTRY_KEYS_def intro: rebuilds_bytes_field\<close>)
  moreover have "sig_entry_to_cbor ?y = CMap (pairs_of ?kus)"
    by (simp add: sig_entry_to_cbor_def pairs_of_simps)
  moreover have "sig_from_cbor entry = Some ?y" by (simp add: sig_from_cbor_def m)
  ultimately show ?thesis using m(1) by auto
qed

lemma merkle_rebuilds:
  assumes "merkle_shape entry" "canonical entry" "clean (check_merkle_commit i entry)"
  shows "\<exists>y. merkle_from_cbor entry = Some y \<and> rebuilds (merkle_to_cbor y) entry"
proof -
  obtain m a r where m: "entry = CMap m" "closed_keys MERKLE_KEYS m" "map_get m (lit ''alg'') = Some (Text a)"
    "map_get m (lit ''root'') = Some (Bytes r)" "typed_array is_text (map_get m (lit ''uris''))"
    "\<exists>n. map_get m (lit ''leaf_count'') = Some (Unsigned n) \<or> map_get m (lit ''leaf_count'') = Some (Negative n)"
    using assms(1) by (auto simp: merkle_shape_def)
  obtain n where n: "map_get m (lit ''leaf_count'') = Some (Unsigned n)"
    using assms(3) m(6) by (auto simp: check_merkle_commit_def m(1) Let_def)
  obtain ts where ts: "opt_array as_text (map_get m (lit ''uris'')) = Some ts"
    "rel_option rebuilds (map_option (\<lambda>ts. Array (map Text ts)) ts) (map_get m (lit ''uris''))"
    using rebuilds_text_array [OF m(5)] canonical_map_get assms(2) m(1) by blast
  let ?y = "\<lparr>mc_alg = a, mc_root = r, mc_leaf_count = n, mc_uris = ts\<rparr>"
  let ?kus = "[(''alg'', Some (Text a)), (''root'', Some (Bytes r)), (''leaf_count'', Some (Unsigned n)),
      (''uris'', map_option (\<lambda>ts. Array (map Text ts)) ts)]"
  have "rebuilds (CMap (pairs_of ?kus)) (CMap m)"
    by (rule rebuilds_closed [OF assms(2) [unfolded m(1)] m(2)])
      (use m(3,4) n ts(2) in \<open>auto simp: MERKLE_KEYS_def\<close>)
  moreover have "merkle_to_cbor ?y = CMap (pairs_of ?kus)"
    by (simp add: merkle_to_cbor_def pairs_of_simps uris_to_cbor_def [abs_def])
  moreover have "merkle_from_cbor entry = Some ?y" by (simp add: merkle_from_cbor_def m n ts)
  ultimately show ?thesis using m(1) by auto
qed

text \<open>A slot that passes the shape gate is the closed two-field map of its KEM.\<close>

lemma kem_slot_descriptor_Some:
  "kem_slot_descriptor kem = Some d \<longleftrightarrow>
     kem = lit ''x25519'' \<and> d = \<lparr>kd_field = ''epk'', kd_field_length = 32, kd_wrap_length = 48,
       kd_field_length_code = KemEpkLengthMismatch\<rparr> \<or>
     kem = lit ''mlkem768x25519'' \<and> d = \<lparr>kd_field = ''kem_ct'', kd_field_length = 1120, kd_wrap_length = 48,
       kd_field_length_code = KemCtLengthMismatch\<rparr>"
  by (auto simp: kem_slot_descriptor_def)

definition slot_ok :: "KemSlotDescriptor \<Rightarrow> CborValue \<Rightarrow> bool" where
  "slot_ok d slot \<longleftrightarrow> (\<exists>m c w. slot = CMap m \<and> closed_keys [lit (kd_field d), lit ''wrap''] m \<and>
     map_get m (lit (kd_field d)) = Some (Bytes c) \<and> length c = kd_field_length d \<and>
     map_get m (lit ''wrap'') = Some (Bytes w) \<and> length w = kd_wrap_length d)"

lemma clean_slot_shape:
  assumes "clean (check_slot_shape m d p)" "kem_slot_descriptor kem = Some d" "\<not> is_non_text_key_map (CMap m)"
  shows "slot_ok d (CMap m)"
proof -
  have unknown: "closed_keys SLOT_KEY_UNIVERSE m"
    using assms(1,3) unknown_keys_Nil [of m EncSlotInvalidShape p SLOT_KEY_UNIVERSE]
    by (auto simp: check_slot_shape_def Let_def unknown_keys_def clean_map filter_empty_conv)
  have fields: "\<exists>c w. map_get m (lit (kd_field d)) = Some (Bytes c) \<and> length c = kd_field_length d \<and>
     map_get m (lit ''wrap'') = Some (Bytes w) \<and> length w = kd_wrap_length d"
    using assms(1,2)
    by (auto simp: check_slot_shape_def Let_def kem_slot_descriptor_Some bind_eq_Some_conv
        split: option.splits if_splits)
  have "\<not> map_has m (lit (if kd_field d = ''epk'' then ''kem_ct'' else ''epk''))"
    using assms(1) by (auto simp: check_slot_shape_def Let_def split: if_splits)
  then have "Text (lit (if kd_field d = ''epk'' then ''kem_ct'' else ''epk'')) \<notin> fst ` set m"
    by (simp add: map_has_def map_get_None)
  then have "closed_keys [lit (kd_field d), lit ''wrap''] m"
    using unknown assms(2)
    by (fastforce simp: closed_keys_def SLOT_KEY_UNIVERSE_def kem_slot_descriptor_Some image_iff)
  then show ?thesis using fields by (auto simp: slot_ok_def)
qed

lemma slot_rebuilds:
  assumes "slot_ok d slot" "kem_slot_descriptor kem = Some d" "canonical slot"
  shows "\<exists>y. slot_from_cbor slot = Some y \<and> rebuilds (slot_to_cbor y) slot"
proof -
  obtain m c w where m: "slot = CMap m" "closed_keys [lit (kd_field d), lit ''wrap''] m"
    "map_get m (lit (kd_field d)) = Some (Bytes c)" "map_get m (lit ''wrap'') = Some (Bytes w)"
    using assms(1) by (auto simp: slot_ok_def)
  let ?kus = "[(kd_field d, Some (Bytes c)), (''wrap'', Some (Bytes w))]"
  have d: "kd_field d = ''epk'' \<or> kd_field d = ''kem_ct''" using assms(2) by (auto simp: kem_slot_descriptor_Some)
  have reb: "rebuilds (CMap (pairs_of ?kus)) (CMap m)"
    by (rule rebuilds_closed [OF assms(3) [unfolded m(1)] m(2)]) (use d m(3,4) in auto)
  have none: "map_get m k = None" if "k \<noteq> lit (kd_field d)" "k \<noteq> lit ''wrap''" for k
    using m(2) that by (auto simp: map_get_None closed_keys_def)
  from d show ?thesis
  proof
    assume f: "kd_field d = ''epk''"
    then have "map_get m (lit ''kem_ct'') = None" by (intro none) simp_all
    then show ?thesis using reb m f
      by (simp add: slot_from_cbor_def slot_to_cbor_def pairs_of_simps cbor_text_def)
  next
    assume f: "kd_field d = ''kem_ct''"
    then have "map_get m (lit ''epk'') = None" by (intro none) simp_all
    then show ?thesis using reb m f
      by (simp add: slot_from_cbor_def slot_to_cbor_def pairs_of_simps cbor_text_def)
  qed
qed

text \<open>The slot loop: every slot passes its gate, and no encapsulation material repeats.\<close>

definition slot_material :: "KemSlotDescriptor \<Rightarrow> CborValue \<Rightarrow> bytes option" where
  "slot_material d slot =
     Option.bind (as_map slot) (\<lambda>m. Option.bind (map_get m (lit (kd_field d))) as_bytes)"

lemma clean_slot_loop:
  assumes "kem_slot_descriptor kem = Some d"
  shows "clean (slot_loop d sp j seen slots) \<Longrightarrow>
    list_all (\<lambda>s. as_map s \<noteq> None \<and> \<not> is_non_text_key_map s) slots \<Longrightarrow>
    list_all (slot_ok d) slots \<and> distinct (map (slot_material d) slots) \<and>
    set (map (slot_material d) slots) \<inter> Some ` set seen = {}"
proof (induction slots arbitrary: j seen)
  case (Cons slot slots)
  then obtain m where m: "slot = CMap m" "\<not> is_non_text_key_map (CMap m)" by auto
  have ok: "slot_ok d slot"
    using Cons.prems(1) clean_slot_shape [OF _ assms m(2)] m(1) by (auto simp: Let_def split: option.splits)
  then obtain c where c: "map_get m (lit (kd_field d)) = Some (Bytes c)" using m(1) by (auto simp: slot_ok_def)
  then have mat: "slot_material d slot = Some c" by (simp add: slot_material_def m(1))
  have "c \<notin> set seen" "clean (slot_loop d sp (j + 1) (c # seen) slots)"
    using Cons.prems(1) c m(1) by (auto simp: Let_def split: if_splits)
  then show ?case using Cons.IH [of "j + 1" "c # seen"] Cons.prems(2) ok mat by auto
qed simp

definition passphrase_ok :: "CborValue \<Rightarrow> bool" where
  "passphrase_ok pp \<longleftrightarrow> (\<exists>m ps a salt. pp = CMap m \<and> closed_keys PASSPHRASE_KEYS m \<and>
     map_get m (lit ''alg'') = Some (Text a) \<and> map_get m (lit ''salt'') = Some (Bytes salt) \<and>
     16 \<le> length salt \<and> length salt \<le> 64 \<and> map_get m (lit ''params'') = Some (CMap ps) \<and>
     closed_keys (map lit [''m'', ''t'', ''p'']) ps \<and>
     list_all (\<lambda>(name, floor). \<exists>n. map_get ps (lit name) = Some (Unsigned n) \<and> floor \<le> n \<and> n \<le> UINT32_MAX)
       ARGON2_FLOORS)"

lemma clean_argon2_param:
  "clean (argon2_param_issues ps p ceiling name floor) \<Longrightarrow>
   \<exists>n. map_get ps (lit name) = Some (Unsigned n) \<and> floor \<le> n \<and> n \<le> UINT32_MAX"
  by (auto simp: argon2_param_issues_def Let_def split: option.splits CborValue.splits if_splits)

lemma clean_unknown_keys:
  "clean (unknown_keys c base known m) \<Longrightarrow> severity c = SevError \<Longrightarrow> \<not> is_non_text_key_map (CMap m) \<Longrightarrow>
   closed_keys known m"
  using unknown_keys_Nil [of m c base known] by (auto simp: unknown_keys_def clean_map filter_empty_conv)

lemma clean_passphrase:
  assumes "passphrase_schema_issues p pp = []" "\<not> is_non_text_key_map pp"
    and "\<And>m ps. pp = CMap m \<Longrightarrow> map_get m (lit ''params'') = Some ps \<Longrightarrow> \<not> is_non_text_key_map ps"
    and "\<And>m. pp = CMap m \<Longrightarrow> clean (check_passphrase_block m q options)"
  shows "passphrase_ok pp"
proof -
  obtain m where m: "pp = CMap m" using assms(1) by (cases pp) (auto simp: passphrase_schema_issues_def)
  have salt: "(case u of None \<Rightarrow> [x] | Some (Bytes salt) \<Rightarrow>
      if length salt < 16 then [y] else if length salt > 64 then [z] else [] | Some _ \<Rightarrow> [x']) = [] \<longleftrightarrow>
      (\<exists>b. u = Some (Bytes b) \<and> 16 \<le> length b \<and> length b \<le> 64)" for u and x y z x' :: ValidationIssue
    by (auto split: option.split CborValue.split)
  have par: "(case u of None \<Rightarrow> [x] | Some (CMap _) \<Rightarrow> [] | Some _ \<Rightarrow> [y]) = [] \<longleftrightarrow> (\<exists>ps. u = Some (CMap ps))"
    for u and x y :: ValidationIssue by (auto split: option.split CborValue.split)
  have "closed_keys PASSPHRASE_KEYS m" "\<exists>a. map_get m (lit ''alg'') = Some (Text a)"
    "\<exists>b. map_get m (lit ''salt'') = Some (Bytes b) \<and> 16 \<le> length b \<and> length b \<le> 64"
    "\<exists>ps. map_get m (lit ''params'') = Some (CMap ps)"
    using assms(1) unfolding passphrase_schema_issues_def m as_map.simps option.case append_is_Nil_conv salt par
      type_test_Nil unknown_keys_Nil [OF assms(2) [unfolded m]] by blast+
  then obtain a b ps where f: "closed_keys PASSPHRASE_KEYS m" "map_get m (lit ''alg'') = Some (Text a)"
    "map_get m (lit ''salt'') = Some (Bytes b)" "16 \<le> length b" "length b \<le> 64"
    "map_get m (lit ''params'') = Some (CMap ps)" by blast
  have "clean (check_passphrase_block m q options)" by (rule assms(4) [OF m])
  then have c: "clean (unknown_keys SchemaUnknownField (q @ [key ''params'']) (map lit [''m'', ''t'', ''p'']) ps)"
    "\<forall>(name, floor)\<in>set ARGON2_FLOORS. clean (argon2_param_issues ps (q @ [key ''params''])
        (vo_passphrase_params_ceiling options) name floor)"
    by (auto simp: check_passphrase_block_def Let_def f(2,6) clean_concat split: if_splits)
  have "closed_keys (map lit [''m'', ''t'', ''p'']) ps"
    by (rule clean_unknown_keys [OF c(1) severity_error(3) assms(3) [OF m f(6)]])
  moreover have "list_all (\<lambda>(name, floor). \<exists>n. map_get ps (lit name) = Some (Unsigned n) \<and> floor \<le> n \<and> n \<le> UINT32_MAX)
       ARGON2_FLOORS"
    using c(2) clean_argon2_param unfolding list_all_iff by blast
  ultimately show ?thesis using f m unfolding passphrase_ok_def by blast
qed

lemma passphrase_rebuilds:
  assumes "passphrase_ok pp" "canonical pp"
  shows "\<exists>y. passphrase_from_cbor pp = Some y \<and> rebuilds (passphrase_to_cbor y) pp"
proof -
  obtain m ps a salt where m: "pp = CMap m" "closed_keys PASSPHRASE_KEYS m" "map_get m (lit ''alg'') = Some (Text a)"
    "map_get m (lit ''salt'') = Some (Bytes salt)" "map_get m (lit ''params'') = Some (CMap ps)"
    "closed_keys (map lit [''m'', ''t'', ''p'']) ps"
    "list_all (\<lambda>(name, floor). \<exists>n. map_get ps (lit name) = Some (Unsigned n) \<and> floor \<le> n \<and> n \<le> UINT32_MAX)
       ARGON2_FLOORS"
    using assms(1) unfolding passphrase_ok_def by blast
  have can: "canonical (CMap ps)" using canonical_map_get m(5) assms(2) m(1) by blast
  have "\<exists>t n. p = (Text t, Unsigned n)" if p: "p \<in> set ps" for p
  proof -
    obtain k v where kv: "p = (k, v)" by (cases p)
    then obtain t where t: "k = Text (lit t)" "t \<in> {''m'', ''t'', ''p''}"
      using m(6) p by (auto simp: closed_keys_def)
    then have "map_get ps (lit t) = Some v"
      using map_get_in [OF canonical_distinct_keys [OF can]] p kv by blast
    moreover have "\<exists>n. map_get ps (lit t) = Some (Unsigned n)"
      using m(7) t(2) by (auto simp: ARGON2_FLOORS_def)
    ultimately show ?thesis using kv t by auto
  qed
  then have "\<forall>p\<in>set ps. \<exists>q. p = (\<lambda>(name, value). (Text name, Unsigned value)) q" by simp
  then obtain qs where qs: "ps = map (\<lambda>(name, value). (Text name, Unsigned value)) qs"
    by (simp only: ex_map_conv [symmetric]) blast
  have "map param_from_cbor ps = map Some qs" unfolding qs by (auto simp: param_from_cbor_def)
  then have params: "collect_opt (map param_from_cbor ps) = Some qs" by (simp only: collect_opt_Some_iff)
  let ?y = "\<lparr>pp_alg = a, pp_salt = salt, pp_params = qs\<rparr>"
  let ?kus = "[(''alg'', Some (Text a)), (''salt'', Some (Bytes salt)), (''params'', Some (CMap ps))]"
  have "rebuilds (CMap (pairs_of ?kus)) (CMap m)"
    by (rule rebuilds_closed [OF assms(2) [unfolded m(1)] m(2)])
      (use m(3,4,5) can in \<open>auto simp: PASSPHRASE_KEYS_def intro: rebuilds_refl\<close>)
  moreover have "passphrase_to_cbor ?y = CMap (pairs_of ?kus)"
    by (simp add: passphrase_to_cbor_def pairs_of_simps qs)
  moreover have "passphrase_from_cbor pp = Some ?y" by (simp add: passphrase_from_cbor_def m params)
  ultimately show ?thesis using m(1) by auto
qed

text \<open>Issue lists that carry errors only are clean only when they are empty.\<close>

definition errors_only :: "ValidationIssue list \<Rightarrow> bool" where
  "errors_only xs \<longleftrightarrow> (\<forall>i\<in>set xs. vi_severity i = SevError)"

lemma errors_only_clean: "errors_only xs \<Longrightarrow> clean xs \<longleftrightarrow> xs = []"
  by (cases xs) (auto simp: errors_only_def)

lemma errors_only_simps [simp]:
  "errors_only []" "errors_only (xs @ ys) \<longleftrightarrow> errors_only xs \<and> errors_only ys"
  "errors_only (i # xs) \<longleftrightarrow> vi_severity i = SevError \<and> errors_only xs"
  by (auto simp: errors_only_def)

lemma errors_only_each: "(\<And>i x. errors_only (f i x)) \<Longrightarrow> errors_only (each f xs)"
  by (auto simp: errors_only_def set_each)

lemma errors_only_concat: "(\<And>x. x \<in> set xs \<Longrightarrow> errors_only (f x)) \<Longrightarrow> errors_only (concat (map f xs))"
  by (auto simp: errors_only_def)

lemma errors_only_unknown [simp]: "severity c = SevError \<Longrightarrow> errors_only (unknown_keys c b k m)"
  by (auto simp: errors_only_def unknown_keys_def)

lemma errors_only_flag [simp]: "errors_only (flag_non_text p v)"
  by (simp add: flag_non_text_def)

lemma errors_only_internal: "errors_only (enc_internal_non_text_key_issues m p)"
  by (auto simp: enc_internal_non_text_key_issues_def intro!: errors_only_each split: option.split CborValue.split)

lemma errors_only_slot_schema: "errors_only (slot_schema_issues p v)"
  by (auto simp: slot_schema_issues_def intro!: errors_only_concat split: option.split CborValue.split)

lemma errors_only_passphrase_schema: "errors_only (passphrase_schema_issues p v)"
proof (cases v)
  case (CMap m)
  show ?thesis
    unfolding CMap passphrase_schema_issues_def Let_def as_map.simps option.case errors_only_simps
    by (intro conjI; simp split: option.split CborValue.split)
qed (simp_all add: passphrase_schema_issues_def)

lemma errors_only_scheme1_schema: "errors_only (enc_scheme1_schema_issues m p)"
proof -
  have "errors_only (case u of None \<Rightarrow> [] | Some (Array slots) \<Rightarrow> each (\<lambda>j. slot_schema_issues (f j)) slots
      | Some _ \<Rightarrow> [issue SchemaTypeMismatch q])" for u f q
    by (auto intro!: errors_only_each errors_only_slot_schema split: option.split CborValue.split)
  moreover have "errors_only (case u of None \<Rightarrow> [] | Some pp \<Rightarrow> passphrase_schema_issues q pp)" for u q
    by (auto simp: errors_only_passphrase_schema split: option.split)
  ultimately show ?thesis
    unfolding enc_scheme1_schema_issues_def errors_only_simps
    by (intro conjI) (auto split: option.split CborValue.split)
qed

text \<open>
  The typed envelope: a registered content format with its nonce, and exactly one key path, either
  recipient slots under a registered KEM with their MAC, or a passphrase block.
\<close>

definition slots_path_ok :: "ValidatorOptions \<Rightarrow> cbor_pairs \<Rightarrow> bool" where
  "slots_path_ok options m \<longleftrightarrow> (\<exists>kem d slots mac.
     map_get m (lit ''kem'') = Some (Text kem) \<and> kem_slot_descriptor kem = Some d \<and>
     map_get m (lit ''slots'') = Some (Array slots) \<and> slots \<noteq> [] \<and> length slots \<le> vo_max_slots options \<and>
     list_all (slot_ok d) slots \<and> distinct (map (slot_material d) slots) \<and>
     map_get m (lit ''slots_mac'') = Some (Bytes mac) \<and> length mac = 32 \<and>
     map_get m (lit ''passphrase'') = None)"

definition passphrase_path_ok :: "cbor_pairs \<Rightarrow> bool" where
  "passphrase_path_ok m \<longleftrightarrow> (\<exists>pp. map_get m (lit ''passphrase'') = Some pp \<and> passphrase_ok pp) \<and>
     map_get m (lit ''kem'') = None \<and> map_get m (lit ''slots'') = None \<and> map_get m (lit ''slots_mac'') = None"

definition scheme1_ok :: "ValidatorOptions \<Rightarrow> cbor_pairs \<Rightarrow> bool" where
  "scheme1_ok options m \<longleftrightarrow> closed_keys ENC_KEYS m \<and> map_get m (lit ''scheme'') = Some (Unsigned 1) \<and>
     (\<exists>a nonce. map_get m (lit ''aead'') = Some (Text a) \<and> registry_lookup AEAD_NONCE_LENGTHS a = Some (length nonce) \<and>
        map_get m (lit ''nonce'') = Some (Bytes nonce)) \<and>
     (slots_path_ok options m \<or> passphrase_path_ok m)"

lemma text_Nil:
  "(case u of None \<Rightarrow> [] | Some (Text _) \<Rightarrow> [] | Some _ \<Rightarrow> [x]) = [] \<longleftrightarrow> (\<forall>w. u = Some w \<longrightarrow> is_text w)"
  by (auto simp: is_text_def split: CborValue.split option.split)

lemma scheme1_schema_Nil:
  assumes "enc_scheme1_schema_issues m p = []" "\<not> is_non_text_key_map (CMap m)"
  shows "closed_keys ENC_KEYS m" "\<exists>a. map_get m (lit ''aead'') = Some (Text a)"
    "\<exists>b. map_get m (lit ''nonce'') = Some (Bytes b)"
    "map_get m (lit ''kem'') = Some v \<Longrightarrow> is_text v"
    "map_get m (lit ''slots'') = Some v \<Longrightarrow> \<exists>slots. v = Array slots \<and> list_all (\<lambda>s. as_map s \<noteq> None) slots"
    "map_get m (lit ''slots_mac'') = Some v \<Longrightarrow> \<exists>mac. v = Bytes mac \<and> length mac = 32"
    "map_get m (lit ''passphrase'') = Some v \<Longrightarrow> passphrase_schema_issues (p @ [key ''passphrase'']) v = []"
proof -
  have mac: "(case u of None \<Rightarrow> [] | Some (Bytes mac) \<Rightarrow> if length mac \<noteq> 32 then [x] else [] | Some _ \<Rightarrow> [y]) = [] \<longleftrightarrow>
      (\<forall>v. u = Some v \<longrightarrow> (\<exists>mac. v = Bytes mac \<and> length mac = 32))" for u and x y :: ValidationIssue
    by (auto split: option.split CborValue.split)
  have slots: "(case u of None \<Rightarrow> [] | Some (Array slots) \<Rightarrow> each (\<lambda>j. slot_schema_issues (f j)) slots | Some _ \<Rightarrow> [y]) = [] \<Longrightarrow>
      u = Some v \<Longrightarrow> \<exists>slots. v = Array slots \<and> list_all (\<lambda>s. as_map s \<noteq> None) slots" for u v f y
    by (cases v) (auto simp: each_Nil_iff list_all_length slot_schema_issues_def split: option.splits)
  have pp: "(case u of None \<Rightarrow> [] | Some pp \<Rightarrow> passphrase_schema_issues q pp) = [] \<Longrightarrow> u = Some v \<Longrightarrow>
      passphrase_schema_issues q v = []" for u v q
    by simp
  note parts = assms(1) [unfolded enc_scheme1_schema_issues_def append_is_Nil_conv type_test_Nil text_Nil mac
      unknown_keys_Nil [OF assms(2)]]
  show "closed_keys ENC_KEYS m" "\<exists>a. map_get m (lit ''aead'') = Some (Text a)"
    "\<exists>b. map_get m (lit ''nonce'') = Some (Bytes b)"
    "map_get m (lit ''kem'') = Some v \<Longrightarrow> is_text v"
    "map_get m (lit ''slots_mac'') = Some v \<Longrightarrow> \<exists>mac. v = Bytes mac \<and> length mac = 32"
    using parts by blast+
  show "map_get m (lit ''slots'') = Some v \<Longrightarrow> \<exists>slots. v = Array slots \<and> list_all (\<lambda>s. as_map s \<noteq> None) slots"
    by (rule slots [where u = "map_get m (lit ''slots'')" and f = "\<lambda>j. p @ [key ''slots'', Index j]"
          and y = "issue SchemaTypeMismatch (p @ [key ''slots''])"]) (use parts in blast)+
  show "map_get m (lit ''passphrase'') = Some v \<Longrightarrow> passphrase_schema_issues (p @ [key ''passphrase'']) v = []"
    by (rule pp [where u = "map_get m (lit ''passphrase'')"]) (use parts in blast)+
qed

lemma internal_Nil:
  assumes "enc_internal_non_text_key_issues m p = []"
  shows "map_get m (lit ''slots'') = Some (Array slots) \<Longrightarrow> list_all (\<lambda>s. \<not> is_non_text_key_map s) slots"
    and "map_get m (lit ''passphrase'') = Some pp \<Longrightarrow> \<not> is_non_text_key_map pp"
    and "map_get m (lit ''passphrase'') = Some (CMap pm) \<Longrightarrow> map_get pm (lit ''params'') = Some ps \<Longrightarrow>
      \<not> is_non_text_key_map ps"
  using assms
  by (auto simp: enc_internal_non_text_key_issues_def each_Nil_iff list_all_length
      split: option.splits if_splits simp del: is_non_text_key_map.simps)

lemma clean_typed_envelope:
  assumes clean: "clean (typed_envelope_issues m p options)" and keys: "\<not> is_non_text_key_map (CMap m)"
    and scheme: "map_get m (lit ''scheme'') = Some (Unsigned 1)" and sup: "unsupported_ids 1 m = []"
  shows "scheme1_ok options m"
proof -
  have internal: "enc_internal_non_text_key_issues m p = []"
    using clean errors_only_clean [OF errors_only_internal, of m p]
    by (auto simp: typed_envelope_issues_def Let_def split: if_splits)
  have parse: "enc_scheme1_schema_issues m p = []"
    using clean internal errors_only_clean [OF errors_only_scheme1_schema, of m p]
    by (auto simp: typed_envelope_issues_def Let_def split: if_splits)
  note schema = scheme1_schema_Nil [OF parse keys]
  note int = internal_Nil [OF internal]
  have check: "clean (check_scheme1_envelope m p options)"
    using clean internal parse by (simp add: typed_envelope_issues_def)
  obtain a nonce where a: "map_get m (lit ''aead'') = Some (Text a)" "map_get m (lit ''nonce'') = Some (Bytes nonce)"
    using schema(2,3) by blast
  obtain n where n: "registry_lookup AEAD_NONCE_LENGTHS a = Some n"
    using sup a(1) by (auto simp: unsupported_ids_def split: if_splits)
  have nonce: "n = length nonce" and kp: "clean (key_path_issues m p)" and sl: "clean (slots_issues m p options)"
    and pp: "\<And>pm. map_get m (lit ''passphrase'') = Some (CMap pm) \<Longrightarrow>
      clean (check_passphrase_block pm (p @ [key ''passphrase'']) options)"
    using check a n by (auto simp: check_scheme1_envelope_def Let_def split: if_splits)
  have kem: "Option.bind (map_get m (lit ''kem'')) as_text = None \<longleftrightarrow> map_get m (lit ''kem'') = None"
    using schema(4) by (cases "map_get m (lit ''kem'')") (auto simp: is_text_def)
  have path: "slots_path_ok options m \<or> passphrase_path_ok m"
  proof (cases "map_get m (lit ''slots'')")
    case None
    then have none: "map_get m (lit ''slots_mac'') = None" "map_get m (lit ''kem'') = None"
      and "map_get m (lit ''passphrase'') \<noteq> None"
      using kp kem by (auto simp: key_path_issues_def Let_def map_has_def split: if_splits)
    then obtain v where v: "map_get m (lit ''passphrase'') = Some v" by blast
    have "passphrase_ok v"
    proof (rule clean_passphrase [OF schema(7) [OF v] int(2) [OF v]])
      show "\<not> is_non_text_key_map ps" if "v = CMap pm" "map_get pm (lit ''params'') = Some ps" for pm ps
        using int(3) v that by blast
      show "clean (check_passphrase_block pm (p @ [key ''passphrase'']) options)" if "v = CMap pm" for pm
        using pp v that by blast
    qed
    then show ?thesis using None none v by (simp add: passphrase_path_ok_def)
  next
    case (Some sv)
    obtain slots where s: "map_get m (lit ''slots'') = Some (Array slots)" "list_all (\<lambda>s. as_map s \<noteq> None) slots"
      using schema(5) [OF Some] Some by blast
    have has: "map_get m (lit ''slots_mac'') \<noteq> None" "map_get m (lit ''kem'') \<noteq> None"
      "map_get m (lit ''passphrase'') = None"
      using kp s(1) kem by (auto simp: key_path_issues_def Let_def map_has_def split: if_splits)
    obtain kem mac where km: "map_get m (lit ''kem'') = Some (Text kem)"
      "map_get m (lit ''slots_mac'') = Some (Bytes mac)" "length mac = 32"
      using has schema(4,6) by (auto simp: is_text_def)
    obtain d where d: "kem_slot_descriptor kem = Some d"
      using sup km(1) by (auto simp: unsupported_ids_def split: if_splits)
    have sl': "slots \<noteq> []" "length slots \<le> vo_max_slots options"
      "clean (slot_loop d (p @ [key ''slots'']) 0 [] slots)"
      using sl s(1) km(1) d by (auto simp: slots_issues_def Let_def split: if_splits)
    have "list_all (\<lambda>s. as_map s \<noteq> None \<and> \<not> is_non_text_key_map s) slots"
      using s(2) int(1) [OF s(1)] by (auto simp: list_all_iff)
    from clean_slot_loop [OF d sl'(3) this] show ?thesis
      using s(1) km d sl'(1,2) has(3) unfolding slots_path_ok_def by blast
  qed
  show ?thesis unfolding scheme1_ok_def using schema(1) scheme a n nonce path by blast
qed

text \<open>A well-formed typed envelope is read back and rebuilt.\<close>

lemma rebuilds_slots:
  assumes "list_all (slot_ok d) slots" "kem_slot_descriptor kem = Some d" "canonical (Array slots)"
  shows "\<exists>ys. opt_array slot_from_cbor (Some (Array slots)) = Some ys \<and>
    rel_option rebuilds (map_option (\<lambda>ys. Array (map slot_to_cbor ys)) ys) (Some (Array slots))"
proof (rule rebuilds_struct_array)
  show "typed_array (slot_ok d) (Some (Array slots))" using assms(1) by (simp add: typed_array_def)
  show "canonical v" if "Some (Array slots) = Some v" for v using assms(3) that by simp
  show "\<exists>y. slot_from_cbor x = Some y \<and> rebuilds (slot_to_cbor y) x" if "slot_ok d x" "canonical x" for x
    by (rule slot_rebuilds [OF that(1) assms(2) that(2)])
qed

lemma scheme1_rebuilds:
  assumes "scheme1_ok options m" "canonical (CMap m)"
  shows "\<exists>y. scheme1_from_cbor 1 m = Some y \<and> rebuilds (scheme1_to_cbor y) (CMap m)"
proof -
  obtain a nonce where a: "closed_keys ENC_KEYS m" "map_get m (lit ''scheme'') = Some (Unsigned 1)"
    "map_get m (lit ''aead'') = Some (Text a)" "map_get m (lit ''nonce'') = Some (Bytes nonce)"
    and path: "slots_path_ok options m \<or> passphrase_path_ok m"
    using assms(1) unfolding scheme1_ok_def by blast
  have can: "canonical v" if "map_get m k = Some v" for k v using canonical_map_get assms(2) that by blast
  have slots: "\<exists>ys. opt_array slot_from_cbor (map_get m (lit ''slots'')) = Some ys \<and>
      rel_option rebuilds (map_option (\<lambda>ys. Array (map slot_to_cbor ys)) ys) (map_get m (lit ''slots''))"
    using path
  proof
    assume "slots_path_ok options m"
    then obtain kem d slots where s: "map_get m (lit ''slots'') = Some (Array slots)" "list_all (slot_ok d) slots"
      "kem_slot_descriptor kem = Some d" unfolding slots_path_ok_def by blast
    show ?thesis unfolding s(1) by (rule rebuilds_slots [OF s(2,3) can [OF s(1)]])
  qed (simp add: passphrase_path_ok_def opt_array_def)
  have pp: "\<exists>y. (case map_get m (lit ''passphrase'') of
        None \<Rightarrow> Some None | Some pp \<Rightarrow> map_option Some (passphrase_from_cbor pp)) = Some y \<and>
      rel_option rebuilds (map_option passphrase_to_cbor y) (map_get m (lit ''passphrase''))"
  proof (cases "map_get m (lit ''passphrase'')")
    case (Some v)
    then have "passphrase_ok v" using path by (auto simp: slots_path_ok_def passphrase_path_ok_def)
    from passphrase_rebuilds [OF this can [OF Some]] Some show ?thesis by auto
  qed simp
  have kem: "\<And>v. map_get m (lit ''kem'') = Some v \<Longrightarrow> is_text v"
    and mac: "\<And>v. map_get m (lit ''slots_mac'') = Some v \<Longrightarrow> is_bytes v"
    using path by (auto simp: slots_path_ok_def passphrase_path_ok_def is_text_def is_bytes_def)
  obtain ss where ss: "opt_array slot_from_cbor (map_get m (lit ''slots'')) = Some ss"
    "rel_option rebuilds (map_option (\<lambda>ys. Array (map slot_to_cbor ys)) ss) (map_get m (lit ''slots''))"
    using slots by blast
  obtain pb where pb: "(case map_get m (lit ''passphrase'') of
        None \<Rightarrow> Some None | Some pp \<Rightarrow> map_option Some (passphrase_from_cbor pp)) = Some pb"
    "rel_option rebuilds (map_option passphrase_to_cbor pb) (map_get m (lit ''passphrase''))"
    using pp by blast
  let ?y = "\<lparr>enc_scheme = 1, enc_aead = a, enc_nonce = nonce,
      enc_kem = Option.bind (map_get m (lit ''kem'')) as_text, enc_slots = ss,
      enc_slots_mac = Option.bind (map_get m (lit ''slots_mac'')) as_bytes, enc_passphrase = pb\<rparr>"
  let ?kus = "[(''scheme'', Some (Unsigned 1)), (''aead'', Some (Text a)), (''nonce'', Some (Bytes nonce)),
      (''kem'', map_option Text (Option.bind (map_get m (lit ''kem'')) as_text)),
      (''slots'', map_option (\<lambda>ys. Array (map slot_to_cbor ys)) ss),
      (''slots_mac'', map_option Bytes (Option.bind (map_get m (lit ''slots_mac'')) as_bytes)),
      (''passphrase'', map_option passphrase_to_cbor pb)]"
  have "list_all (\<lambda>(k, u). rel_option rebuilds u (map_get m (lit k))) ?kus"
    using a ss(2) pb(2) rebuilds_text_field [of "map_get m (lit ''kem'')", OF kem]
      rebuilds_bytes_field [of "map_get m (lit ''slots_mac'')", OF mac] by simp
  then have "rebuilds (CMap (pairs_of ?kus)) (CMap m)"
    by (rule rebuilds_closed [OF assms(2) a(1), rotated 2]) (auto simp: ENC_KEYS_def)
  moreover have "scheme1_to_cbor ?y = CMap (pairs_of ?kus)"
    by (simp add: scheme1_to_cbor_def pairs_of_simps)
  moreover have "scheme1_from_cbor 1 m = Some ?y"
    by (simp add: scheme1_from_cbor_def a ss(1) pb(1))
  ultimately show ?thesis by auto
qed

section \<open>Envelopes, items and records\<close>

text \<open>What a clean check leaves of an envelope: opaque, or the typed reading.\<close>

definition envelope_ok :: "ValidatorOptions \<Rightarrow> CborValue \<Rightarrow> bool" where
  "envelope_ok options e \<longleftrightarrow> (\<exists>m scheme. e = CMap m \<and> map_get m (lit ''scheme'') = Some (Unsigned scheme) \<and>
     (if unsupported_ids scheme m = [] then scheme1_ok options m else vo_role options = Public))"

lemma unsupported_ids_Nil_scheme: "unsupported_ids scheme m = [] \<Longrightarrow> scheme = 1"
  by (simp add: unsupported_ids_def split: if_splits)

lemma clean_check_item_enc:
  assumes "clean (check_item_enc im e i options)" "\<not> is_non_text_key_map e"
  shows "envelope_ok options e"
proof -
  obtain m where m: "e = CMap m"
    using assms(1) by (cases e) (auto simp: check_item_enc_def Let_def)
  let ?p = "[key ''items'', Index i, key ''enc'']"
  have disp: "clean (envelope_dispatch m ?p options)"
    using assms(1) by (simp add: check_item_enc_def Let_def m)
  then obtain scheme where s: "map_get m (lit ''scheme'') = Some (Unsigned scheme)"
    by (auto simp: envelope_dispatch_def split: option.splits CborValue.splits)
  have c: "clean (if unsupported_ids scheme m \<noteq> []
      then opaque_issues ?p (vo_role options) (unsupported_ids scheme m) else typed_envelope_issues m ?p options)"
    using disp by (simp add: envelope_dispatch_def s split: if_splits)
  show ?thesis
  proof (cases "unsupported_ids scheme m = []")
    case True
    then have "scheme = 1" by (rule unsupported_ids_Nil_scheme)
    then have "scheme1_ok options m"
      using clean_typed_envelope [of m ?p options] c True s assms(2) m by auto
    then show ?thesis using True s m by (auto simp: envelope_ok_def)
  next
    case False
    then have "vo_role options = Public" using c by (cases "vo_role options") (auto simp: opaque_issues_def)
    then show ?thesis using False s m by (auto simp: envelope_ok_def)
  qed
qed

lemma scheme1_ok_supported: "scheme1_ok options m \<Longrightarrow> identifiers_supported 1 m"
  by (auto simp: scheme1_ok_def slots_path_ok_def passphrase_path_ok_def identifiers_supported_def)

lemma unsupported_not_supported: "unsupported_ids scheme m \<noteq> [] \<Longrightarrow> \<not> identifiers_supported scheme m"
  by (auto simp: unsupported_ids_def identifiers_supported_def split: option.splits CborValue.splits if_splits)

lemma envelope_rebuilds:
  assumes "envelope_ok options e" "canonical e"
  shows "\<exists>y. envelope_from_cbor e = Some y \<and> rebuilds (envelope_to_cbor y) e"
proof -
  obtain m scheme where m: "e = CMap m" "map_get m (lit ''scheme'') = Some (Unsigned scheme)"
    and ok: "if unsupported_ids scheme m = [] then scheme1_ok options m else vo_role options = Public"
    using assms(1) by (auto simp: envelope_ok_def)
  show ?thesis
  proof (cases "unsupported_ids scheme m = []")
    case True
    then have one: "scheme = 1" "scheme1_ok options m" using ok unsupported_ids_Nil_scheme by auto
    obtain y where "scheme1_from_cbor 1 m = Some y" "rebuilds (scheme1_to_cbor y) (CMap m)"
      using scheme1_rebuilds one(2) assms(2) m(1) by blast
    then show ?thesis using m one scheme1_ok_supported by (auto simp: envelope_from_cbor_def)
  next
    case False
    then show ?thesis using m unsupported_not_supported rebuilds_refl [OF assms(2)]
      by (auto simp: envelope_from_cbor_def)
  qed
qed

lemma hashes_from_cbor:
  assumes "text_bytes_map (CMap ps)"
  shows "\<exists>hs. collect_opt (map hash_from_cbor ps) = Some hs \<and> ps = map (\<lambda>(alg, digest). (Text alg, Bytes digest)) hs"
proof -
  have "\<forall>p\<in>set ps. \<exists>q. p = (\<lambda>(alg, digest). (Text alg, Bytes digest)) q"
    using assms by (fastforce simp: text_bytes_map_def is_text_def is_bytes_def)
  then obtain hs where hs: "ps = map (\<lambda>(alg, digest). (Text alg, Bytes digest)) hs"
    by (simp only: ex_map_conv [symmetric]) blast
  have "map hash_from_cbor ps = map Some hs" unfolding hs by (auto simp: hash_from_cbor_def)
  then have "collect_opt (map hash_from_cbor ps) = Some hs" by (simp only: collect_opt_Some_iff)
  then show ?thesis using hs by blast
qed

lemma item_rebuilds:
  assumes "item_shape entry" "canonical entry" "clean (check_item options i entry)"
  shows "\<exists>y. item_from_cbor entry = Some y \<and> rebuilds (item_to_cbor y) entry"
proof -
  obtain m h where m: "entry = CMap m" "closed_keys ITEM_KEYS m" "map_get m (lit ''hashes'') = Some h"
    "text_bytes_map h" "typed_array is_text (map_get m (lit ''uris''))"
    and enc: "\<And>e. map_get m (lit ''enc'') = Some e \<Longrightarrow> \<not> is_non_text_key_map e"
    using assms(1) by (auto simp: item_shape_def)
  obtain ps where ps: "h = CMap ps" using m(4) by (auto simp: text_bytes_map_def)
  obtain hs where hs: "collect_opt (map hash_from_cbor ps) = Some hs"
    "ps = map (\<lambda>(alg, digest). (Text alg, Bytes digest)) hs"
    using hashes_from_cbor m(4) ps by blast
  have can: "canonical v" if "map_get m k = Some v" for k v
    using canonical_map_get assms(2) m(1) that by blast
  obtain ts where ts: "opt_array as_text (map_get m (lit ''uris'')) = Some ts"
    "rel_option rebuilds (map_option (\<lambda>ts. Array (map Text ts)) ts) (map_get m (lit ''uris''))"
    using rebuilds_text_array [OF m(5)] can by blast
  have "\<exists>y. (case map_get m (lit ''enc'') of
        None \<Rightarrow> Some None | Some e \<Rightarrow> map_option Some (envelope_from_cbor e)) = Some y \<and>
      rel_option rebuilds (map_option envelope_to_cbor y) (map_get m (lit ''enc''))"
  proof (cases "map_get m (lit ''enc'')")
    case (Some e)
    then have "clean (check_item_enc m e i options)" using assms(3) m(1) by (simp add: check_item_def)
    then have "envelope_ok options e" using clean_check_item_enc enc [OF Some] by blast
    from envelope_rebuilds [OF this can [OF Some]] Some show ?thesis by auto
  qed simp
  then obtain ey where ey: "(case map_get m (lit ''enc'') of
        None \<Rightarrow> Some None | Some e \<Rightarrow> map_option Some (envelope_from_cbor e)) = Some ey"
    "rel_option rebuilds (map_option envelope_to_cbor ey) (map_get m (lit ''enc''))" by blast
  let ?y = "\<lparr>item_hashes = hs, item_uris = ts, item_enc = ey\<rparr>"
  let ?kus = "[(''hashes'', Some (CMap ps)), (''uris'', map_option (\<lambda>ts. Array (map Text ts)) ts),
      (''enc'', map_option envelope_to_cbor ey)]"
  have "list_all (\<lambda>(k, u). rel_option rebuilds u (map_get m (lit k))) ?kus"
    using m(3) ps rebuilds_refl [OF can [OF m(3)]] ts(2) ey(2) by simp
  then have "rebuilds (CMap (pairs_of ?kus)) (CMap m)"
    by (rule rebuilds_closed [OF assms(2) [unfolded m(1)] m(2), rotated 2]) (auto simp: ITEM_KEYS_def)
  moreover have "item_to_cbor ?y = CMap (pairs_of ?kus)"
    by (simp add: item_to_cbor_def pairs_of_simps uris_to_cbor_def [abs_def] hs(2))
  moreover have "item_from_cbor entry = Some ?y"
    by (simp add: item_from_cbor_def m(1,3) ps hs(1) ts(1) ey(1))
  ultimately show ?thesis using m(1) by auto
qed

lemma extensions_pairs:
  assumes "\<not> is_non_text_key_map (CMap m)"
  shows "map (\<lambda>(k, v). (Text k, v)) (extensions_from_cbor m) =
    filter (\<lambda>p. fst p \<notin> Text ` set TOP_LEVEL_BASE_KEYS) m"
  using assms
proof (induction m)
  case (Cons p m)
  obtain k v where p: "p = (k, v)" by (cases p)
  then obtain t where "k = Text t" using Cons.prems text_key_mapD [of "p # m" k v] by auto
  then show ?case using Cons p by (auto simp: extensions_from_cbor_def List.map_filter_simps image_iff)
qed (simp add: extensions_from_cbor_def List.map_filter_simps)

lemma clean_array_checks:
  "clean (array_checks m f g) \<Longrightarrow> map_get m (lit f) = Some (Array xs) \<Longrightarrow> x \<in> set xs \<Longrightarrow> \<exists>i. clean (g i x)"
  by (auto simp: array_checks_def clean_each in_set_conv_nth)

lemma record_rebuilds:
  assumes shape: "record_shape m" and can: "canonical (CMap m)" and clean: "clean (domain_issues m options)"
  shows "\<exists>r. record_from_cbor (CMap m) = Some r \<and> rebuilds (record_to_cbor r True) (CMap m)"
proof -
  have s: "\<not> is_non_text_key_map (CMap m)" "map_get m (lit ''v'') = Some (Unsigned 1)"
    "typed_array item_shape (map_get m (lit ''items''))" "typed_array merkle_shape (map_get m (lit ''merkle''))"
    "typed_array sig_shape (map_get m (lit ''sigs''))" "typed_array is_text (map_get m (lit ''crit''))"
    and sup: "\<And>v. map_get m (lit ''supersedes'') = Some v \<Longrightarrow> is_bytes v"
    using shape by (auto simp: record_shape_def is_bytes_def)
  have cf: "canonical v" if "map_get m k = Some v" for k v using canonical_map_get can that by blast
  have checks: "clean (array_checks m ''items'' (check_item options))"
    "clean (array_checks m ''merkle'' check_merkle_commit)"
    using clean by (simp_all add: domain_issues_def)
  have "\<exists>ys. opt_array item_from_cbor (map_get m (lit ''items'')) = Some ys \<and>
      rel_option rebuilds (map_option (\<lambda>ys. Array (map item_to_cbor ys)) ys) (map_get m (lit ''items''))"
  proof (rule rebuilds_struct_array [OF s(3) cf])
    fix x xs assume x: "map_get m (lit ''items'') = Some (Array xs)" "x \<in> set xs" "item_shape x" "canonical x"
    show "\<exists>y. item_from_cbor x = Some y \<and> rebuilds (item_to_cbor y) x"
      using clean_array_checks [OF checks(1) x(1,2)] item_rebuilds [OF x(3,4)] by blast
  qed
  then obtain items where items: "opt_array item_from_cbor (map_get m (lit ''items'')) = Some items"
    "rel_option rebuilds (map_option (\<lambda>ys. Array (map item_to_cbor ys)) items) (map_get m (lit ''items''))" by blast
  have "\<exists>ys. opt_array merkle_from_cbor (map_get m (lit ''merkle'')) = Some ys \<and>
      rel_option rebuilds (map_option (\<lambda>ys. Array (map merkle_to_cbor ys)) ys) (map_get m (lit ''merkle''))"
  proof (rule rebuilds_struct_array [OF s(4) cf])
    fix x xs assume x: "map_get m (lit ''merkle'') = Some (Array xs)" "x \<in> set xs" "merkle_shape x" "canonical x"
    show "\<exists>y. merkle_from_cbor x = Some y \<and> rebuilds (merkle_to_cbor y) x"
      using clean_array_checks [OF checks(2) x(1,2)] merkle_rebuilds [OF x(3,4)] by blast
  qed
  then obtain merkle where merkle: "opt_array merkle_from_cbor (map_get m (lit ''merkle'')) = Some merkle"
    "rel_option rebuilds (map_option (\<lambda>ys. Array (map merkle_to_cbor ys)) merkle) (map_get m (lit ''merkle''))" by blast
  have "\<exists>ys. opt_array sig_from_cbor (map_get m (lit ''sigs'')) = Some ys \<and>
      rel_option rebuilds (map_option (\<lambda>ys. Array (map sig_entry_to_cbor ys)) ys) (map_get m (lit ''sigs''))"
  proof (rule rebuilds_struct_array [OF s(5) cf])
    fix x xs assume x: "map_get m (lit ''sigs'') = Some (Array xs)" "x \<in> set xs" "sig_shape x" "canonical x"
    show "\<exists>y. sig_from_cbor x = Some y \<and> rebuilds (sig_entry_to_cbor y) x"
      by (rule sig_rebuilds [OF x(3,4)])
  qed
  then obtain sigs where sigs: "opt_array sig_from_cbor (map_get m (lit ''sigs'')) = Some sigs"
    "rel_option rebuilds (map_option (\<lambda>ys. Array (map sig_entry_to_cbor ys)) sigs) (map_get m (lit ''sigs''))" by blast
  obtain crit where crit: "opt_array as_text (map_get m (lit ''crit'')) = Some crit"
    "rel_option rebuilds (map_option (\<lambda>ts. Array (map Text ts)) crit) (map_get m (lit ''crit''))"
    using rebuilds_text_array [OF s(6)] cf by blast
  let ?sup = "Option.bind (map_get m (lit ''supersedes'')) as_bytes"
  let ?r = "\<lparr>rec_v = 1, rec_items = items, rec_merkle = merkle, rec_supersedes = ?sup, rec_sigs = sigs,
      rec_crit = crit, rec_extensions = extensions_from_cbor m\<rparr>"
  let ?kus = "[(''v'', Some (Unsigned 1)), (''items'', map_option (\<lambda>ys. Array (map item_to_cbor ys)) items),
      (''merkle'', map_option (\<lambda>ys. Array (map merkle_to_cbor ys)) merkle),
      (''supersedes'', map_option Bytes ?sup),
      (''sigs'', map_option (\<lambda>ys. Array (map sig_entry_to_cbor ys)) sigs),
      (''crit'', map_option (\<lambda>ts. Array (map Text ts)) crit)]"
  have base: "map (\<lambda>p. lit (fst p)) ?kus = TOP_LEVEL_BASE_KEYS" by (simp add: TOP_LEVEL_BASE_KEYS_def)
  have "list_all (\<lambda>(k, u). rel_option rebuilds u (map_get m (lit k))) ?kus"
    using s(2) items(2) merkle(2) sigs(2) crit(2) rebuilds_bytes_field [of "map_get m (lit ''supersedes'')", OF sup]
    by simp
  then have "rebuilds (CMap (pairs_of ?kus @ filter (\<lambda>p. fst p \<notin> Text ` set (map (\<lambda>p. lit (fst p)) ?kus)) m)) (CMap m)"
    by (rule rebuilds_open [OF can, rotated]) simp
  then have reb: "rebuilds (CMap (pairs_of ?kus @ map (\<lambda>(k, v). (Text k, v)) (extensions_from_cbor m))) (CMap m)"
    unfolding base extensions_pairs [OF s(1)] .
  have "record_to_cbor ?r True =
      CMap (pairs_of ?kus @ map (\<lambda>(k, v). (Text k, v)) (extensions_from_cbor m))"
    by (simp add: record_to_cbor_def pairs_of_simps)
  moreover have "record_from_cbor (CMap m) = Some ?r"
    by (simp add: record_from_cbor_def s(2) items(1) merkle(1) sigs(1) crit(1))
  ultimately show ?thesis using reb by auto
qed

end
