(* ===== verification/Poe_Correct.thy ===== *)
theory Poe_Correct
  imports Poe_Roundtrip
begin

text \<open>
  What the structural validator promises: the shape of its verdicts, the codes it emits, the content of
  an accepted record, and how the verdict depends on the role.
\<close>

section \<open>Verdicts\<close>

lemma list_ex_error_clean: "list_ex (\<lambda>i. vi_severity i = SevError) (sort_issues is) \<longleftrightarrow> \<not> clean is"
  by (simp add: list_ex_iff clean_def list_all_iff)

lemma validate_VOk:
  assumes "validate_poe_record bs options = VOk r ws info"
  obtains m where "decode_canonical_cbor bs = Inr (CMap m)" "collect_non_text_key_map_issues (CMap m) = []"
    "schema_issues m = []" "clean (domain_issues m options)" "record_from_cbor (CMap m) = Some r"
    "ws = filter (\<lambda>i. vi_severity i = SevWarning) (sort_issues (domain_issues m options))"
    "info = filter (\<lambda>i. vi_severity i = SevInfo) (sort_issues (domain_issues m options))"
proof -
  obtain v where v: "decode_canonical_cbor bs = Inr v"
    using assms by (auto simp: validate_poe_record_def split: sum.splits)
  obtain m where m: "v = CMap m"
    using assms v by (cases v) (auto simp: validate_poe_record_def Let_def split: if_splits)
  have "collect_non_text_key_map_issues (CMap m) = []" "schema_issues m = []"
    "result_emission (CMap m) (domain_issues m options) = VOk r ws info"
    using assms v m by (auto simp: validate_poe_record_def Let_def split: if_splits)
  then show thesis using v m that
    by (auto simp: result_emission_def Let_def list_ex_error_clean split: if_splits option.splits)
qed

lemma validate_accepts:
  assumes "decode_canonical_cbor bs = Inr (CMap m)" "collect_non_text_key_map_issues (CMap m) = []"
    "schema_issues m = []" "clean (domain_issues m options)"
  shows "\<exists>r. record_from_cbor (CMap m) = Some r \<and> rebuilds (record_to_cbor r True) (CMap m) \<and>
    validate_poe_record bs options = VOk r
      (filter (\<lambda>i. vi_severity i = SevWarning) (sort_issues (domain_issues m options)))
      (filter (\<lambda>i. vi_severity i = SevInfo) (sort_issues (domain_issues m options)))"
proof -
  have "record_shape m" using schema_Nil [OF assms(2)] assms(3) by simp
  moreover have "canonical (CMap m)" using decode_canonical [OF assms(1)] by simp
  ultimately obtain r where "record_from_cbor (CMap m) = Some r" "rebuilds (record_to_cbor r True) (CMap m)"
    using record_rebuilds [OF _ _ assms(4)] by blast
  then show ?thesis using assms
    by (simp add: validate_poe_record_def result_emission_def Let_def list_ex_error_clean)
qed

lemma errors_only_non_text_entry: "errors_only (non_text_entry_issues f i v)"
  by (auto simp: non_text_entry_issues_def split: option.split)

lemma errors_only_opt_each:
  "(\<And>i x. errors_only (f i x)) \<Longrightarrow> errors_only (case u of Some (Array xs) \<Rightarrow> each f xs | _ \<Rightarrow> [])"
  by (cases u) (simp_all add: errors_only_each split: CborValue.split)

lemma errors_only_pre_guard: "errors_only (collect_non_text_key_map_issues v)"
proof (cases "as_map v")
  case (Some m)
  have "errors_only (case map_get m (lit field) of
      Some (Array entries) \<Rightarrow> each (non_text_entry_issues field) entries | _ \<Rightarrow> [])" for field
    by (intro errors_only_opt_each errors_only_non_text_entry)
  then show ?thesis by (simp add: collect_non_text_key_map_issues_def Some)
qed (simp add: collect_non_text_key_map_issues_def)

lemma errors_only_uris: "errors_only (schema_uris_issues v p)"
  by (auto simp: schema_uris_issues_def intro!: errors_only_each split: CborValue.split)

lemma errors_only_schema_item: "errors_only (schema_item_issues i v)"
proof (cases v)
  case (CMap m)
  have uris: "errors_only (case u of None \<Rightarrow> [] | Some raw \<Rightarrow> schema_uris_issues raw p)" for u p
    by (cases u) (simp_all add: errors_only_uris)
  have "errors_only (concat (map (\<lambda>(alg, digest). case alg of
      Text a \<Rightarrow> (case digest of Bytes _ \<Rightarrow> [] | _ \<Rightarrow> [issue SchemaTypeMismatch (f a)]) | _ \<Rightarrow> []) ps))" for f ps
    by (intro errors_only_concat) (simp split: prod.split CborValue.split)
  then have hashes: "errors_only (case u of
       None \<Rightarrow> [issue SchemaMissingRequired p]
     | Some (CMap ps) \<Rightarrow> concat (map (\<lambda>(alg, digest). case alg of
         Text a \<Rightarrow> (case digest of Bytes _ \<Rightarrow> [] | _ \<Rightarrow> [issue SchemaTypeMismatch (f a)]) | _ \<Rightarrow> []) ps)
     | Some _ \<Rightarrow> [issue SchemaTypeMismatch q])" for u p q f
    by (simp split: option.split CborValue.split)
  show ?thesis
    unfolding CMap schema_item_issues_def Let_def as_map.simps option.case errors_only_simps
    by (rule conjI [OF hashes conjI [OF uris errors_only_unknown]]) simp
qed (simp_all add: schema_item_issues_def)

lemma errors_only_schema_merkle: "errors_only (schema_merkle_issues i v)"
proof (cases v)
  case (CMap m)
  show ?thesis
    unfolding CMap schema_merkle_issues_def Let_def as_map.simps option.case errors_only_simps
    by (intro conjI; simp add: errors_only_uris split: option.split CborValue.split)
qed (simp_all add: schema_merkle_issues_def)

lemma errors_only_schema_sig: "errors_only (schema_sig_issues i v)"
proof (cases v)
  case (CMap m)
  show ?thesis
    unfolding CMap schema_sig_issues_def Let_def as_map.simps option.case errors_only_simps
    by (intro conjI; simp split: option.split CborValue.split)
qed (simp_all add: schema_sig_issues_def)

lemma errors_only_schema_array: "(\<And>i x. errors_only (g i x)) \<Longrightarrow> errors_only (schema_array m f g)"
  by (auto simp: schema_array_def intro!: errors_only_each split: option.split CborValue.split)

lemma errors_only_schema: "errors_only (schema_issues m)"
  unfolding schema_issues_def errors_only_simps
  by (intro conjI errors_only_schema_array errors_only_schema_item errors_only_schema_merkle errors_only_schema_sig)
    (auto split: option.split CborValue.split)

lemma errors_only_sorted: "errors_only is \<Longrightarrow> is \<noteq> [] \<Longrightarrow> \<exists>i\<in>set (sort_issues is). vi_severity i = SevError"
  by (cases "is") (auto simp: errors_only_def)

text \<open>The last branch of the source, a record that passed but could not be read back, is unreachable.\<close>

lemma validate_VFail:
  assumes "validate_poe_record bs options = VFail is"
  shows "\<exists>is'. is = sort_issues is' \<and> (\<exists>i\<in>set is. vi_severity i = SevError)"
proof -
  have single: "\<exists>is'. [i] = sort_issues is'" for i
    by (rule exI [of _ "[i]"]) (simp add: sort_issues_def sort_by_def)
  show ?thesis
  proof (cases "decode_canonical_cbor bs")
    case (Inl e)
    then show ?thesis using assms single by (auto simp: validate_poe_record_def)
  next
    case (Inr v)
    show ?thesis
    proof (cases "collect_non_text_key_map_issues v = []")
      case False
      then show ?thesis using assms Inr errors_only_sorted [OF errors_only_pre_guard False]
        by (auto simp: validate_poe_record_def)
    next
      case guard: True
      show ?thesis
      proof (cases "as_map v")
        case None
        then show ?thesis using assms Inr guard single by (auto simp: validate_poe_record_def)
      next
        case (Some m)
        then have v: "v = CMap m" by simp
        show ?thesis
        proof (cases "schema_issues m = []")
          case False
          then show ?thesis using assms Inr guard v errors_only_sorted [OF errors_only_schema False]
            by (auto simp: validate_poe_record_def Let_def)
        next
          case True
          have "\<not> clean (domain_issues m options)"
          proof
            assume "clean (domain_issues m options)"
            from validate_accepts [OF Inr [unfolded v] guard [unfolded v] True this] assms show False by auto
          qed
          then show ?thesis using assms Inr guard v True
            by (auto simp: validate_poe_record_def Let_def result_emission_def list_ex_error_clean clean_def list_all_iff)
        qed
      qed
    qed
  qed
qed

section \<open>The codes and severities of the issues\<close>

text \<open>
  An issue pushed through \<open>issue\<close> with a structural code other than \<open>EncUnsupported\<close>: all the checks push
  only such issues, except the opaque reading of an envelope.
\<close>

definition structural_code :: "ErrorCode \<Rightarrow> bool" where
  "structural_code c \<longleftrightarrow> code_part c = PartA \<and> c \<noteq> EncUnsupported"

definition structural_issues :: "ValidationIssue list \<Rightarrow> bool" where
  "structural_issues xs \<longleftrightarrow>
     (\<forall>i\<in>set xs. structural_code (vi_code i) \<and> vi_severity i = severity (vi_code i))"

lemma structural_codes [simp]:
  "structural_code SchemaTypeMismatch" "structural_code SchemaMissingRequired" "structural_code SchemaUnknownField"
  "structural_code SchemaInvalidLiteral" "structural_code SchemaEmptyRecord" "structural_code HashDigestLengthMismatch"
  "structural_code UnsupportedHashAlg" "structural_code UnsupportedMerkleCommitAlg"
  "structural_code SchemaMerkleLeafCountInvalid" "structural_code InvalidUri"
  "structural_code UnauthenticatedCipherForbidden" "structural_code UnsupportedAeadAlg"
  "structural_code NonceLengthMismatch" "structural_code UnsupportedEnvelopeScheme" "structural_code EncSlotsEmpty"
  "structural_code EncSlotInvalidShape" "structural_code UnsupportedKemAlg" "structural_code EncKemRequired"
  "structural_code KemEpkLengthMismatch" "structural_code KemCtLengthMismatch" "structural_code WrapLengthMismatch"
  "structural_code EncSlotsMacInvalidLength" "structural_code EncSlotsMacRequired" "structural_code EncSlotsRequired"
  "structural_code EncSlotsDuplicateKemMaterial" "structural_code EncSlotsTooMany"
  "structural_code EncEnvelopeTooLarge" "structural_code EncExclusivityViolation" "structural_code EncNoKeyPath"
  "structural_code EncRequiresContentHash" "structural_code EncPassphraseAlgUnsupported"
  "structural_code EncPassphraseSaltTooShort" "structural_code EncPassphraseSaltTooLong"
  "structural_code EncPassphraseArgon2ParamsTooLow" "structural_code EncPassphraseParamsExceedPolicy"
  "structural_code MalformedSigCoseSign1" "structural_code SigEntryInvalidShape"
  "structural_code SigEntryKidCoseKeyConflict" "structural_code SigPrivateKeyLeaked"
  "structural_code SupersedesTxInvalidLength" "structural_code ExtensionUnsupportedCritical"
  "structural_code CritShapeInvalid" "structural_code MalformedCbor" "structural_code SignatureUnsupported"
  by (simp_all add: structural_code_def code_part_def)

lemma structural_simps [simp]:
  "structural_issues []" "structural_issues (xs @ ys) \<longleftrightarrow> structural_issues xs \<and> structural_issues ys"
  "structural_issues (issue c p # xs) \<longleftrightarrow> structural_code c \<and> structural_issues xs"
  by (auto simp: structural_issues_def)

lemma structural_each: "(\<And>i x. structural_issues (f i x)) \<Longrightarrow> structural_issues (each f xs)"
  by (auto simp: structural_issues_def set_each)

lemma structural_concat: "(\<And>x. x \<in> set xs \<Longrightarrow> structural_issues (f x)) \<Longrightarrow> structural_issues (concat (map f xs))"
  by (auto simp: structural_issues_def)

lemma structural_unknown [simp]: "structural_code c \<Longrightarrow> structural_issues (unknown_keys c b k m)"
  by (auto simp: structural_issues_def unknown_keys_def)

lemma structural_flag [simp]: "structural_issues (flag_non_text p v)"
  by (simp add: flag_non_text_def)

lemmas structural_intros = structural_each structural_concat

text \<open>The pre-guard and the schema.\<close>

lemma structural_non_text_entry [simp]: "structural_issues (non_text_entry_issues f i v)"
  by (auto simp: non_text_entry_issues_def split: option.split)

lemma structural_opt_each:
  "(\<And>i x. structural_issues (f i x)) \<Longrightarrow> structural_issues (case u of Some (Array xs) \<Rightarrow> each f xs | _ \<Rightarrow> [])"
  by (cases u) (simp_all add: structural_each split: CborValue.split)

lemma structural_pre_guard: "structural_issues (collect_non_text_key_map_issues v)"
proof (cases "as_map v")
  case (Some m)
  have "structural_issues (case map_get m (lit field) of
      Some (Array entries) \<Rightarrow> each (non_text_entry_issues field) entries | _ \<Rightarrow> [])" for field
    by (intro structural_opt_each structural_non_text_entry)
  then show ?thesis by (simp add: collect_non_text_key_map_issues_def Some)
qed (simp add: collect_non_text_key_map_issues_def)

lemma structural_uris [simp]: "structural_issues (schema_uris_issues v p)"
  by (auto simp: schema_uris_issues_def intro!: structural_each split: CborValue.split)

lemma structural_schema_item [simp]: "structural_issues (schema_item_issues i v)"
proof (cases v)
  case (CMap m)
  have "structural_issues (concat (map (\<lambda>(alg, digest). case alg of
      Text a \<Rightarrow> (case digest of Bytes _ \<Rightarrow> [] | _ \<Rightarrow> [issue SchemaTypeMismatch (f a)]) | _ \<Rightarrow> []) ps))" for f ps
    by (intro structural_concat) (simp split: prod.split CborValue.split)
  then show ?thesis
    unfolding CMap schema_item_issues_def Let_def as_map.simps option.case structural_simps
    by (intro conjI; simp split: option.split CborValue.split)
qed (simp_all add: schema_item_issues_def)

lemma structural_schema_merkle [simp]: "structural_issues (schema_merkle_issues i v)"
proof (cases v)
  case (CMap m)
  show ?thesis
    unfolding CMap schema_merkle_issues_def Let_def as_map.simps option.case structural_simps
    by (intro conjI; simp split: option.split CborValue.split)
qed (simp_all add: schema_merkle_issues_def)

lemma structural_schema_sig [simp]: "structural_issues (schema_sig_issues i v)"
proof (cases v)
  case (CMap m)
  show ?thesis
    unfolding CMap schema_sig_issues_def Let_def as_map.simps option.case structural_simps
    by (intro conjI; simp split: option.split CborValue.split)
qed (simp_all add: schema_sig_issues_def)

lemma structural_schema_array: "(\<And>i x. structural_issues (g i x)) \<Longrightarrow> structural_issues (schema_array m f g)"
  by (auto simp: schema_array_def intro!: structural_each split: option.split CborValue.split)

lemma structural_schema: "structural_issues (schema_issues m)"
  unfolding schema_issues_def structural_simps
  by (intro conjI structural_schema_array) (auto split: option.split CborValue.split)

text \<open>The domain checks, the opaque envelope apart.\<close>

lemma structural_content [simp]: "structural_issues (check_content_commitment_presence m)"
  by (simp add: check_content_commitment_presence_def Let_def)

lemma structural_crit [simp]: "structural_issues (check_crit m options)"
proof -
  have "structural_issues (crit_loop m options i seen xs)" for i seen xs
    by (induction xs arbitrary: i seen) (auto simp: Let_def split: option.split)
  then show ?thesis by (auto simp: check_crit_def split: option.split CborValue.split)
qed

lemma structural_top_level [simp]: "structural_issues (check_unknown_top_level m)"
  by (auto simp: check_unknown_top_level_def structural_issues_def)

lemma structural_hashes [simp]: "structural_issues (check_item_hashes m i)"
  by (auto simp: check_item_hashes_def Let_def intro!: structural_concat split: option.split CborValue.split)

lemma structural_one_uri [simp]: "structural_issues (check_one_uri u p)"
  by (auto simp: check_one_uri_def split: option.split)

lemma structural_check_uris [simp]: "structural_issues (check_uris v p)"
  by (auto simp: check_uris_def intro!: structural_each split: CborValue.split option.split)

lemma structural_internal [simp]: "structural_issues (enc_internal_non_text_key_issues m p)"
  by (auto simp: enc_internal_non_text_key_issues_def intro!: structural_each split: option.split CborValue.split)

lemma structural_slot_schema [simp]: "structural_issues (slot_schema_issues p v)"
  by (auto simp: slot_schema_issues_def intro!: structural_concat split: option.split CborValue.split)

lemma structural_passphrase_schema [simp]: "structural_issues (passphrase_schema_issues p v)"
proof (cases v)
  case (CMap m)
  show ?thesis
    unfolding CMap passphrase_schema_issues_def Let_def as_map.simps option.case structural_simps
    by (intro conjI; simp split: option.split CborValue.split)
qed (simp_all add: passphrase_schema_issues_def)

lemma structural_scheme1_schema [simp]: "structural_issues (enc_scheme1_schema_issues m p)"
  unfolding enc_scheme1_schema_issues_def structural_simps
  by (intro conjI; auto intro!: structural_each split: option.split CborValue.split)

lemma structural_slots [simp]: "structural_issues (slots_issues m p options)"
proof -
  have "structural_issues (check_slot_shape sm d sp)" if "kem_slot_descriptor kem = Some d" for sm d sp kem
    using that unfolding check_slot_shape_def Let_def structural_simps
    by (intro conjI; auto simp: kem_slot_descriptor_def split: option.split if_splits)
  then have "structural_issues (slot_loop d sp j seen xs)" if "kem_slot_descriptor kem = Some d" for d sp j seen xs kem
    using that by (induction xs arbitrary: j seen) (auto simp: Let_def split: option.split)
  then show ?thesis
    by (auto simp: slots_issues_def Let_def bind_eq_Some_conv simp del: bind_assoc
        split: option.split CborValue.split)
qed

lemma structural_argon2 [simp]: "structural_issues (argon2_param_issues params p ceiling name fl)"
  by (auto simp: argon2_param_issues_def Let_def split: option.split CborValue.split)

lemma structural_passphrase [simp]: "structural_issues (check_passphrase_block m p options)"
  by (auto simp: check_passphrase_block_def Let_def intro!: structural_concat split: option.split CborValue.split)

lemma structural_key_path [simp]: "structural_issues (key_path_issues m p)"
  by (simp add: key_path_issues_def Let_def)

lemma structural_typed [simp]: "structural_issues (typed_envelope_issues m p options)"
  by (auto simp: typed_envelope_issues_def check_scheme1_envelope_def Let_def split: option.split)

lemma structural_merkle [simp]: "structural_issues (check_merkle_commit i v)"
proof (cases v)
  case (CMap m)
  show ?thesis
    unfolding CMap check_merkle_commit_def Let_def as_map.simps option.case structural_simps
    by (intro conjI; simp split: option.split CborValue.split)
qed (simp_all add: check_merkle_commit_def)

lemma structural_sig [simp]: "structural_issues (check_sig_entry i v)"
proof -
  have "structural_issues [k]" if "inspect_cose_key b p = Some k" for b p k
    using that by (auto simp: inspect_cose_key_def Let_def split: sum.splits if_splits option.splits CborValue.splits)
  moreover have "structural_issues (check_cose_sign1 c h b)" for c h b
    by (simp add: check_cose_sign1_def Let_def)
  ultimately show ?thesis
    by (auto simp: check_sig_entry_def Let_def bind_eq_Some_conv simp del: bind_assoc split: option.split)
qed

section \<open>The two roles\<close>

text \<open>
  The lists of one check under the two roles: equal, or the public one reports an opaque envelope and
  the strict one has an error.
\<close>

definition role_lists :: "ValidationIssue list \<Rightarrow> ValidationIssue list \<Rightarrow> bool" where
  "role_lists strict pub \<longleftrightarrow>
     (if EncUnsupported \<in> vi_code ` set pub then \<not> clean strict else strict = pub)"

lemma role_lists_structural: "structural_issues xs \<Longrightarrow> role_lists xs xs"
  by (auto simp: role_lists_def structural_issues_def structural_code_def)

lemma role_lists_append: "role_lists a b \<Longrightarrow> role_lists c d \<Longrightarrow> role_lists (a @ c) (b @ d)"
  by (auto simp: role_lists_def split: if_splits)

lemma role_lists_each: "(\<And>i x. role_lists (f i x) (g i x)) \<Longrightarrow> role_lists (each f xs) (each g xs)"
proof -
  assume fg: "\<And>i x. role_lists (f i x) (g i x)"
  have "role_lists (concat (map (\<lambda>(i, x). f i x) ixs)) (concat (map (\<lambda>(i, x). g i x) ixs))" for ixs
  proof (induction ixs)
    case (Cons p ixs)
    then show ?case using role_lists_append [OF fg] by (cases p) simp
  qed (simp add: role_lists_def)
  then show ?thesis by (simp add: each_def)
qed

lemma typed_envelope_role [simp]:
  "typed_envelope_issues m p (options\<lparr>vo_role := x\<rparr>) = typed_envelope_issues m p options"
  by (simp add: typed_envelope_issues_def check_scheme1_envelope_def slots_issues_def check_passphrase_block_def Let_def
      cong: option.case_cong CborValue.case_cong if_cong)

lemma crit_loop_role [simp]: "crit_loop m (options\<lparr>vo_role := x\<rparr>) i seen es = crit_loop m options i seen es"
  by (induction es arbitrary: i seen) (auto simp: Let_def split: option.split)

abbreviation with_role :: "ValidatorOptions \<Rightarrow> ValidatorRole \<Rightarrow> ValidatorOptions" where
  "with_role options r \<equiv> options\<lparr>vo_role := r\<rparr>"

lemma role_dispatch:
  "role_lists (envelope_dispatch m p (with_role options RecipientOrStrict)) (envelope_dispatch m p (with_role options Public))"
proof -
  have "role_lists (opaque_issues p RecipientOrStrict u) (opaque_issues p Public u)" for u
    by (simp add: role_lists_def opaque_issues_def)
  then show ?thesis
    unfolding envelope_dispatch_def
    by (auto intro!: role_lists_structural split: option.split CborValue.split)
qed

lemma role_item:
  "role_lists (check_item (with_role options RecipientOrStrict) i v) (check_item (with_role options Public) i v)"
proof (cases v)
  case (CMap m)
  have "role_lists (check_item_enc m e i (with_role options RecipientOrStrict)) (check_item_enc m e i (with_role options Public))"
    for e
  proof (cases e)
    case (CMap em)
    show ?thesis unfolding check_item_enc_def Let_def CMap as_map.simps option.case
      by (intro role_lists_append role_dispatch) (auto intro!: role_lists_structural split: sum.split)
  qed (auto simp: check_item_enc_def Let_def intro!: role_lists_structural)
  then show ?thesis unfolding check_item_def CMap as_map.simps option.case
    by (intro role_lists_append role_lists_structural; (simp split: option.split)?)
      (auto intro: role_lists_structural split: option.split)
qed (simp_all add: check_item_def role_lists_def)

lemma role_domain:
  "role_lists (domain_issues m (with_role options RecipientOrStrict)) (domain_issues m (with_role options Public))"
proof -
  have arr: "role_lists (array_checks m f g) (array_checks m f h)" if "\<And>i x. role_lists (g i x) (h i x)" for f g h
    using that by (auto simp: array_checks_def role_lists_each role_lists_structural split: option.split CborValue.split)
  have s: "structural_issues (array_checks m f check_merkle_commit)" "structural_issues (array_checks m f check_sig_entry)" for f
    by (auto simp: array_checks_def intro!: structural_each split: option.split CborValue.split)
  have crit: "check_crit m (with_role options x) = check_crit m options" for x
    by (simp add: check_crit_def cong: option.case_cong CborValue.case_cong if_cong)
  show ?thesis unfolding domain_issues_def crit
    by (intro role_lists_append arr role_item role_lists_structural s) simp_all
qed

text \<open>
  What every issue satisfies under a role: an opaque envelope is an error to a strict validator and an
  info to a public one.
\<close>

definition registered_severity :: "ValidatorRole \<Rightarrow> ErrorCode \<Rightarrow> Severity" where
  "registered_severity role c =
     (if c = EncUnsupported then (case role of RecipientOrStrict \<Rightarrow> SevError | Public \<Rightarrow> SevInfo) else severity c)"

definition registered_issue :: "ValidatorRole \<Rightarrow> ValidationIssue \<Rightarrow> bool" where
  "registered_issue role i \<longleftrightarrow> code_part (vi_code i) = PartA \<and> vi_severity i = registered_severity role (vi_code i)"

lemma structural_registered: "structural_issues xs \<Longrightarrow> list_all (registered_issue r) xs"
  by (auto simp: structural_issues_def structural_code_def list_all_iff registered_issue_def registered_severity_def)

lemma registered_each: "(\<And>i x. list_all (registered_issue r) (f i x)) \<Longrightarrow> list_all (registered_issue r) (each f xs)"
  by (auto simp: list_all_iff set_each)

lemma registered_dispatch: "list_all (registered_issue (vo_role options)) (envelope_dispatch m p options)"
proof -
  have "list_all (registered_issue r) (map (\<lambda>(field, code). issue code (p @ [key field])) (unsupported_ids scheme m))" for r scheme
    by (auto simp: unsupported_ids_def registered_issue_def registered_severity_def code_part_def split: option.split CborValue.split)
  then have "list_all (registered_issue r) (opaque_issues p r (unsupported_ids scheme m))" for r scheme
    by (simp add: opaque_issues_def registered_issue_def registered_severity_def code_part_def split: ValidatorRole.split)
  then show ?thesis
    by (auto simp: envelope_dispatch_def registered_issue_def registered_severity_def code_part_def structural_registered
        split: option.split CborValue.split)
qed

lemma registered_item: "list_all (registered_issue (vo_role options)) (check_item options i v)"
proof (cases v)
  case (CMap m)
  have "list_all (registered_issue (vo_role options)) (check_item_enc m e i options)" for e
    by (auto simp: check_item_enc_def Let_def registered_dispatch registered_issue_def registered_severity_def code_part_def
        split: option.split sum.split)
  then show ?thesis
    by (auto simp: CMap check_item_def structural_registered split: option.split)
qed (simp_all add: check_item_def)

lemma registered_domain: "list_all (registered_issue (vo_role options)) (domain_issues m options)"
proof -
  have arr: "list_all (registered_issue r) (array_checks m f g)" if "\<And>i x. list_all (registered_issue r) (g i x)" for r f g
    using that by (auto simp: array_checks_def registered_each split: option.split CborValue.split)
  show ?thesis unfolding domain_issues_def list_all_append
    by (intro conjI arr registered_item structural_registered) simp_all
qed

lemma registered_no_warning: "registered_issue r i \<Longrightarrow> vi_severity i \<noteq> SevWarning"
proof
  assume "registered_issue r i" "vi_severity i = SevWarning"
  then have "severity (vi_code i) = SevWarning" "code_part (vi_code i) = PartA" by (auto simp: registered_issue_def registered_severity_def split: if_splits ValidatorRole.splits)
  moreover from this have "vi_code i \<in> {UriProviderIntegrityMismatch, UriFetchFailed, MerkleLeavesUnavailable}"
    by (simp add: severity_def split: if_splits)
  ultimately show False by (auto simp: code_part_def)
qed

fun result_issues :: "ValidateResult \<Rightarrow> ValidationIssue list" where
  "result_issues (VOk r ws info) = ws @ info"
| "result_issues (VFail issues) = issues"

lemma result_registered: "list_all (registered_issue (vo_role options)) (result_issues (validate_poe_record bs options))"
proof -
  have "list_all (registered_issue r) xs \<Longrightarrow> list_all (registered_issue r) (sort_issues xs)" for r xs
    by (simp add: list_all_iff)
  moreover have "registered_issue r (issue MalformedCbor p)" "registered_issue r (issue SchemaTypeMismatch p)" for r p
    by (simp_all add: registered_issue_def registered_severity_def code_part_def)
  ultimately show ?thesis
    using registered_domain structural_registered [OF structural_schema] structural_registered [OF structural_pre_guard]
    by (auto simp: validate_poe_record_def Let_def result_emission_def list_all_iff split: sum.split option.split)
qed

end
