(* ===== verification/Poe_Accepted.thy ===== *)
theory Poe_Accepted
  imports Poe_Correct
begin

text \<open>
  The typed record that an accepting validator returns: for each struct, what its fields satisfy, read
  off the shapes of \<open>Poe_Roundtrip\<close> through the \<open>*_from_cbor\<close> functions of \<open>src/poe_standard.rs\<close>.
\<close>

section \<open>What an accepted record holds\<close>

definition slot_fields_wf :: "KemSlotDescriptor \<Rightarrow> Slot \<Rightarrow> bool" where
  "slot_fields_wf d s \<longleftrightarrow>
     (\<exists>c. (if kd_field d = ''epk'' then slot_epk s = Some c \<and> slot_kem_ct s = None
           else slot_kem_ct s = Some c \<and> slot_epk s = None) \<and> length c = kd_field_length d) \<and>
     (\<exists>w. slot_wrap s = Some w \<and> length w = kd_wrap_length d)"

definition kem_material :: "Slot \<Rightarrow> bytes option" where
  "kem_material s = (case slot_epk s of Some c \<Rightarrow> Some c | None \<Rightarrow> slot_kem_ct s)"

definition slots_wf :: "ValidatorOptions \<Rightarrow> EncScheme1 \<Rightarrow> bool" where
  "slots_wf options e \<longleftrightarrow> (\<exists>kem d slots mac. enc_kem e = Some kem \<and> kem_slot_descriptor kem = Some d \<and>
     enc_slots e = Some slots \<and> slots \<noteq> [] \<and> length slots \<le> vo_max_slots options \<and>
     list_all (slot_fields_wf d) slots \<and> distinct (map kem_material slots) \<and>
     enc_slots_mac e = Some mac \<and> length mac = 32 \<and> enc_passphrase e = None)"

definition passphrase_wf :: "EncScheme1 \<Rightarrow> bool" where
  "passphrase_wf e \<longleftrightarrow> (\<exists>pp. enc_passphrase e = Some pp \<and> 16 \<le> length (pp_salt pp) \<and> length (pp_salt pp) \<le> 64 \<and>
     list_all (\<lambda>(name, floor). \<exists>n. (lit name, n) \<in> set (pp_params pp) \<and> floor \<le> n \<and> n \<le> UINT32_MAX) ARGON2_FLOORS) \<and>
     enc_kem e = None \<and> enc_slots e = None \<and> enc_slots_mac e = None"

definition scheme1_wf :: "ValidatorOptions \<Rightarrow> EncScheme1 \<Rightarrow> bool" where
  "scheme1_wf options e \<longleftrightarrow> enc_scheme e = 1 \<and>
     registry_lookup AEAD_NONCE_LENGTHS (enc_aead e) = Some (length (enc_nonce e)) \<and>
     (slots_wf options e \<or> passphrase_wf e)"

lemma opt_array_Array [simp]: "opt_array f (Some (Array xs)) = Some ys \<longleftrightarrow> (\<exists>zs. ys = Some zs \<and> map f xs = map Some zs)"
  by (auto simp: opt_array_def collect_opt_Some_iff split: option.split)

lemma map_Some_nth: "map f xs = map Some ys \<Longrightarrow> y \<in> set ys \<Longrightarrow> \<exists>x\<in>set xs. f x = Some y"
  by (metis imageI image_iff list.set_map)

lemma slot_from_ok:
  assumes "slot_ok d x" "kem_slot_descriptor kem = Some d" "slot_from_cbor x = Some s"
  shows "slot_fields_wf d s \<and> kem_material s = slot_material d x"
proof -
  obtain m c w where m: "x = CMap m" "closed_keys [lit (kd_field d), lit ''wrap''] m"
    "map_get m (lit (kd_field d)) = Some (Bytes c)" "length c = kd_field_length d"
    "map_get m (lit ''wrap'') = Some (Bytes w)" "length w = kd_wrap_length d"
    using assms(1) by (auto simp: slot_ok_def)
  have none: "map_get m k = None" if "k \<noteq> lit (kd_field d)" "k \<noteq> lit ''wrap''" for k
    using m(2) that by (auto simp: map_get_None closed_keys_def)
  from assms(2) have "kd_field d = ''epk'' \<or> kd_field d = ''kem_ct''" by (auto simp: kem_slot_descriptor_Some)
  then show ?thesis
  proof
    assume f: "kd_field d = ''epk''"
    then have "map_get m (lit ''kem_ct'') = None" by (intro none) simp_all
    then show ?thesis using m f assms(3)
      by (auto simp: slot_from_cbor_def slot_fields_wf_def kem_material_def slot_material_def)
  next
    assume f: "kd_field d = ''kem_ct''"
    then have "map_get m (lit ''epk'') = None" by (intro none) simp_all
    then show ?thesis using m f assms(3)
      by (auto simp: slot_from_cbor_def slot_fields_wf_def kem_material_def slot_material_def)
  qed
qed

lemma passphrase_from_ok:
  assumes "passphrase_ok v" "passphrase_from_cbor v = Some pp"
  shows "16 \<le> length (pp_salt pp) \<and> length (pp_salt pp) \<le> 64 \<and>
    list_all (\<lambda>(name, floor). \<exists>n. (lit name, n) \<in> set (pp_params pp) \<and> floor \<le> n \<and> n \<le> UINT32_MAX) ARGON2_FLOORS"
proof -
  obtain m ps a salt where m: "v = CMap m" "map_get m (lit ''alg'') = Some (Text a)"
    "map_get m (lit ''salt'') = Some (Bytes salt)" "16 \<le> length salt" "length salt \<le> 64"
    "map_get m (lit ''params'') = Some (CMap ps)"
    and floors: "list_all (\<lambda>(name, floor). \<exists>n. map_get ps (lit name) = Some (Unsigned n) \<and> floor \<le> n \<and> n \<le> UINT32_MAX)
       ARGON2_FLOORS"
    using assms(1) by (auto simp: passphrase_ok_def)
  have pp: "map param_from_cbor ps = map Some (pp_params pp)" "pp_salt pp = salt"
    using assms(2) m by (auto simp: passphrase_from_cbor_def bind_eq_Some_conv collect_opt_Some_iff)
  have "(lit name, n) \<in> set (pp_params pp)" if "map_get ps (lit name) = Some (Unsigned n)" for name n
  proof -
    have "(Text (lit name), Unsigned n) \<in> set ps"
      using that by (auto simp: map_get_def dest: map_of_SomeD)
    then have "param_from_cbor (Text (lit name), Unsigned n) \<in> Some ` set (pp_params pp)"
      using pp(1) by (metis imageI list.set_map)
    then show ?thesis by (auto simp: param_from_cbor_def)
  qed
  then show ?thesis using floors m(4,5) pp(2) unfolding list_all_iff by fast
qed

lemma scheme1_from_ok:
  assumes "scheme1_ok options m" "scheme1_from_cbor scheme m = Some e" "scheme = 1"
  shows "scheme1_wf options e"
proof -
  obtain a nonce where a: "map_get m (lit ''aead'') = Some (Text a)" "map_get m (lit ''nonce'') = Some (Bytes nonce)"
    "registry_lookup AEAD_NONCE_LENGTHS a = Some (length nonce)"
    and path: "slots_path_ok options m \<or> passphrase_path_ok m"
    using assms(1) unfolding scheme1_ok_def by blast
  obtain slots pp where e: "opt_array slot_from_cbor (map_get m (lit ''slots'')) = Some slots"
    "(case map_get m (lit ''passphrase'') of
         None \<Rightarrow> Some None | Some pp \<Rightarrow> map_option Some (passphrase_from_cbor pp)) = Some pp"
    "e = \<lparr>enc_scheme = scheme, enc_aead = a, enc_nonce = nonce,
       enc_kem = Option.bind (map_get m (lit ''kem'')) as_text, enc_slots = slots,
       enc_slots_mac = Option.bind (map_get m (lit ''slots_mac'')) as_bytes, enc_passphrase = pp\<rparr>"
    using assms(2) a unfolding scheme1_from_cbor_def by (auto simp: bind_eq_Some_conv)
  from path have "slots_wf options e \<or> passphrase_wf e"
  proof
    assume "slots_path_ok options m"
    then obtain kem d xs mac where s: "map_get m (lit ''kem'') = Some (Text kem)" "kem_slot_descriptor kem = Some d"
      "map_get m (lit ''slots'') = Some (Array xs)" "xs \<noteq> []" "length xs \<le> vo_max_slots options"
      "list_all (slot_ok d) xs" "distinct (map (slot_material d) xs)"
      "map_get m (lit ''slots_mac'') = Some (Bytes mac)" "length mac = 32" "map_get m (lit ''passphrase'') = None"
      unfolding slots_path_ok_def by blast
    obtain ys where ys: "slots = Some ys" "map slot_from_cbor xs = map Some ys" using e(1) s(3) by auto
    have rel: "list_all2 (\<lambda>x y. slot_ok d x \<and> slot_from_cbor x = Some y) xs ys"
      using ys(2) s(6) by (auto simp: list_all2_conv_all_nth list_all_length list_eq_iff_nth_eq)
    then have "list_all2 (\<lambda>x y. slot_fields_wf d y \<and> kem_material y = slot_material d x) xs ys"
      by (rule list.rel_mono_strong) (use slot_from_ok s(2) in blast)
    then have "list_all (slot_fields_wf d) ys" "map kem_material ys = map (slot_material d) xs"
      by (auto simp: list_all2_conv_all_nth list_all_length intro: nth_equalityI)
    moreover have "length ys = length xs" using ys(2) by (metis length_map)
    ultimately have "slots_wf options e" using s e(2,3) ys(1) unfolding slots_wf_def by auto
    then show ?thesis ..
  next
    assume p: "passphrase_path_ok m"
    then obtain v where v: "map_get m (lit ''passphrase'') = Some v" "passphrase_ok v"
      unfolding passphrase_path_ok_def by blast
    then obtain q where "pp = Some q" "passphrase_from_cbor v = Some q" using e(2) by auto
    with passphrase_from_ok [OF v(2)] p e have "passphrase_wf e"
      by (auto simp: passphrase_path_ok_def passphrase_wf_def opt_array_def)
    then show ?thesis ..
  qed
  then show ?thesis using a(3) e(3) assms(3) by (simp add: scheme1_wf_def)
qed

definition item_wf :: "ValidatorOptions \<Rightarrow> ItemEntry \<Rightarrow> bool" where
  "item_wf options item \<longleftrightarrow> item_hashes item \<noteq> [] \<and>
     list_all (\<lambda>(alg, digest). registry_lookup HASH_ALG_LENGTHS alg = Some (length digest)) (item_hashes item) \<and>
     (case item_enc item of Some (Scheme1 e) \<Rightarrow> scheme1_wf options e | _ \<Rightarrow> True)"

definition merkle_wf :: "MerkleCommit \<Rightarrow> bool" where
  "merkle_wf c \<longleftrightarrow> registry_lookup MERKLE_COMMIT_ALG_LENGTHS (mc_alg c) = Some (length (mc_root c)) \<and>
     1 \<le> mc_leaf_count c \<and> mc_leaf_count c \<le> UINT32_MAX"

definition record_wf :: "ValidatorOptions \<Rightarrow> PoeRecord \<Rightarrow> bool" where
  "record_wf options r \<longleftrightarrow> rec_v r = 1 \<and>
     (case rec_items r of None \<Rightarrow> rec_merkle r \<noteq> None | Some items \<Rightarrow> items \<noteq> [] \<and> list_all (item_wf options) items) \<and>
     (case rec_merkle r of None \<Rightarrow> True | Some cs \<Rightarrow> cs \<noteq> [] \<and> list_all merkle_wf cs) \<and>
     (case rec_supersedes r of None \<Rightarrow> True | Some tx \<Rightarrow> length tx = 32) \<and>
     list_all (\<lambda>(k, v). is_extension_key k) (rec_extensions r) \<and>
     (case rec_crit r of None \<Rightarrow> True
      | Some names \<Rightarrow> names \<noteq> [] \<and> distinct names \<and> set names \<subseteq> vo_supported_critical_extensions options \<and>
          set names \<subseteq> fst ` set (rec_extensions r))"

lemma envelope_from_ok:
  assumes "envelope_ok options e" "envelope_from_cbor e = Some (Scheme1 t)"
  shows "scheme1_wf options t"
proof -
  obtain m scheme where m: "e = CMap m" "map_get m (lit ''scheme'') = Some (Unsigned scheme)"
    "if unsupported_ids scheme m = [] then scheme1_ok options m else vo_role options = Public"
    using assms(1) by (auto simp: envelope_ok_def)
  have sup: "identifiers_supported scheme m"
    using assms(2) m(1,2) by (auto simp: envelope_from_cbor_def split: if_splits)
  then have "unsupported_ids scheme m = []" using unsupported_not_supported by blast
  then have "scheme1_ok options m" using m(3) by simp
  moreover have "scheme1_from_cbor scheme m = Some t"
    using assms(2) m(1,2) sup by (auto simp: envelope_from_cbor_def)
  moreover have "scheme = 1" using sup by (simp add: identifiers_supported_def)
  ultimately show ?thesis by (rule scheme1_from_ok)
qed

lemma item_from_ok:
  assumes "item_shape x" "clean (check_item options i x)" "item_from_cbor x = Some item"
  shows "item_wf options item"
proof -
  obtain m h ps where m: "x = CMap m" "map_get m (lit ''hashes'') = Some (CMap ps)"
    and enc: "\<And>e. map_get m (lit ''enc'') = Some e \<Longrightarrow> \<not> is_non_text_key_map e"
    using assms(1) by (auto simp: item_shape_def text_bytes_map_def)
  obtain hs uris en where item: "map hash_from_cbor ps = map Some hs"
    "(case map_get m (lit ''enc'') of
         None \<Rightarrow> Some None | Some e \<Rightarrow> map_option Some (envelope_from_cbor e)) = Some en"
    "item = \<lparr>item_hashes = hs, item_uris = uris, item_enc = en\<rparr>"
    using assms(3) m by (auto simp: item_from_cbor_def bind_eq_Some_conv collect_opt_Some_iff)
  have ch: "clean (check_item_hashes m i)" and ce: "\<And>e. map_get m (lit ''enc'') = Some e \<Longrightarrow> clean (check_item_enc m e i options)"
    using assms(2) m(1) by (auto simp: check_item_def)
  have ne: "ps \<noteq> []" using ch m(2) by (auto simp: check_item_hashes_def)
  have "registry_lookup HASH_ALG_LENGTHS alg = Some (length digest)" if hd: "(alg, digest) \<in> set hs" for alg digest
  proof -
    obtain p where p: "p \<in> set ps" "hash_from_cbor p = Some (alg, digest)"
      using map_Some_nth [OF item(1) hd] by blast
    then have "as_text (fst p) = Some alg" "as_bytes (snd p) = Some digest"
      by (auto simp: hash_from_cbor_def bind_eq_Some_conv)
    then show ?thesis using ch m(2) ne p(1)
      by (cases p) (fastforce simp: check_item_hashes_def Let_def clean_concat split: option.splits if_splits)
  qed
  moreover have "hs \<noteq> []" using item(1) ne by auto
  moreover have "scheme1_wf options t" if t: "en = Some (Scheme1 t)" for t
  proof -
    obtain e where e: "map_get m (lit ''enc'') = Some e" "envelope_from_cbor e = Some (Scheme1 t)"
      using item(2) t by (auto split: option.splits)
    from clean_check_item_enc [OF ce [OF e(1)] enc [OF e(1)]] e(2) show ?thesis by (rule envelope_from_ok)
  qed
  ultimately show ?thesis using item(3)
    by (auto simp: item_wf_def list_all_iff split: option.split EncryptionEnvelope.split)
qed

lemma merkle_from_ok:
  assumes "clean (check_merkle_commit i x)" "merkle_from_cbor x = Some c"
  shows "merkle_wf c"
  using assms
  by (cases x) (auto simp: merkle_from_cbor_def check_merkle_commit_def merkle_wf_def Let_def bind_eq_Some_conv
      split: option.splits if_splits CborValue.splits)

lemma clean_crit_loop:
  "clean (crit_loop m options i seen es) \<Longrightarrow> map as_text es = map Some names \<Longrightarrow>
   distinct names \<and> set names \<inter> set seen = {} \<and> set names \<subseteq> vo_supported_critical_extensions options \<and>
   (\<forall>n\<in>set names. map_has m n \<and> n \<notin> set TOP_LEVEL_BASE_KEYS)"
proof (induction es arbitrary: i seen names)
  case (Cons e es)
  then obtain n ns where n: "names = n # ns" "as_text e = Some n" "map as_text es = map Some ns"
    by (cases names) auto
  have "clean (crit_loop m options (i + 1) (n # seen) es)"
    "n \<notin> set TOP_LEVEL_BASE_KEYS" "map_has m n" "n \<notin> set seen" "n \<in> vo_supported_critical_extensions options"
    using Cons.prems(1) n(2) by (auto simp: Let_def split: if_splits)
  with Cons.IH [OF _ n(3)] show ?case by (fastforce simp: n(1))
qed simp

lemma extension_of_map_has:
  "map_has m n \<Longrightarrow> n \<notin> set TOP_LEVEL_BASE_KEYS \<Longrightarrow> n \<in> fst ` set (extensions_from_cbor m)"
proof -
  assume n: "map_has m n" "n \<notin> set TOP_LEVEL_BASE_KEYS"
  then obtain v where "(Text n, v) \<in> set m" by (auto simp: map_has_def map_get_def dest: map_of_SomeD)
  then have "(n, v) \<in> set (extensions_from_cbor m)"
    using n(2) by (force simp: extensions_from_cbor_def map_filter_def)
  then show ?thesis by force
qed

lemma opt_array_typed:
  assumes "opt_array f u = Some z" "typed_array P u"
  shows "(u = None \<and> z = None) \<or> (\<exists>xs ys. u = Some (Array xs) \<and> z = Some ys \<and> map f xs = map Some ys \<and> list_all P xs)"
  using assms by (auto simp: typed_array_def opt_array_def collect_opt_Some_iff split: option.splits CborValue.splits)

lemma record_from_ok:
  assumes "record_shape m" "clean (domain_issues m options)" "record_from_cbor (CMap m) = Some r"
  shows "record_wf options r"
proof -
  have shape: "typed_array item_shape (map_get m (lit ''items''))" "typed_array merkle_shape (map_get m (lit ''merkle''))"
    "typed_array is_text (map_get m (lit ''crit''))" "map_get m (lit ''v'') = Some (Unsigned 1)"
    and sup: "\<And>v. map_get m (lit ''supersedes'') = Some v \<Longrightarrow> \<exists>b. v = Bytes b \<and> length b = 32"
    and keys: "\<not> is_non_text_key_map (CMap m)"
    using assms(1) by (auto simp: record_shape_def)
  obtain items merkle crit where r: "opt_array item_from_cbor (map_get m (lit ''items'')) = Some items"
    "opt_array merkle_from_cbor (map_get m (lit ''merkle'')) = Some merkle"
    "opt_array as_text (map_get m (lit ''crit'')) = Some crit"
    "rec_v r = 1" "rec_items r = items" "rec_merkle r = merkle" "rec_crit r = crit"
    "rec_supersedes r = Option.bind (map_get m (lit ''supersedes'')) as_bytes"
    "rec_extensions r = extensions_from_cbor m"
    using assms(3) shape(4) by (auto simp: record_from_cbor_def bind_eq_Some_conv)
  have c: "clean (check_content_commitment_presence m)" "clean (check_crit m options)" "clean (check_unknown_top_level m)"
    "clean (array_checks m ''items'' (check_item options))" "clean (array_checks m ''merkle'' check_merkle_commit)"
    using assms(2) by (simp_all add: domain_issues_def)
  have item: "item_wf options y" if ys: "items = Some ys" "y \<in> set ys" for y ys
  proof -
    obtain xs where xs: "map_get m (lit ''items'') = Some (Array xs)" "map item_from_cbor xs = map Some ys"
      "list_all item_shape xs" using opt_array_typed [OF r(1) shape(1)] ys(1) by auto
    then obtain x where x: "x \<in> set xs" "item_from_cbor x = Some y" using map_Some_nth ys(2) by metis
    with clean_array_checks [OF c(4) xs(1)] xs(3) show ?thesis using item_from_ok by (metis list_all_iff)
  qed
  have commit: "merkle_wf y" if ys: "merkle = Some ys" "y \<in> set ys" for y ys
  proof -
    obtain xs where xs: "map_get m (lit ''merkle'') = Some (Array xs)" "map merkle_from_cbor xs = map Some ys"
      using opt_array_typed [OF r(2) shape(2)] ys(1) by auto
    then obtain x where x: "x \<in> set xs" "merkle_from_cbor x = Some y" using map_Some_nth ys(2) by metis
    with clean_array_checks [OF c(5) xs(1)] show ?thesis using merkle_from_ok by metis
  qed
  have content: "items \<noteq> Some [] \<and> merkle \<noteq> Some [] \<and> (items \<noteq> None \<or> merkle \<noteq> None)"
    using c(1) opt_array_typed [OF r(1) shape(1)] opt_array_typed [OF r(2) shape(2)]
    by (auto simp: check_content_commitment_presence_def array_length_def Let_def split: if_splits)
  have cr: "names \<noteq> [] \<and> distinct names \<and> set names \<subseteq> vo_supported_critical_extensions options \<and>
      set names \<subseteq> fst ` set (extensions_from_cbor m)" if names: "crit = Some names" for names
  proof -
    obtain es where es: "map_get m (lit ''crit'') = Some (Array es)" "map as_text es = map Some names"
      using opt_array_typed [OF r(3) shape(3)] names by auto
    then have "es \<noteq> []" "clean (crit_loop m options 0 [] es)" using c(2) by (auto simp: check_crit_def split: if_splits)
    with clean_crit_loop [OF _ es(2)] es(2) extension_of_map_has show ?thesis by fastforce
  qed
  have ext: "is_extension_key k" if "(k, v) \<in> set (extensions_from_cbor m)" for k v
  proof -
    have "(Text k, v) \<in> set m" "k \<notin> set TOP_LEVEL_BASE_KEYS"
      using that by (auto simp: extensions_from_cbor_def map_filter_def split: CborValue.splits if_splits)
    moreover from this have "k \<in> set (text_keys m)" by (auto simp: text_keys_set intro: rev_image_eqI)
    ultimately show ?thesis using c(3)
      by (auto simp: check_unknown_top_level_def clean_map)
  qed
  have "length tx = 32" if "rec_supersedes r = Some tx" for tx
    using that sup r(8) by (auto simp: bind_eq_Some_conv)
  then show ?thesis using r content item commit cr ext
    by (auto simp: record_wf_def list_all_iff split: option.split)
qed

end
