(* ===== verification/Poe_Promises.thy ===== *)
theory Poe_Promises
  imports Poe_Accepted
begin

text \<open>
  The promises of \<open>validate_poe_record\<close> to its callers, stated over its whole input and output.
\<close>

section \<open>Results under the two roles\<close>

lemma validate_cases:
  obtains (malformed) e where "decode_canonical_cbor bs = Inl e"
      "\<And>options. validate_poe_record bs options = VFail [issue MalformedCbor []]"
  | (refused) v xs where "decode_canonical_cbor bs = Inr v" "xs \<noteq> []" "errors_only xs"
      "\<And>options. validate_poe_record bs options = VFail (sort_issues xs)"
  | (checked) m where "decode_canonical_cbor bs = Inr (CMap m)" "collect_non_text_key_map_issues (CMap m) = []"
      "schema_issues m = []"
      "\<And>options. validate_poe_record bs options = result_emission (CMap m) (domain_issues m options)"
proof (cases "decode_canonical_cbor bs")
  case (Inl e)
  then show thesis using malformed by (simp add: validate_poe_record_def)
next
  case (Inr v)
  show thesis
  proof (cases "collect_non_text_key_map_issues v = []")
    case False
    then show thesis using refused [OF Inr False errors_only_pre_guard] Inr by (simp add: validate_poe_record_def)
  next
    case guard: True
    show thesis
    proof (cases "as_map v")
      case None
      then show thesis using refused [OF Inr, of "[issue SchemaTypeMismatch []]"] Inr guard
        by (simp add: validate_poe_record_def sort_issues_def sort_by_def)
    next
      case (Some m)
      then have v: "v = CMap m" by simp
      show thesis
      proof (cases "schema_issues m = []")
        case False
        then show thesis using refused [OF Inr False errors_only_schema] Inr guard v
          by (simp add: validate_poe_record_def Let_def)
      next
        case True
        then show thesis using checked Inr guard v by (simp add: validate_poe_record_def Let_def)
      qed
    qed
  qed
qed

lemma result_emission_VOk:
  "result_emission v is = VOk r ws info \<longleftrightarrow> clean is \<and> record_from_cbor v = Some r \<and>
     ws = filter (\<lambda>i. vi_severity i = SevWarning) (sort_issues is) \<and>
     info = filter (\<lambda>i. vi_severity i = SevInfo) (sort_issues is)"
  by (auto simp: result_emission_def Let_def list_ex_error_clean split: option.split)

lemma result_emission_role:
  assumes "role_lists s p" "list_all (registered_issue role) p"
  shows "result_emission v s = VOk r ws info \<longleftrightarrow>
    result_emission v p = VOk r ws info \<and> EncUnsupported \<notin> vi_code ` set info"
proof (cases "EncUnsupported \<in> vi_code ` set p")
  case True
  then obtain i where i: "i \<in> set p" "vi_code i = EncUnsupported" by auto
  have "EncUnsupported \<in> vi_code ` set (filter (\<lambda>i. vi_severity i = SevInfo) (sort_issues p))" if "clean p"
  proof -
    have "vi_severity i \<noteq> SevError" "vi_severity i \<noteq> SevWarning"
      using that i(1) assms(2) registered_no_warning by (auto simp: clean_def list_all_iff)
    then have "vi_severity i = SevInfo" by (cases "vi_severity i") auto
    then show ?thesis using i by force
  qed
  moreover have "\<not> clean s" using assms(1) True by (simp add: role_lists_def)
  ultimately show ?thesis by (auto simp: result_emission_VOk)
next
  case False
  then have "s = p" using assms(1) by (simp add: role_lists_def)
  then show ?thesis using False by (auto simp: result_emission_VOk)
qed

section \<open>The signing body\<close>

lemma canon_cbor_Text_iff [simp]: "canon_cbor k = Text s \<longleftrightarrow> k = Text s"
  by (cases k) simp_all

lemma rebuilds_without_key:
  assumes "rebuilds (CMap ps) (CMap m)"
  shows "rebuilds (CMap (filter (\<lambda>p. fst p \<noteq> Text s) ps)) (CMap (filter (\<lambda>p. fst p \<noteq> Text s) m))"
proof -
  let ?canon = "map (map_prod canon_cbor canon_cbor)"
  have kd: "distinct (map (\<lambda>p. enc_cbor (canon_cbor (fst p))) ps)"
    "\<And>k v. (k, v) \<in> set ps \<Longrightarrow> keys_distinct k \<and> keys_distinct v"
    and m: "m = sort_key (\<lambda>p. enc_cbor (fst p)) (?canon ps)"
    using assms by (auto simp: rebuilds_def list_all_iff map_keys.sort_by_sort_key)
  have "?canon (filter (\<lambda>p. fst p \<noteq> Text s) ps) = filter (\<lambda>p. fst p \<noteq> Text s) (?canon ps)"
    by (simp add: filter_map comp_def)
  then have "canon_cbor (CMap (filter (\<lambda>p. fst p \<noteq> Text s) ps)) = CMap (filter (\<lambda>p. fst p \<noteq> Text s) m)"
    by (simp add: map_keys.sort_by_sort_key m filter_sort)
  moreover have "keys_distinct (CMap (filter (\<lambda>p. fst p \<noteq> Text s) ps))"
    using kd by (auto simp: list_all_iff distinct_map_filter)
  ultimately show ?thesis by (simp add: rebuilds_def)
qed

lemma record_to_cbor_sigs:
  assumes "lit ''sigs'' \<notin> fst ` set (rec_extensions r)"
  shows "\<exists>ps. record_to_cbor r True = CMap ps \<and>
    record_to_cbor r False = CMap (filter (\<lambda>p. fst p \<noteq> Text (lit ''sigs'')) ps)"
proof -
  have "filter (\<lambda>p. fst p \<noteq> Text (lit ''sigs'')) (map (\<lambda>(k, v). (Text k, v)) (rec_extensions r)) =
      map (\<lambda>(k, v). (Text k, v)) (rec_extensions r)"
    using assms by (auto simp: filter_id_conv image_iff)
  moreover have "filter (\<lambda>p. fst p \<noteq> Text (lit ''sigs'')) (opt_pair k u) = (if k = ''sigs'' then [] else opt_pair k u)" for k u
    by (cases u) (auto simp: opt_pair_def cbor_text_def)
  ultimately show ?thesis by (simp add: record_to_cbor_def cbor_text_def)
qed

section \<open>Properties\<close>

text \<open>A smallest record, for the witnesses: one item with one SHA-256 digest.\<close>

definition sample_record :: PoeRecord where
  "sample_record = \<lparr>rec_v = 1,
     rec_items = Some [\<lparr>item_hashes = [(lit ''sha2-256'', replicate 32 7)], item_uris = None, item_enc = None\<rparr>],
     rec_merkle = None, rec_supersedes = None, rec_sigs = None, rec_crit = None, rec_extensions = []\<rparr>"

definition sample_bytes :: bytes where
  "sample_bytes = enc_cbor (canon_cbor (record_to_cbor sample_record True))"

definition sample_map :: cbor_pairs where
  "sample_map = [(cbor_text ''v'', Unsigned 1), (cbor_text ''items'', Array [CMap
     [(cbor_text ''hashes'', CMap [(cbor_text ''sha2-256'', Bytes (replicate 32 7))])]])]"

lemma sample_decodes: "decode_canonical_cbor sample_bytes = Inr (CMap sample_map)"
  by code_simp

lemma sample_clean:
  "collect_non_text_key_map_issues (CMap sample_map) = []" "schema_issues sample_map = []"
  by code_simp+

lemma sample_domain: "domain_issues sample_map default_options = []"
  by code_simp

lemma sample_reads_back: "record_from_cbor (CMap sample_map) = Some sample_record"
  by code_simp

lemma sample_valid: "validate_poe_record sample_bytes default_options = VOk sample_record [] []"
  by (simp add: validate_poe_record_def sample_decodes sample_clean sample_domain result_emission_def
      sort_issues_def sort_by_def sample_reads_back Let_def)

text \<open>
  C2: A record that the validator accepts is returned without loss: encoding the typed record gives back
  the very bytes that were validated, extensions and opaque envelopes included.
\<close>

theorem accepted_record_reencodes:
  assumes "validate_poe_record bs options = VOk r ws info"
  shows "encode_poe_record r = Inr bs"
proof -
  obtain m where m: "decode_canonical_cbor bs = Inr (CMap m)" "collect_non_text_key_map_issues (CMap m) = []"
    "schema_issues m = []" "clean (domain_issues m options)" "record_from_cbor (CMap m) = Some r"
    by (rule validate_VOk [OF assms]) (rule that)
  have can: "canonical (CMap m)" "bs = enc_cbor (CMap m)" using decode_canonical [OF m(1)] by simp_all
  from validate_accepts [OF m(1-4)] m(5) have "rebuilds (record_to_cbor r True) (CMap m)" by auto
  from rebuilds_encode [OF can(1) this] can(2) show ?thesis by (simp add: encode_poe_record_def)
qed

lemma accepted_record_reencodes_witness: "encode_poe_record sample_record = Inr sample_bytes"
  by (rule accepted_record_reencodes [OF sample_valid])

text \<open>
  Validating then signing: the body that signatures cover is the canonical encoding of the validated
  map without its \<open>sigs\<close> entry, and nothing else of it is lost.
\<close>

theorem accepted_record_signing_body:
  assumes "validate_poe_record bs options = VOk r ws info"
  shows "\<exists>m. decode_canonical_cbor bs = Inr (CMap m) \<and>
    encode_record_body_for_signing r = Inr (enc_cbor (CMap (filter (\<lambda>(k, v). k \<noteq> Text (lit ''sigs'')) m)))"
proof -
  obtain m where m: "decode_canonical_cbor bs = Inr (CMap m)" "collect_non_text_key_map_issues (CMap m) = []"
    "schema_issues m = []" "clean (domain_issues m options)" "record_from_cbor (CMap m) = Some r"
    by (rule validate_VOk [OF assms]) (rule that)
  have can: "canonical (CMap m)" using decode_canonical [OF m(1)] by simp
  have reb: "rebuilds (record_to_cbor r True) (CMap m)" using validate_accepts [OF m(1-4)] m(5) by auto
  have "rec_extensions r = extensions_from_cbor m"
    using m(5) by (auto simp: record_from_cbor_def bind_eq_Some_conv)
  then have "lit ''sigs'' \<notin> fst ` set (rec_extensions r)"
    by (auto simp: extensions_from_cbor_def map_filter_def TOP_LEVEL_BASE_KEYS_def split: CborValue.splits if_splits)
  from record_to_cbor_sigs [OF this] reb
  have "rebuilds (record_to_cbor r False) (CMap (filter (\<lambda>p. fst p \<noteq> Text (lit ''sigs'')) m))"
    using rebuilds_without_key by metis
  moreover have "canonical (CMap (filter (\<lambda>p. fst p \<noteq> Text (lit ''sigs'')) m))"
    using can le_less_trans [OF length_filter_le [of "\<lambda>p. fst p \<noteq> Text (lit ''sigs'')" m]]
    by (auto simp: canonical_simps sorted_wrt_map sorted_wrt_filter)
  ultimately show ?thesis using m(1) rebuilds_encode
    by (auto simp: encode_record_body_for_signing_def case_prod_unfold)
qed

lemma accepted_record_signing_body_witness:
  "\<exists>m. decode_canonical_cbor sample_bytes = Inr (CMap m) \<and>
    encode_record_body_for_signing sample_record = Inr (enc_cbor (CMap (filter (\<lambda>(k, v). k \<noteq> Text (lit ''sigs'')) m)))"
  by (rule accepted_record_signing_body [OF sample_valid])

text \<open>
  C25: A refused record comes with at least one error, its issues are listed in the order of their path
  and registry position, and one of the checks has failed: where the bytes decode to a map with text
  keys only and the schema has no issue, a domain check reports an error, and the domain issues are
  what is returned. So a record that passed every check is never refused because it could not be read
  back: the fallback branch of the source is unreachable.
\<close>

theorem refused_record_has_error:
  assumes "validate_poe_record bs options = VFail issues"
  shows "error_codes (VFail issues) \<noteq> {} \<and> sorted (map issue_key issues) \<and>
    (\<forall>m. decode_canonical_cbor bs = Inr (CMap m) \<and> collect_non_text_key_map_issues (CMap m) = [] \<and>
      schema_issues m = [] \<longrightarrow>
      (\<exists>i\<in>set (domain_issues m options). vi_severity i = SevError) \<and> issues = sort_issues (domain_issues m options))"
proof (intro conjI allI impI; (elim conjE)?)
  obtain is' where "issues = sort_issues is'" "\<exists>i\<in>set issues. vi_severity i = SevError"
    using validate_VFail [OF assms] by blast
  then show "error_codes (VFail issues) \<noteq> {}" "sorted (map issue_key issues)"
    using issues.sorted_sort_by [of is'] by (auto simp: sort_issues_def)
next
  fix m
  assume m: "decode_canonical_cbor bs = Inr (CMap m)" "collect_non_text_key_map_issues (CMap m) = []"
    "schema_issues m = []"
  have "\<not> clean (domain_issues m options)"
    using validate_accepts [OF m] assms by fastforce
  then show "\<exists>i\<in>set (domain_issues m options). vi_severity i = SevError"
    "issues = sort_issues (domain_issues m options)"
    using assms m
    by (auto simp: clean_def list_all_iff validate_poe_record_def result_emission_def Let_def list_ex_error_clean)
qed

text \<open>The record that holds a version and nothing else.\<close>

lemma refused_record_has_error_witness:
  "\<exists>issues. validate_poe_record [0xA1, 0x61, 0x76, 0x01] default_options = VFail issues \<and>
     SchemaEmptyRecord \<in> error_codes (VFail issues) \<and>
     issues = sort_issues (domain_issues [(Text (lit ''v''), Unsigned 1)] default_options)"
proof -
  let ?m = "[(Text (lit ''v''), Unsigned 1)]"
  have m: "decode_canonical_cbor [0xA1, 0x61, 0x76, 0x01] = Inr (CMap ?m)"
    "collect_non_text_key_map_issues (CMap ?m) = []" "schema_issues ?m = []"
    by code_simp+
  have d: "domain_issues ?m default_options = [issue SchemaEmptyRecord []]"
    by code_simp
  have v: "validate_poe_record [0xA1, 0x61, 0x76, 0x01] default_options = VFail [issue SchemaEmptyRecord []]"
    using m d by (simp add: validate_poe_record_def result_emission_def sort_issues_def sort_by_def)
  have "[issue SchemaEmptyRecord []] = sort_issues (domain_issues ?m default_options)"
    using refused_record_has_error [OF v] m by blast
  moreover have "SchemaEmptyRecord \<in> error_codes (VFail [issue SchemaEmptyRecord []])" by simp
  ultimately show ?thesis using v by blast
qed

text \<open>
  C24: Every issue carries a structural (Part A) code at the severity of its role: the one the registry
  gives the code, except that an opaque envelope is an error to a strict validator, and only to such
  a one; to a public validator it is an info. An accepted record has no warnings.
\<close>

theorem issues_are_registered:
  "list_all (registered_issue (vo_role options)) (result_issues (validate_poe_record bs options)) \<and>
   (case validate_poe_record bs options of VOk r ws info \<Rightarrow> ws = [] | VFail issues \<Rightarrow> True)"
proof -
  note reg = result_registered [where bs = bs and options = options]
  have "ws = []" if ok: "validate_poe_record bs options = VOk r ws info" for r ws info
  proof -
    obtain m where "ws = filter (\<lambda>i. vi_severity i = SevWarning) (sort_issues (domain_issues m options))"
      by (rule validate_VOk [OF ok]) (rule that)
    then have "\<forall>i\<in>set ws. vi_severity i = SevWarning" by simp
    moreover have "list_all (registered_issue (vo_role options)) ws" using reg ok by simp
    ultimately show ?thesis using registered_no_warning by (cases ws) auto
  qed
  then show ?thesis using reg by (simp split: ValidateResult.split)
qed

text \<open>
  C9: An accepted record is well formed: version 1, at least one content commitment and no empty list,
  every digest of its algorithm's length, Merkle commitments with a root of the right length and a leaf
  count of 32 bits, only extension keys beside the base keys, critical extensions that are present,
  distinct and supported; a typed envelope with the nonce of its cipher and exactly one key path,
  recipient slots of the KEM's sizes with no repeated encapsulation, or a bounded passphrase block.
\<close>

theorem accepted_record_wf:
  assumes "validate_poe_record bs options = VOk r ws info"
  shows "record_wf options r"
proof -
  obtain m where m: "collect_non_text_key_map_issues (CMap m) = []"
    "schema_issues m = []" "clean (domain_issues m options)" "record_from_cbor (CMap m) = Some r"
    by (rule validate_VOk [OF assms]) (rule that)
  then show ?thesis using schema_Nil record_from_ok by blast
qed

lemma accepted_record_wf_witness: "record_wf default_options sample_record"
  by (rule accepted_record_wf [OF sample_valid])

text \<open>
  C16: A strict validator accepts a record exactly when a public one accepts it with no envelope left
  opaque, and both return the same record and issues.
\<close>

theorem strict_is_public_without_opaque:
  "validate_poe_record bs (options\<lparr>vo_role := RecipientOrStrict\<rparr>) = VOk r ws info \<longleftrightarrow>
   validate_poe_record bs (options\<lparr>vo_role := Public\<rparr>) = VOk r ws info \<and> EncUnsupported \<notin> vi_code ` set info"
proof (cases rule: validate_cases [of bs])
  case (checked m)
  show ?thesis unfolding checked(4) by (rule result_emission_role [OF role_domain registered_domain])
qed simp_all

text \<open>
  Bytes that are not the canonical layout of any value are refused with \<open>MALFORMED_CBOR\<close> alone.
\<close>

theorem non_canonical_refused:
  assumes "length bs < usize_limit" "\<And>v. canonical v \<Longrightarrow> bs \<noteq> enc_cbor v"
  shows "validate_poe_record bs options = VFail [issue MalformedCbor []]"
proof (cases "decode_canonical_cbor bs")
  case (Inl e)
  then show ?thesis by (simp add: validate_poe_record_def)
next
  case (Inr v)
  then show ?thesis using decode_canonical assms(2) by blast
qed

text \<open>
  A \<open>cose_key\<close> that carries a private component is reported as such, and the record refused, by
  every validator that gets past the schema.
\<close>

theorem private_key_reported:
  assumes "decode_canonical_cbor bs = Inr (CMap m)" "collect_non_text_key_map_issues (CMap m) = []"
    "schema_issues m = []" "map_get m (lit ''sigs'') = Some (Array entries)" "i < length entries"
    and "entries ! i = CMap em" "map_get em (lit ''cose_key'') = Some (Bytes kb)"
    and "decode_canonical_cbor kb = Inr (CMap km)" "int_keyed_get km (-4) \<noteq> None"
  shows "\<not> is_ok (validate_poe_record bs options) \<and>
    SigPrivateKeyLeaked \<in> error_codes (validate_poe_record bs options)"
proof -
  let ?k = "issue SigPrivateKeyLeaked [key ''sigs'', Index i, key ''cose_key'']"
  have "?k \<in> set (check_sig_entry i (entries ! i))"
    using assms(6-9) by (simp add: check_sig_entry_def Let_def inspect_cose_key_def)
  then have "?k \<in> set (array_checks m ''sigs'' check_sig_entry)"
    using assms(4,5) by (auto simp: array_checks_def set_each)
  then have k: "?k \<in> set (domain_issues m options)" by (simp add: domain_issues_def)
  have "list_ex (\<lambda>i. vi_severity i = SevError) (sort_issues (domain_issues m options))"
    using k by (auto simp: list_ex_iff intro!: bexI [of _ ?k])
  then have "validate_poe_record bs options = VFail (sort_issues (domain_issues m options))"
    using assms(1-3) by (simp add: validate_poe_record_def Let_def result_emission_def)
  then show ?thesis using k by (auto intro!: image_eqI [of _ _ ?k])
qed

definition leaked_map :: cbor_pairs where
  "leaked_map = [(cbor_text ''v'', Unsigned 1), (cbor_text ''sigs'', Array [CMap
     [(cbor_text ''cose_key'', Bytes [0xA1, 0x23, 0x40]), (cbor_text ''cose_sign1'', Bytes [])]])]"

lemma private_key_reported_witness:
  "SigPrivateKeyLeaked \<in> error_codes (validate_poe_record (enc_cbor (CMap leaked_map)) default_options)"
proof -
  have dec: "decode_canonical_cbor (enc_cbor (CMap leaked_map)) = Inr (CMap leaked_map)"
    "decode_canonical_cbor [0xA1, 0x23, 0x40] = Inr (CMap [(Negative 3, Bytes [])])"
    by code_simp+
  have shape: "collect_non_text_key_map_issues (CMap leaked_map) = []" by code_simp
  have schema: "schema_issues leaked_map = []" by code_simp
  have sigs: "map_get leaked_map (lit ''sigs'') = Some (Array [CMap
     [(cbor_text ''cose_key'', Bytes [0xA1, 0x23, 0x40]), (cbor_text ''cose_sign1'', Bytes [])]])"
    "map_get [(cbor_text ''cose_key'', Bytes [0xA1, 0x23, 0x40]), (cbor_text ''cose_sign1'', Bytes [])]
       (lit ''cose_key'') = Some (Bytes [0xA1, 0x23, 0x40])"
    "int_keyed_get [(Negative 3, Bytes [])] (-4) = Some (Bytes [])"
    by (simp_all add: leaked_map_def map_get_def int_keyed_get_def cbor_text_def)
  show ?thesis
    using private_key_reported [OF dec(1) shape schema sigs(1), of 0, OF _ _ sigs(2) dec(2)] sigs(3) by simp
qed

lemma non_canonical_refused_witness:
  "validate_poe_record [0x18, 0x01] default_options = VFail [issue MalformedCbor []]"
proof (rule non_canonical_refused)
  show "[0x18, 0x01] \<noteq> enc_cbor v" if "canonical v" for v
  proof
    assume enc: "[0x18, 0x01] = enc_cbor v"
    have "decode_canonical_cbor [0x18, 0x01] = Inr v"
      by (rule decode_iff_canonical [THEN iffD2, OF _ conjI [OF that enc]]) simp
    moreover have "isl (decode_canonical_cbor [0x18, 0x01])" by code_simp
    ultimately show False by simp
  qed
qed simp

end
