(* ===== verification/Sealed_Prims.thy ===== *)
theory Sealed_Prims
  imports Stream64k
begin

text \<open>
  The primitives under the sealed envelope: \<open>src/kdf.rs\<close>, \<open>src/sealed_poe/aead.rs\<close>,
  \<open>src/sealed_poe/kem.rs\<close>, and the error codes of \<open>src/sealed_poe/errors.rs\<close>.

  The cryptographic crates are the parameters of the model, collected in the record \<open>crypto\<close>: one
  field per function the source calls. \<open>crypto_laws\<close> states what their documentation promises and the
  code relies on: output lengths, \<open>aead_laws\<close>, the commutation of X25519 (RFC 7748) and the
  correctness of ML-KEM-768 (FIPS 203, whose decapsulation failure has probability below 2^-160 and is
  left out). The functions of the source that combine them (the X-Wing construction, the KDF guard, the
  validity bit of an exchange) are defined here.
\<close>

section \<open>The crates\<close>

record crypto =
  sha256 :: "bytes \<Rightarrow> bytes"
  hmac_sha256 :: "bytes \<Rightarrow> bytes \<Rightarrow> bytes"
  hkdf_prk :: "bytes \<Rightarrow> bytes \<Rightarrow> bytes"
  hkdf_okm :: "bytes \<Rightarrow> bytes \<Rightarrow> nat \<Rightarrow> bytes"
  aead_encrypt :: encryption
  aead_decrypt :: decryption
  x25519 :: "bytes \<Rightarrow> bytes \<Rightarrow> bytes"
  x25519_basepoint :: bytes
  mlkem_public :: "bytes \<Rightarrow> bytes"
  mlkem_encaps :: "bytes \<Rightarrow> bytes \<Rightarrow> (bytes \<times> bytes) option"
  mlkem_decaps :: "bytes \<Rightarrow> bytes \<Rightarrow> bytes"
  sha3_256 :: "bytes \<Rightarrow> bytes"
  shake256 :: "bytes \<Rightarrow> nat \<Rightarrow> bytes"
  argon2id :: "bytes \<Rightarrow> bytes \<Rightarrow> nat \<Rightarrow> nat \<Rightarrow> nat \<Rightarrow> bytes option"

section \<open>\<open>src/kdf.rs\<close>\<close>

definition HASH_LEN :: nat where
  "HASH_LEN = 32"

definition MAX_OUTPUT_LEN :: nat where
  "MAX_OUTPUT_LEN = 255 * HASH_LEN"

datatype HkdfError = OutputTooLong nat

definition hkdf_extract :: "crypto \<Rightarrow> bytes \<Rightarrow> bytes \<Rightarrow> bytes" where
  "hkdf_extract c salt ikm = hkdf_prk c salt ikm"

definition hkdf_expand :: "crypto \<Rightarrow> bytes \<Rightarrow> bytes \<Rightarrow> nat \<Rightarrow> HkdfError + bytes" where
  "hkdf_expand c prk info len =
     (if len > MAX_OUTPUT_LEN then Inl (OutputTooLong len) else Inr (hkdf_okm c prk info len))"

definition hkdf_sha256 :: "crypto \<Rightarrow> bytes \<Rightarrow> bytes \<Rightarrow> bytes \<Rightarrow> nat \<Rightarrow> HkdfError + bytes" where
  "hkdf_sha256 c ikm salt info len = (let prk = hkdf_extract c salt ikm in hkdf_expand c prk info len)"

text \<open>
  \<open>Result::expect\<close> where the source shows that the result is \<open>Ok\<close>; every use has a lemma that says so.
\<close>

abbreviation expect :: "'e + 'a \<Rightarrow> 'a" where
  "expect \<equiv> projr"

abbreviation hkdf32 :: "crypto \<Rightarrow> bytes \<Rightarrow> bytes \<Rightarrow> bytes \<Rightarrow> bytes" where
  "hkdf32 c ikm salt info \<equiv> expect (hkdf_sha256 c ikm salt info 32)"

lemma hkdf_sha256_32: "hkdf_sha256 c ikm salt info 32 = Inr (hkdf_okm c (hkdf_prk c salt ikm) info 32)"
  by (simp add: hkdf_sha256_def hkdf_expand_def hkdf_extract_def MAX_OUTPUT_LEN_def HASH_LEN_def)

section \<open>\<open>src/sealed_poe/aead.rs\<close>\<close>

datatype AeadError = AeadError

definition AEAD_ERROR_CODE :: rstring where
  "AEAD_ERROR_CODE = lit ''aead_verification_failed''"

definition chacha20_poly1305_encrypt :: "crypto \<Rightarrow> encryption" where
  "chacha20_poly1305_encrypt c key nonce aad plaintext = aead_encrypt c key nonce aad plaintext"

definition chacha20_poly1305_decrypt :: "crypto \<Rightarrow> bytes \<Rightarrow> bytes \<Rightarrow> bytes \<Rightarrow> bytes \<Rightarrow> AeadError + bytes" where
  "chacha20_poly1305_decrypt c key nonce aad ciphertext =
     (case aead_decrypt c key nonce aad ciphertext of None \<Rightarrow> Inl AeadError | Some p \<Rightarrow> Inr p)"

section \<open>\<open>src/sealed_poe/errors.rs\<close>\<close>

datatype EciesSealedPoeErrorCode =
    EncSlotsEmpty | EncSlotsRequired | EncSlotsMacRequired | EncSlotsMacInvalidLength
  | KemEpkLengthMismatch | KemCtLengthMismatch | InvalidCekLength | NonceLengthMismatch
  | InvalidEphemeralSecretLength | EphemeralSecretsCountMismatch | UnsupportedEnvelopeScheme
  | UnsupportedAeadAlg | UnsupportedKemAlg | InvalidEnvelopeShape | InvalidRecipientKey
  | WrapLengthMismatch | EncSlotsDuplicateKemMaterial | EncSlotsTooMany | EncEnvelopeTooLarge
  | EncRequiresContentHash | EncPassphraseAlgUnsupported | EncPassphraseSaltTooShort
  | EncPassphraseSaltTooLong | EncPassphraseArgon2ParamsTooLow | InvalidPassphraseParams
  | EncPassphraseEmpty | EncPassphraseUnnormalizable | PassphraseInputTooLong | KdfDerivationFailed
  | RngUnavailable | IoError | Cancelled

section \<open>\<open>src/sealed_poe/kem.rs\<close>\<close>

definition MLKEM768X25519_PUBLIC_KEY_LENGTH :: nat where
  "MLKEM768X25519_PUBLIC_KEY_LENGTH = 1216"

definition MLKEM768X25519_ENC_LENGTH :: nat where
  "MLKEM768X25519_ENC_LENGTH = 1120"

definition MLKEM768X25519_SK_SEED_LENGTH :: nat where
  "MLKEM768X25519_SK_SEED_LENGTH = 32"

definition MLKEM768X25519_ESEED_LENGTH :: nat where
  "MLKEM768X25519_ESEED_LENGTH = 64"

definition MLKEM_EK_LENGTH :: nat where
  "MLKEM_EK_LENGTH = 1184"

definition MLKEM_CT_LENGTH :: nat where
  "MLKEM_CT_LENGTH = 1088"

definition XWING_EXPANDED_SEED_LENGTH :: nat where
  "XWING_EXPANDED_SEED_LENGTH = 96"

definition XWING_COMBINER_LABEL :: bytes where
  "XWING_COMBINER_LABEL = [0x5C, 0x2E, 0x2F, 0x2F, 0x5E, 0x5C]"

lemmas kem_lengths = MLKEM768X25519_PUBLIC_KEY_LENGTH_def MLKEM768X25519_ENC_LENGTH_def
  MLKEM768X25519_SK_SEED_LENGTH_def MLKEM768X25519_ESEED_LENGTH_def MLKEM_EK_LENGTH_def
  MLKEM_CT_LENGTH_def XWING_EXPANDED_SEED_LENGTH_def

datatype KemError =
    X25519LowOrderPoint
  | InvalidX25519KeyLength nat
  | InvalidPublicKeyLength nat
  | InvalidEncLength nat
  | InvalidSecretSeedLength nat
  | InvalidEseedLength nat
  | InvalidMlKemEncapsulationKey

definition to_array32 :: "bytes \<Rightarrow> bytes option" where
  "to_array32 bs = (if length bs = 32 then Some bs else None)"

definition x25519_key :: "bytes \<Rightarrow> KemError + bytes" where
  "x25519_key bs = (case to_array32 bs of None \<Rightarrow> Inl (InvalidX25519KeyLength (length bs)) | Some a \<Rightarrow> Inr a)"

definition x25519_public_key :: "crypto \<Rightarrow> bytes \<Rightarrow> KemError + bytes" where
  "x25519_public_key c secret_key =
     and_then (x25519_key secret_key) (\<lambda>scalar. Inr (x25519 c scalar (x25519_basepoint c)))"

definition x25519_ecdh :: "crypto \<Rightarrow> bytes \<Rightarrow> bytes \<Rightarrow> KemError + bytes" where
  "x25519_ecdh c secret_key their_public_key =
     and_then (x25519_key secret_key) (\<lambda>scalar. and_then (x25519_key their_public_key) (\<lambda>point.
       let shared = x25519 c scalar point
       in if shared = replicate 32 0 then Inl X25519LowOrderPoint else Inr shared))"

definition x25519_ecdh_unvalidated :: "crypto \<Rightarrow> bytes \<Rightarrow> bytes \<Rightarrow> KemError + bytes \<times> bool" where
  "x25519_ecdh_unvalidated c secret_key their_public_key =
     and_then (x25519_key secret_key) (\<lambda>scalar. and_then (x25519_key their_public_key) (\<lambda>point.
       let shared = x25519 c scalar point; kem_ok = (shared \<noteq> replicate 32 0)
       in Inr (shared, kem_ok)))"

record Mlkem768X25519Encapsulation =
  xw_enc :: bytes
  xw_ss :: bytes

definition xwing_combine :: "crypto \<Rightarrow> bytes \<Rightarrow> bytes \<Rightarrow> bytes \<Rightarrow> bytes \<Rightarrow> bytes" where
  "xwing_combine c ss_mlkem ss_x25519 ct_x25519 pk_x25519 =
     sha3_256 c (ss_mlkem @ ss_x25519 @ ct_x25519 @ pk_x25519 @ XWING_COMBINER_LABEL)"

definition expand_xwing_seed :: "crypto \<Rightarrow> bytes \<Rightarrow> bytes" where
  "expand_xwing_seed c seed = shake256 c seed XWING_EXPANDED_SEED_LENGTH"

definition mlkem768x25519_encapsulate ::
  "crypto \<Rightarrow> bytes \<Rightarrow> bytes \<Rightarrow> KemError + Mlkem768X25519Encapsulation" where
  "mlkem768x25519_encapsulate c public_key eseed =
     (if length public_key \<noteq> MLKEM768X25519_PUBLIC_KEY_LENGTH
      then Inl (InvalidPublicKeyLength (length public_key))
      else if length eseed \<noteq> MLKEM768X25519_ESEED_LENGTH then Inl (InvalidEseedLength (length eseed))
      else let ek_mlkem = take MLKEM_EK_LENGTH public_key;
               pk_x25519 = drop MLKEM_EK_LENGTH public_key;
               mlkem_message = take 32 eseed;
               x_ephemeral_scalar = drop 32 eseed
           in case mlkem_encaps c ek_mlkem mlkem_message of
                None \<Rightarrow> Inl InvalidMlKemEncapsulationKey
              | Some (ct_mlkem, ss_mlkem) \<Rightarrow>
                  let ct_x25519 = x25519 c x_ephemeral_scalar (x25519_basepoint c);
                      ss_x25519 = x25519 c x_ephemeral_scalar pk_x25519
                  in Inr \<lparr>xw_enc = ct_mlkem @ ct_x25519,
                       xw_ss = xwing_combine c ss_mlkem ss_x25519 ct_x25519 pk_x25519\<rparr>)"

definition mlkem768x25519_public_key_from_seed :: "crypto \<Rightarrow> bytes \<Rightarrow> KemError + bytes" where
  "mlkem768x25519_public_key_from_seed c secret_seed =
     (if length secret_seed \<noteq> MLKEM768X25519_SK_SEED_LENGTH
      then Inl (InvalidSecretSeedLength (length secret_seed))
      else let expanded = expand_xwing_seed c secret_seed;
               ek_bytes = mlkem_public c (take 64 expanded);
               x_scalar = drop 64 expanded
           in Inr (ek_bytes @ x25519 c x_scalar (x25519_basepoint c)))"

definition mlkem768x25519_decapsulate :: "crypto \<Rightarrow> bytes \<Rightarrow> bytes \<Rightarrow> KemError + bytes" where
  "mlkem768x25519_decapsulate c secret_seed enc =
     (if length secret_seed \<noteq> MLKEM768X25519_SK_SEED_LENGTH
      then Inl (InvalidSecretSeedLength (length secret_seed))
      else if length enc \<noteq> MLKEM768X25519_ENC_LENGTH then Inl (InvalidEncLength (length enc))
      else let expanded = expand_xwing_seed c secret_seed;
               x_scalar = drop 64 expanded;
               pk_x25519 = x25519 c x_scalar (x25519_basepoint c);
               ct_mlkem = take MLKEM_CT_LENGTH enc;
               ct_x25519 = drop MLKEM_CT_LENGTH enc;
               ss_mlkem = mlkem_decaps c (take 64 expanded) ct_mlkem;
               ss_x25519 = x25519 c x_scalar ct_x25519
           in Inr (xwing_combine c ss_mlkem ss_x25519 ct_x25519 pk_x25519))"

section \<open>What the crates promise\<close>

definition digest_laws :: "crypto \<Rightarrow> bool" where
  "digest_laws c \<longleftrightarrow> (\<forall>m. length (sha256 c m) = 32) \<and> (\<forall>k m. length (hmac_sha256 c k m) = 32) \<and>
     (\<forall>prk info n. n \<le> MAX_OUTPUT_LEN \<longrightarrow> length (hkdf_okm c prk info n) = n) \<and>
     (\<forall>m n. length (shake256 c m n) = n)"

definition x25519_laws :: "crypto \<Rightarrow> bool" where
  "x25519_laws c \<longleftrightarrow> length (x25519_basepoint c) = 32 \<and> (\<forall>a p. length (x25519 c a p) = 32) \<and>
     (\<forall>a b. length a = 32 \<longrightarrow> length b = 32 \<longrightarrow>
       x25519 c a (x25519 c b (x25519_basepoint c)) = x25519 c b (x25519 c a (x25519_basepoint c)))"

definition mlkem_laws :: "crypto \<Rightarrow> bool" where
  "mlkem_laws c \<longleftrightarrow> (\<forall>s. length (mlkem_public c s) = MLKEM_EK_LENGTH) \<and>
     (\<forall>ek m ct ss. mlkem_encaps c ek m = Some (ct, ss) \<longrightarrow> length ct = MLKEM_CT_LENGTH) \<and>
     (\<forall>s m ct ss. mlkem_encaps c (mlkem_public c s) m = Some (ct, ss) \<longrightarrow> mlkem_decaps c s ct = ss)"

definition crypto_laws :: "crypto \<Rightarrow> bool" where
  "crypto_laws c \<longleftrightarrow> digest_laws c \<and> aead_laws (aead_encrypt c) (aead_decrypt c) \<and>
     x25519_laws c \<and> mlkem_laws c"

lemma hkdf32_length [simp]: "digest_laws c \<Longrightarrow> length (hkdf32 c ikm salt info) = 32"
  by (simp add: hkdf_sha256_32 digest_laws_def MAX_OUTPUT_LEN_def HASH_LEN_def)

lemma crypto_lawsD: "crypto_laws c \<Longrightarrow> digest_laws c" "crypto_laws c \<Longrightarrow> x25519_laws c"
  "crypto_laws c \<Longrightarrow> mlkem_laws c" "crypto_laws c \<Longrightarrow> aead_laws (aead_encrypt c) (aead_decrypt c)"
  by (simp_all add: crypto_laws_def)

lemma mlkem_ct_length: "mlkem_laws c \<Longrightarrow> mlkem_encaps c ek m = Some (ct, ss) \<Longrightarrow> length ct = MLKEM_CT_LENGTH"
  unfolding mlkem_laws_def by blast

lemma aead_open_Inr:
  assumes "aead_laws (aead_encrypt c) (aead_decrypt c)"
  shows "chacha20_poly1305_decrypt c k n a w = Inr p \<longleftrightarrow> w = chacha20_poly1305_encrypt c k n a p"
proof -
  have "aead_decrypt c k n a w = Some p \<longleftrightarrow> w = aead_encrypt c k n a p"
    using assms by (simp add: aead_laws_def)
  then show ?thesis
    by (cases "aead_decrypt c k n a w")
      (auto simp: chacha20_poly1305_decrypt_def chacha20_poly1305_encrypt_def)
qed

lemma aead_open_seal: "aead_laws (aead_encrypt c) (aead_decrypt c) \<Longrightarrow>
    chacha20_poly1305_decrypt c k n a (chacha20_poly1305_encrypt c k n a p) = Inr p"
  by (simp add: aead_open_Inr)

text \<open>The two exchanges are inverse to each other, and the validity bit is what the producer checks.\<close>

lemma x25519_exchange:
  assumes "x25519_laws c" "length sk = 32" "length eph = 32"
    and "x25519_ecdh c eph (expect (x25519_public_key c sk)) = Inr ss"
  shows "x25519_ecdh_unvalidated c sk (expect (x25519_public_key c eph)) = Inr (ss, True)"
proof -
  have "x25519 c sk (x25519 c eph (x25519_basepoint c)) = x25519 c eph (x25519 c sk (x25519_basepoint c))"
    using assms(1-3) by (simp add: x25519_laws_def)
  then show ?thesis using assms
    by (auto simp: x25519_ecdh_def x25519_ecdh_unvalidated_def x25519_public_key_def x25519_key_def
        to_array32_def x25519_laws_def Let_def split: if_splits)
qed

lemma xwing_exchange:
  assumes laws: "x25519_laws c" "mlkem_laws c" "digest_laws c" and sk: "length sk = 32"
    and enc: "mlkem768x25519_encapsulate c (expect (mlkem768x25519_public_key_from_seed c sk)) eseed = Inr e"
  shows "mlkem768x25519_decapsulate c sk (xw_enc e) = Inr (xw_ss e)"
    and "length (xw_enc e) = MLKEM768X25519_ENC_LENGTH"
proof -
  let ?x = "expand_xwing_seed c sk"
  let ?pk = "x25519 c (drop 64 ?x) (x25519_basepoint c)"
  have x: "length ?x = 96" using laws(3) by (simp add: expand_xwing_seed_def digest_laws_def kem_lengths)
  have pk: "expect (mlkem768x25519_public_key_from_seed c sk) = mlkem_public c (take 64 ?x) @ ?pk"
    using sk by (simp add: mlkem768x25519_public_key_from_seed_def Let_def kem_lengths)
  have len: "length (mlkem_public c (take 64 ?x)) = MLKEM_EK_LENGTH" "length ?pk = 32"
    using laws by (simp_all add: mlkem_laws_def x25519_laws_def)
  obtain ct ss where m: "mlkem_encaps c (mlkem_public c (take 64 ?x)) (take 32 eseed) = Some (ct, ss)"
    and e: "xw_enc e = ct @ x25519 c (drop 32 eseed) (x25519_basepoint c)"
      "xw_ss e = xwing_combine c ss (x25519 c (drop 32 eseed) ?pk)
         (x25519 c (drop 32 eseed) (x25519_basepoint c)) ?pk" and es: "length eseed = 64"
    using enc len unfolding pk
    by (auto simp: mlkem768x25519_encapsulate_def Let_def kem_lengths split: if_splits option.splits)
  have ct: "length ct = MLKEM_CT_LENGTH" using m laws(2) by (rule mlkem_ct_length [rotated])
  have decaps: "mlkem_decaps c (take 64 ?x) ct = ss" using m laws(2) unfolding mlkem_laws_def by blast
  have "x25519 c (drop 64 ?x) (x25519 c (drop 32 eseed) (x25519_basepoint c)) = x25519 c (drop 32 eseed) ?pk"
    using laws(1) x es by (simp add: x25519_laws_def)
  then show "mlkem768x25519_decapsulate c sk (xw_enc e) = Inr (xw_ss e)"
    using e ct decaps sk laws(1) by (simp add: mlkem768x25519_decapsulate_def Let_def kem_lengths x25519_laws_def)
  show "length (xw_enc e) = MLKEM768X25519_ENC_LENGTH"
    using e ct laws(1) by (simp add: kem_lengths x25519_laws_def)
qed

end
