(* ===== verification/Sealed_Transcript.thy ===== *)
theory Sealed_Transcript
  imports Sealed_Prims Cbor_Maps
begin

text \<open>
  \<open>src/sealed_poe/slots.rs\<close>, \<open>src/sealed_poe/envelope.rs\<close> and \<open>src/sealed_poe/transcript.rs\<close>: the
  sealed envelope, and the transcripts the producer and every verifier hash. The item's \<open>BTreeMap\<close> of
  content hashes is the list of its entries in key order (\<open>btree_map\<close>).

  The lemmas show that a transcript determines everything it lists: the header fields, the slots in
  their wire order and the digest of the item's hashes.
\<close>

section \<open>\<open>src/sealed_poe/slots.rs\<close>\<close>

definition KEM_X25519 :: rstring where
  "KEM_X25519 = lit ''x25519''"

definition KEM_MLKEM768X25519 :: rstring where
  "KEM_MLKEM768X25519 = lit ''mlkem768x25519''"

definition AEAD_CHACHA20_POLY1305_STREAM64K :: rstring where
  "AEAD_CHACHA20_POLY1305_STREAM64K = lit ''chacha20-poly1305-stream64k''"

record X25519Slot =
  xs_epk :: bytes
  xs_wrap :: bytes

record Mlkem768X25519Slot =
  ms_kem_ct :: bytes
  ms_wrap :: bytes

datatype SealedSlots = X25519 "X25519Slot list" | Mlkem768X25519 "Mlkem768X25519Slot list"

fun slots_len :: "SealedSlots \<Rightarrow> nat" where
  "slots_len (X25519 s) = length s"
| "slots_len (Mlkem768X25519 s) = length s"

definition slots_is_empty :: "SealedSlots \<Rightarrow> bool" where
  "slots_is_empty s \<longleftrightarrow> slots_len s = 0"

record SealedEnvelope =
  env_scheme :: int
  env_aead :: rstring
  env_kem :: rstring
  env_nonce :: bytes
  env_slots :: SealedSlots
  env_slots_mac :: bytes

record SealedPoeOutput =
  so_envelope :: SealedEnvelope
  so_ciphertext :: bytes

section \<open>\<open>src/sealed_poe/envelope.rs\<close>\<close>

record ParsedSlot =
  ps_epk :: "bytes option"
  ps_kem_ct :: "bytes option"
  ps_wrap :: "bytes option"

record ParsedEnvelope =
  pe_scheme :: "int option"
  pe_aead :: "rstring option"
  pe_kem :: "rstring option"
  pe_nonce :: "bytes option"
  pe_slots :: "ParsedSlot list option"
  pe_slots_mac :: "bytes option"

definition sealed_envelope_from_parsed :: "ParsedEnvelope \<Rightarrow> SealedEnvelope option" where
  "sealed_envelope_from_parsed enc =
     (if pe_scheme enc \<noteq> Some 1 \<or> pe_aead enc \<noteq> Some AEAD_CHACHA20_POLY1305_STREAM64K then None
      else Option.bind (pe_nonce enc) (\<lambda>nonce.
           Option.bind (pe_slots_mac enc) (\<lambda>slots_mac.
           Option.bind (pe_slots enc) (\<lambda>slots.
           if slots = [] then None
           else Option.bind (pe_kem enc) (\<lambda>kem.
             Option.bind
               (if kem = KEM_X25519 then
                  map_option X25519 (collect_opt (map (\<lambda>s. Option.bind (ps_epk s) (\<lambda>epk.
                    Option.bind (ps_wrap s) (\<lambda>wrap. Some \<lparr>xs_epk = epk, xs_wrap = wrap\<rparr>))) slots))
                else if kem = KEM_MLKEM768X25519 then
                  map_option Mlkem768X25519 (collect_opt (map (\<lambda>s. Option.bind (ps_kem_ct s) (\<lambda>kem_ct.
                    Option.bind (ps_wrap s) (\<lambda>wrap. Some \<lparr>ms_kem_ct = kem_ct, ms_wrap = wrap\<rparr>))) slots))
                else None)
               (\<lambda>sealed_slots. Some \<lparr>env_scheme = 1, env_aead = AEAD_CHACHA20_POLY1305_STREAM64K,
                  env_kem = kem, env_nonce = nonce, env_slots = sealed_slots, env_slots_mac = slots_mac\<rparr>))))))"

section \<open>\<open>src/sealed_poe/transcript.rs\<close>\<close>

definition CARDANO_POE_HASH_PREFIX_SLOTS_TRANSCRIPT :: bytes where
  "CARDANO_POE_HASH_PREFIX_SLOTS_TRANSCRIPT = lit ''cardano-poe-slots-transcript-v1''"

definition CARDANO_POE_HASH_PREFIX_PASSPHRASE_TRANSCRIPT :: bytes where
  "CARDANO_POE_HASH_PREFIX_PASSPHRASE_TRANSCRIPT = lit ''cardano-poe-passphrase-transcript-v1''"

definition CARDANO_POE_HASH_PREFIX_ITEM_HASHES :: bytes where
  "CARDANO_POE_HASH_PREFIX_ITEM_HASHES = lit ''cardano-poe-item-hashes-v1''"

definition CARDANO_POE_HASH_PREFIX_X25519_KEK_SALT :: bytes where
  "CARDANO_POE_HASH_PREFIX_X25519_KEK_SALT = lit ''cardano-poe-x25519-kek-salt-v1''"

definition CARDANO_POE_HASH_PREFIX_XWING_KEK_SALT :: bytes where
  "CARDANO_POE_HASH_PREFIX_XWING_KEK_SALT = lit ''cardano-poe-xwing-kek-salt-v1''"

definition CARDANO_POE_HKDF_INFO_PAYLOAD :: bytes where
  "CARDANO_POE_HKDF_INFO_PAYLOAD = lit ''cardano-poe-payload-v1''"

definition CARDANO_POE_HKDF_INFO_PAYLOAD_PASSPHRASE :: bytes where
  "CARDANO_POE_HKDF_INFO_PAYLOAD_PASSPHRASE = lit ''cardano-poe-payload-passphrase-v1''"

definition CARDANO_POE_HKDF_INFO_PASSPHRASE_MAC :: bytes where
  "CARDANO_POE_HKDF_INFO_PASSPHRASE_MAC = lit ''cardano-poe-passphrase-mac-v1''"

definition CARDANO_POE_PW_NORM_PROFILE :: rstring where
  "CARDANO_POE_PW_NORM_PROFILE = lit ''cardano-poe-pw-norm-v1''"

definition MAX_SLOTS :: nat where
  "MAX_SLOTS = 1024"

definition MAX_DECODED_ENVELOPE_BYTES :: nat where
  "MAX_DECODED_ENVELOPE_BYTES = 65536"

definition labelled_sha256 :: "crypto \<Rightarrow> bytes \<Rightarrow> bytes list \<Rightarrow> bytes" where
  "labelled_sha256 c prefix parts = sha256 c (prefix @ concat parts)"

type_synonym hash_map = "(rstring \<times> bytes) list"

definition hashes_cbor :: "hash_map \<Rightarrow> CborValue" where
  "hashes_cbor hashes = CMap (map (\<lambda>(alg, digest). (Text alg, Bytes digest)) hashes)"

definition item_hashes_hash :: "crypto \<Rightarrow> hash_map \<Rightarrow> EciesSealedPoeErrorCode + bytes" where
  "item_hashes_hash c hashes =
     (if hashes = [] then Inl EncRequiresContentHash
      else let encoded = expect (encode_canonical_cbor (hashes_cbor hashes))
           in Inr (labelled_sha256 c CARDANO_POE_HASH_PREFIX_ITEM_HASHES [encoded]))"

fun slots_cbor :: "SealedSlots \<Rightarrow> CborValue" where
  "slots_cbor (X25519 slots) = Array (map (\<lambda>s.
     CMap [(cbor_text ''epk'', Bytes (xs_epk s)), (cbor_text ''wrap'', Bytes (xs_wrap s))]) slots)"
| "slots_cbor (Mlkem768X25519 slots) = Array (map (\<lambda>s.
     CMap [(cbor_text ''kem_ct'', Bytes (ms_kem_ct s)), (cbor_text ''wrap'', Bytes (ms_wrap s))]) slots)"

definition slots_transcript :: "rstring \<Rightarrow> rstring \<Rightarrow> bytes \<Rightarrow> SealedSlots \<Rightarrow> bytes \<Rightarrow> (CborValue \<times> CborValue) list" where
  "slots_transcript aead kem nonce slots hashes_hash =
     [(cbor_text ''scheme'', Unsigned 1), (cbor_text ''path'', cbor_text ''slots''),
      (cbor_text ''aead'', Text aead), (cbor_text ''kem'', Text kem), (cbor_text ''nonce'', Bytes nonce),
      (cbor_text ''slots'', slots_cbor slots), (cbor_text ''hashes_hash'', Bytes hashes_hash)]"

definition slots_transcript_bytes :: "rstring \<Rightarrow> rstring \<Rightarrow> bytes \<Rightarrow> SealedSlots \<Rightarrow> bytes \<Rightarrow> bytes" where
  "slots_transcript_bytes aead kem nonce slots hashes_hash =
     expect (encode_canonical_cbor (CMap (slots_transcript aead kem nonce slots hashes_hash)))"

definition compute_slots_hash ::
  "crypto \<Rightarrow> rstring \<Rightarrow> rstring \<Rightarrow> bytes \<Rightarrow> SealedSlots \<Rightarrow> bytes \<Rightarrow> bytes" where
  "compute_slots_hash c aead kem nonce slots hashes_hash =
     labelled_sha256 c CARDANO_POE_HASH_PREFIX_SLOTS_TRANSCRIPT
       [slots_transcript_bytes aead kem nonce slots hashes_hash]"

definition passphrase_transcript ::
  "rstring \<Rightarrow> bytes \<Rightarrow> rstring \<Rightarrow> bytes \<Rightarrow> u64 \<Rightarrow> u64 \<Rightarrow> u64 \<Rightarrow> bytes \<Rightarrow> (CborValue \<times> CborValue) list" where
  "passphrase_transcript aead nonce alg salt m t p hashes_hash =
     (let passphrase = CMap [(cbor_text ''alg'', Text alg), (cbor_text ''salt'', Bytes salt),
            (cbor_text ''params'', CMap [(cbor_text ''m'', Unsigned m), (cbor_text ''t'', Unsigned t),
               (cbor_text ''p'', Unsigned p)]),
            (cbor_text ''normalization'', Text CARDANO_POE_PW_NORM_PROFILE)]
      in [(cbor_text ''scheme'', Unsigned 1), (cbor_text ''path'', cbor_text ''passphrase''),
          (cbor_text ''aead'', Text aead), (cbor_text ''nonce'', Bytes nonce),
          (cbor_text ''hashes_hash'', Bytes hashes_hash), (cbor_text ''passphrase'', passphrase)])"

definition passphrase_transcript_bytes ::
  "rstring \<Rightarrow> bytes \<Rightarrow> rstring \<Rightarrow> bytes \<Rightarrow> u64 \<Rightarrow> u64 \<Rightarrow> u64 \<Rightarrow> bytes \<Rightarrow> bytes" where
  "passphrase_transcript_bytes aead nonce alg salt m t p hashes_hash =
     expect (encode_canonical_cbor (CMap (passphrase_transcript aead nonce alg salt m t p hashes_hash)))"

definition compute_passphrase_hash ::
  "crypto \<Rightarrow> rstring \<Rightarrow> bytes \<Rightarrow> rstring \<Rightarrow> bytes \<Rightarrow> u64 \<Rightarrow> u64 \<Rightarrow> u64 \<Rightarrow> bytes \<Rightarrow> bytes" where
  "compute_passphrase_hash c aead nonce alg salt m t p hashes_hash =
     labelled_sha256 c CARDANO_POE_HASH_PREFIX_PASSPHRASE_TRANSCRIPT
       [passphrase_transcript_bytes aead nonce alg salt m t p hashes_hash]"

definition slots_payload_key :: "crypto \<Rightarrow> bytes \<Rightarrow> bytes \<Rightarrow> bytes" where
  "slots_payload_key c cek nonce = hkdf32 c cek nonce CARDANO_POE_HKDF_INFO_PAYLOAD"

definition passphrase_payload_key :: "crypto \<Rightarrow> bytes \<Rightarrow> bytes \<Rightarrow> bytes" where
  "passphrase_payload_key c cek nonce = hkdf32 c cek nonce CARDANO_POE_HKDF_INFO_PAYLOAD_PASSPHRASE"

definition x25519_kek_salt :: "crypto \<Rightarrow> bytes \<Rightarrow> bytes \<Rightarrow> bytes \<Rightarrow> bytes" where
  "x25519_kek_salt c nonce epk pub_r =
     labelled_sha256 c CARDANO_POE_HASH_PREFIX_X25519_KEK_SALT [nonce, epk, pub_r]"

definition xwing_kek_salt :: "crypto \<Rightarrow> bytes \<Rightarrow> bytes \<Rightarrow> bytes \<Rightarrow> bytes" where
  "xwing_kek_salt c nonce kem_ct pub_r =
     labelled_sha256 c CARDANO_POE_HASH_PREFIX_XWING_KEK_SALT [nonce, kem_ct, pub_r]"

section \<open>A transcript determines what it lists\<close>

text \<open>The order of a \<open>BTreeMap\<close>, and what a value of the program always satisfies.\<close>

definition hash_map_wf :: "hash_map \<Rightarrow> bool" where
  "hash_map_wf m \<longleftrightarrow> sorted_wrt (<) (map fst m) \<and> length m < usize_limit \<and>
     list_all (\<lambda>(k, d). utf8_valid k \<and> length k < usize_limit \<and> length d < usize_limit) m"

fun slots_wf :: "SealedSlots \<Rightarrow> bool" where
  "slots_wf (X25519 s) \<longleftrightarrow> length s < usize_limit \<and>
     list_all (\<lambda>x. length (xs_epk x) < usize_limit \<and> length (xs_wrap x) < usize_limit) s"
| "slots_wf (Mlkem768X25519 s) \<longleftrightarrow> length s < usize_limit \<and>
     list_all (\<lambda>x. length (ms_kem_ct x) < usize_limit \<and> length (ms_wrap x) < usize_limit) s"

text \<open>Two maps of text keys that encode to the same bytes give the same canonical value to every key.\<close>

lemma enc_cbor_inj:
  assumes "canonical v" "canonical w" "enc_cbor v = enc_cbor w" "length (enc_cbor v) < usize_limit"
  shows "v = w"
  using assms by (metis Inr_inject decode_iff_canonical)

lemma encoded_map_get:
  assumes "encode_canonical_cbor (CMap ps) = Inr bs" "encode_canonical_cbor (CMap qs) = Inr bs"
    and wf: "wf_cbor (CMap ps)" "wf_cbor (CMap qs)" and len: "length bs < usize_limit"
  shows "map_option canon_cbor (map_get ps key) = map_option canon_cbor (map_get qs key)"
proof -
  have kd: "keys_distinct (CMap ps)" "keys_distinct (CMap qs)"
    and bs: "bs = enc_cbor (canon_cbor (CMap ps))" "bs = enc_cbor (canon_cbor (CMap qs))"
    using assms(1,2) unfolding encode_canonical_cbor_Inr_iff by blast+
  have eq: "canon_cbor (CMap ps) = canon_cbor (CMap qs)"
    by (rule enc_cbor_inj) (use canonical_canon [OF wf(1) kd(1)] canonical_canon [OF wf(2) kd(2)] bs len in simp_all)
  obtain rs where rs: "canon_cbor (CMap ps) = CMap rs" by simp
  show ?thesis using map_get_canon [OF kd(1) rs] map_get_canon [OF kd(2), of rs] rs eq by simp
qed

lemma text_field_distinct:
  assumes "list_all (\<lambda>(k, v). length k < usize_limit) kvs" "distinct (map fst kvs)"
    "list_all (\<lambda>(k, v). keys_distinct v) kvs"
  shows "encode_canonical_cbor (CMap (map (\<lambda>(k, v). (Text k, v)) kvs)) =
    Inr (enc_cbor (canon_cbor (CMap (map (\<lambda>(k, v). (Text k, v)) kvs))))"
  using keys_distinct_text [OF assms(1)] assms(2,3) unfolding encode_canonical_cbor_Inr_iff by blast

lemma hashes_cbor_encodes:
  assumes "hash_map_wf m"
  shows "encode_canonical_cbor (hashes_cbor m) = Inr (expect (encode_canonical_cbor (hashes_cbor m)))"
    and "wf_cbor (hashes_cbor m)"
proof -
  let ?kvs = "map (\<lambda>(k, d). (k, Bytes d)) m"
  have "distinct (map fst m)" using assms by (simp add: hash_map_wf_def strict_sorted_iff)
  then have kvs: "list_all (\<lambda>(k, v). length k < usize_limit) ?kvs" "distinct (map fst ?kvs)"
    "list_all (\<lambda>(k, v). keys_distinct v) ?kvs"
    using assms by (auto simp: hash_map_wf_def list_all_iff comp_def case_prod_unfold)
  have h: "hashes_cbor m = CMap (map (\<lambda>(k, v). (Text k, v)) ?kvs)"
    by (simp add: hashes_cbor_def comp_def case_prod_unfold)
  show "encode_canonical_cbor (hashes_cbor m) = Inr (expect (encode_canonical_cbor (hashes_cbor m)))"
    unfolding h text_field_distinct [OF kvs] by simp
  show "wf_cbor (hashes_cbor m)"
    using assms by (auto simp: hashes_cbor_def hash_map_wf_def list_all_iff)
qed

lemma hashes_cbor_inj:
  assumes wf: "hash_map_wf m" "hash_map_wf n"
    and eq: "expect (encode_canonical_cbor (hashes_cbor m)) = expect (encode_canonical_cbor (hashes_cbor n))"
    and len: "length (expect (encode_canonical_cbor (hashes_cbor m))) < usize_limit"
  shows "m = n"
proof -
  have get: "map_get (map (\<lambda>(alg, digest). (Text alg, Bytes digest)) x) key = map_option Bytes (map_of x key)" for x key
    unfolding map_get_def by (induction x) auto
  let ?ps = "\<lambda>x :: hash_map. map (\<lambda>(alg, digest). (Text alg, Bytes digest)) x"
  have enc: "encode_canonical_cbor (CMap (?ps m)) = Inr (expect (encode_canonical_cbor (hashes_cbor m)))"
    "encode_canonical_cbor (CMap (?ps n)) = Inr (expect (encode_canonical_cbor (hashes_cbor m)))"
    using hashes_cbor_encodes(1) [OF wf(1)] hashes_cbor_encodes(1) [OF wf(2)] eq
    by (simp_all only: hashes_cbor_def)
  have w: "wf_cbor (CMap (?ps m))" "wf_cbor (CMap (?ps n))"
    using hashes_cbor_encodes(2) [OF wf(1)] hashes_cbor_encodes(2) [OF wf(2)]
    by (simp_all only: hashes_cbor_def)
  have "map_of m key = map_of n key" for key
  proof -
    have "map_option canon_cbor (map_option Bytes (map_of m key)) = map_option canon_cbor (map_option Bytes (map_of n key))"
      using encoded_map_get [OF enc w len, of key] by (simp only: get)
    then show ?thesis by (cases "map_of m key"; cases "map_of n key") simp_all
  qed
  then have maps: "map_of m = map_of n" by (rule ext)
  have d: "distinct (map fst m)" "distinct (map fst n)" "sorted (map fst m)" "sorted (map fst n)"
    using wf by (simp_all add: hash_map_wf_def strict_sorted_iff)
  have "set (map fst m) = set (map fst n)" using maps by (simp add: dom_map_of_conv_image_fst [symmetric])
  then have keys: "map fst m = map fst n" using d by (intro sorted_distinct_set_unique)
  have "map (\<lambda>k. (k, the (map_of x k))) (map fst x) = x" if "distinct (map fst x)" for x :: hash_map
    unfolding map_map by (rule map_idI) (auto simp: that)
  from this [OF d(1)] this [OF d(2)] show ?thesis unfolding keys maps by (rule trans [OF sym])
qed

text \<open>The slots transcript.\<close>

lemma keys_distinct_lits:
  assumes "distinct (map fst kvs)" "list_all (\<lambda>(k, v). keys_distinct v) kvs"
    "list_all (\<lambda>(k, v). length k < usize_limit) kvs"
  shows "keys_distinct (CMap (map (\<lambda>(k, v). (cbor_text k, v)) kvs))"
proof -
  have inj: "inj_on lit (set (map fst kvs))" by (simp add: inj_on_def)
  have "distinct (map fst (map (\<lambda>(k, v). (lit k, v)) kvs))"
    using assms(1) inj distinct_map [of lit "map fst kvs"] by (simp add: comp_def case_prod_unfold)
  then show ?thesis
    using keys_distinct_text [of "map (\<lambda>(k, v). (lit k, v)) kvs"] assms(2,3)
    by (simp add: list_all_iff case_prod_unfold cbor_text_def comp_def del: keys_distinct.simps)
qed

lemma slots_cbor_distinct: "keys_distinct (slots_cbor slots)"
proof -
  have "keys_distinct (CMap [(cbor_text k, Bytes a), (cbor_text l, Bytes b)])"
    if "k \<noteq> l" "length k < usize_limit" "length l < usize_limit" for k l a b
    using keys_distinct_lits [of "[(k, Bytes a), (l, Bytes b)]"] that by simp
  then show ?thesis by (cases slots) (auto simp: list_all_iff simp del: keys_distinct.simps(6))
qed

lemma slots_transcript_distinct: "keys_distinct (CMap (slots_transcript aead kem nonce slots hh))"
proof -
  let ?kvs = "[(''scheme'', Unsigned 1), (''path'', cbor_text ''slots''), (''aead'', Text aead),
    (''kem'', Text kem), (''nonce'', Bytes nonce), (''slots'', slots_cbor slots), (''hashes_hash'', Bytes hh)]"
  have "slots_transcript aead kem nonce slots hh = map (\<lambda>(k, v). (cbor_text k, v)) ?kvs"
    by (simp add: slots_transcript_def)
  moreover have "keys_distinct (CMap (map (\<lambda>(k, v). (cbor_text k, v)) ?kvs))"
    by (rule keys_distinct_lits) (simp_all add: slots_cbor_distinct cbor_text_def)
  ultimately show ?thesis by (simp only:)
qed

lemma slots_transcript_encodes:
  "encode_canonical_cbor (CMap (slots_transcript aead kem nonce slots hh)) =
    Inr (slots_transcript_bytes aead kem nonce slots hh)"
proof -
  have "\<exists>bs. encode_canonical_cbor (CMap (slots_transcript aead kem nonce slots hh)) = Inr bs"
    using slots_transcript_distinct unfolding encode_canonical_cbor_Inr_iff by blast
  then show ?thesis by (auto simp: slots_transcript_bytes_def)
qed

lemma cbor_text_wf [simp]: "utf8_valid (lit s) \<Longrightarrow> length s < usize_limit \<Longrightarrow> wf_cbor (cbor_text s)"
  by (simp add: cbor_text_def)

lemma slots_cbor_wf: "slots_wf slots \<Longrightarrow> wf_cbor (slots_cbor slots)"
proof -
  have "utf8_valid (lit ''epk'')" "utf8_valid (lit ''wrap'')" "utf8_valid (lit ''kem_ct'')" by code_simp+
  then show "slots_wf slots \<Longrightarrow> wf_cbor (slots_cbor slots)"
    by (cases slots) (auto simp: list_all_iff cbor_text_def)
qed

lemma slots_transcript_wf:
  assumes "utf8_valid aead" "length aead < usize_limit" "utf8_valid kem" "length kem < usize_limit"
    "length nonce < usize_limit" "slots_wf slots" "length hh < usize_limit"
  shows "wf_cbor (CMap (slots_transcript aead kem nonce slots hh))"
proof -
  have "list_all (\<lambda>s. utf8_valid (lit s)) [''scheme'', ''path'', ''slots'', ''aead'', ''kem'', ''nonce'', ''hashes_hash'']"
    by code_simp
  then show ?thesis using assms slots_cbor_wf by (simp add: slots_transcript_def cbor_text_def)
qed

lemma slot_maps_inj:
  assumes "canon_cbor (CMap [(cbor_text k, Bytes a), (cbor_text l, Bytes b)]) =
      canon_cbor (CMap [(cbor_text k', Bytes a'), (cbor_text l, Bytes b')])"
    and "k \<noteq> l" "k' \<noteq> l" "length k < usize_limit" "length k' < usize_limit" "length l < usize_limit"
  shows "k = k' \<and> a = a' \<and> b = b'"
proof -
  let ?m = "\<lambda>k a b. [(cbor_text k, Bytes a), (cbor_text l, Bytes b)]"
  have kd: "keys_distinct (CMap (?m k a b))" "keys_distinct (CMap (?m k' a' b'))"
    using assms keys_distinct_lits [of "[(k, Bytes a), (l, Bytes b)]"]
      keys_distinct_lits [of "[(k', Bytes a'), (l, Bytes b')]"] by simp_all
  obtain rs where rs: "canon_cbor (CMap (?m k a b)) = CMap rs" by simp
  have "map_option canon_cbor (map_get (?m k a b) key) = map_option canon_cbor (map_get (?m k' a' b') key)" for key
    using map_get_canon [OF kd(1) rs, of key] map_get_canon [OF kd(2), of rs key] rs assms(1) by simp
  from this [of "lit k"] this [of "lit l"] show ?thesis using assms(2,3)
    by (simp add: map_get_def cbor_text_def split: if_splits)
qed

lemma slots_cbor_inj:
  assumes "canon_cbor (slots_cbor s) = canon_cbor (slots_cbor t)" "slots_len s \<noteq> 0"
  shows "s = t"
proof -
  let ?x = "\<lambda>s :: X25519Slot. CMap [(cbor_text ''epk'', Bytes (xs_epk s)), (cbor_text ''wrap'', Bytes (xs_wrap s))]"
  let ?m = "\<lambda>s :: Mlkem768X25519Slot. CMap [(cbor_text ''kem_ct'', Bytes (ms_kem_ct s)), (cbor_text ''wrap'', Bytes (ms_wrap s))]"
  have x: "canon_cbor (?x a) = canon_cbor (?x b) \<Longrightarrow> a = b" for a b :: X25519Slot
    by (drule slot_maps_inj) simp_all
  have m: "canon_cbor (?m a) = canon_cbor (?m b) \<Longrightarrow> a = b" for a b :: Mlkem768X25519Slot
    by (drule slot_maps_inj) simp_all
  have xm: "canon_cbor (?x a) \<noteq> canon_cbor (?m b)" for a b
    by (rule notI, drule slot_maps_inj) simp_all
  have inj_x: "inj (\<lambda>a. canon_cbor (?x a))" by (rule injI) (erule x)
  have inj_m: "inj (\<lambda>a. canon_cbor (?m a))" by (rule injI) (erule m)
  show ?thesis
  proof (cases s)
    case (X25519 a)
    show ?thesis
    proof (cases t)
      case X: (X25519 b)
      then have "map (\<lambda>a. canon_cbor (?x a)) a = map (\<lambda>a. canon_cbor (?x a)) b"
        using X25519 assms(1) by (simp add: comp_def del: canon_cbor.simps(6))
      then show ?thesis using inj_x X X25519 by (simp only: inj_map_eq_map)
    next
      case (Mlkem768X25519 b)
      then have "map (\<lambda>a. canon_cbor (?x a)) a = map (\<lambda>a. canon_cbor (?m a)) b"
        using X25519 assms(1) by (simp add: comp_def del: canon_cbor.simps(6))
      then show ?thesis using xm X25519 assms(2) by (cases a; cases b) (simp_all del: canon_cbor.simps)
    qed
  next
    case (Mlkem768X25519 a)
    show ?thesis
    proof (cases t)
      case (X25519 b)
      then have "map (\<lambda>a. canon_cbor (?m a)) a = map (\<lambda>a. canon_cbor (?x a)) b"
        using Mlkem768X25519 assms(1) by (simp add: comp_def del: canon_cbor.simps(6))
      then show ?thesis using xm [symmetric] Mlkem768X25519 assms(2)
        by (cases a; cases b) (simp_all del: canon_cbor.simps)
    next
      case M: (Mlkem768X25519 b)
      then have "map (\<lambda>a. canon_cbor (?m a)) a = map (\<lambda>a. canon_cbor (?m a)) b"
        using Mlkem768X25519 assms(1) by (simp add: comp_def del: canon_cbor.simps(6))
      then show ?thesis using inj_m M Mlkem768X25519 by (simp only: inj_map_eq_map)
    qed
  qed
qed

text \<open>What a program's header satisfies before it is hashed.\<close>

definition header_wf :: "rstring \<Rightarrow> rstring \<Rightarrow> bytes \<Rightarrow> SealedSlots \<Rightarrow> bytes \<Rightarrow> bool" where
  "header_wf aead kem nonce slots hh \<longleftrightarrow> utf8_valid aead \<and> length aead < usize_limit \<and> utf8_valid kem \<and>
     length kem < usize_limit \<and> length nonce < usize_limit \<and> slots_wf slots \<and> length hh < usize_limit"

lemma slots_transcript_inj:
  assumes wf: "header_wf aead kem nonce slots hh" "header_wf aead' kem' nonce' slots' hh'"
    and eq: "slots_transcript_bytes aead kem nonce slots hh = slots_transcript_bytes aead' kem' nonce' slots' hh'"
    and len: "length (slots_transcript_bytes aead kem nonce slots hh) < usize_limit" and ne: "slots_len slots \<noteq> 0"
  shows "aead = aead' \<and> kem = kem' \<and> nonce = nonce' \<and> slots = slots' \<and> hh = hh'"
proof -
  have w: "wf_cbor (CMap (slots_transcript aead kem nonce slots hh))"
    "wf_cbor (CMap (slots_transcript aead' kem' nonce' slots' hh'))"
    using wf by (auto simp: header_wf_def intro!: slots_transcript_wf simp del: wf_cbor.simps)
  have get: "map_option canon_cbor (map_get (slots_transcript aead kem nonce slots hh) key) =
      map_option canon_cbor (map_get (slots_transcript aead' kem' nonce' slots' hh') key)" for key
    by (rule encoded_map_get [OF slots_transcript_encodes
          slots_transcript_encodes [of aead' kem' nonce' slots' hh', folded eq] w len])
  note lookup = slots_transcript_def map_get_def cbor_text_def
  show ?thesis
    using get [of "lit ''aead''"] get [of "lit ''kem''"] get [of "lit ''nonce''"] get [of "lit ''hashes_hash''"]
      get [of "lit ''slots''"] slots_cbor_inj [OF _ ne]
    by (simp add: lookup)
qed

end
