(* ===== verification/Sealed_Wrap.thy ===== *)
theory Sealed_Wrap
  imports Sealed_Transcript
begin

text \<open>
  \<open>src/sealed_poe/wrap.rs\<close>: sealing to recipients.

  The caller's entropy closure \<open>FnMut(&mut [u8])\<close> is a function from the length of the buffer and
  the state of the generator to the bytes and the next state. A step of the producer threads that state
  and ends in a value or an error code; \<open>None\<close> is a panic, or a rejection loop that never ends
  (\<open>partial_function\<close>). Error messages are not modelled.
\<close>

section \<open>Entropy, errors and state\<close>

type_synonym 's rng = "nat \<Rightarrow> 's \<Rightarrow> bytes \<times> 's"
type_synonym ('s, 'a) run = "'s \<Rightarrow> ((EciesSealedPoeErrorCode + 'a) \<times> 's) option"

definition run_lift :: "EciesSealedPoeErrorCode + 'a \<Rightarrow> ('s, 'a) run" where
  "run_lift r s = Some (r, s)"

abbreviation run_ok :: "'a \<Rightarrow> ('s, 'a) run" where
  "run_ok x \<equiv> run_lift (Inr x)"

abbreviation run_err :: "EciesSealedPoeErrorCode \<Rightarrow> ('s, 'a) run" where
  "run_err e \<equiv> run_lift (Inl e)"

definition run_bind :: "('s, 'a) run \<Rightarrow> ('a \<Rightarrow> ('s, 'b) run) \<Rightarrow> ('s, 'b) run" where
  "run_bind m f s = (case m s of
       None \<Rightarrow> None
     | Some (Inl e, s') \<Rightarrow> Some (Inl e, s')
     | Some (Inr x, s') \<Rightarrow> f x s')"

definition run_fill :: "'s rng \<Rightarrow> nat \<Rightarrow> ('s, bytes) run" where
  "run_fill fill n s = (let (buf, s') = fill n s in Some (Inr buf, s'))"

named_theorems run_simps \<open>outcomes of a step of the producer\<close>

lemma run_lift_Some [run_simps]: "run_lift r s = Some (r', s') \<longleftrightarrow> r = r' \<and> s' = s"
  by (auto simp: run_lift_def)

lemma run_bind_Inr [run_simps]:
  "run_bind m f s = Some (Inr y, s') \<longleftrightarrow> (\<exists>x s1. m s = Some (Inr x, s1) \<and> f x s1 = Some (Inr y, s'))"
  by (auto simp: run_bind_def split: option.splits sum.splits)

lemma run_fill_Some [run_simps]: "run_fill fill n s = Some (r, s') \<longleftrightarrow> r = Inr (fst (fill n s)) \<and> s' = snd (fill n s)"
  by (auto simp: run_fill_def split: prod.splits)

section \<open>The anonymity shuffle\<close>

definition uniform_index_ceiling :: "32 word \<Rightarrow> u64 option" where
  "uniform_index_ceiling m = (if m = 0 then None
     else let two_pow_32 = push_bit 32 1 in Some (two_pow_32 - two_pow_32 mod ucast m))"

text \<open>The loop of \<open>uniform_index_below\<close>: little-endian draws of four bytes until one is below the ceiling.\<close>

partial_function (option) draw_below :: "'s rng \<Rightarrow> u64 \<Rightarrow> 's \<Rightarrow> (u64 \<times> 's) option" where
  "draw_below fill limit s =
     (let (buf, s') = fill 4 s; x = of_nat (nat_of_be (rev buf))
      in if x < limit then Some (x, s') else draw_below fill limit s')"

definition uniform_index_below :: "'s rng \<Rightarrow> 32 word \<Rightarrow> 's \<Rightarrow> (32 word \<times> 's) option" where
  "uniform_index_below fill m s = Option.bind (uniform_index_ceiling m) (\<lambda>limit.
     map_option (\<lambda>(x, s'). (ucast (x mod ucast m), s')) (draw_below fill limit s))"

definition swap_at :: "'a list \<Rightarrow> nat \<Rightarrow> nat \<Rightarrow> 'a list" where
  "swap_at arr i j = arr[i := arr ! j, j := arr ! i]"

text \<open>The loop \<open>for i in (1..len).rev()\<close>.\<close>

fun shuffle_loop :: "'s rng \<Rightarrow> nat \<Rightarrow> 'a list \<Rightarrow> 's \<Rightarrow> ('a list \<times> 's) option" where
  "shuffle_loop fill 0 arr s = Some (arr, s)"
| "shuffle_loop fill (Suc i) arr s =
     (case uniform_index_below fill (of_nat (Suc i + 1)) s of
        None \<Rightarrow> None
      | Some (j, s') \<Rightarrow> shuffle_loop fill i (swap_at arr (Suc i) (unat j)) s')"

definition csprng_shuffle :: "'s rng \<Rightarrow> 'a list \<Rightarrow> 's \<Rightarrow> ('a list \<times> 's) option" where
  "csprng_shuffle fill arr s =
     (if length arr < 2 then Some (arr, s) else shuffle_loop fill (length arr - 1) arr s)"

section \<open>One slot\<close>

definition CARDANO_POE_HKDF_INFO_KEK :: bytes where
  "CARDANO_POE_HKDF_INFO_KEK = lit ''cardano-poe-kek-v1''"

definition CARDANO_POE_HKDF_INFO_KEK_MLKEM768X25519 :: bytes where
  "CARDANO_POE_HKDF_INFO_KEK_MLKEM768X25519 = lit ''cardano-poe-kek-mlkem768x25519-v1''"

definition CARDANO_POE_HKDF_INFO_SLOTS_MAC :: bytes where
  "CARDANO_POE_HKDF_INFO_SLOTS_MAC = lit ''cardano-poe-slots-mac-v1''"

definition ZERO_NONCE_12 :: bytes where
  "ZERO_NONCE_12 = replicate 12 0"

definition X25519_KEY_LENGTH :: nat where
  "X25519_KEY_LENGTH = 32"

definition CEK_LENGTH :: nat where
  "CEK_LENGTH = 32"

definition NONCE_LENGTH :: nat where
  "NONCE_LENGTH = 24"

definition WRAP_LENGTH :: nat where
  "WRAP_LENGTH = 48"

definition SLOTS_MAC_LENGTH :: nat where
  "SLOTS_MAC_LENGTH = 32"

lemmas seal_lengths = X25519_KEY_LENGTH_def CEK_LENGTH_def NONCE_LENGTH_def WRAP_LENGTH_def SLOTS_MAC_LENGTH_def

datatype SealedKem = KemX25519 | KemMlkem768X25519

fun kem_as_str :: "SealedKem \<Rightarrow> rstring" where
  "kem_as_str KemX25519 = KEM_X25519"
| "kem_as_str KemMlkem768X25519 = KEM_MLKEM768X25519"

text \<open>\<open>wrap_slot_x25519\<close> once its ephemeral scalar is fixed.\<close>

definition seal_slot_x25519 ::
  "crypto \<Rightarrow> bytes \<Rightarrow> bytes \<Rightarrow> bytes \<Rightarrow> bytes \<Rightarrow> EciesSealedPoeErrorCode + X25519Slot" where
  "seal_slot_x25519 c pub_r priv_eph cek nonce =
     (let epk = expect (x25519_public_key c priv_eph)
      in case x25519_ecdh c priv_eph pub_r of
           Inl _ \<Rightarrow> Inl KemEpkLengthMismatch
         | Inr shared \<Rightarrow>
             let salt = x25519_kek_salt c nonce epk pub_r;
                 kek = hkdf32 c shared salt CARDANO_POE_HKDF_INFO_KEK;
                 wrap = chacha20_poly1305_encrypt c kek ZERO_NONCE_12 CARDANO_POE_HKDF_INFO_KEK cek
             in Inr \<lparr>xs_epk = epk, xs_wrap = wrap\<rparr>)"

definition wrap_slot_x25519 ::
  "crypto \<Rightarrow> 's rng \<Rightarrow> bytes \<Rightarrow> bytes option \<Rightarrow> bytes \<Rightarrow> bytes \<Rightarrow> ('s, X25519Slot) run" where
  "wrap_slot_x25519 c fill pub_r priv_eph cek nonce =
     run_bind (case priv_eph of
         Some eph \<Rightarrow> if length eph \<noteq> X25519_KEY_LENGTH then run_err InvalidEphemeralSecretLength else run_ok eph
       | None \<Rightarrow> run_fill fill X25519_KEY_LENGTH)
       (\<lambda>eph. run_lift (seal_slot_x25519 c pub_r eph cek nonce))"

definition wrap_slot_mlkem768x25519 ::
  "crypto \<Rightarrow> bytes \<Rightarrow> bytes \<Rightarrow> bytes \<Rightarrow> bytes \<Rightarrow> EciesSealedPoeErrorCode + Mlkem768X25519Slot" where
  "wrap_slot_mlkem768x25519 c pub_r eseed cek nonce =
     (case mlkem768x25519_encapsulate c pub_r eseed of
        Inl _ \<Rightarrow> Inl KemEpkLengthMismatch
      | Inr encaps \<Rightarrow>
          let salt = xwing_kek_salt c nonce (xw_enc encaps) pub_r;
              kek = hkdf32 c (xw_ss encaps) salt CARDANO_POE_HKDF_INFO_KEK_MLKEM768X25519;
              wrap = chacha20_poly1305_encrypt c kek ZERO_NONCE_12 CARDANO_POE_HKDF_INFO_KEK_MLKEM768X25519 cek
          in Inr \<lparr>ms_kem_ct = xw_enc encaps, ms_wrap = wrap\<rparr>)"

definition compute_slots_mac :: "crypto \<Rightarrow> bytes \<Rightarrow> bytes \<Rightarrow> bytes" where
  "compute_slots_mac c cek slots_hash =
     (let hmac_key = hkdf32 c cek [] CARDANO_POE_HKDF_INFO_SLOTS_MAC in hmac_sha256 c hmac_key slots_hash)"

text \<open>The loop over the slots with its \<open>HashSet\<close> of the material seen.\<close>

fun slot_materials :: "SealedSlots \<Rightarrow> bytes list" where
  "slot_materials (X25519 slots) = map xs_epk slots"
| "slot_materials (Mlkem768X25519 slots) = map ms_kem_ct slots"

fun unique_loop :: "bytes set \<Rightarrow> bytes list \<Rightarrow> EciesSealedPoeErrorCode + unit" where
  "unique_loop seen [] = Inr ()"
| "unique_loop seen (material # materials) =
     (if material \<in> seen then Inl EncSlotsDuplicateKemMaterial else unique_loop (insert material seen) materials)"

definition assert_unique_slot_kem_material :: "SealedSlots \<Rightarrow> EciesSealedPoeErrorCode + unit" where
  "assert_unique_slot_kem_material slots = unique_loop {} (slot_materials slots)"

section \<open>The envelope\<close>

record WrapArgs =
  wa_plaintext :: bytes
  wa_recipient_public_keys :: "bytes list"
  wa_hashes :: hash_map
  wa_kem :: "SealedKem option"
  wa_cek :: "bytes option"
  wa_nonce :: "bytes option"
  wa_ephemeral_secrets :: "bytes list option"
  wa_eseeds :: "bytes list option"
  wa_skip_shuffle :: bool

definition default_wrap_args :: WrapArgs where
  "default_wrap_args = \<lparr>wa_plaintext = [], wa_recipient_public_keys = [], wa_hashes = [], wa_kem = None,
     wa_cek = None, wa_nonce = None, wa_ephemeral_secrets = None, wa_eseeds = None, wa_skip_shuffle = False\<rparr>"

record WrapEnvelope =
  we_envelope :: SealedEnvelope
  we_payload_key :: bytes

fun expected_pub_len :: "SealedKem \<Rightarrow> nat" where
  "expected_pub_len KemX25519 = X25519_KEY_LENGTH"
| "expected_pub_len KemMlkem768X25519 = MLKEM768X25519_PUBLIC_KEY_LENGTH"

text \<open>The gate on the recipients and on the deterministic overrides.\<close>

definition check_overrides :: "SealedKem \<Rightarrow> WrapArgs \<Rightarrow> nat \<Rightarrow> EciesSealedPoeErrorCode + unit" where
  "check_overrides kem args n = (case kem of
       KemX25519 \<Rightarrow>
         if wa_eseeds args \<noteq> None then Inl EphemeralSecretsCountMismatch
         else (case wa_ephemeral_secrets args of
             Some eph \<Rightarrow> if length eph \<noteq> n then Inl EphemeralSecretsCountMismatch else Inr ()
           | None \<Rightarrow> Inr ())
     | KemMlkem768X25519 \<Rightarrow>
         if wa_ephemeral_secrets args \<noteq> None then Inl EphemeralSecretsCountMismatch
         else (case wa_eseeds args of
             Some eseeds \<Rightarrow>
               if length eseeds \<noteq> n then Inl EphemeralSecretsCountMismatch
               else if list_ex (\<lambda>e. length e \<noteq> MLKEM768X25519_ESEED_LENGTH) eseeds
               then Inl InvalidEphemeralSecretLength else Inr ()
           | None \<Rightarrow> Inr ()))"

definition check_recipients :: "SealedKem \<Rightarrow> WrapArgs \<Rightarrow> EciesSealedPoeErrorCode + unit" where
  "check_recipients kem args =
     (let n = length (wa_recipient_public_keys args)
      in if n < 1 then Inl EncSlotsEmpty
         else if list_ex (\<lambda>pub_key. length pub_key \<noteq> expected_pub_len kem) (wa_recipient_public_keys args)
         then Inl KemEpkLengthMismatch
         else check_overrides kem args n)"

text \<open>An explicit override of the given length, or fresh bytes.\<close>

definition override_or_fill ::
  "'s rng \<Rightarrow> nat \<Rightarrow> EciesSealedPoeErrorCode \<Rightarrow> bytes option \<Rightarrow> ('s, bytes) run" where
  "override_or_fill fill len err override = (case override of
       Some b \<Rightarrow> if length b \<noteq> len then run_err err else run_ok b
     | None \<Rightarrow> run_fill fill len)"

fun run_map :: "('a \<Rightarrow> ('s, 'b) run) \<Rightarrow> 'a list \<Rightarrow> ('s, 'b list) run" where
  "run_map f [] = run_ok []"
| "run_map f (x # xs) = run_bind (f x) (\<lambda>y. run_bind (run_map f xs) (\<lambda>ys. run_ok (y # ys)))"

text \<open>One optional override per recipient; the counts agree by the gate.\<close>

definition overrides_for :: "bytes list option \<Rightarrow> bytes list \<Rightarrow> (bytes \<times> bytes option) list" where
  "overrides_for overrides pubs = (case overrides of
       None \<Rightarrow> map (\<lambda>p. (p, None)) pubs
     | Some es \<Rightarrow> map2 (\<lambda>p e. (p, Some e)) pubs es)"

definition wrap_slots :: "crypto \<Rightarrow> 's rng \<Rightarrow> SealedKem \<Rightarrow> WrapArgs \<Rightarrow> bytes \<Rightarrow> bytes \<Rightarrow> ('s, SealedSlots) run" where
  "wrap_slots c fill kem args cek nonce = (case kem of
       KemX25519 \<Rightarrow>
         run_bind (run_map (\<lambda>(pub_r, priv_eph). wrap_slot_x25519 c fill pub_r priv_eph cek nonce)
             (overrides_for (wa_ephemeral_secrets args) (wa_recipient_public_keys args)))
           (\<lambda>slots. run_ok (X25519 slots))
     | KemMlkem768X25519 \<Rightarrow>
         run_bind (run_map (\<lambda>(pub_r, eseed).
               run_bind (case eseed of Some e \<Rightarrow> run_ok e | None \<Rightarrow> run_fill fill MLKEM768X25519_ESEED_LENGTH)
                 (\<lambda>e. run_lift (wrap_slot_mlkem768x25519 c pub_r e cek nonce)))
             (overrides_for (wa_eseeds args) (wa_recipient_public_keys args)))
           (\<lambda>slots. run_ok (Mlkem768X25519 slots)))"

definition run_shuffle :: "'s rng \<Rightarrow> 'a list \<Rightarrow> ('s, 'a list) run" where
  "run_shuffle fill arr s = map_option (\<lambda>(arr', s'). (Inr arr', s')) (csprng_shuffle fill arr s)"

definition shuffle_slots :: "'s rng \<Rightarrow> bool \<Rightarrow> SealedSlots \<Rightarrow> ('s, SealedSlots) run" where
  "shuffle_slots fill skip_shuffle slots =
     (if skip_shuffle then run_ok slots
      else case slots of
        X25519 s \<Rightarrow> run_bind (run_shuffle fill s) (\<lambda>s'. run_ok (X25519 s'))
      | Mlkem768X25519 s \<Rightarrow> run_bind (run_shuffle fill s) (\<lambda>s'. run_ok (Mlkem768X25519 s')))"

definition wrap_envelope_with_rng :: "crypto \<Rightarrow> WrapArgs \<Rightarrow> 's rng \<Rightarrow> ('s, WrapEnvelope) run" where
  "wrap_envelope_with_rng c args rng =
     (let kem = (case wa_kem args of None \<Rightarrow> KemX25519 | Some k \<Rightarrow> k)
      in run_bind (run_lift (check_recipients kem args)) (\<lambda>_.
         run_bind (override_or_fill rng CEK_LENGTH InvalidCekLength (wa_cek args)) (\<lambda>cek.
         run_bind (override_or_fill rng NONCE_LENGTH NonceLengthMismatch (wa_nonce args)) (\<lambda>nonce.
         run_bind (wrap_slots c rng kem args cek nonce) (\<lambda>slots0.
         run_bind (run_lift (assert_unique_slot_kem_material slots0)) (\<lambda>_.
         run_bind (shuffle_slots rng (wa_skip_shuffle args) slots0) (\<lambda>slots.
         run_bind (run_lift (item_hashes_hash c (wa_hashes args))) (\<lambda>hashes_hash.
         let slots_hash = compute_slots_hash c AEAD_CHACHA20_POLY1305_STREAM64K (kem_as_str kem) nonce slots hashes_hash;
             slots_mac = compute_slots_mac c cek slots_hash;
             payload_key = slots_payload_key c cek nonce
         in run_ok \<lparr>we_envelope = \<lparr>env_scheme = 1, env_aead = AEAD_CHACHA20_POLY1305_STREAM64K,
               env_kem = kem_as_str kem, env_nonce = nonce, env_slots = slots, env_slots_mac = slots_mac\<rparr>,
             we_payload_key = payload_key\<rparr>))))))))"

definition ecies_sealed_poe_wrap_with_rng :: "crypto \<Rightarrow> WrapArgs \<Rightarrow> 's rng \<Rightarrow> ('s, SealedPoeOutput) run" where
  "ecies_sealed_poe_wrap_with_rng c args rng =
     run_bind (wrap_envelope_with_rng c args rng) (\<lambda>we.
       case stream_seal (aead_encrypt c) (we_payload_key we) (wa_plaintext args) of
         None \<Rightarrow> (\<lambda>s. None)
       | Some ciphertext \<Rightarrow> run_ok \<lparr>so_envelope = we_envelope we, so_ciphertext = ciphertext\<rparr>)"

text \<open>
  The operating system's generator may fail (\<open>None\<close>). The closure then leaves its zeroed buffer
  alone, remembers the failure, and does not ask again.
\<close>

definition secure_fill :: "(nat \<Rightarrow> 's \<Rightarrow> bytes option \<times> 's) \<Rightarrow> ('s \<times> bool) rng" where
  "secure_fill getrandom n st =
     (if snd st then (replicate n 0, st)
      else case getrandom n (fst st) of
        (Some buf, s') \<Rightarrow> (buf, (s', False))
      | (None, s') \<Rightarrow> (replicate n 0, (s', True)))"

definition ecies_sealed_poe_wrap_secure ::
  "crypto \<Rightarrow> (nat \<Rightarrow> 's \<Rightarrow> bytes option \<times> 's) \<Rightarrow> WrapArgs \<Rightarrow> ('s, SealedPoeOutput) run" where
  "ecies_sealed_poe_wrap_secure c getrandom args s =
     (case ecies_sealed_poe_wrap_with_rng c args (secure_fill getrandom) (s, False) of
        None \<Rightarrow> None
      | Some (result, (s', rng_error)) \<Rightarrow> Some (if rng_error then Inl RngUnavailable else result, s'))"

section \<open>What the parts do\<close>

lemma unique_loop_eq: "unique_loop seen xs =
    (if distinct xs \<and> set xs \<inter> seen = {} then Inr () else Inl EncSlotsDuplicateKemMaterial)"
  by (induction xs arbitrary: seen) auto

text \<open>A generator fills the whole buffer it is given.\<close>

definition rng_fills :: "'s rng \<Rightarrow> bool" where
  "rng_fills fill \<longleftrightarrow> (\<forall>n s. length (fst (fill n s)) = n)"

lemma secure_fill_fills: "(\<And>n s b s'. getrandom n s = (Some b, s') \<Longrightarrow> length b = n) \<Longrightarrow> rng_fills (secure_fill getrandom)"
  by (auto simp: rng_fills_def secure_fill_def split: prod.splits option.splits)

lemma run_map_Inr: "run_map f xs s = Some (Inr ys, s') \<Longrightarrow> list_all2 (\<lambda>x y. \<exists>s1 s2. f x s1 = Some (Inr y, s2)) xs ys"
  by (induction xs arbitrary: s ys) (auto simp: run_simps)

lemma overrides_for_fst: "(case overrides of None \<Rightarrow> True | Some es \<Rightarrow> length es = length pubs) \<Longrightarrow>
    map fst (overrides_for overrides pubs) = pubs"
  by (auto simp: overrides_for_def comp_def intro!: nth_equalityI split: option.splits)

lemma draw_below_bound:
  assumes "draw_below fill limit s = Some (x, s')"
  shows "x < limit"
proof -
  have "fst (x, s') < limit"
  proof (rule draw_below.raw_induct [where P = "\<lambda>fill limit s r. fst r < limit", OF _ assms])
    fix draw fill limit and s :: 'a and r
    assume IH: "\<And>fill limit (s :: 'a) r. draw fill limit s = Some r \<Longrightarrow> fst r < limit"
      and step: "(let (buf, s') = fill 4 s; x = of_nat (nat_of_be (rev buf))
         in if x < limit then Some (x, s') else draw fill limit s') = Some r"
    show "fst r < limit" using step IH by (auto simp: Let_def split: prod.splits if_splits)
  qed
  then show ?thesis by simp
qed

text \<open>A draw below the ceiling, some time, is all that termination needs.\<close>

fun nth_draw :: "'s rng \<Rightarrow> nat \<Rightarrow> 's \<Rightarrow> u64" where
  "nth_draw fill 0 s = of_nat (nat_of_be (rev (fst (fill 4 s))))"
| "nth_draw fill (Suc k) s = nth_draw fill k (snd (fill 4 s))"

lemma draw_below_returns: "nth_draw fill k s < limit \<Longrightarrow> \<exists>x s'. draw_below fill limit s = Some (x, s')"
  by (induction k arbitrary: s) (subst draw_below.simps; auto simp: Let_def split: prod.split)+

lemma unat_ucast_32_64: "unat (ucast (m :: 32 word) :: u64) = unat m"
proof -
  have "unat m < 2 ^ 32" using unsigned_less [of m, where ?'a = nat] by simp
  then have "unat m < 2 ^ 64" by (rule less_trans) simp
  then show ?thesis by (simp add: unsigned_ucast_eq take_bit_nat_eq_self)
qed

lemma ceiling_word:
  assumes "uniform_index_ceiling m = Some limit"
  shows "unat limit = 2 ^ 32 - 2 ^ 32 mod unat m" "m \<noteq> 0"
proof -
  have m: "m \<noteq> 0" "limit = push_bit 32 1 - push_bit 32 1 mod ucast m"
    using assms by (auto simp: uniform_index_ceiling_def Let_def split: if_splits)
  have p: "unat (push_bit 32 1 :: u64) = 2 ^ 32" by simp
  note u = unat_ucast_32_64 [of m]
  have "unat (push_bit 32 1 mod ucast m :: u64) = 2 ^ 32 mod unat m" by (simp add: unat_mod p u)
  then show "unat limit = 2 ^ 32 - 2 ^ 32 mod unat m"
    unfolding m(2) by (subst unat_sub) (simp_all add: word_le_nat_alt p)
  show "m \<noteq> 0" by (rule m(1))
qed

lemma uniform_index_below_bound:
  assumes "uniform_index_below fill m s = Some (j, s')"
  shows "unat j < unat m"
proof -
  obtain x where m: "m \<noteq> 0" and j: "j = ucast (x mod ucast m :: u64)"
    using assms ceiling_word(2) by (auto simp: uniform_index_below_def bind_eq_Some_conv)
  note u = unat_ucast_32_64 [of m]
  have "unat m \<noteq> 0" using m by (simp add: unat_eq_0)
  then have "unat (x mod ucast m) < unat m" by (simp add: unat_mod u)
  moreover have "unat j \<le> unat (x mod ucast m)" unfolding j by (simp add: unsigned_ucast_eq take_bit_nat_less_eq_self)
  ultimately show ?thesis by simp
qed

lemma mset_swap_at: "i < length xs \<Longrightarrow> j < length xs \<Longrightarrow> mset (swap_at xs i j) = mset xs"
  by (simp add: swap_at_def mset_update nth_list_update)

lemma length_swap_at [simp]: "length (swap_at xs i j) = length xs"
  by (simp add: swap_at_def)

lemma shuffle_loop_mset:
  "shuffle_loop fill i arr s = Some (arr', s') \<Longrightarrow> i < length arr \<Longrightarrow> mset arr' = mset arr"
proof (induction fill i arr s rule: shuffle_loop.induct)
  case (2 fill i arr s)
  then obtain j s1 where j: "uniform_index_below fill (of_nat (Suc i + 1)) s = Some (j, s1)"
    and loop: "shuffle_loop fill i (swap_at arr (Suc i) (unat j)) s1 = Some (arr', s')"
    by (auto split: option.splits)
  have "unat (of_nat (Suc i + 1) :: 32 word) \<le> Suc i + 1" unfolding unat_of_nat by (rule mod_less_eq_dividend)
  then have "unat j < length arr" using uniform_index_below_bound [OF j] "2.prems"(2) by linarith
  then show ?case using "2.IH" [OF j refl loop] "2.prems"(2) by (simp add: mset_swap_at)
qed simp

lemma csprng_shuffle_mset: "csprng_shuffle fill arr s = Some (arr', s') \<Longrightarrow> mset arr' = mset arr"
  using shuffle_loop_mset [of fill "length arr - 1" arr s arr' s'] by (auto simp: csprng_shuffle_def split: if_splits)

lemma run_shuffle_mset: "run_shuffle fill arr s = Some (Inr arr', s') \<Longrightarrow> mset arr' = mset arr"
  by (auto simp: run_shuffle_def dest!: csprng_shuffle_mset)

end
