(* ===== verification/Sealed_Unwrap.thy ===== *)
theory Sealed_Unwrap
  imports Sealed_Wrap
begin

text \<open>
  \<open>src/sealed_poe/unwrap.rs\<close>: opening a sealed envelope with recipient keys. The constant-time
  operations of the source (\<open>Choice\<close>, \<open>ct_select_32\<close>, \<open>ct_eq\<close>) are the Boolean functions they compute;
  the test instrumentation (\<open>UnwrapProbe\<close>) is left out.
\<close>

section \<open>Keys, verdicts\<close>

datatype UnwrapFailureReason = WrongRecipientKey | TamperedHeader | TamperedCiphertext

fun reason_as_str :: "UnwrapFailureReason \<Rightarrow> rstring" where
  "reason_as_str WrongRecipientKey = lit ''WRONG_RECIPIENT_KEY''"
| "reason_as_str TamperedHeader = lit ''TAMPERED_HEADER''"
| "reason_as_str TamperedCiphertext = lit ''TAMPERED_CIPHERTEXT''"

datatype UnwrapResult = Matched bytes | NotMatched UnwrapFailureReason

record RecipientKeyBundle =
  x25519_private_keys :: "bytes list"
  mlkem768x25519_secret_seeds :: "bytes list"

datatype UnwrapKeys = Single bytes | Multi "bytes list" | Bundle RecipientKeyBundle

datatype TrialDecryptResult = Match nat bytes | NoMatch

datatype TrialDecryptKeys = TrialMulti "bytes list" | TrialBundle RecipientKeyBundle

definition select_bundle_secrets :: "SealedEnvelope \<Rightarrow> RecipientKeyBundle \<Rightarrow> bytes list" where
  "select_bundle_secrets envelope bundle =
     (if env_kem envelope = KEM_X25519 then x25519_private_keys bundle else mlkem768x25519_secret_seeds bundle)"

section \<open>The gate before any primitive\<close>

fun check_x25519_slots :: "bytes set \<Rightarrow> X25519Slot list \<Rightarrow> EciesSealedPoeErrorCode + unit" where
  "check_x25519_slots seen [] = Inr ()"
| "check_x25519_slots seen (slot # slots) =
     (if length (xs_epk slot) \<noteq> X25519_KEY_LENGTH then Inl KemEpkLengthMismatch
      else if length (xs_wrap slot) \<noteq> WRAP_LENGTH then Inl WrapLengthMismatch
      else if xs_epk slot \<in> seen then Inl EncSlotsDuplicateKemMaterial
      else check_x25519_slots (insert (xs_epk slot) seen) slots)"

fun check_mlkem_slots :: "bytes set \<Rightarrow> Mlkem768X25519Slot list \<Rightarrow> EciesSealedPoeErrorCode + unit" where
  "check_mlkem_slots seen [] = Inr ()"
| "check_mlkem_slots seen (slot # slots) =
     (if length (ms_kem_ct slot) \<noteq> MLKEM768X25519_ENC_LENGTH then Inl KemCtLengthMismatch
      else if length (ms_wrap slot) \<noteq> WRAP_LENGTH then Inl WrapLengthMismatch
      else if ms_kem_ct slot \<in> seen then Inl EncSlotsDuplicateKemMaterial
      else check_mlkem_slots (insert (ms_kem_ct slot) seen) slots)"

fun check_slots :: "SealedSlots \<Rightarrow> EciesSealedPoeErrorCode + unit" where
  "check_slots (X25519 slots) = check_x25519_slots {} slots"
| "check_slots (Mlkem768X25519 slots) = check_mlkem_slots {} slots"

fun per_slot_bytes :: "SealedSlots \<Rightarrow> nat" where
  "per_slot_bytes (X25519 _) = X25519_KEY_LENGTH + WRAP_LENGTH"
| "per_slot_bytes (Mlkem768X25519 _) = MLKEM768X25519_ENC_LENGTH + WRAP_LENGTH"

definition assert_envelope_structure ::
  "SealedEnvelope \<Rightarrow> bytes list option \<Rightarrow> bytes option \<Rightarrow> EciesSealedPoeErrorCode + unit" where
  "assert_envelope_structure envelope multi_priv_keys single_priv_key =
     (let n = slots_len (env_slots envelope)
      in if env_scheme envelope \<noteq> 1 then Inl UnsupportedEnvelopeScheme
         else if env_aead envelope \<noteq> AEAD_CHACHA20_POLY1305_STREAM64K then Inl UnsupportedAeadAlg
         else if env_kem envelope \<noteq> KEM_X25519 \<and> env_kem envelope \<noteq> KEM_MLKEM768X25519 then Inl UnsupportedKemAlg
         else if n < 1 then Inl EncSlotsEmpty
         else if n > MAX_SLOTS then Inl EncSlotsTooMany
         else if length (env_nonce envelope) \<noteq> NONCE_LENGTH then Inl NonceLengthMismatch
         else if length (env_slots_mac envelope) \<noteq> SLOTS_MAC_LENGTH then Inl EncSlotsMacInvalidLength
         else and_then (check_slots (env_slots envelope)) (\<lambda>_.
           if NONCE_LENGTH + SLOTS_MAC_LENGTH + n * per_slot_bytes (env_slots envelope) > MAX_DECODED_ENVELOPE_BYTES
           then Inl EncEnvelopeTooLarge
           else case multi_priv_keys of
             Some keys \<Rightarrow> if list_ex (\<lambda>key. length key \<noteq> X25519_KEY_LENGTH) keys then Inl InvalidRecipientKey else Inr ()
           | None \<Rightarrow> (case single_priv_key of
               Some key \<Rightarrow> if length key \<noteq> X25519_KEY_LENGTH then Inl InvalidRecipientKey else Inr ()
             | None \<Rightarrow> Inr ())))"

section \<open>One slot\<close>

definition wrap_open_or_dummy :: "crypto \<Rightarrow> bytes \<Rightarrow> bytes \<Rightarrow> bytes \<Rightarrow> bool \<times> bytes" where
  "wrap_open_or_dummy c kek ad wrap = (case chacha20_poly1305_decrypt c kek ZERO_NONCE_12 ad wrap of
       Inr plaintext \<Rightarrow>
         if length plaintext = CEK_LENGTH then (True, plaintext) else (False, replicate CEK_LENGTH 0)
     | Inl _ \<Rightarrow> (False, replicate CEK_LENGTH 0))"

definition x25519_slot_candidate :: "crypto \<Rightarrow> X25519Slot \<Rightarrow> bytes \<Rightarrow> bytes \<Rightarrow> bytes \<Rightarrow> bool \<times> bytes" where
  "x25519_slot_candidate c slot recipient_secret_key pub_r_local nonce =
     (let (shared, kem_ok) = expect (x25519_ecdh_unvalidated c recipient_secret_key (xs_epk slot));
          salt = x25519_kek_salt c nonce (xs_epk slot) pub_r_local;
          real_kek = hkdf32 c shared salt CARDANO_POE_HKDF_INFO_KEK;
          dummy_kek = hkdf32 c (replicate 32 0) salt CARDANO_POE_HKDF_INFO_KEK;
          kek = (if kem_ok then real_kek else dummy_kek);
          (open_ok, candidate) = wrap_open_or_dummy c kek CARDANO_POE_HKDF_INFO_KEK (xs_wrap slot)
      in (kem_ok \<and> open_ok, candidate))"

definition mlkem768x25519_slot_candidate ::
  "crypto \<Rightarrow> Mlkem768X25519Slot \<Rightarrow> bytes \<Rightarrow> bytes \<Rightarrow> bytes \<Rightarrow> bool \<times> bytes" where
  "mlkem768x25519_slot_candidate c slot recipient_secret_seed pub_r nonce =
     (let ss = expect (mlkem768x25519_decapsulate c recipient_secret_seed (ms_kem_ct slot));
          salt = xwing_kek_salt c nonce (ms_kem_ct slot) pub_r;
          kek = hkdf32 c ss salt CARDANO_POE_HKDF_INFO_KEK_MLKEM768X25519
      in wrap_open_or_dummy c kek CARDANO_POE_HKDF_INFO_KEK_MLKEM768X25519 (ms_wrap slot))"

section \<open>One key's pass over every slot\<close>

record InnerScan =
  sc_found :: bool
  sc_cek_conflict :: bool
  sc_any_wrap_opened :: bool
  sc_selected_cek :: bytes
  sc_selected_idx :: nat

definition scan_start :: InnerScan where
  "scan_start = \<lparr>sc_found = False, sc_cek_conflict = False, sc_any_wrap_opened = False,
     sc_selected_cek = replicate CEK_LENGTH 0, sc_selected_idx = 0\<rparr>"

definition slots_mac_bit :: "crypto \<Rightarrow> bytes \<Rightarrow> bytes \<Rightarrow> bytes \<Rightarrow> bool" where
  "slots_mac_bit c cek slots_hash expected =
     (let hmac_key = hkdf32 c cek [] CARDANO_POE_HKDF_INFO_SLOTS_MAC
      in hmac_sha256 c hmac_key slots_hash = expected)"

definition fold_slot :: "crypto \<Rightarrow> bytes \<Rightarrow> bytes \<Rightarrow> nat \<Rightarrow> bool \<times> bytes \<Rightarrow> InnerScan \<Rightarrow> InnerScan" where
  "fold_slot c slots_hash slots_mac i open_candidate st =
     (let (open_bit, candidate) = open_candidate;
          mac_ok = slots_mac_bit c candidate slots_hash slots_mac;
          ok = (open_bit \<and> mac_ok);
          first = (ok \<and> \<not> sc_found st)
      in \<lparr>sc_found = (sc_found st \<or> ok),
          sc_cek_conflict = (sc_cek_conflict st \<or> (ok \<and> sc_found st \<and> candidate \<noteq> sc_selected_cek st)),
          sc_any_wrap_opened = (sc_any_wrap_opened st \<or> open_bit),
          sc_selected_cek = (if first then candidate else sc_selected_cek st),
          sc_selected_idx = (if first then i else sc_selected_idx st)\<rparr>)"

fun scan_loop :: "crypto \<Rightarrow> bytes \<Rightarrow> bytes \<Rightarrow> nat \<Rightarrow> (bool \<times> bytes) list \<Rightarrow> InnerScan \<Rightarrow> InnerScan" where
  "scan_loop c slots_hash slots_mac i [] st = st"
| "scan_loop c slots_hash slots_mac i (x # xs) st =
     scan_loop c slots_hash slots_mac (i + 1) xs (fold_slot c slots_hash slots_mac i x st)"

definition slot_candidates :: "crypto \<Rightarrow> SealedEnvelope \<Rightarrow> bytes \<Rightarrow> (bool \<times> bytes) list" where
  "slot_candidates c envelope recipient_secret_key = (case env_slots envelope of
       X25519 slots \<Rightarrow>
         let pub_r_local = expect (x25519_public_key c recipient_secret_key)
         in map (\<lambda>slot. x25519_slot_candidate c slot recipient_secret_key pub_r_local (env_nonce envelope)) slots
     | Mlkem768X25519 slots \<Rightarrow>
         let pub_r = expect (mlkem768x25519_public_key_from_seed c recipient_secret_key)
         in map (\<lambda>slot. mlkem768x25519_slot_candidate c slot recipient_secret_key pub_r (env_nonce envelope)) slots)"

definition scan_slots_for_key :: "crypto \<Rightarrow> SealedEnvelope \<Rightarrow> bytes \<Rightarrow> bytes \<Rightarrow> InnerScan" where
  "scan_slots_for_key c envelope recipient_secret_key slots_hash =
     scan_loop c slots_hash (env_slots_mac envelope) 0 (slot_candidates c envelope recipient_secret_key) scan_start"

section \<open>The keys in turn\<close>

datatype KeyLoopOutcome = Accepted bytes | KeyNotMatched UnwrapFailureReason

fun scan_keys_loop :: "crypto \<Rightarrow> SealedEnvelope \<Rightarrow> bytes \<Rightarrow> bool \<Rightarrow> bytes list \<Rightarrow> KeyLoopOutcome" where
  "scan_keys_loop c envelope slots_hash any_wrap_opened [] =
     KeyNotMatched (if any_wrap_opened then TamperedHeader else WrongRecipientKey)"
| "scan_keys_loop c envelope slots_hash any_wrap_opened (key # keys) =
     (let scan = scan_slots_for_key c envelope key slots_hash
      in if sc_cek_conflict scan then KeyNotMatched TamperedHeader
         else if sc_found scan then Accepted (sc_selected_cek scan)
         else scan_keys_loop c envelope slots_hash (any_wrap_opened \<or> sc_any_wrap_opened scan) keys)"

definition scan_keys :: "crypto \<Rightarrow> SealedEnvelope \<Rightarrow> bytes list \<Rightarrow> bytes \<Rightarrow> KeyLoopOutcome" where
  "scan_keys c envelope keys slots_hash = scan_keys_loop c envelope slots_hash False keys"

definition envelope_slots_hash :: "crypto \<Rightarrow> SealedEnvelope \<Rightarrow> bytes \<Rightarrow> bytes" where
  "envelope_slots_hash c envelope hashes_hash = compute_slots_hash c (env_aead envelope) (env_kem envelope)
     (env_nonce envelope) (env_slots envelope) hashes_hash"

text \<open>The single-key form runs the same pass over its one key.\<close>

definition scan_single :: "crypto \<Rightarrow> SealedEnvelope \<Rightarrow> bytes \<Rightarrow> bytes \<Rightarrow> KeyLoopOutcome" where
  "scan_single c envelope key slots_hash =
     (let scan = scan_slots_for_key c envelope key slots_hash
      in if sc_cek_conflict scan then KeyNotMatched TamperedHeader
         else if sc_found scan then Accepted (sc_selected_cek scan)
         else KeyNotMatched (if sc_any_wrap_opened scan then TamperedHeader else WrongRecipientKey))"

definition ecies_sealed_poe_unwrap ::
  "crypto \<Rightarrow> SealedEnvelope \<Rightarrow> bytes \<Rightarrow> hash_map \<Rightarrow> UnwrapKeys \<Rightarrow> (EciesSealedPoeErrorCode + UnwrapResult) option" where
  "ecies_sealed_poe_unwrap c envelope ciphertext hashes keys =
     (let single = (case keys of Single k \<Rightarrow> Some k | _ \<Rightarrow> None);
          multi = (case keys of Single k \<Rightarrow> None | Multi list \<Rightarrow> Some list
                   | Bundle bundle \<Rightarrow> Some (select_bundle_secrets envelope bundle));
          is_bundle = (case keys of Bundle _ \<Rightarrow> True | _ \<Rightarrow> False)
      in if multi = Some [] then
           (if is_bundle then Some (Inr (NotMatched WrongRecipientKey)) else Some (Inl InvalidRecipientKey))
         else case and_then (assert_envelope_structure envelope multi single) (\<lambda>_. item_hashes_hash c hashes) of
           Inl e \<Rightarrow> Some (Inl e)
         | Inr hashes_hash \<Rightarrow>
             let slots_hash = envelope_slots_hash c envelope hashes_hash;
                 outcome = (case keys of
                   Single key \<Rightarrow> scan_single c envelope key slots_hash
                 | _ \<Rightarrow> scan_keys c envelope (the multi) slots_hash)
             in case outcome of
                  KeyNotMatched reason \<Rightarrow> Some (Inr (NotMatched reason))
                | Accepted cek \<Rightarrow>
                    let payload_key = slots_payload_key c cek (env_nonce envelope)
                    in map_option (\<lambda>r. Inr (case r of
                         Inr plaintext \<Rightarrow> Matched plaintext
                       | Inl _ \<Rightarrow> NotMatched TamperedCiphertext))
                       (stream_open (aead_decrypt c) payload_key ciphertext))"

fun trial_loop :: "crypto \<Rightarrow> SealedEnvelope \<Rightarrow> bytes \<Rightarrow> bytes list \<Rightarrow> TrialDecryptResult" where
  "trial_loop c envelope slots_hash [] = NoMatch"
| "trial_loop c envelope slots_hash (key # keys) =
     (let scan = scan_slots_for_key c envelope key slots_hash
      in if sc_cek_conflict scan then trial_loop c envelope slots_hash keys
         else if sc_found scan then Match (sc_selected_idx scan) (sc_selected_cek scan)
         else trial_loop c envelope slots_hash keys)"

definition ecies_sealed_poe_trial_decrypt ::
  "crypto \<Rightarrow> SealedEnvelope \<Rightarrow> hash_map \<Rightarrow> TrialDecryptKeys \<Rightarrow> EciesSealedPoeErrorCode + TrialDecryptResult" where
  "ecies_sealed_poe_trial_decrypt c envelope hashes keys =
     (let recipient_secret_keys = (case keys of TrialMulti list \<Rightarrow> list
            | TrialBundle bundle \<Rightarrow> select_bundle_secrets envelope bundle);
          is_bundle = (case keys of TrialMulti _ \<Rightarrow> False | TrialBundle _ \<Rightarrow> True)
      in if recipient_secret_keys = [] then
           (if is_bundle then Inr NoMatch else Inl InvalidRecipientKey)
         else and_then (assert_envelope_structure envelope (Some recipient_secret_keys) None) (\<lambda>_.
           and_then (item_hashes_hash c hashes) (\<lambda>hashes_hash.
             let slots_hash = envelope_slots_hash c envelope hashes_hash
             in Inr (trial_loop c envelope slots_hash recipient_secret_keys))))"

section \<open>What one pass finds\<close>

definition slot_accepted :: "crypto \<Rightarrow> bytes \<Rightarrow> bytes \<Rightarrow> bool \<times> bytes \<Rightarrow> bool" where
  "slot_accepted c slots_hash slots_mac x \<longleftrightarrow> fst x \<and> slots_mac_bit c (snd x) slots_hash slots_mac"

lemma fold_slot_eq: "fold_slot c h mac i x st =
    \<lparr>sc_found = (sc_found st \<or> slot_accepted c h mac x),
     sc_cek_conflict = (sc_cek_conflict st \<or> (slot_accepted c h mac x \<and> sc_found st \<and> snd x \<noteq> sc_selected_cek st)),
     sc_any_wrap_opened = (sc_any_wrap_opened st \<or> fst x),
     sc_selected_cek = (if slot_accepted c h mac x \<and> \<not> sc_found st then snd x else sc_selected_cek st),
     sc_selected_idx = (if slot_accepted c h mac x \<and> \<not> sc_found st then i else sc_selected_idx st)\<rparr>"
  by (simp add: fold_slot_def slot_accepted_def Let_def split: prod.split)

text \<open>After the first accepted slot only the conflict and the opened flag can change.\<close>

lemma scan_loop_found: "sc_found st \<Longrightarrow> scan_loop c h mac i xs st = st
    \<lparr>sc_cek_conflict := (sc_cek_conflict st \<or> (\<exists>x\<in>set xs. slot_accepted c h mac x \<and> snd x \<noteq> sc_selected_cek st)),
     sc_any_wrap_opened := (sc_any_wrap_opened st \<or> (\<exists>x\<in>set xs. fst x))\<rparr>"
  by (induction xs arbitrary: i st) (auto simp: fold_slot_eq)

lemma scan_loop_none: "\<forall>x\<in>set xs. \<not> slot_accepted c h mac x \<Longrightarrow> scan_loop c h mac i xs st = st
    \<lparr>sc_any_wrap_opened := (sc_any_wrap_opened st \<or> (\<exists>x\<in>set xs. fst x))\<rparr>"
  by (induction xs arbitrary: i st) (auto simp: fold_slot_eq)

lemma scan_loop_append: "scan_loop c h mac i (xs @ ys) st = scan_loop c h mac (i + length xs) ys (scan_loop c h mac i xs st)"
  by (induction xs arbitrary: i st) simp_all

text \<open>The pass, in one statement: the first accepted slot is selected.\<close>

lemma scan_loop_spec:
  "(\<forall>x\<in>set xs. \<not> slot_accepted c h mac x) \<and> scan_loop c h mac 0 xs scan_start =
      scan_start\<lparr>sc_any_wrap_opened := (\<exists>x\<in>set xs. fst x)\<rparr> \<or>
   (\<exists>ys x zs. xs = ys @ x # zs \<and> (\<forall>y\<in>set ys. \<not> slot_accepted c h mac y) \<and> slot_accepted c h mac x \<and>
      scan_loop c h mac 0 xs scan_start =
        \<lparr>sc_found = True, sc_cek_conflict = (\<exists>z\<in>set zs. slot_accepted c h mac z \<and> snd z \<noteq> snd x),
         sc_any_wrap_opened = True, sc_selected_cek = snd x, sc_selected_idx = length ys\<rparr>)"
proof (cases "\<exists>x\<in>set xs. slot_accepted c h mac x")
  case True
  then obtain ys x zs where xs: "xs = ys @ x # zs" "\<forall>y\<in>set ys. \<not> slot_accepted c h mac y" "slot_accepted c h mac x"
    by (auto dest!: split_list_first_prop)
  then have x: "fst x" by (simp add: slot_accepted_def)
  have "scan_loop c h mac 0 xs scan_start =
        \<lparr>sc_found = True, sc_cek_conflict = (\<exists>z\<in>set zs. slot_accepted c h mac z \<and> snd z \<noteq> snd x),
         sc_any_wrap_opened = True, sc_selected_cek = snd x, sc_selected_idx = length ys\<rparr>"
    unfolding xs(1) scan_loop_append scan_loop_none [OF xs(2)]
    by (simp add: fold_slot_eq scan_loop_found scan_start_def xs(3) x)
  with xs show ?thesis by blast
qed (simp add: scan_loop_none scan_start_def)

lemma scan_found_iff: "sc_found (scan_slots_for_key c env key h) \<longleftrightarrow>
    (\<exists>x\<in>set (slot_candidates c env key). slot_accepted c h (env_slots_mac env) x)"
  using scan_loop_spec [of "slot_candidates c env key" c h "env_slots_mac env"]
  by (auto simp: scan_slots_for_key_def scan_start_def)

lemma scan_selected:
  assumes "sc_found (scan_slots_for_key c env key h)"
  shows "(True, sc_selected_cek (scan_slots_for_key c env key h)) \<in> set (slot_candidates c env key)"
    and "slots_mac_bit c (sc_selected_cek (scan_slots_for_key c env key h)) h (env_slots_mac env)"
    and "sc_selected_idx (scan_slots_for_key c env key h) < slots_len (env_slots env)"
    and "slot_candidates c env key ! sc_selected_idx (scan_slots_for_key c env key h) =
      (True, sc_selected_cek (scan_slots_for_key c env key h))"
proof -
  obtain ys x zs where xs: "slot_candidates c env key = ys @ x # zs" "slot_accepted c h (env_slots_mac env) x"
    and sc: "sc_selected_cek (scan_slots_for_key c env key h) = snd x"
      "sc_selected_idx (scan_slots_for_key c env key h) = length ys"
    using assms scan_loop_spec [of "slot_candidates c env key" c h "env_slots_mac env"]
    by (auto simp: scan_slots_for_key_def scan_start_def)
  have x: "x = (True, snd x)" using xs(2) by (cases x) (simp add: slot_accepted_def)
  show "(True, sc_selected_cek (scan_slots_for_key c env key h)) \<in> set (slot_candidates c env key)"
    using xs(1) sc(1) x by auto
  show "slots_mac_bit c (sc_selected_cek (scan_slots_for_key c env key h)) h (env_slots_mac env)"
    using xs(2) sc(1) by (simp add: slot_accepted_def)
  have "length (slot_candidates c env key) = slots_len (env_slots env)"
    by (cases "env_slots env") (simp_all add: slot_candidates_def Let_def)
  then show "sc_selected_idx (scan_slots_for_key c env key h) < slots_len (env_slots env)"
    using xs(1) sc(2) by simp
  show "slot_candidates c env key ! sc_selected_idx (scan_slots_for_key c env key h) =
      (True, sc_selected_cek (scan_slots_for_key c env key h))"
    using xs(1) sc x by (simp add: nth_append)
qed

lemma scan_conflict:
  assumes "sc_cek_conflict (scan_slots_for_key c env key h)"
  shows "\<exists>a b. (True, a) \<in> set (slot_candidates c env key) \<and> (True, b) \<in> set (slot_candidates c env key) \<and>
    a \<noteq> b \<and> slots_mac_bit c a h (env_slots_mac env) \<and> slots_mac_bit c b h (env_slots_mac env)"
proof -
  obtain ys x zs z where xs: "slot_candidates c env key = ys @ x # zs" "z \<in> set zs" "snd z \<noteq> snd x"
    "slot_accepted c h (env_slots_mac env) x" "slot_accepted c h (env_slots_mac env) z"
    using assms scan_loop_spec [of "slot_candidates c env key" c h "env_slots_mac env"]
    by (auto simp: scan_slots_for_key_def scan_start_def)
  then have "(True, snd x) \<in> set (slot_candidates c env key)" "(True, snd z) \<in> set (slot_candidates c env key)"
    by (cases x; cases z; auto simp: slot_accepted_def)+
  with xs(3-5) show ?thesis by (auto simp: slot_accepted_def)
qed

section \<open>The contract between a producer's slot and a verifier's candidate\<close>

text \<open>
  \<open>seal\<close> takes the recipient's public key, the encapsulation randomness, the CEK and the envelope
  nonce; \<open>candidate\<close> the slot, the secret key, its public key and the nonce. The laws are what sealing
  and opening rest on, for either KEM: the recipient's own slot opens to the CEK, and slots have fixed
  lengths.
\<close>

locale slot_scheme =
  fixes laws :: bool
    and rand_len material_len :: nat
    and public :: "bytes \<Rightarrow> bytes"
    and seal :: "bytes \<Rightarrow> bytes \<Rightarrow> bytes \<Rightarrow> bytes \<Rightarrow> EciesSealedPoeErrorCode + 'slot"
    and material wrapped :: "'slot \<Rightarrow> bytes"
    and candidate :: "'slot \<Rightarrow> bytes \<Rightarrow> bytes \<Rightarrow> bytes \<Rightarrow> bool \<times> bytes"
  assumes own_slot_opens: "\<lbrakk>laws; length sk = 32; length r = rand_len; length cek = CEK_LENGTH;
      seal (public sk) r cek nonce = Inr slot\<rbrakk> \<Longrightarrow> candidate slot sk (public sk) nonce = (True, cek)"
    and slot_lengths: "\<lbrakk>laws; length r = rand_len; length cek = CEK_LENGTH; seal pub r cek nonce = Inr slot\<rbrakk> \<Longrightarrow>
      length (material slot) = material_len \<and> length (wrapped slot) = WRAP_LENGTH"
begin

definition sealed_to :: "bytes list \<Rightarrow> bytes \<Rightarrow> bytes \<Rightarrow> 'slot list \<Rightarrow> bool" where
  "sealed_to pubs cek nonce slots \<longleftrightarrow>
     list_all2 (\<lambda>pub slot. \<exists>r. length r = rand_len \<and> seal pub r cek nonce = Inr slot) pubs slots"

text \<open>Whatever the order of the slots, every recipient finds the CEK.\<close>

lemma recipient_finds_cek:
  assumes "laws" "length sk = 32" "length cek = CEK_LENGTH" "sealed_to pubs cek nonce slots"
    and "public sk \<in> set pubs" "mset slots' = mset slots"
  shows "(True, cek) \<in> set (map (\<lambda>slot. candidate slot sk (public sk) nonce) slots')"
proof -
  obtain i where i: "i < length pubs" "pubs ! i = public sk" using assms(5) by (auto simp: in_set_conv_nth)
  then obtain r where "length r = rand_len" "seal (public sk) r cek nonce = Inr (slots ! i)"
    using assms(4) by (auto simp: sealed_to_def list_all2_conv_all_nth)
  then have "candidate (slots ! i) sk (public sk) nonce = (True, cek)" using own_slot_opens assms(1-3) by blast
  moreover have "slots ! i \<in> set slots'"
    using i(1) assms(4) mset_eq_setD [OF assms(6)] by (auto simp: sealed_to_def list_all2_lengthD)
  ultimately show ?thesis by force
qed

lemma sealed_lengths:
  assumes "laws" "length cek = CEK_LENGTH" "sealed_to pubs cek nonce slots" "mset slots' = mset slots"
  shows "list_all (\<lambda>s. length (material s) = material_len \<and> length (wrapped s) = WRAP_LENGTH) slots'"
    and "length slots' = length pubs"
proof -
  have "\<exists>pub r. length r = rand_len \<and> seal pub r cek nonce = Inr s" if "s \<in> set slots'" for s
    using that assms(3) mset_eq_setD [OF assms(4)]
    unfolding sealed_to_def list_all2_conv_all_nth by (metis in_set_conv_nth)
  then show "list_all (\<lambda>s. length (material s) = material_len \<and> length (wrapped s) = WRAP_LENGTH) slots'"
    unfolding list_all_iff using slot_lengths [OF assms(1) _ assms(2)] by blast
  show "length slots' = length pubs"
    using assms(3) mset_eq_length [OF assms(4)] by (simp add: sealed_to_def list_all2_lengthD)
qed

end

lemma wrap_open_sealed:
  assumes "crypto_laws c" "length cek = CEK_LENGTH"
  shows "wrap_open_or_dummy c kek ad (chacha20_poly1305_encrypt c kek ZERO_NONCE_12 ad cek) = (True, cek)"
  using assms(2) by (simp add: wrap_open_or_dummy_def aead_open_seal [OF crypto_lawsD(4) [OF assms(1)]])

lemma wrapped_length: "crypto_laws c \<Longrightarrow> length cek = CEK_LENGTH \<Longrightarrow>
    length (chacha20_poly1305_encrypt c kek n ad cek) = WRAP_LENGTH"
  by (simp add: crypto_laws_def aead_laws_def chacha20_poly1305_encrypt_def seal_lengths TAG_SIZE_def)

lemma x25519_public_length: "x25519_laws c \<Longrightarrow> length sk = 32 \<Longrightarrow> length (expect (x25519_public_key c sk)) = 32"
  by (simp add: x25519_public_key_def x25519_key_def to_array32_def x25519_laws_def)

interpretation x25519_slots: slot_scheme "crypto_laws c" X25519_KEY_LENGTH X25519_KEY_LENGTH
    "\<lambda>sk. expect (x25519_public_key c sk)" "seal_slot_x25519 c" xs_epk xs_wrap "x25519_slot_candidate c" for c
proof unfold_locales
  fix sk r cek nonce and slot :: X25519Slot
  assume laws: "crypto_laws c" and len: "length sk = 32" "length r = X25519_KEY_LENGTH" "length cek = CEK_LENGTH"
    and seal: "seal_slot_x25519 c (expect (x25519_public_key c sk)) r cek nonce = Inr slot"
  obtain ss where ss: "x25519_ecdh c r (expect (x25519_public_key c sk)) = Inr ss"
    using seal by (auto simp: seal_slot_x25519_def Let_def split: sum.splits)
  have "x25519_ecdh_unvalidated c sk (expect (x25519_public_key c r)) = Inr (ss, True)"
    using x25519_exchange [OF crypto_lawsD(2) [OF laws] len(1) _ ss] len(2) by (simp add: X25519_KEY_LENGTH_def)
  then show "x25519_slot_candidate c slot sk (expect (x25519_public_key c sk)) nonce = (True, cek)"
    using seal ss wrap_open_sealed [OF laws len(3)]
    by (auto simp: seal_slot_x25519_def x25519_slot_candidate_def Let_def)
next
  fix pub r cek nonce and slot :: X25519Slot
  assume laws: "crypto_laws c" and len: "length r = X25519_KEY_LENGTH" "length cek = CEK_LENGTH"
    and seal: "seal_slot_x25519 c pub r cek nonce = Inr slot"
  then show "length (xs_epk slot) = X25519_KEY_LENGTH \<and> length (xs_wrap slot) = WRAP_LENGTH"
    using x25519_public_length [OF crypto_lawsD(2) [OF laws], of r] wrapped_length [OF laws len(2)]
    by (auto simp: seal_slot_x25519_def Let_def X25519_KEY_LENGTH_def split: sum.splits)
qed

interpretation xwing_slots: slot_scheme "crypto_laws c" MLKEM768X25519_ESEED_LENGTH MLKEM768X25519_ENC_LENGTH
    "\<lambda>sk. expect (mlkem768x25519_public_key_from_seed c sk)"
    "wrap_slot_mlkem768x25519 c" ms_kem_ct ms_wrap "mlkem768x25519_slot_candidate c" for c
proof unfold_locales
  fix sk r cek nonce and slot :: Mlkem768X25519Slot
  assume laws: "crypto_laws c" and len: "length sk = 32" "length r = MLKEM768X25519_ESEED_LENGTH" "length cek = CEK_LENGTH"
    and seal: "wrap_slot_mlkem768x25519 c (expect (mlkem768x25519_public_key_from_seed c sk)) r cek nonce = Inr slot"
  obtain e where e: "mlkem768x25519_encapsulate c (expect (mlkem768x25519_public_key_from_seed c sk)) r = Inr e"
    using seal by (auto simp: wrap_slot_mlkem768x25519_def split: sum.splits)
  show "mlkem768x25519_slot_candidate c slot sk (expect (mlkem768x25519_public_key_from_seed c sk)) nonce = (True, cek)"
    using seal e xwing_exchange(1) [OF crypto_lawsD(2) [OF laws] crypto_lawsD(3) [OF laws] crypto_lawsD(1) [OF laws] len(1) e] wrap_open_sealed [OF laws len(3)]
    by (auto simp: wrap_slot_mlkem768x25519_def mlkem768x25519_slot_candidate_def Let_def)
next
  fix pub r cek nonce and slot :: Mlkem768X25519Slot
  assume laws: "crypto_laws c" and len: "length r = MLKEM768X25519_ESEED_LENGTH" "length cek = CEK_LENGTH"
    and seal: "wrap_slot_mlkem768x25519 c pub r cek nonce = Inr slot"
  then obtain e where e: "mlkem768x25519_encapsulate c pub r = Inr e" "ms_kem_ct slot = xw_enc e"
    "length (ms_wrap slot) = WRAP_LENGTH"
    using wrapped_length [OF laws len(2)] by (auto simp: wrap_slot_mlkem768x25519_def Let_def split: sum.splits)
  then have "length (xw_enc e) = MLKEM768X25519_ENC_LENGTH"
    using mlkem_ct_length [OF crypto_lawsD(3) [OF laws]] crypto_lawsD(2) [OF laws]
    by (auto simp: mlkem768x25519_encapsulate_def Let_def x25519_laws_def kem_lengths
        split: if_splits option.splits)
  with e show "length (ms_kem_ct slot) = MLKEM768X25519_ENC_LENGTH \<and> length (ms_wrap slot) = WRAP_LENGTH" by simp
qed

end
