(* ===== verification/Sealed_Promises.thy ===== *)
theory Sealed_Promises
  imports Sealed_Unwrap
begin

text \<open>
  What sealing and opening guarantee together: every recipient of an envelope reads the plaintext, an
  envelope that opens is authentic, a transcript cannot be moved to other content, and what the producer
  can emit the verifier admits up to its size bounds. Where a guarantee rests on the strength of a digest
  the theorem exhibits the two inputs of the collision.
\<close>

section \<open>What a successful wrap is\<close>

definition wrap_kem :: "WrapArgs \<Rightarrow> SealedKem" where
  "wrap_kem args = (case wa_kem args of None \<Rightarrow> KemX25519 | Some k \<Rightarrow> k)"

fun recipient_public_key :: "crypto \<Rightarrow> SealedKem \<Rightarrow> bytes \<Rightarrow> bytes" where
  "recipient_public_key c KemX25519 sk = expect (x25519_public_key c sk)"
| "recipient_public_key c KemMlkem768X25519 sk = expect (mlkem768x25519_public_key_from_seed c sk)"

fun slots_sealed :: "crypto \<Rightarrow> SealedKem \<Rightarrow> bytes list \<Rightarrow> bytes \<Rightarrow> bytes \<Rightarrow> SealedSlots \<Rightarrow> bool" where
  "slots_sealed c KemX25519 pubs cek nonce (X25519 s) \<longleftrightarrow>
     (\<exists>s0. x25519_slots.sealed_to c pubs cek nonce s0 \<and> mset s = mset s0)"
| "slots_sealed c KemMlkem768X25519 pubs cek nonce (Mlkem768X25519 s) \<longleftrightarrow>
     (\<exists>s0. xwing_slots.sealed_to c pubs cek nonce s0 \<and> mset s = mset s0)"
| "slots_sealed c _ pubs cek nonce _ \<longleftrightarrow> False"

lemma override_or_fill_length:
  "override_or_fill fill len err override s = Some (Inr b, s') \<Longrightarrow> rng_fills fill \<Longrightarrow> length b = len"
  by (auto simp: override_or_fill_def run_simps rng_fills_def split: option.splits if_splits)

lemma wrap_slot_x25519_Inr:
  assumes "wrap_slot_x25519 c fill pub_r eph cek nonce s = Some (Inr slot, s')" "rng_fills fill"
  shows "\<exists>r. length r = X25519_KEY_LENGTH \<and> seal_slot_x25519 c pub_r r cek nonce = Inr slot"
  using assms by (fastforce simp: wrap_slot_x25519_def run_simps rng_fills_def split: option.splits if_splits)

lemma check_recipients_counts:
  assumes "check_recipients kem args = Inr ()"
  shows "wa_recipient_public_keys args \<noteq> []"
    and "kem = KemX25519 \<Longrightarrow> (case wa_ephemeral_secrets args of None \<Rightarrow> True
           | Some es \<Rightarrow> length es = length (wa_recipient_public_keys args))"
    and "kem = KemMlkem768X25519 \<Longrightarrow> (case wa_eseeds args of None \<Rightarrow> True
           | Some es \<Rightarrow> length es = length (wa_recipient_public_keys args) \<and>
               list_all (\<lambda>e. length e = MLKEM768X25519_ESEED_LENGTH) es)"
    and "list_all (\<lambda>p. length p = expected_pub_len kem) (wa_recipient_public_keys args)"
  using assms by (auto simp: check_recipients_def check_overrides_def Let_def list_all_iff list_ex_iff
      split: if_splits option.splits)

lemma list_all2_map_fst: "list_all2 P (map fst xs) ys \<longleftrightarrow> list_all2 (\<lambda>x y. P (fst x) y) xs ys"
  by (simp add: list.rel_map)

lemma wrap_slots_X25519:
  assumes w: "wrap_slots c fill KemX25519 args cek nonce s = Some (Inr slots, s')" and rng: "rng_fills fill"
    and ck: "check_recipients KemX25519 args = Inr ()"
  shows "\<exists>ss. slots = X25519 ss \<and> x25519_slots.sealed_to c (wa_recipient_public_keys args) cek nonce ss"
proof -
  let ?over = "overrides_for (wa_ephemeral_secrets args) (wa_recipient_public_keys args)"
  obtain ss s1 where ss: "slots = X25519 ss"
    and m: "run_map (\<lambda>(pub_r, priv_eph). wrap_slot_x25519 c fill pub_r priv_eph cek nonce) ?over s = Some (Inr ss, s1)"
    using w by (auto simp: wrap_slots_def run_simps)
  from run_map_Inr [OF m]
  have "list_all2 (\<lambda>x slot. \<exists>r. length r = X25519_KEY_LENGTH \<and> seal_slot_x25519 c (fst x) r cek nonce = Inr slot) ?over ss"
    by (rule list_all2_mono) (auto dest: wrap_slot_x25519_Inr [OF _ rng] simp: case_prod_unfold)
  then have "x25519_slots.sealed_to c (map fst ?over) cek nonce ss"
    by (simp add: x25519_slots.sealed_to_def list_all2_map_fst)
  then show ?thesis using overrides_for_fst check_recipients_counts(2) [OF ck] ss by simp
qed

lemma wrap_slots_Mlkem:
  assumes w: "wrap_slots c fill KemMlkem768X25519 args cek nonce s = Some (Inr slots, s')" and rng: "rng_fills fill"
    and ck: "check_recipients KemMlkem768X25519 args = Inr ()"
  shows "\<exists>ss. slots = Mlkem768X25519 ss \<and> xwing_slots.sealed_to c (wa_recipient_public_keys args) cek nonce ss"
proof -
  let ?over = "overrides_for (wa_eseeds args) (wa_recipient_public_keys args)"
  let ?seal = "\<lambda>(pub_r, eseed). run_bind (case eseed of Some e \<Rightarrow> run_ok e
      | None \<Rightarrow> run_fill fill MLKEM768X25519_ESEED_LENGTH) (\<lambda>e. run_lift (wrap_slot_mlkem768x25519 c pub_r e cek nonce))"
  obtain ss s1 where ss: "slots = Mlkem768X25519 ss" and m: "run_map ?seal ?over s = Some (Inr ss, s1)"
    using w by (auto simp: wrap_slots_def run_simps)
  have es: "length e = MLKEM768X25519_ESEED_LENGTH" if "(p, Some e) \<in> set ?over" for p e
    using that check_recipients_counts(3) [OF ck]
    by (auto simp: overrides_for_def list_all_iff dest: set_zip_rightD split: option.splits)
  have one: "\<exists>r. length r = MLKEM768X25519_ESEED_LENGTH \<and> wrap_slot_mlkem768x25519 c (fst x) r cek nonce = Inr slot"
    if "x \<in> set ?over" "\<exists>s1 s2. ?seal x s1 = Some (Inr slot, s2)" for x slot
  proof -
    obtain p e where x: "x = (p, e)" by (cases x)
    have "length (fst (fill n s)) = n" for n s using rng by (simp add: rng_fills_def)
    moreover have "\<exists>r. (e = Some r \<or> (\<exists>s. r = fst (fill MLKEM768X25519_ESEED_LENGTH s))) \<and>
        wrap_slot_mlkem768x25519 c p r cek nonce = Inr slot"
      using that(2) unfolding x by (cases e) (auto simp: run_simps)
    ultimately obtain r where r: "wrap_slot_mlkem768x25519 c p r cek nonce = Inr slot"
      "e = Some r \<or> length r = MLKEM768X25519_ESEED_LENGTH" by auto
    moreover have "e = Some r \<Longrightarrow> length r = MLKEM768X25519_ESEED_LENGTH" using that(1) es unfolding x by blast
    ultimately show ?thesis unfolding x fst_conv by blast
  qed
  from run_map_Inr [OF m]
  have "list_all2 (\<lambda>x slot. \<exists>r. length r = MLKEM768X25519_ESEED_LENGTH \<and>
      wrap_slot_mlkem768x25519 c (fst x) r cek nonce = Inr slot) ?over ss"
    by (rule list.rel_mono_strong) (rule one)
  then have "xwing_slots.sealed_to c (map fst ?over) cek nonce ss"
    by (simp add: xwing_slots.sealed_to_def list_all2_map_fst)
  then show ?thesis using overrides_for_fst check_recipients_counts(3) [OF ck] ss
    by (auto split: option.splits)
qed

lemma wrap_slots_sealed:
  assumes "wrap_slots c fill kem args cek nonce s = Some (Inr slots0, s1)" "rng_fills fill"
    and "check_recipients kem args = Inr ()" "shuffle_slots fill skp slots0 s2 = Some (Inr slots, s3)"
  shows "slots_sealed c kem (wa_recipient_public_keys args) cek nonce slots \<and>
    mset (slot_materials slots) = mset (slot_materials slots0)"
proof (cases kem)
  case KemX25519
  then obtain ss where ss: "slots0 = X25519 ss"
    "x25519_slots.sealed_to c (wa_recipient_public_keys args) cek nonce ss"
    using wrap_slots_X25519 [OF _ assms(2), of c args cek nonce s slots0 s1] assms(1,3) by auto
  then obtain ss' where "slots = X25519 ss'" "mset ss' = mset ss"
    using assms(4) by (auto simp: shuffle_slots_def run_simps dest!: run_shuffle_mset split: if_splits)
  with ss KemX25519 show ?thesis by auto
next
  case KemMlkem768X25519
  then obtain ss where ss: "slots0 = Mlkem768X25519 ss"
    "xwing_slots.sealed_to c (wa_recipient_public_keys args) cek nonce ss"
    using wrap_slots_Mlkem [OF _ assms(2), of c args cek nonce s slots0 s1] assms(1,3) by auto
  then obtain ss' where "slots = Mlkem768X25519 ss'" "mset ss' = mset ss"
    using assms(4) by (auto simp: shuffle_slots_def run_simps dest!: run_shuffle_mset split: if_splits)
  with ss KemMlkem768X25519 show ?thesis by auto
qed

lemma run_bind_lift: "run_bind (run_lift r) f = (case r of Inl e \<Rightarrow> run_err e | Inr x \<Rightarrow> f x)"
  by (rule ext) (simp add: run_bind_def run_lift_def split: sum.split)

lemma run_case_Inr: "(case r of Inl e \<Rightarrow> run_err e | Inr x \<Rightarrow> f x) s = Some (Inr y, s') \<longleftrightarrow>
    (\<exists>x. r = Inr x \<and> f x s = Some (Inr y, s'))"
  by (simp add: run_lift_def split: sum.split)

lemma wrap_envelope_Inr:
  assumes w: "wrap_envelope_with_rng c args rng s = Some (Inr we, s')" and rng: "rng_fills rng"
  obtains cek hh where "length cek = CEK_LENGTH" "length (env_nonce (we_envelope we)) = NONCE_LENGTH"
    "slots_sealed c (wrap_kem args) (wa_recipient_public_keys args) cek (env_nonce (we_envelope we)) (env_slots (we_envelope we))"
    "distinct (slot_materials (env_slots (we_envelope we)))"
    "item_hashes_hash c (wa_hashes args) = Inr hh"
    "env_scheme (we_envelope we) = 1" "env_aead (we_envelope we) = AEAD_CHACHA20_POLY1305_STREAM64K"
    "env_kem (we_envelope we) = kem_as_str (wrap_kem args)"
    "env_slots_mac (we_envelope we) = compute_slots_mac c cek (envelope_slots_hash c (we_envelope we) hh)"
    "we_payload_key we = slots_payload_key c cek (env_nonce (we_envelope we))"
    "wa_recipient_public_keys args \<noteq> []"
proof -
  obtain cek nonce slots0 slots hh s1 s2 s3 s4 where
    ck: "check_recipients (wrap_kem args) args = Inr ()"
    and cek: "override_or_fill rng CEK_LENGTH InvalidCekLength (wa_cek args) s = Some (Inr cek, s1)"
    and nonce: "override_or_fill rng NONCE_LENGTH NonceLengthMismatch (wa_nonce args) s1 = Some (Inr nonce, s2)"
    and slots0: "wrap_slots c rng (wrap_kem args) args cek nonce s2 = Some (Inr slots0, s3)"
    and uniq: "assert_unique_slot_kem_material slots0 = Inr ()"
    and slots: "shuffle_slots rng (wa_skip_shuffle args) slots0 s3 = Some (Inr slots, s4)"
    and hh: "item_hashes_hash c (wa_hashes args) = Inr hh"
    and we: "we = \<lparr>we_envelope = \<lparr>env_scheme = 1, env_aead = AEAD_CHACHA20_POLY1305_STREAM64K,
        env_kem = kem_as_str (wrap_kem args), env_nonce = nonce, env_slots = slots,
        env_slots_mac = compute_slots_mac c cek (compute_slots_hash c AEAD_CHACHA20_POLY1305_STREAM64K
          (kem_as_str (wrap_kem args)) nonce slots hh)\<rparr>, we_payload_key = slots_payload_key c cek nonce\<rparr>"
    using w unfolding wrap_envelope_with_rng_def wrap_kem_def [symmetric] Let_def run_bind_lift
    by (auto simp only: run_case_Inr run_bind_Inr run_lift_Some sum.inject unit_eq)
  have len: "length cek = CEK_LENGTH" "length nonce = NONCE_LENGTH"
    using override_or_fill_length [OF cek rng] override_or_fill_length [OF nonce rng] by simp_all
  from wrap_slots_sealed [OF slots0 rng ck slots]
  have sealed: "slots_sealed c (wrap_kem args) (wa_recipient_public_keys args) cek nonce slots"
    and ms: "mset (slot_materials slots) = mset (slot_materials slots0)" by simp_all
  have "distinct (slot_materials slots0)"
    using uniq by (simp add: assert_unique_slot_kem_material_def unique_loop_eq split: if_splits)
  then have d: "distinct (slot_materials slots)" using ms by (metis mset_eq_imp_distinct_iff)
  show thesis
    by (rule that [of cek hh])
      (simp_all add: we len sealed d hh envelope_slots_hash_def check_recipients_counts(1) [OF ck])
qed

section \<open>What the verifier's gate admits\<close>

lemma check_x25519_slots_ok: "list_all (\<lambda>s. length (xs_epk s) = X25519_KEY_LENGTH \<and> length (xs_wrap s) = WRAP_LENGTH) ss \<Longrightarrow>
    distinct (map xs_epk ss) \<Longrightarrow> set (map xs_epk ss) \<inter> seen = {} \<Longrightarrow> check_x25519_slots seen ss = Inr ()"
  by (induction ss arbitrary: seen) auto

lemma check_mlkem_slots_ok: "list_all (\<lambda>s. length (ms_kem_ct s) = MLKEM768X25519_ENC_LENGTH \<and> length (ms_wrap s) = WRAP_LENGTH) ss \<Longrightarrow>
    distinct (map ms_kem_ct ss) \<Longrightarrow> set (map ms_kem_ct ss) \<inter> seen = {} \<Longrightarrow> check_mlkem_slots seen ss = Inr ()"
  by (induction ss arbitrary: seen) auto

lemma sealed_slots_admitted:
  assumes laws: "crypto_laws c" and cek: "length cek = CEK_LENGTH"
    and sealed: "slots_sealed c kem pubs cek nonce slots" and dist: "distinct (slot_materials slots)"
  shows "check_slots slots = Inr () \<and> slots_len slots = length pubs \<and>
    per_slot_bytes slots = (case kem of KemX25519 \<Rightarrow> 80 | KemMlkem768X25519 \<Rightarrow> 1168)"
proof (cases slots)
  case (X25519 s)
  with sealed have kem: "kem = KemX25519" by (cases kem) auto
  with sealed X25519 obtain s0 where s0: "x25519_slots.sealed_to c pubs cek nonce s0" "mset s = mset s0" by auto
  from x25519_slots.sealed_lengths [OF laws cek s0] check_x25519_slots_ok [of s "{}"] dist show ?thesis
    by (simp add: X25519 kem seal_lengths)
next
  case (Mlkem768X25519 s)
  with sealed have kem: "kem = KemMlkem768X25519" by (cases kem) auto
  with sealed Mlkem768X25519 obtain s0 where s0: "xwing_slots.sealed_to c pubs cek nonce s0" "mset s = mset s0" by auto
  from xwing_slots.sealed_lengths [OF laws cek s0] check_mlkem_slots_ok [of s "{}"] dist show ?thesis
    by (simp add: Mlkem768X25519 kem seal_lengths kem_lengths)
qed

definition max_recipients :: "SealedKem \<Rightarrow> nat" where
  "max_recipients kem = (case kem of KemX25519 \<Rightarrow> 818 | KemMlkem768X25519 \<Rightarrow> 56)"

lemma wrapped_structure:
  assumes w: "wrap_envelope_with_rng c args rng s = Some (Inr we, s')" and rng: "rng_fills rng" and laws: "crypto_laws c"
    and key: "length sk = X25519_KEY_LENGTH"
  shows "assert_envelope_structure (we_envelope we) None (Some sk) = Inr () \<longleftrightarrow>
    length (wa_recipient_public_keys args) \<le> max_recipients (wrap_kem args)"
proof -
  from wrap_envelope_Inr [OF w rng] obtain cek hh where e: "length cek = CEK_LENGTH"
    "length (env_nonce (we_envelope we)) = NONCE_LENGTH"
    "slots_sealed c (wrap_kem args) (wa_recipient_public_keys args) cek (env_nonce (we_envelope we)) (env_slots (we_envelope we))"
    "distinct (slot_materials (env_slots (we_envelope we)))"
    "env_scheme (we_envelope we) = 1" "env_aead (we_envelope we) = AEAD_CHACHA20_POLY1305_STREAM64K"
    "env_kem (we_envelope we) = kem_as_str (wrap_kem args)"
    "env_slots_mac (we_envelope we) = compute_slots_mac c cek (envelope_slots_hash c (we_envelope we) hh)"
    "wa_recipient_public_keys args \<noteq> []" by metis
  have mac: "length (env_slots_mac (we_envelope we)) = SLOTS_MAC_LENGTH"
    using crypto_lawsD(1) [OF laws] by (simp add: e compute_slots_mac_def Let_def digest_laws_def SLOTS_MAC_LENGTH_def)
  have kem: "kem_as_str k = KEM_X25519 \<or> kem_as_str k = KEM_MLKEM768X25519" for k by (cases k) simp_all
  have "length (wa_recipient_public_keys args) \<noteq> 0" using e(9) by simp
  with sealed_slots_admitted [OF laws e(1,3,4)] kem mac key show ?thesis
    by (cases "wrap_kem args") (auto simp: assert_envelope_structure_def Let_def e(2,5,6,7) MAX_SLOTS_def
        NONCE_LENGTH_def SLOTS_MAC_LENGTH_def MAX_DECODED_ENVELOPE_BYTES_def max_recipients_def)
qed

section \<open>Opening what was sealed\<close>

lemma recipient_candidate:
  assumes "crypto_laws c" "length sk = 32" "length cek = CEK_LENGTH"
    and "slots_sealed c kem pubs cek (env_nonce env) (env_slots env)" "recipient_public_key c kem sk \<in> set pubs"
  shows "(True, cek) \<in> set (slot_candidates c env sk)"
proof (cases "env_slots env")
  case (X25519 s)
  with assms(4) have kem: "kem = KemX25519" by (cases kem) auto
  with assms(4) X25519 obtain s0 where s0: "x25519_slots.sealed_to c pubs cek (env_nonce env) s0" "mset s = mset s0" by auto
  from x25519_slots.recipient_finds_cek [OF assms(1-3) s0(1) _ s0(2)] assms(5) kem show ?thesis
    by (simp add: slot_candidates_def X25519 Let_def)
next
  case (Mlkem768X25519 s)
  with assms(4) have kem: "kem = KemMlkem768X25519" by (cases kem) auto
  with assms(4) Mlkem768X25519 obtain s0 where s0: "xwing_slots.sealed_to c pubs cek (env_nonce env) s0" "mset s = mset s0" by auto
  from xwing_slots.recipient_finds_cek [OF assms(1-3) s0(1) _ s0(2)] assms(5) kem show ?thesis
    by (simp add: slot_candidates_def Mlkem768X25519 Let_def)
qed

text \<open>Two content keys recovered from one envelope that authenticate one transcript.\<close>

definition cek_collision :: "crypto \<Rightarrow> SealedEnvelope \<Rightarrow> bytes \<Rightarrow> bytes \<Rightarrow> bool" where
  "cek_collision c env sk slots_hash \<longleftrightarrow> (\<exists>a b. (True, a) \<in> set (slot_candidates c env sk) \<and>
     (True, b) \<in> set (slot_candidates c env sk) \<and> a \<noteq> b \<and>
     compute_slots_mac c a slots_hash = compute_slots_mac c b slots_hash)"

lemma slots_mac_bit_eq: "slots_mac_bit c cek h mac \<longleftrightarrow> compute_slots_mac c cek h = mac"
  by (simp add: slots_mac_bit_def compute_slots_mac_def Let_def)

lemma scan_single_sealed:
  assumes "(True, cek) \<in> set (slot_candidates c env sk)" "env_slots_mac env = compute_slots_mac c cek h"
    and "\<not> cek_collision c env sk h"
  shows "scan_single c env sk h = Accepted cek"
proof -
  let ?s = "scan_slots_for_key c env sk h"
  have found: "sc_found ?s" unfolding scan_found_iff
    using assms(1,2) by (intro bexI [of _ "(True, cek)"]) (simp_all add: slot_accepted_def slots_mac_bit_eq)
  have same: "a = b" if "(True, a) \<in> set (slot_candidates c env sk)" "(True, b) \<in> set (slot_candidates c env sk)"
    "slots_mac_bit c a h (env_slots_mac env)" "slots_mac_bit c b h (env_slots_mac env)" for a b
    using assms(3) that unfolding cek_collision_def slots_mac_bit_eq by metis
  have "\<not> sc_cek_conflict ?s" using scan_conflict [of c env sk h] same by blast
  moreover have "sc_selected_cek ?s = cek"
    using same [OF scan_selected(1) [OF found] assms(1) scan_selected(2) [OF found]] assms(2)
    by (simp add: slots_mac_bit_eq)
  ultimately show ?thesis using found by (simp add: scan_single_def Let_def)
qed

lemma payload_key_length: "crypto_laws c \<Longrightarrow> length (slots_payload_key c cek nonce) = 32"
  by (simp add: slots_payload_key_def crypto_lawsD(1))

lemma wrap_with_rng_Inr:
  assumes "ecies_sealed_poe_wrap_with_rng c args rng s = Some (Inr out, s')"
  obtains we s1 where "wrap_envelope_with_rng c args rng s = Some (Inr we, s1)" "so_envelope out = we_envelope we"
    "stream_seal (aead_encrypt c) (we_payload_key we) (wa_plaintext args) = Some (so_ciphertext out)"
  using assms unfolding ecies_sealed_poe_wrap_with_rng_def run_bind_Inr
  by (auto simp: run_lift_def split: option.splits)

lemma unwrap_Some:
  assumes "crypto_laws c"
  shows "\<exists>r. ecies_sealed_poe_unwrap c env ct hashes keys = Some r"
proof -
  have "stream_open (aead_decrypt c) (slots_payload_key c cek n) ct \<noteq> None" for cek n
    using payload_key_length [OF assms]
    by (simp add: stream_open_def opener_new_def payload_key_array_def PAYLOAD_KEY_LENGTH_def split: sum.split)
  then show ?thesis
    by (auto simp: ecies_sealed_poe_unwrap_def Let_def split: sum.split KeyLoopOutcome.split UnwrapKeys.split)
qed

text \<open>The keys a caller offers, and what the key loop returns.\<close>

fun offered_keys :: "SealedEnvelope \<Rightarrow> UnwrapKeys \<Rightarrow> bytes list" where
  "offered_keys env (Single k) = [k]"
| "offered_keys env (Multi ks) = ks"
| "offered_keys env (Bundle b) = select_bundle_secrets env b"

lemma scan_keys_loop_single: "scan_keys_loop c env h False [key] = scan_single c env key h"
  by (simp add: scan_single_def Let_def)

lemma scan_keys_accepted:
  "scan_keys_loop c env h a keys = Accepted cek \<Longrightarrow> \<exists>key\<in>set keys.
     (True, cek) \<in> set (slot_candidates c env key) \<and> compute_slots_mac c cek h = env_slots_mac env"
  by (induction c env h a keys rule: scan_keys_loop.induct)
    (auto simp: Let_def slots_mac_bit_eq split: if_splits dest: scan_selected(1,2))

lemma content_verdict: "(case r of Inl e \<Rightarrow> NotMatched x | Inr q \<Rightarrow> Matched q) = Matched p \<longleftrightarrow> r = Inr p"
  by (cases r) auto

lemma unwrap_Matched:
  assumes "ecies_sealed_poe_unwrap c env ct hashes keys = Some (Inr (Matched p))"
  obtains hh cek where "item_hashes_hash c hashes = Inr hh"
    "scan_keys_loop c env (envelope_slots_hash c env hh) False (offered_keys env keys) = Accepted cek"
    "stream_open (aead_decrypt c) (slots_payload_key c cek (env_nonce env)) ct = Some (Inr p)"
  using assms
  by (cases keys) (auto simp: ecies_sealed_poe_unwrap_def Let_def scan_keys_def and_then_Inr_iff
      content_verdict scan_keys_loop_single [symmetric] simp del: scan_keys_loop.simps
      split: sum.splits KeyLoopOutcome.splits if_splits)

lemma trial_Match:
  "trial_loop c env h keys = Match i cek \<Longrightarrow> \<exists>key\<in>set keys. i < slots_len (env_slots env) \<and>
     slot_candidates c env key ! i = (True, cek) \<and> compute_slots_mac c cek h = env_slots_mac env"
  by (induction c env h keys rule: trial_loop.induct)
    (auto simp: Let_def slots_mac_bit_eq split: if_splits dest: scan_selected(2-4))

section \<open>Properties\<close>

text \<open>
  C4: Every recipient of an envelope that the verifier admits reads the content. Whatever the generator,
  the slot order and the other recipients, the envelope and ciphertext that sealing returns open to the
  plaintext under the 32-byte secret key of any recipient, if there are at most \<open>max_recipients\<close> of them
  (818 for X25519, 56 for the hybrid KEM; what is sealed to more opens for nobody, see
  \<open>wrapped_envelope_admitted\<close>), plaintext and ciphertext fit a \<open>usize\<close> and the crates obey
  \<open>crypto_laws\<close>; the only way out is two content keys in the envelope's slots with one MAC on one
  transcript.
\<close>

theorem sealed_envelope_opens:
  assumes laws: "crypto_laws c" and rng: "rng_fills rng"
    and wrap: "ecies_sealed_poe_wrap_with_rng c args rng s = Some (Inr out, s')"
    and len: "length (wa_plaintext args) < usize_limit" "length (so_ciphertext out) < usize_limit"
    and sk: "length sk = X25519_KEY_LENGTH"
      "recipient_public_key c (wrap_kem args) sk \<in> set (wa_recipient_public_keys args)"
    and count: "length (wa_recipient_public_keys args) \<le> max_recipients (wrap_kem args)"
  shows "ecies_sealed_poe_unwrap c (so_envelope out) (so_ciphertext out) (wa_hashes args) (Single sk) =
      Some (Inr (Matched (wa_plaintext args))) \<or>
    cek_collision c (so_envelope out) sk
      (envelope_slots_hash c (so_envelope out) (expect (item_hashes_hash c (wa_hashes args))))"
proof -
  from wrap_with_rng_Inr [OF wrap] obtain we s1 where we: "wrap_envelope_with_rng c args rng s = Some (Inr we, s1)"
    and out: "so_envelope out = we_envelope we"
    and ct: "stream_seal (aead_encrypt c) (we_payload_key we) (wa_plaintext args) = Some (so_ciphertext out)" by metis
  let ?env = "we_envelope we"
  from wrap_envelope_Inr [OF we rng] obtain cek hh where cek: "length cek = CEK_LENGTH"
    and sealed: "slots_sealed c (wrap_kem args) (wa_recipient_public_keys args) cek (env_nonce ?env) (env_slots ?env)"
    and hh: "item_hashes_hash c (wa_hashes args) = Inr hh"
    and mac: "env_slots_mac ?env = compute_slots_mac c cek (envelope_slots_hash c ?env hh)"
    and pk: "we_payload_key we = slots_payload_key c cek (env_nonce ?env)" by metis
  have sk32: "length sk = 32" using sk(1) by (simp add: X25519_KEY_LENGTH_def)
  have gate: "assert_envelope_structure ?env None (Some sk) = Inr ()"
    using wrapped_structure [OF we rng laws sk(1)] count by simp
  have op: "stream_open (aead_decrypt c) (slots_payload_key c cek (env_nonce ?env)) (so_ciphertext out) =
      Some (Inr (wa_plaintext args))"
    using stream_open_iff_seal [OF crypto_lawsD(4) [OF laws] payload_key_length [OF laws] len(2,1)] ct pk by simp
  show ?thesis
  proof (cases "cek_collision c ?env sk (envelope_slots_hash c ?env hh)")
    case True
    then show ?thesis by (simp add: out hh)
  next
    case False
    from scan_single_sealed [OF recipient_candidate [OF laws sk32 cek sealed sk(2)] mac False]
    have "scan_single c ?env sk (envelope_slots_hash c ?env hh) = Accepted cek" .
    then show ?thesis by (simp add: ecies_sealed_poe_unwrap_def Let_def out hh gate op)
  qed
qed

text \<open>
  C5: An envelope that opens is authentic: the plaintext comes from a slot of the envelope that opened
  under an offered key, the content key it holds authenticates the whole header together with the item's
  hashes, and the ciphertext is exactly the sealing of the returned plaintext under that key.
\<close>

theorem opened_envelope_authentic:
  assumes laws: "crypto_laws c" and ok: "ecies_sealed_poe_unwrap c env ct hashes keys = Some (Inr (Matched p))"
    and len: "length ct < usize_limit" "length p < usize_limit"
  shows "\<exists>sk cek hh. sk \<in> set (offered_keys env keys) \<and> (True, cek) \<in> set (slot_candidates c env sk) \<and>
    item_hashes_hash c hashes = Inr hh \<and>
    compute_slots_mac c cek (envelope_slots_hash c env hh) = env_slots_mac env \<and>
    stream_seal (aead_encrypt c) (slots_payload_key c cek (env_nonce env)) p = Some ct"
proof -
  from unwrap_Matched [OF ok] obtain hh cek where hh: "item_hashes_hash c hashes = Inr hh"
    and cek: "scan_keys_loop c env (envelope_slots_hash c env hh) False (offered_keys env keys) = Accepted cek"
    and op: "stream_open (aead_decrypt c) (slots_payload_key c cek (env_nonce env)) ct = Some (Inr p)" by metis
  have "stream_seal (aead_encrypt c) (slots_payload_key c cek (env_nonce env)) p = Some ct"
    using stream_open_iff_seal [OF crypto_lawsD(4) [OF laws] payload_key_length [OF laws] len] op by blast
  with scan_keys_accepted [OF cek] hh show ?thesis by blast
qed

text \<open>
  C20: A content key commits to one header and one set of hashes. If two envelopes, opened for two hash
  claims, yield the same content key and carry the same MAC, then they agree in every field the
  transcript covers, slots in order included, and the claims are equal; otherwise the theorem exhibits a
  collision of HMAC or of SHA-256 on the two transcripts or the two encoded claims.
\<close>

theorem content_key_binds_header:
  assumes m: "ecies_sealed_poe_trial_decrypt c env hashes keys = Inr (Match i cek)"
      "ecies_sealed_poe_trial_decrypt c env' hashes' keys' = Inr (Match i' cek)"
    and mac: "env_slots_mac env = env_slots_mac env'"
    and wf: "hash_map_wf hashes" "hash_map_wf hashes'"
      "header_wf (env_aead env) (env_kem env) (env_nonce env) (env_slots env) hh"
      "header_wf (env_aead env') (env_kem env') (env_nonce env') (env_slots env') hh'"
    and hh: "item_hashes_hash c hashes = Inr hh" "item_hashes_hash c hashes' = Inr hh'"
    and len: "length (expect (encode_canonical_cbor (hashes_cbor hashes))) < usize_limit"
      "length (slots_transcript_bytes (env_aead env) (env_kem env) (env_nonce env) (env_slots env) hh) < usize_limit"
  shows "env_aead env = env_aead env' \<and> env_kem env = env_kem env' \<and> env_nonce env = env_nonce env' \<and>
      env_slots env = env_slots env' \<and> hashes = hashes' \<or>
    (let h = envelope_slots_hash c env hh; h' = envelope_slots_hash c env' hh';
         t = CARDANO_POE_HASH_PREFIX_SLOTS_TRANSCRIPT @
           slots_transcript_bytes (env_aead env) (env_kem env) (env_nonce env) (env_slots env) hh;
         t' = CARDANO_POE_HASH_PREFIX_SLOTS_TRANSCRIPT @
           slots_transcript_bytes (env_aead env') (env_kem env') (env_nonce env') (env_slots env') hh';
         e = CARDANO_POE_HASH_PREFIX_ITEM_HASHES @ expect (encode_canonical_cbor (hashes_cbor hashes));
         e' = CARDANO_POE_HASH_PREFIX_ITEM_HASHES @ expect (encode_canonical_cbor (hashes_cbor hashes'))
     in (h \<noteq> h' \<and> compute_slots_mac c cek h = compute_slots_mac c cek h') \<or>
        (t \<noteq> t' \<and> sha256 c t = sha256 c t') \<or> (e \<noteq> e' \<and> sha256 c e = sha256 c e'))"
proof -
  have trial: "slots_len (env_slots e) \<noteq> 0 \<and> compute_slots_mac c cek (envelope_slots_hash c e x) = env_slots_mac e"
    if "ecies_sealed_poe_trial_decrypt c e y ks = Inr (Match j cek)" "item_hashes_hash c y = Inr x" for e x y ks j
    using that trial_Match [of c e "envelope_slots_hash c e x"]
    by (fastforce simp: ecies_sealed_poe_trial_decrypt_def Let_def res_simps split: if_splits)
  note t = trial [OF m(1) hh(1)] trial [OF m(2) hh(2)]
  have h: "envelope_slots_hash c e x = sha256 c (CARDANO_POE_HASH_PREFIX_SLOTS_TRANSCRIPT @
      slots_transcript_bytes (env_aead e) (env_kem e) (env_nonce e) (env_slots e) x)" for e x
    by (simp add: envelope_slots_hash_def compute_slots_hash_def labelled_sha256_def)
  have e: "x = sha256 c (CARDANO_POE_HASH_PREFIX_ITEM_HASHES @ expect (encode_canonical_cbor (hashes_cbor y)))"
    if "item_hashes_hash c y = Inr x" for x y
    using that by (auto simp: item_hashes_hash_def labelled_sha256_def Let_def split: if_splits)
  show ?thesis
    using slots_transcript_inj [OF wf(3,4) _ len(2)] hashes_cbor_inj [OF wf(1,2) _ len(1)] t mac
      e [OF hh(1)] e [OF hh(2)]
    unfolding Let_def h by (metis same_append_eq)
qed

text \<open>
  C21: What sealing emits, the verifier's gate admits, up to 818 classical or 56 hybrid recipients: the
  gate's bound on the envelope's size, which the producer does not check, is the only one that can refuse.
\<close>

theorem wrapped_envelope_admitted:
  assumes "ecies_sealed_poe_wrap_with_rng c args rng s = Some (Inr out, s')" "rng_fills rng" "crypto_laws c"
    and "length sk = X25519_KEY_LENGTH"
  shows "assert_envelope_structure (so_envelope out) None (Some sk) = Inr () \<longleftrightarrow>
    length (wa_recipient_public_keys args) \<le> max_recipients (wrap_kem args)"
  using wrap_with_rng_Inr [OF assms(1)] wrapped_structure [OF _ assms(2-4)] by metis

text \<open>
  The operating system's generator without the fallback: what it returns, or an arbitrary value when it
  fails.
\<close>

definition os_fill :: "(nat \<Rightarrow> 's \<Rightarrow> bytes option \<times> 's) \<Rightarrow> 's rng" where
  "os_fill getrandom n s = (case getrandom n s of (buf, s') \<Rightarrow> (the buf, s'))"

text \<open>
  A step of the producer is clean if a failure, once flagged, stays flagged, and a run that ends
  unflagged is a run on the generator itself.
\<close>

definition clean_step :: "('s \<times> bool, 'a) run \<Rightarrow> ('s, 'a) run \<Rightarrow> bool" where
  "clean_step m m' \<longleftrightarrow> (\<forall>s f r s' f'. m (s, f) = Some (r, (s', f')) \<longrightarrow>
     (f \<longrightarrow> f') \<and> (\<not> f' \<longrightarrow> m' s = Some (r, s')))"

named_theorems clean_intros \<open>steps that only use the generator's own bytes\<close>

lemma clean_lift [clean_intros]: "clean_step (run_lift r) (run_lift r)"
  by (simp add: clean_step_def run_lift_def)

lemma clean_fill [clean_intros]: "clean_step (run_fill (secure_fill g) n) (run_fill (os_fill g) n)"
  by (auto simp: clean_step_def run_fill_def secure_fill_def os_fill_def split: prod.splits option.splits if_splits)

lemma clean_stepD: "clean_step m m' \<Longrightarrow> m (s, f) = Some (r, (s', f')) \<Longrightarrow> (f \<longrightarrow> f') \<and> (\<not> f' \<longrightarrow> m' s = Some (r, s'))"
  unfolding clean_step_def by blast

lemma clean_bind [clean_intros]:
  assumes "clean_step m m'" "\<And>x. clean_step (f x) (f' x)"
  shows "clean_step (run_bind m f) (run_bind m' f')"
  unfolding clean_step_def
proof (intro allI impI)
  fix s b r s' b'
  assume run: "run_bind m f (s, b) = Some (r, (s', b'))"
  then obtain r1 s1 b1 where m: "m (s, b) = Some (r1, (s1, b1))"
    by (auto simp: run_bind_def split: option.splits)
  then have mono: "b \<longrightarrow> b1" and m': "\<not> b1 \<longrightarrow> m' s = Some (r1, s1)"
    using clean_stepD [OF assms(1) m] by simp_all
  show "(b \<longrightarrow> b') \<and> (\<not> b' \<longrightarrow> run_bind m' f' s = Some (r, s'))"
  proof (cases r1)
    case (Inl e)
    then show ?thesis using run m mono m' by (auto simp: run_bind_def)
  next
    case (Inr x)
    then have "f x (s1, b1) = Some (r, (s', b'))" using run m by (simp add: run_bind_def)
    then have "(b1 \<longrightarrow> b') \<and> (\<not> b' \<longrightarrow> f' x s1 = Some (r, s'))" 
      by (rule clean_stepD [OF assms(2)])
    then show ?thesis using mono m' Inr by (auto simp: run_bind_def)
  qed
qed

lemma clean_step_if [clean_intros]: "clean_step m m' \<Longrightarrow> clean_step n n' \<Longrightarrow>
    clean_step (if P then m else n) (if P then m' else n')"
  by simp

lemma clean_option [clean_intros]: "clean_step m m' \<Longrightarrow> (\<And>x. clean_step (f x) (f' x)) \<Longrightarrow>
    clean_step (case opt of None \<Rightarrow> m | Some x \<Rightarrow> f x) (case opt of None \<Rightarrow> m' | Some x \<Rightarrow> f' x)"
  by (cases opt) simp_all

lemma clean_prod [clean_intros]: "(\<And>x y. clean_step (f x y) (f' x y)) \<Longrightarrow>
    clean_step (case p of (x, y) \<Rightarrow> f x y) (case p of (x, y) \<Rightarrow> f' x y)"
  by (cases p) simp

lemma clean_kem [clean_intros]: "clean_step m m' \<Longrightarrow> clean_step n n' \<Longrightarrow>
    clean_step (case k of KemX25519 \<Rightarrow> m | KemMlkem768X25519 \<Rightarrow> n)
      (case k of KemX25519 \<Rightarrow> m' | KemMlkem768X25519 \<Rightarrow> n')"
  by (cases k) simp_all

lemma clean_slots [clean_intros]: "(\<And>x. clean_step (f x) (f' x)) \<Longrightarrow> (\<And>x. clean_step (h x) (h' x)) \<Longrightarrow>
    clean_step (case z of X25519 x \<Rightarrow> f x | Mlkem768X25519 x \<Rightarrow> h x)
      (case z of X25519 x \<Rightarrow> f' x | Mlkem768X25519 x \<Rightarrow> h' x)"
  by (cases z) simp_all

lemma clean_none [clean_intros]: "clean_step (\<lambda>s. None) (\<lambda>s. None)"
  by (simp add: clean_step_def)

lemma clean_run_map [clean_intros]:
  "(\<And>x. clean_step (f x) (f' x)) \<Longrightarrow> clean_step (run_map f xs) (run_map f' xs)"
  by (induction xs) (auto intro!: clean_intros)

lemma clean_draw:
  assumes "draw_below (secure_fill g) limit (s, b) = Some (x, (s', b'))"
  shows "(b \<longrightarrow> b') \<and> (\<not> b' \<longrightarrow> draw_below (os_fill g) limit s = Some (x, s'))"
proof -
  have "(snd st \<longrightarrow> snd (snd r)) \<and>
      (\<not> snd (snd r) \<longrightarrow> draw_below (os_fill g) limit (fst st) = Some (fst r, fst (snd r)))"
    if "fill = secure_fill g" "draw_below fill limit st = Some r" for fill limit st r
  proof -
    have "fill = secure_fill g \<longrightarrow> (snd st \<longrightarrow> snd (snd r)) \<and>
        (\<not> snd (snd r) \<longrightarrow> draw_below (os_fill g) limit (fst st) = Some (fst r, fst (snd r)))"
    proof (rule draw_below.raw_induct [where P = "\<lambda>fill limit st r. fill = secure_fill g \<longrightarrow>
        (snd st \<longrightarrow> snd (snd r)) \<and>
        (\<not> snd (snd r) \<longrightarrow> draw_below (os_fill g) limit (fst st) = Some (fst r, fst (snd r)))", OF _ that(2)])
      fix draw fill limit and st :: "'a \<times> bool" and r
      assume IH: "\<And>fill limit (st :: 'a \<times> bool) r. draw fill limit st = Some r \<Longrightarrow> fill = secure_fill g \<longrightarrow>
          (snd st \<longrightarrow> snd (snd r)) \<and>
          (\<not> snd (snd r) \<longrightarrow> draw_below (os_fill g) limit (fst st) = Some (fst r, fst (snd r)))"
        and step: "(let (buf, s') = fill 4 st; x = of_nat (nat_of_be (rev buf))
           in if x < limit then Some (x, s') else draw fill limit s') = Some r"
      show "fill = secure_fill g \<longrightarrow> (snd st \<longrightarrow> snd (snd r)) \<and>
          (\<not> snd (snd r) \<longrightarrow> draw_below (os_fill g) limit (fst st) = Some (fst r, fst (snd r)))"
      proof
        assume g: "fill = secure_fill g"
        obtain buf s1 b1 where f: "fill 4 st = (buf, (s1, b1))" by (metis prod.collapse)
        then have mono: "snd st \<longrightarrow> b1" and clean: "\<not> b1 \<longrightarrow> os_fill g 4 (fst st) = (buf, s1)"
          by (auto simp: g secure_fill_def os_fill_def split: if_splits prod.splits option.splits)
        let ?x = "of_nat (nat_of_be (rev buf)) :: u64"
        show "(snd st \<longrightarrow> snd (snd r)) \<and>
          (\<not> snd (snd r) \<longrightarrow> draw_below (os_fill g) limit (fst st) = Some (fst r, fst (snd r)))"
        proof (cases "?x < limit")
          case True
          then have "r = (?x, (s1, b1))" using step f by (simp add: Let_def)
          then show ?thesis using mono clean True by (subst draw_below.simps) (auto simp: Let_def)
        next
          case False
          then have "draw fill limit (s1, b1) = Some r" using step f by (simp add: Let_def)
          from IH [OF this] g have "(b1 \<longrightarrow> snd (snd r)) \<and>
              (\<not> snd (snd r) \<longrightarrow> draw_below (os_fill g) limit s1 = Some (fst r, fst (snd r)))" by simp
          then show ?thesis using mono clean False by (subst draw_below.simps) (auto simp: Let_def)
        qed
      qed
    qed
    then show ?thesis using that(1) by simp
  qed
  from this [OF refl assms] show ?thesis by simp
qed

lemma clean_index:
  assumes "uniform_index_below (secure_fill g) m (s, b) = Some (j, (s', b'))"
  shows "(b \<longrightarrow> b') \<and> (\<not> b' \<longrightarrow> uniform_index_below (os_fill g) m s = Some (j, s'))"
  using assms clean_draw by (fastforce simp: uniform_index_below_def bind_eq_Some_conv)

lemma clean_shuffle_loop:
  "shuffle_loop (secure_fill g) i arr (s, b) = Some (arr', (s', b')) \<Longrightarrow>
   (b \<longrightarrow> b') \<and> (\<not> b' \<longrightarrow> shuffle_loop (os_fill g) i arr s = Some (arr', s'))"
proof (induction i arbitrary: arr s b)
  case (Suc i)
  then obtain j s1 b1 where j: "uniform_index_below (secure_fill g) (of_nat (Suc i + 1)) (s, b) = Some (j, (s1, b1))"
    and loop: "shuffle_loop (secure_fill g) i (swap_at arr (Suc i) (unat j)) (s1, b1) = Some (arr', (s', b'))"
    by (auto split: option.splits)
  from Suc.IH [OF loop] clean_index [OF j] show ?case by auto
qed simp

lemma clean_run_shuffle [clean_intros]: "clean_step (run_shuffle (secure_fill g) arr) (run_shuffle (os_fill g) arr)"
  using clean_shuffle_loop [of g "length arr - 1" arr]
  by (fastforce simp: clean_step_def run_shuffle_def csprng_shuffle_def split: if_splits)

lemma clean_wrap: "clean_step (ecies_sealed_poe_wrap_with_rng c args (secure_fill g))
    (ecies_sealed_poe_wrap_with_rng c args (os_fill g))"
  unfolding ecies_sealed_poe_wrap_with_rng_def wrap_envelope_with_rng_def Let_def override_or_fill_def
    wrap_slots_def wrap_slot_x25519_def shuffle_slots_def
  by (intro clean_intros)

text \<open>
  C22: Sealing with the operating system's generator never returns an envelope made from the zeros a
  failed read leaves behind: a successful result is exactly the result on the generator's own bytes.
\<close>

theorem secure_wrap_uses_entropy:
  assumes "ecies_sealed_poe_wrap_secure c getrandom args s = Some (Inr out, s')"
  shows "ecies_sealed_poe_wrap_with_rng c args (os_fill getrandom) s = Some (Inr out, s')"
proof -
  have "ecies_sealed_poe_wrap_with_rng c args (secure_fill getrandom) (s, False) = Some (Inr out, (s', False))"
    using assms by (auto simp: ecies_sealed_poe_wrap_secure_def split: option.splits if_splits)
  from clean_stepD [OF clean_wrap this] show ?thesis by simp
qed

lemma ceiling_upper_half:
  assumes "m \<noteq> 0"
  shows "\<exists>limit. uniform_index_ceiling m = Some limit \<and> 2 ^ 31 \<le> unat limit"
proof -
  obtain limit where l: "uniform_index_ceiling m = Some limit" using assms by (simp add: uniform_index_ceiling_def)
  have k: "0 < unat m" "unat m < 2 ^ 32" using assms unsigned_less [of m, where ?'a = nat] by (simp_all add: unat_gt_0)
  have "2 ^ 32 mod unat m \<le> (2 ^ 31 :: nat)"
  proof (cases "unat m \<le> 2 ^ 31")
    case True
    then show ?thesis using mod_less_divisor [OF k(1), of "2 ^ 32"] by linarith
  next
    case False
    then have "2 ^ 32 mod unat m = 2 ^ 32 - unat m" using k(2) by (simp add: mod_if)
    then show ?thesis using False by simp
  qed
  with ceiling_word(1) [OF l] l show ?thesis by simp
qed

text \<open>
  C23: The anonymity shuffle ends whenever the generator keeps producing draws in the lower half of its
  range, whatever else it produces, and what it returns is a permutation of the slots.
\<close>

theorem shuffle_ends:
  assumes draws: "\<And>s. \<exists>k. nth_draw fill k s < 2 ^ 31" and len: "length arr < 2 ^ 32"
  shows "\<exists>arr' s'. csprng_shuffle fill arr s = Some (arr', s') \<and> mset arr' = mset arr"
proof -
  have index: "\<exists>j s'. uniform_index_below fill m t = Some (j, s')" if m: "m \<noteq> 0" for m t
  proof -
    obtain limit where l: "uniform_index_ceiling m = Some limit" "2 ^ 31 \<le> unat limit"
      using ceiling_upper_half [OF m] by blast
    obtain k where "nth_draw fill k t < 2 ^ 31" using draws by blast
    moreover have "(2 ^ 31 :: u64) \<le> limit" using l(2) by (simp add: word_le_nat_alt)
    ultimately have "nth_draw fill k t < limit" by (rule less_le_trans)
    from draw_below_returns [OF this] l(1) show ?thesis by (auto simp: uniform_index_below_def)
  qed
  have loop: "\<exists>r. shuffle_loop fill i xs t = Some r" if "i < 2 ^ 32 - 1" for i xs t
    using that
  proof (induction i arbitrary: xs t)
    case (Suc i)
    then have "unat (of_nat (Suc i + 1) :: 32 word) = Suc i + 1"
      by (simp only: unat_of_nat) simp
    then have "(of_nat (Suc i + 1) :: 32 word) \<noteq> 0" by (metis add_is_0 one_neq_zero unat_0)
    with index obtain j t' where "uniform_index_below fill (of_nat (Suc i + 1)) t = Some (j, t')" by blast
    with Suc show ?case by simp
  qed simp
  have "\<exists>r. csprng_shuffle fill arr s = Some r"
  proof (cases "length arr < 2")
    case False
    then show ?thesis using len loop [of "length arr - 1" arr s] by (simp add: csprng_shuffle_def)
  qed (simp add: csprng_shuffle_def)
  then show ?thesis using csprng_shuffle_mset by (metis prod.collapse)
qed

text \<open>
  The rejection ceiling removes the modulo bias: below it, every index in range is the image of
  equally many draws.
\<close>

theorem shuffle_index_uniform:
  assumes "uniform_index_ceiling m = Some limit" "j < m"
  shows "card {x. x < limit \<and> (ucast (x mod ucast m) :: 32 word) = j} = 2 ^ 32 div unat m"
proof -
  let ?k = "unat m" and ?q = "2 ^ 32 div unat m"
  have l: "unat limit = ?k * ?q" using ceiling_word(1) [OF assms(1)] by (simp add: minus_mod_eq_mult_div)
  have j: "unat j < ?k" using assms(2) by (simp add: word_less_nat_alt)
  have m32: "?k < 2 ^ 32" using unsigned_less [of m, where ?'a = nat] by simp
  have idx: "(ucast (x mod ucast m) :: 32 word) = j \<longleftrightarrow> unat x mod ?k = unat j" for x :: u64
  proof -
    have "unat x mod ?k < 2 ^ 32" using j m32 mod_less_divisor [of ?k "unat x"] by linarith
    moreover have "unat (x mod ucast m) = unat x mod ?k" by (simp only: unat_mod unat_ucast_32_64)
    moreover have "unat (ucast y :: 32 word) = take_bit 32 (unat y)" for y :: u64
      by (simp add: unsigned_ucast_eq)
    ultimately have "unat (ucast (x mod ucast m) :: 32 word) = unat x mod ?k"
      by (simp only: take_bit_nat_eq_self)
    then show ?thesis by (metis unsigned_word_eqI)
  qed
  have "bij_betw unat {x. x < limit \<and> (ucast (x mod ucast m) :: 32 word) = j} {n. n < ?k * ?q \<and> n mod ?k = unat j}"
  proof (intro bij_betwI' )
    fix n assume "n \<in> {n. n < ?k * ?q \<and> n mod ?k = unat j}"
    then have n: "n < unat limit" "n mod ?k = unat j" by (simp_all add: l)
    then have "n < 2 ^ 64" using unsigned_less [of limit, where ?'a = nat] by simp
    then have "unat (of_nat n :: u64) = n" by (simp add: unat_of_nat)
    with n show "\<exists>x\<in>{x. x < limit \<and> (ucast (x mod ucast m) :: 32 word) = j}. n = unat x"
      by (intro bexI [of _ "of_nat n"]) (simp_all add: idx word_less_nat_alt)
  qed (auto simp: idx word_less_nat_alt l intro: unsigned_word_eqI)
  moreover have "{n. n < ?k * ?q \<and> n mod ?k = unat j} = (\<lambda>i. i * ?k + unat j) ` {..<?q}"
  proof (intro set_eqI iffI)
    fix n assume n: "n \<in> {n. n < ?k * ?q \<and> n mod ?k = unat j}"
    then have "n = n div ?k * ?k + unat j" by (metis (mono_tags, lifting) div_mult_mod_eq mem_Collect_eq)
    moreover have "n div ?k < ?q" using n by (simp add: less_mult_imp_div_less mult.commute)
    ultimately show "n \<in> (\<lambda>i. i * ?k + unat j) ` {..<?q}" by blast
  next
    fix n assume "n \<in> (\<lambda>i. i * ?k + unat j) ` {..<?q}"
    then obtain i where i: "i < ?q" "n = i * ?k + unat j" by blast
    then have "n < (i + 1) * ?k" using j by simp
    also have "\<dots> \<le> ?q * ?k" using i(1) by (intro mult_le_mono1) simp
    finally show "n \<in> {n. n < ?k * ?q \<and> n mod ?k = unat j}" using i(2) j by (simp add: mult.commute)
  qed
  moreover have "inj_on (\<lambda>i. i * ?k + unat j) {..<?q}" using j by (auto simp: inj_on_def)
  ultimately show ?thesis by (simp add: bij_betw_same_card card_image)
qed

end
