(* ===== verification/Sealed_Samples.thy ===== *)
theory Sealed_Samples
  imports Sealed_Promises
begin

text \<open>
  Concrete instances for the sealed envelope: primitives that satisfy \<open>crypto_laws\<close> without any
  strength, one envelope sealed to one recipient for either KEM, and the witnesses of the properties.
\<close>

definition xor32 :: "bytes \<Rightarrow> bytes \<Rightarrow> bytes" where
  "xor32 a b = map (\<lambda>i. (if i < length a then a ! i else 0) XOR (if i < length b then b ! i else 0)) [0..<32]"

definition sample_crypto :: crypto where
  "sample_crypto = \<lparr>sha256 = (\<lambda>m. replicate 32 1), hmac_sha256 = (\<lambda>k m. replicate 32 2),
     hkdf_prk = (\<lambda>salt ikm. replicate 32 3), hkdf_okm = (\<lambda>prk info n. replicate n 4),
     aead_encrypt = plain_encrypt, aead_decrypt = plain_decrypt,
     x25519 = xor32, x25519_basepoint = replicate 32 0,
     mlkem_public = (\<lambda>s. replicate 1184 5), mlkem_encaps = (\<lambda>ek m. Some (replicate 1088 6, replicate 32 7)),
     mlkem_decaps = (\<lambda>s ct. replicate 32 7), sha3_256 = (\<lambda>m. replicate 32 8),
     shake256 = (\<lambda>m n. replicate n 9), argon2id = (\<lambda>p s m t q. Some (replicate 32 10))\<rparr>"

lemma xor32_base: "length a = 32 \<Longrightarrow> xor32 a (replicate 32 0) = a"
  by (auto simp: xor32_def intro!: nth_equalityI)

lemma xor32_commute: "xor32 a b = xor32 b a"
  by (auto simp: xor32_def xor.commute)

lemma sample_laws: "crypto_laws sample_crypto"
  by (auto simp: crypto_laws_def digest_laws_def x25519_laws_def mlkem_laws_def sample_crypto_def plain_laws
      kem_lengths xor32_base xor32_commute xor32_def [THEN arg_cong [where f = length]])

definition sample_fill :: "unit rng" where
  "sample_fill n s = (replicate n 7, s)"

lemma sample_fills: "rng_fills sample_fill"
  by (simp add: rng_fills_def sample_fill_def)

definition sample_args :: WrapArgs where
  "sample_args = default_wrap_args\<lparr>wa_plaintext := [1, 2, 3],
     wa_recipient_public_keys := [replicate 32 11], wa_hashes := [(lit ''sha2-256'', replicate 32 12)]\<rparr>"

definition sample_out :: SealedPoeOutput where
  "sample_out = \<lparr>so_envelope = \<lparr>env_scheme = 1, env_aead = AEAD_CHACHA20_POLY1305_STREAM64K,
       env_kem = KEM_X25519, env_nonce = replicate 24 7,
       env_slots = X25519 [\<lparr>xs_epk = replicate 32 7, xs_wrap = replicate 32 7 @ replicate 16 0\<rparr>],
       env_slots_mac = replicate 32 2\<rparr>,
     so_ciphertext = [1, 2, 3] @ replicate 11 0 @ [1, 0, 0, 0, 0]\<rparr>"

lemma sample_simps:
  "sha256 sample_crypto m = replicate 32 1" "hmac_sha256 sample_crypto k m = replicate 32 2"
  "hkdf_okm sample_crypto prk info n = replicate n 4"
  "aead_encrypt sample_crypto = plain_encrypt" "aead_decrypt sample_crypto = plain_decrypt"
  "x25519 sample_crypto = xor32" "x25519_basepoint sample_crypto = replicate 32 0"
  by (simp_all add: sample_crypto_def)

lemma sample_exchange:
  "x25519_public_key sample_crypto (replicate 32 k) = Inr (replicate 32 k)"
  "k \<noteq> j \<Longrightarrow> x25519_ecdh sample_crypto (replicate 32 k) (replicate 32 j) = Inr (replicate 32 (k XOR j))"
proof -
  have x: "xor32 (replicate 32 k) (replicate 32 j) = replicate 32 (k XOR j)" for k j :: u8
    by (auto simp: xor32_def intro!: nth_equalityI)
  show "x25519_public_key sample_crypto (replicate 32 k) = Inr (replicate 32 k)"
    by (simp add: x25519_public_key_def x25519_key_def to_array32_def sample_simps xor32_base)
  have "k XOR j = 0 \<longleftrightarrow> k = j" by (metis xor.assoc xor.right_neutral xor_self_eq)
  then show "k \<noteq> j \<Longrightarrow> x25519_ecdh sample_crypto (replicate 32 k) (replicate 32 j) = Inr (replicate 32 (k XOR j))"
    by (simp add: x25519_ecdh_def x25519_key_def to_array32_def sample_simps x Let_def)
qed

lemma sample_slot:
  assumes "k \<noteq> j"
  shows "seal_slot_x25519 sample_crypto (replicate 32 j) (replicate 32 k) cek nonce =
    Inr \<lparr>xs_epk = replicate 32 k, xs_wrap = cek @ replicate 16 0\<rparr>"
  using assms by (simp add: seal_slot_x25519_def sample_exchange Let_def chacha20_poly1305_encrypt_def
      sample_simps plain_encrypt_def ZERO_NONCE_12_def replicate_add [symmetric])

lemma sample_stream: "stream_seal plain_encrypt (replicate 32 4) [1, 2, 3] = Some ([1, 2, 3] @ replicate 11 0 @ [1, 0, 0, 0, 0])"
  by code_simp

lemma sample_wrapped_by:
  assumes fill: "\<And>n. fill n s = (replicate n 7, s)"
  shows "ecies_sealed_poe_wrap_with_rng sample_crypto sample_args fill s = Some (Inr sample_out, s)"
proof -
  have gate: "check_recipients KemX25519 sample_args = Inr ()"
    by (simp add: check_recipients_def check_overrides_def sample_args_def default_wrap_args_def seal_lengths)
  have slots: "wrap_slots sample_crypto fill KemX25519 sample_args cek nonce s =
      Some (Inr (X25519 [\<lparr>xs_epk = replicate 32 7, xs_wrap = cek @ replicate 16 0\<rparr>]), s)" for cek nonce
    by (simp add: wrap_slots_def sample_args_def default_wrap_args_def overrides_for_def wrap_slot_x25519_def
        run_bind_def run_fill_def run_lift_def fill X25519_KEY_LENGTH_def sample_slot)
  have args: "wa_kem sample_args = None" "wa_cek sample_args = None" "wa_nonce sample_args = None"
    "wa_skip_shuffle sample_args = False" "wa_plaintext sample_args = [1, 2, 3]"
    "wa_hashes sample_args = [(lit ''sha2-256'', replicate 32 12)]"
    by (simp_all add: sample_args_def default_wrap_args_def)
  have env: "wrap_envelope_with_rng sample_crypto sample_args fill s =
      Some (Inr \<lparr>we_envelope = so_envelope sample_out, we_payload_key = replicate 32 4\<rparr>, s)"
    by (simp add: wrap_envelope_with_rng_def run_bind_def run_lift_def Let_def args gate slots
        override_or_fill_def run_fill_def fill assert_unique_slot_kem_material_def
        shuffle_slots_def run_shuffle_def csprng_shuffle_def item_hashes_hash_def compute_slots_mac_def
        slots_payload_key_def hkdf_sha256_32 sample_simps sample_out_def CEK_LENGTH_def NONCE_LENGTH_def)
  then show ?thesis
    by (simp add: ecies_sealed_poe_wrap_with_rng_def run_bind_def run_lift_def args sample_simps sample_stream
        sample_out_def)
qed

lemma sample_wrapped: "ecies_sealed_poe_wrap_with_rng sample_crypto sample_args sample_fill () = Some (Inr sample_out, ())"
  by (rule sample_wrapped_by) (simp add: sample_fill_def)

text \<open>The witnesses.\<close>

lemma sample_sk: "length (replicate 32 (11 :: u8)) = X25519_KEY_LENGTH" "wrap_kem sample_args = KemX25519"
  "recipient_public_key sample_crypto (wrap_kem sample_args) (replicate 32 11) \<in> set (wa_recipient_public_keys sample_args)"
  "length (wa_recipient_public_keys sample_args) \<le> max_recipients (wrap_kem sample_args)"
  by (simp_all add: X25519_KEY_LENGTH_def wrap_kem_def sample_args_def default_wrap_args_def sample_exchange
      max_recipients_def)

lemma sample_candidates:
  "slot_candidates sample_crypto (so_envelope sample_out) (replicate 32 11) = [(True, replicate 32 7)]"
proof -
  let ?sk = "replicate 32 11 :: bytes"
  have open_slot: "wrap_open_or_dummy sample_crypto kek ad (replicate 32 7 @ replicate 16 0) = (True, replicate 32 7)" for kek ad
    by (simp add: wrap_open_or_dummy_def chacha20_poly1305_decrypt_def sample_simps plain_decrypt_def
        ZERO_NONCE_12_def CEK_LENGTH_def replicate_add [symmetric])
  have "x25519_ecdh_unvalidated sample_crypto ?sk (replicate 32 7) = Inr (replicate 32 12, True)"
    using sample_exchange(2) [of 11 7] by (simp add: x25519_ecdh_def x25519_ecdh_unvalidated_def
        x25519_key_def to_array32_def Let_def split: if_splits)
  then show ?thesis
    by (simp add: slot_candidates_def sample_out_def Let_def x25519_slot_candidate_def open_slot)
qed

lemma sample_hashes: "item_hashes_hash sample_crypto [(lit ''sha2-256'', replicate 32 12)] = Inr (replicate 32 1)"
  by (simp add: item_hashes_hash_def labelled_sha256_def sample_simps Let_def)

lemma sample_admitted: "assert_envelope_structure (so_envelope sample_out) None (Some (replicate 32 11)) = Inr ()"
proof -
  obtain we s1 where "wrap_envelope_with_rng sample_crypto sample_args sample_fill () = Some (Inr we, s1)"
    and "so_envelope sample_out = we_envelope we"
    using wrap_with_rng_Inr [OF sample_wrapped] by metis
  then show ?thesis using wrapped_structure [OF _ sample_fills sample_laws sample_sk(1)] sample_sk(4) by simp
qed

lemma sample_mac: "slots_mac_bit sample_crypto cek h (env_slots_mac (so_envelope sample_out))"
  by (simp add: slots_mac_bit_def sample_simps sample_out_def Let_def)

lemma sample_unwrap:
  "ecies_sealed_poe_unwrap sample_crypto (so_envelope sample_out) (so_ciphertext sample_out)
     [(lit ''sha2-256'', replicate 32 12)] (Single (replicate 32 11)) = Some (Inr (Matched [1, 2, 3]))"
proof -
  have scan: "scan_single sample_crypto (so_envelope sample_out) (replicate 32 11) h = Accepted (replicate 32 7)" for h
    by (simp add: scan_single_def scan_slots_for_key_def sample_candidates fold_slot_eq scan_start_def
        slot_accepted_def sample_mac Let_def)
  have "slots_payload_key sample_crypto cek nonce = replicate 32 4" for cek nonce
    by (simp add: slots_payload_key_def hkdf_sha256_32 sample_simps)
  moreover have "stream_open plain_decrypt (replicate 32 4) (so_ciphertext sample_out) = Some (Inr [1, 2, 3])"
    unfolding sample_out_def by code_simp
  ultimately show ?thesis
    by (simp add: ecies_sealed_poe_unwrap_def Let_def sample_admitted sample_hashes scan sample_simps)
qed

lemma sealed_envelope_opens_witness:
  "ecies_sealed_poe_unwrap sample_crypto (so_envelope sample_out) (so_ciphertext sample_out)
     [(lit ''sha2-256'', replicate 32 12)] (Single (replicate 32 11)) = Some (Inr (Matched [1, 2, 3]))"
proof -
  have args: "wa_plaintext sample_args = [1, 2, 3]" "wa_hashes sample_args = [(lit ''sha2-256'', replicate 32 12)]"
    by (simp_all add: sample_args_def default_wrap_args_def)
  have "\<not> cek_collision sample_crypto (so_envelope sample_out) (replicate 32 11) h" for h
    by (simp add: cek_collision_def sample_candidates)
  then show ?thesis
    using sealed_envelope_opens [OF sample_laws sample_fills sample_wrapped _ _ sample_sk(1,3,4)]
    by (simp add: args sample_out_def)
qed

lemma opened_envelope_authentic_witness:
  "\<exists>cek. stream_seal plain_encrypt (slots_payload_key sample_crypto cek (replicate 24 7)) [1, 2, 3] =
     Some (so_ciphertext sample_out)"
  using opened_envelope_authentic [OF sample_laws sample_unwrap]
  by (auto simp: sample_out_def sample_simps)

lemma wrapped_envelope_admitted_witness:
  "assert_envelope_structure (so_envelope sample_out) None (Some (replicate 32 11)) = Inr ()"
  using wrapped_envelope_admitted [OF sample_wrapped sample_fills sample_laws sample_sk(1)] sample_sk(4) by simp

lemma sample_trial:
  assumes "env = so_envelope sample_out\<lparr>env_nonce := nonce\<rparr>" "length nonce = NONCE_LENGTH"
  shows "ecies_sealed_poe_trial_decrypt sample_crypto env [(lit ''sha2-256'', replicate 32 12)]
     (TrialMulti [replicate 32 11]) = Inr (Match 0 (replicate 32 7))"
proof -
  let ?sk = "replicate 32 11 :: bytes"
  have cand: "slot_candidates sample_crypto env ?sk = [(True, replicate 32 7)]"
    using sample_candidates by (simp add: assms(1) slot_candidates_def sample_out_def Let_def
        x25519_slot_candidate_def hkdf_sha256_32 sample_simps)
  have mac: "slots_mac_bit sample_crypto cek h (env_slots_mac env)" for cek h
    using sample_mac by (simp add: assms(1))
  have gate: "assert_envelope_structure env (Some [?sk]) None = Inr ()"
    using sample_admitted assms(2)
    by (auto simp: assert_envelope_structure_def Let_def res_simps assms(1) split: if_splits)
  show ?thesis
    by (simp add: ecies_sealed_poe_trial_decrypt_def sample_hashes gate scan_slots_for_key_def cand fold_slot_eq
        scan_start_def slot_accepted_def mac Let_def)
qed

text \<open>A digest without strength: two headers under one content key, and the collision the theorem names.\<close>

lemma sample_headers_wf: "hash_map_wf [(lit ''sha2-256'', replicate 32 12)]"
  "length n < usize_limit \<Longrightarrow> header_wf (env_aead (so_envelope sample_out)) (env_kem (so_envelope sample_out)) n
     (env_slots (so_envelope sample_out)) (replicate 32 1)"
proof -
  have "utf8_valid (lit ''sha2-256'')" "utf8_valid AEAD_CHACHA20_POLY1305_STREAM64K" "utf8_valid KEM_X25519"
    by code_simp+
  then show "hash_map_wf [(lit ''sha2-256'', replicate 32 12)]"
    "length n < usize_limit \<Longrightarrow> header_wf (env_aead (so_envelope sample_out)) (env_kem (so_envelope sample_out)) n
     (env_slots (so_envelope sample_out)) (replicate 32 1)"
    by (simp_all add: hash_map_wf_def header_wf_def sample_out_def AEAD_CHACHA20_POLY1305_STREAM64K_def KEM_X25519_def)
qed

lemma sample_lengths:
  "length (expect (encode_canonical_cbor (hashes_cbor [(lit ''sha2-256'', replicate 32 12)]))) < usize_limit"
  "length (slots_transcript_bytes (env_aead (so_envelope sample_out)) (env_kem (so_envelope sample_out))
     (replicate 24 7) (env_slots (so_envelope sample_out)) (replicate 32 1)) < usize_limit"
proof -
  have size: "length (expect (encode_canonical_cbor v)) = length (enc_cbor v)" if "encode_canonical_cbor v = Inr bs" for v bs
  proof -
    have "bs = enc_cbor (canon_cbor v)" using that unfolding encode_canonical_cbor_Inr_iff by blast
    then show ?thesis by (simp add: that length_enc_canon)
  qed
  have "length (enc_cbor (hashes_cbor [(lit ''sha2-256'', replicate 32 12)])) < usize_limit"
    using length_head [of 5 1] length_head [of 3 8] length_head [of 2 32] by (simp add: hashes_cbor_def)
  then show "length (expect (encode_canonical_cbor (hashes_cbor [(lit ''sha2-256'', replicate 32 12)]))) < usize_limit"
    using size [OF hashes_cbor_encodes(1) [OF sample_headers_wf(1)]] by simp
  have key_len: "length (enc_cbor (cbor_text s)) \<le> 100" if "length s \<le> 20" for s
    using that length_head [of 3 "of_nat (length s)"] by (simp add: cbor_text_def)
  have "length (enc_cbor (CMap (slots_transcript AEAD_CHACHA20_POLY1305_STREAM64K KEM_X25519 (replicate 24 7)
     (X25519 [\<lparr>xs_epk = replicate 32 7, xs_wrap = replicate 48 7\<rparr>]) (replicate 32 1)))) < usize_limit"
    by (simp add: slots_transcript_def AEAD_CHACHA20_POLY1305_STREAM64K_def KEM_X25519_def)
      (use length_head [of 5 7] length_head [of 5 2] length_head [of 0 1] length_head [of 3 27] length_head [of 3 6] length_head [of 2 24]
        length_head [of 4 1] length_head [of 2 32] length_head [of 2 48] key_len [of "''scheme''", simplified] key_len [of "''path''", simplified]
        key_len [of "''slots''", simplified] key_len [of "''aead''", simplified] key_len [of "''kem''", simplified] key_len [of "''nonce''", simplified] key_len [of "''epk''", simplified]
        key_len [of "''wrap''", simplified] key_len [of "''hashes_hash''", simplified] in linarith)
  then show "length (slots_transcript_bytes (env_aead (so_envelope sample_out)) (env_kem (so_envelope sample_out))
     (replicate 24 7) (env_slots (so_envelope sample_out)) (replicate 32 1)) < usize_limit"
    unfolding slots_transcript_bytes_def size [OF slots_transcript_encodes]
    by (simp add: sample_out_def slots_transcript_def)
qed

lemma content_key_binds_header_witness: "\<exists>t t'. t \<noteq> t' \<and> sha256 sample_crypto t = sha256 sample_crypto t'"
proof -
  let ?env = "so_envelope sample_out" and ?env' = "so_envelope sample_out\<lparr>env_nonce := replicate 24 8\<rparr>"
  have nonce: "env_nonce ?env = replicate 24 7" by (simp add: sample_out_def)
  have env: "?env = so_envelope sample_out\<lparr>env_nonce := replicate 24 7\<rparr>" by (simp add: sample_out_def)
  note m = sample_trial [OF env] sample_trial [of ?env' "replicate 24 8"]
  have len: "length (replicate 24 n) = NONCE_LENGTH" for n :: u8 by (simp add: NONCE_LENGTH_def)
  have mac: "env_slots_mac ?env = env_slots_mac ?env'" by simp
  have "header_wf (env_aead ?env) (env_kem ?env) (env_nonce ?env) (env_slots ?env) (replicate 32 1)"
    "header_wf (env_aead ?env') (env_kem ?env') (env_nonce ?env') (env_slots ?env') (replicate 32 1)"
    using sample_headers_wf(2) by (simp_all add: nonce)
  from content_key_binds_header [OF m(1) [OF len] m(2) [OF refl len] mac sample_headers_wf(1) sample_headers_wf(1) this
      sample_hashes sample_hashes sample_lengths(1) sample_lengths(2) [folded nonce]]
  show ?thesis unfolding Let_def
  proof (elim disjE conjE)
    assume "env_nonce ?env = env_nonce ?env'"
    then show ?thesis by (simp add: nonce)
  next
    assume "envelope_slots_hash sample_crypto ?env (replicate 32 1) \<noteq>
      envelope_slots_hash sample_crypto ?env' (replicate 32 1)"
    then show ?thesis
      by (simp add: envelope_slots_hash_def compute_slots_hash_def labelled_sha256_def sample_simps)
  qed (rule exI, rule exI, rule conjI, assumption, assumption)+
qed

lemma secure_wrap_uses_entropy_witness:
  "ecies_sealed_poe_wrap_with_rng sample_crypto sample_args (os_fill (\<lambda>n s. (Some (replicate n 7), s))) () =
     Some (Inr sample_out, ())"
proof (rule secure_wrap_uses_entropy)
  have "ecies_sealed_poe_wrap_with_rng sample_crypto sample_args
      (secure_fill (\<lambda>n s. (Some (replicate n 7), s))) ((), False) = Some (Inr sample_out, ((), False))"
    by (rule sample_wrapped_by) (simp add: secure_fill_def)
  then show "ecies_sealed_poe_wrap_secure sample_crypto (\<lambda>n s. (Some (replicate n 7), s)) sample_args () =
      Some (Inr sample_out, ())"
    by (simp add: ecies_sealed_poe_wrap_secure_def)
qed

lemma shuffle_ends_witness: "\<exists>xs s. csprng_shuffle (\<lambda>n s. (replicate n 0, s)) [1, 2, 3 :: nat] () = Some (xs, s) \<and> mset xs = {#1, 2, 3#}"
proof -
  have "replicate 4 (0 :: u8) = [0, 0, 0, 0]" by (simp add: numeral_eq_Suc)
  then have "nth_draw (\<lambda>n s. (replicate n 0, s)) 0 () < 2 ^ 31" by (simp add: nat_of_be_def)
  then have "\<exists>k. nth_draw (\<lambda>n s. (replicate n 0, s)) k s < 2 ^ 31" for s :: unit by (cases s) blast
  from shuffle_ends [OF this, of "[1, 2, 3 :: nat]" "()"] show ?thesis by auto
qed

lemma shuffle_index_uniform_witness:
  "card {x :: u64. x < 4294967295 \<and> (ucast (x mod 3) :: 32 word) = 2} = 1431655765"
proof -
  have "uniform_index_ceiling 3 = Some 4294967295" by (simp add: uniform_index_ceiling_def)
  from shuffle_index_uniform [OF this, of 2] show ?thesis by simp
qed

end
