(* ===== verification/Unicode_Nfkc.thy ===== *)
theory Unicode_Nfkc
  imports L309_Prelude
begin

text \<open>
  \<open>src/unicode_nfkc16.rs\<close>: NFKC under pinned tables. A code point is a natural number: every
  arithmetic step of the code is guarded by a range test, so its \<open>u32\<close> never wraps. A Rust
  \<open>&str\<close> is, in this theory, the list of its scalar values (\<open>chars()\<close>).

  The tables are parsed from the packed strings of \<open>src/unicode_nfkc16_data.rs\<close>. The parser is
  modelled; of the generated data only the short \<open>White_Space\<close> list is written out, the other
  strings are arguments. \<open>None\<close> is a panic (an \<open>expect\<close> on malformed data).
\<close>

section \<open>The packed tables\<close>

fun split_on :: "char \<Rightarrow> string \<Rightarrow> string list" where
  "split_on c [] = [[]]"
| "split_on c (x # xs) =
     (if x = c then [] # split_on c xs
      else case split_on c xs of [] \<Rightarrow> [[x]] | w # ws \<Rightarrow> (x # w) # ws)"

definition split_once :: "char \<Rightarrow> string \<Rightarrow> (string \<times> string) option" where
  "split_once c s = (case dropWhile (\<lambda>x. x \<noteq> c) s of
     [] \<Rightarrow> None | _ # suffix \<Rightarrow> Some (takeWhile (\<lambda>x. x \<noteq> c) s, suffix))"

definition hex_value :: "char \<Rightarrow> nat option" where
  "hex_value c = (let n = of_char c in
     if 48 \<le> n \<and> n \<le> 57 then Some (n - 48)
     else if 65 \<le> n \<and> n \<le> 70 then Some (n - 55)
     else if 97 \<le> n \<and> n \<le> 102 then Some (n - 87) else None)"

text \<open>\<open>u32::from_str_radix(token, 16).expect(..)\<close>: an optional plus sign, digits, no overflow.\<close>

definition parse_hex :: "string \<Rightarrow> nat option" where
  "parse_hex token =
     (let digits = (if token \<noteq> [] \<and> hd token = CHR ''+'' then tl token else token)
      in if digits = [] then None
         else case collect_opt (map hex_value digits) of
           None \<Rightarrow> None
         | Some ds \<Rightarrow> let n = foldl (\<lambda>a d. a * 16 + d) 0 ds in if n < 2 ^ 32 then Some n else None)"

definition parse_decomposition :: "string \<Rightarrow> (nat \<times> nat list) list option" where
  "parse_decomposition packed = collect_opt (map (\<lambda>entry.
     case split_once CHR ''='' entry of
       None \<Rightarrow> None
     | Some (key, targets) \<Rightarrow>
         Option.bind (parse_hex key) (\<lambda>k.
         Option.bind (collect_opt (map parse_hex (split_on CHR '' '' targets))) (\<lambda>ts. Some (k, ts))))
     (split_on CHR '';'' packed))"

definition parse_span :: "string \<Rightarrow> (nat \<times> nat) option" where
  "parse_span span = (case split_once CHR ''-'' span of
     Some (first, final) \<Rightarrow>
       Option.bind (parse_hex first) (\<lambda>a. Option.bind (parse_hex final) (\<lambda>b. Some (a, b)))
   | None \<Rightarrow> Option.bind (parse_hex span) (\<lambda>a. Some (a, a)))"

definition parse_ccc :: "string \<Rightarrow> (nat \<times> nat) list option" where
  "parse_ccc packed = map_option concat (collect_opt (map (\<lambda>entry.
     case split_once CHR '':'' entry of
       None \<Rightarrow> None
     | Some (span, value) \<Rightarrow>
         Option.bind (parse_hex value) (\<lambda>combining.
         if 256 \<le> combining then None
         else Option.bind (parse_span span) (\<lambda>(first, final).
           Some (map (\<lambda>cp. (cp, combining)) [first..<Suc final]))))
     (split_on CHR '';'' packed)))"

definition parse_composition :: "string \<Rightarrow> ((nat \<times> nat) \<times> nat) list option" where
  "parse_composition packed = collect_opt (map (\<lambda>entry.
     case split_once CHR ''='' entry of
       None \<Rightarrow> None
     | Some (key, composed) \<Rightarrow> (case split_once CHR '' '' key of
         None \<Rightarrow> None
       | Some (starter, combining) \<Rightarrow>
           Option.bind (parse_hex starter) (\<lambda>a. Option.bind (parse_hex combining) (\<lambda>b.
           Option.bind (parse_hex composed) (\<lambda>r. Some ((a, b), r))))))
     (split_on CHR '';'' packed))"

definition parse_ranges :: "string \<Rightarrow> (nat \<times> nat) list option" where
  "parse_ranges packed = collect_opt (map parse_span (split_on CHR '';'' packed))"

text \<open>A \<open>HashMap\<close> filled in order: the last entry of a key wins.\<close>

record Tables =
  decomposition :: "nat \<rightharpoonup> nat list"
  ccc :: "nat \<rightharpoonup> nat"
  composition :: "nat \<times> nat \<rightharpoonup> nat"
  assigned :: "(nat \<times> nat) list"
  white_space :: "(nat \<times> nat) list"

definition WHITE_SPACE_RANGES_PACKED :: string where
  "WHITE_SPACE_RANGES_PACKED = ''9-D;20;85;A0;1680;2000-200A;2028-2029;202F;205F;3000''"

definition tables :: "string \<Rightarrow> string \<Rightarrow> string \<Rightarrow> string \<Rightarrow> Tables option" where
  "tables decomposition_packed ccc_packed composition_packed assigned_packed =
     Option.bind (parse_decomposition decomposition_packed) (\<lambda>d.
     Option.bind (parse_ccc ccc_packed) (\<lambda>c.
     Option.bind (parse_composition composition_packed) (\<lambda>k.
     Option.bind (parse_ranges assigned_packed) (\<lambda>a.
     Option.bind (parse_ranges WHITE_SPACE_RANGES_PACKED) (\<lambda>w.
       Some \<lparr>decomposition = map_of (rev d), ccc = map_of (rev c), composition = map_of (rev k),
         assigned = a, white_space = w\<rparr>)))))"

section \<open>Range lookup (\<open>slice::binary_search_by\<close>)\<close>

definition compare_range :: "nat \<Rightarrow> nat \<times> nat \<Rightarrow> ordering" where
  "compare_range code_point r = (case r of (start, final) \<Rightarrow>
     if final < code_point then Less else if code_point < start then Greater else Equal)"

text \<open>The loop of the library function: the window \<open>[base, base + len)\<close> halves until one element is left.\<close>

function search_base :: "('a \<Rightarrow> ordering) \<Rightarrow> 'a list \<Rightarrow> nat \<Rightarrow> nat \<Rightarrow> nat" where
  "search_base f xs base len =
     (if len \<le> 1 then base
      else let half = len div 2; mid = base + half
           in search_base f xs (if f (xs ! mid) = Greater then base else mid) (len - half))"
  by pat_completeness auto
termination by (relation "measure (\<lambda>(f, xs, base, len). len)") auto

declare search_base.simps [simp del]

definition in_ranges :: "(nat \<times> nat) list \<Rightarrow> nat \<Rightarrow> bool" where
  "in_ranges ranges code_point \<longleftrightarrow> ranges \<noteq> [] \<and>
     compare_range code_point (ranges ! search_base (compare_range code_point) ranges 0 (length ranges)) = Equal"

definition MAX_CODE_POINT :: nat where
  "MAX_CODE_POINT = 0x10FFFF"

definition is_assigned16 :: "Tables \<Rightarrow> nat \<Rightarrow> bool" where
  "is_assigned16 t code_point \<longleftrightarrow> code_point \<le> MAX_CODE_POINT \<and> in_ranges (assigned t) code_point"

definition is_white_space16 :: "Tables \<Rightarrow> nat \<Rightarrow> bool" where
  "is_white_space16 t code_point \<longleftrightarrow> code_point \<le> MAX_CODE_POINT \<and> in_ranges (white_space t) code_point"

definition ranges_sorted :: "(nat \<times> nat) list \<Rightarrow> bool" where
  "ranges_sorted rs \<longleftrightarrow> sorted_wrt (\<lambda>a b. snd a < fst b) rs \<and> list_all (\<lambda>r. fst r \<le> snd r) rs"

lemma search_base_step:
  "\<not> len \<le> 1 \<Longrightarrow> search_base f xs base len =
     search_base f xs (if f (xs ! (base + len div 2)) = Greater then base else base + len div 2) (len - len div 2)"
  by (subst search_base.simps) (simp only: Let_def if_False)

lemma search_base_one: "len \<le> 1 \<Longrightarrow> search_base f xs base len = base"
  by (subst search_base.simps) (simp only: if_True)

lemma search_base_bounds:
  "0 < len \<Longrightarrow> base \<le> search_base f xs base len \<and> search_base f xs base len < base + len"
proof (induction f xs base len rule: search_base.induct)
  case (1 f xs base len)
  show ?case
  proof (cases "len \<le> 1")
    case True
    then show ?thesis using "1.prems" search_base_one [OF True, of f xs base] by simp
  next
    case False
    let ?b = "if f (xs ! (base + len div 2)) = Greater then base else base + len div 2"
    have "?b \<le> search_base f xs base len \<and> search_base f xs base len < ?b + (len - len div 2)"
      unfolding search_base_step [OF False] by (rule "1.IH" [OF False refl refl]) (use False in simp)
    moreover have "base \<le> ?b" "?b + (len - len div 2) \<le> base + len" by simp_all
    ultimately show ?thesis by linarith
  qed
qed

lemma search_base_finds:
  assumes "ranges_sorted rs" "base + len \<le> length rs" "i < len" "compare_range cp (rs ! (base + i)) = Equal"
  shows "search_base (compare_range cp) rs base len = base + i"
  using assms(2-4)
proof (induction len arbitrary: base i rule: less_induct)
  case (less len)
  show ?case
  proof (cases "len \<le> 1")
    case True
    then show ?thesis using less.prems search_base_one [OF True, of "compare_range cp" rs base] by simp
  next
    case False
    let ?h = "len div 2" and ?c = "\<lambda>k. compare_range cp (rs ! k)"
    have lt: "snd (rs ! a) < fst (rs ! b)" if "a < b" "b < length rs" for a b
      using assms(1) that unfolding ranges_sorted_def sorted_wrt_iff_nth_less by blast
    have ok: "fst (rs ! a) \<le> snd (rs ! a)" if "a < length rs" for a
      using assms(1) that by (simp add: ranges_sorted_def list_all_length)
    have cmp: "?c k = Greater \<longleftrightarrow> fst (rs ! k) > cp \<and> \<not> snd (rs ! k) < cp" for k
      by (simp add: compare_range_def split: prod.split)
    have hit: "fst (rs ! (base + i)) \<le> cp" "cp \<le> snd (rs ! (base + i))"
      using less.prems(3) by (simp_all add: compare_range_def split: prod.splits if_splits)
    have len: "base + ?h < length rs" "base + i < length rs" using less.prems(1,2) False by linarith+
    show ?thesis
    proof (cases "i < ?h")
      case True
      then have "?c (base + ?h) = Greater"
        unfolding cmp using lt [of "base + i" "base + ?h"] ok [OF len(1)] hit len by simp
      then have "search_base (compare_range cp) rs base len = search_base (compare_range cp) rs base (len - ?h)"
        using search_base_step [OF False, of "compare_range cp" rs base] by simp
      also have "\<dots> = base + i" using less.IH [of "len - ?h" base i] less.prems True False by simp
      finally show ?thesis .
    next
      case ge: False
      have "?c (base + ?h) \<noteq> Greater"
      proof (cases "i = ?h")
        case True
        then show ?thesis using less.prems(3) by simp
      next
        case False
        then have "snd (rs ! (base + ?h)) < cp" using lt [of "base + ?h" "base + i"] hit len ge by simp
        then show ?thesis unfolding cmp by simp
      qed
      then have "search_base (compare_range cp) rs base len = search_base (compare_range cp) rs (base + ?h) (len - ?h)"
        using search_base_step [OF False, of "compare_range cp" rs base] by simp
      also have "\<dots> = base + ?h + (i - ?h)"
        using less.IH [of "len - ?h" "base + ?h" "i - ?h"] less.prems ge False by simp
      finally show ?thesis using ge by simp
    qed
  qed
qed

text \<open>On sorted disjoint ranges the search is membership.\<close>

lemma in_ranges_iff:
  assumes "ranges_sorted rs"
  shows "in_ranges rs cp \<longleftrightarrow> (\<exists>(a, b) \<in> set rs. a \<le> cp \<and> cp \<le> b)"
proof
  assume "in_ranges rs cp"
  then have ne: "rs \<noteq> []" and e: "compare_range cp (rs ! search_base (compare_range cp) rs 0 (length rs)) = Equal"
    by (simp_all add: in_ranges_def)
  then have "rs ! search_base (compare_range cp) rs 0 (length rs) \<in> set rs"
    using search_base_bounds [of "length rs" 0 "compare_range cp" rs] by simp
  with e show "\<exists>(a, b) \<in> set rs. a \<le> cp \<and> cp \<le> b"
    by (intro bexI) (auto simp: compare_range_def split: prod.splits if_splits)
next
  assume "\<exists>(a, b) \<in> set rs. a \<le> cp \<and> cp \<le> b"
  then obtain a b where "(a, b) \<in> set rs" "a \<le> cp" "cp \<le> b" by blast
  then obtain i where i: "i < length rs" "compare_range cp (rs ! i) = Equal"
    by (auto simp: in_set_conv_nth compare_range_def split: prod.splits)
  from search_base_finds [OF assms, of 0 "length rs" i cp] i
  show "in_ranges rs cp" by (auto simp: in_ranges_def)
qed


section \<open>Normalisation\<close>

definition HANGUL_S_BASE :: nat where "HANGUL_S_BASE = 0xAC00"
definition HANGUL_L_BASE :: nat where "HANGUL_L_BASE = 0x1100"
definition HANGUL_V_BASE :: nat where "HANGUL_V_BASE = 0x1161"
definition HANGUL_T_BASE :: nat where "HANGUL_T_BASE = 0x11A7"
definition HANGUL_L_COUNT :: nat where "HANGUL_L_COUNT = 19"
definition HANGUL_V_COUNT :: nat where "HANGUL_V_COUNT = 21"
definition HANGUL_T_COUNT :: nat where "HANGUL_T_COUNT = 28"
definition HANGUL_N_COUNT :: nat where "HANGUL_N_COUNT = HANGUL_V_COUNT * HANGUL_T_COUNT"
definition HANGUL_S_COUNT :: nat where "HANGUL_S_COUNT = HANGUL_L_COUNT * HANGUL_N_COUNT"

lemmas hangul_consts = HANGUL_S_BASE_def HANGUL_L_BASE_def HANGUL_V_BASE_def HANGUL_T_BASE_def
  HANGUL_L_COUNT_def HANGUL_V_COUNT_def HANGUL_T_COUNT_def HANGUL_N_COUNT_def HANGUL_S_COUNT_def

definition ccc_of :: "Tables \<Rightarrow> nat \<Rightarrow> nat" where
  "ccc_of t code_point = (case ccc t code_point of None \<Rightarrow> 0 | Some v \<Rightarrow> v)"

definition decompose_one :: "Tables \<Rightarrow> nat \<Rightarrow> nat list" where
  "decompose_one t cp =
     (if HANGUL_S_BASE \<le> cp \<and> cp < HANGUL_S_BASE + HANGUL_S_COUNT then
        let s_index = cp - HANGUL_S_BASE;
            trailing = s_index mod HANGUL_T_COUNT
        in [HANGUL_L_BASE + s_index div HANGUL_N_COUNT,
            HANGUL_V_BASE + (s_index mod HANGUL_N_COUNT) div HANGUL_T_COUNT] @
           (if trailing \<noteq> 0 then [HANGUL_T_BASE + trailing] else [])
      else case decomposition t cp of Some mapped \<Rightarrow> mapped | None \<Rightarrow> [cp])"

definition decompose :: "Tables \<Rightarrow> nat list \<Rightarrow> nat list" where
  "decompose t code_points = concat (map (decompose_one t) code_points)"

text \<open>The inner loop of the reordering: shift larger classes right, then write the code point.\<close>

fun sift :: "Tables \<Rightarrow> nat \<Rightarrow> nat \<Rightarrow> nat list \<Rightarrow> nat \<Rightarrow> nat list" where
  "sift t cp combining code_points 0 = code_points[0 := cp]"
| "sift t cp combining code_points (Suc j) =
     (if combining < ccc_of t (code_points ! j)
      then sift t cp combining (code_points[Suc j := code_points ! j]) j
      else code_points[Suc j := cp])"

definition reorder_step :: "Tables \<Rightarrow> nat \<Rightarrow> nat list \<Rightarrow> nat list" where
  "reorder_step t i code_points =
     (let cp = code_points ! i; combining = ccc_of t cp
      in if combining = 0 then code_points else sift t cp combining code_points i)"

definition canonical_reorder :: "Tables \<Rightarrow> nat list \<Rightarrow> nat list" where
  "canonical_reorder t code_points = fold (reorder_step t) [1..<length code_points] code_points"

definition compose_pair :: "Tables \<Rightarrow> nat \<Rightarrow> nat \<Rightarrow> nat option" where
  "compose_pair t a b =
     (if HANGUL_L_BASE \<le> a \<and> a < HANGUL_L_BASE + HANGUL_L_COUNT \<and>
         HANGUL_V_BASE \<le> b \<and> b < HANGUL_V_BASE + HANGUL_V_COUNT then
        Some (HANGUL_S_BASE + ((a - HANGUL_L_BASE) * HANGUL_V_COUNT + (b - HANGUL_V_BASE)) * HANGUL_T_COUNT)
      else if HANGUL_S_BASE \<le> a \<and> a < HANGUL_S_BASE + HANGUL_S_COUNT \<and>
         (a - HANGUL_S_BASE) mod HANGUL_T_COUNT = 0 \<and>
         HANGUL_T_BASE + 1 \<le> b \<and> b < HANGUL_T_BASE + HANGUL_T_COUNT then
        Some (a + (b - HANGUL_T_BASE))
      else composition t (a, b))"

text \<open>
  The composition loop: the output so far, the index of the last starter in it, and the class of the
  last code point written.
\<close>

fun compose_loop :: "Tables \<Rightarrow> nat list \<Rightarrow> nat option \<Rightarrow> nat \<Rightarrow> nat list \<Rightarrow> nat list" where
  "compose_loop t out starter_idx last_ccc [] = out"
| "compose_loop t out starter_idx last_ccc (cp # cps) =
     (let combining = ccc_of t cp;
          composed = (case starter_idx of
             Some idx \<Rightarrow> if idx = length out - 1 \<or> last_ccc < combining
               then map_option (Pair idx) (compose_pair t (out ! idx) cp) else None
           | None \<Rightarrow> None)
      in case composed of
           Some (idx, c) \<Rightarrow> compose_loop t (out[idx := c]) starter_idx last_ccc cps
         | None \<Rightarrow> compose_loop t (out @ [cp])
             (if combining = 0 then Some (length out) else starter_idx) combining cps)"

definition compose :: "Tables \<Rightarrow> nat list \<Rightarrow> nat list" where
  "compose t code_points = compose_loop t [] None 0 code_points"

datatype Nfkc16Error = UnassignedCodePoint nat

text \<open>\<open>char::from_u32\<close>: a Unicode scalar value.\<close>

definition is_scalar :: "nat \<Rightarrow> bool" where
  "is_scalar cp \<longleftrightarrow> cp < 0xD800 \<or> 0xE000 \<le> cp \<and> cp \<le> 0x10FFFF"

definition nfkc16 :: "Tables \<Rightarrow> nat list \<Rightarrow> (Nfkc16Error + nat list) option" where
  "nfkc16 t input =
     (case find (\<lambda>cp. \<not> in_ranges (assigned t) cp) input of
        Some cp \<Rightarrow> Some (Inl (UnassignedCodePoint cp))
      | None \<Rightarrow>
          let out = compose t (canonical_reorder t (decompose t input))
          in if list_all is_scalar out then Some (Inr out) else None)"

section \<open>The reordering sorts every run of combining marks\<close>

text \<open>The reference: starters stay, each run between them is sorted by its class, equal classes in order.\<close>

function canonical_order :: "Tables \<Rightarrow> nat list \<Rightarrow> nat list" where
  "canonical_order t [] = []"
| "canonical_order t (x # xs) =
     (if ccc_of t x = 0 then x # canonical_order t xs
      else sort_key (ccc_of t) (takeWhile (\<lambda>y. ccc_of t y \<noteq> 0) (x # xs)) @
        canonical_order t (dropWhile (\<lambda>y. ccc_of t y \<noteq> 0) (x # xs)))"
  by pat_completeness auto
termination
proof (relation "measure (\<lambda>(t, xs). length xs)")
  fix t x xs
  assume "ccc_of t x \<noteq> 0"
  then show "((t, dropWhile (\<lambda>y. ccc_of t y \<noteq> 0) (x # xs)), t, x # xs) \<in> measure (\<lambda>(t, xs). length xs)"
    using length_dropWhile_le [of "\<lambda>y. ccc_of t y \<noteq> 0" xs] by (simp add: less_Suc_eq_le)
qed simp_all

declare canonical_order.simps(2) [simp del]

text \<open>One insertion, on the reversed prefix.\<close>

fun push_back :: "('a \<Rightarrow> nat) \<Rightarrow> 'a \<Rightarrow> 'a list \<Rightarrow> 'a list" where
  "push_back f x [] = [x]"
| "push_back f x (y # ys) = (if f x < f y then y # push_back f x ys else x # y # ys)"

lemma sift_eq: "sift t cp (ccc_of t cp) (ys @ z # zs) (length ys) = rev (push_back (ccc_of t) cp (rev ys)) @ zs"
  by (induction ys arbitrary: z zs rule: rev_induct) (simp_all add: nth_append list_update_append)

definition reorder_push :: "Tables \<Rightarrow> nat list \<Rightarrow> nat \<Rightarrow> nat list" where
  "reorder_push t rys x = (if ccc_of t x = 0 then x # rys else push_back (ccc_of t) x rys)"

lemma length_push_back [simp]: "length (push_back f x ys) = Suc (length ys)"
  by (induction ys) auto

lemma length_reorder: "length (foldl (reorder_push t) rys xs) = length rys + length xs"
  by (induction xs arbitrary: rys) (auto simp: reorder_push_def)

lemma reorder_prefix:
  "i \<le> length xs \<Longrightarrow> fold (reorder_step t) [0..<i] xs = rev (foldl (reorder_push t) [] (take i xs)) @ drop i xs"
proof (induction i)
  case (Suc i)
  let ?ys = "rev (foldl (reorder_push t) [] (take i xs))"
  have len: "length ?ys = i" using Suc.prems by (simp add: length_reorder)
  have d: "drop i xs = xs ! i # drop (Suc i) xs" using Suc.prems by (simp add: Cons_nth_drop_Suc)
  have "reorder_step t i (?ys @ xs ! i # drop (Suc i) xs) = rev (reorder_push t (rev ?ys) (xs ! i)) @ drop (Suc i) xs"
    using sift_eq [of t "xs ! i" ?ys "xs ! i" "drop (Suc i) xs"] len
    by (simp add: reorder_step_def reorder_push_def nth_append Let_def)
  then show ?case using Suc d by (simp add: take_Suc_conv_app_nth)
qed simp

lemma canonical_reorder_foldl: "canonical_reorder t xs = rev (foldl (reorder_push t) [] xs)"
proof (cases xs)
  case Nil
  then show ?thesis by (simp add: canonical_reorder_def)
next
  case (Cons x ys)
  have "reorder_step t 0 xs = xs" by (simp add: reorder_step_def Let_def Cons)
  moreover have "[0..<length xs] = 0 # [1..<length xs]" by (simp add: Cons upt_rec)
  ultimately have "canonical_reorder t xs = fold (reorder_step t) [0..<length xs] xs"
    by (simp add: canonical_reorder_def)
  then show ?thesis using reorder_prefix [of "length xs" xs t] by simp
qed

lemma push_back_sorted:
  assumes "sorted (map f ys)"
  shows "rev (push_back f x (rev ys)) = sort_key f (ys @ [x])"
proof (rule sym, rule properties_for_sort_key)
  have m: "mset (push_back f x zs) = add_mset x (mset zs)" for zs by (induction zs) auto
  then show "mset (rev (push_back f x (rev ys))) = mset (ys @ [x])" by simp
  have s: "sorted_wrt (\<ge>) (map f zs) \<Longrightarrow> filter (\<lambda>y. f k = f y) (push_back f x zs) = filter (\<lambda>y. f k = f y) (x # zs)" for k zs
    by (induction zs) auto
  have d: "sorted_wrt (\<ge>) (map f (rev ys))" using assms unfolding rev_map [symmetric] sorted_wrt_rev .
  show "filter (\<lambda>y. f k = f y) (rev (push_back f x (rev ys))) = filter (\<lambda>y. f k = f y) (ys @ [x])" for k
    using s [OF d, of k] by (simp flip: rev_filter)
  have set: "set (push_back f x zs) = insert x (set zs)" for zs by (induction zs) auto
  have "sorted_wrt (\<ge>) (map f zs) \<Longrightarrow> sorted_wrt (\<ge>) (map f (push_back f x zs))" for zs
    by (induction zs) (auto simp: set)
  from this [OF d] show "sorted (map f (rev (push_back f x (rev ys))))" unfolding rev_map [symmetric] sorted_wrt_rev .
qed

lemma push_back_base:
  assumes "f x \<noteq> 0" "A = [] \<or> f (last A) = (0 :: nat)"
  shows "push_back f x (rev (A @ S)) = push_back f x (rev S) @ rev A"
proof (induction S rule: rev_induct)
  case Nil
  then show ?case using assms by (cases A rule: rev_cases) auto
qed simp

lemma reorder_run:
  assumes "A = [] \<or> ccc_of t (last A) = 0" "list_all (\<lambda>x. ccc_of t x \<noteq> 0) run"
  shows "foldl (reorder_push t) (rev A) run = rev (A @ sort_key (ccc_of t) run)"
  using assms(2)
proof (induction run rule: rev_induct)
  case (snoc x run)
  then have "foldl (reorder_push t) (rev A) (run @ [x]) =
      push_back (ccc_of t) x (rev (A @ sort_key (ccc_of t) run))"
    using snoc by (simp add: reorder_push_def [of t _ x])
  also have "\<dots> = push_back (ccc_of t) x (rev (sort_key (ccc_of t) run)) @ rev A"
    using push_back_base [of "ccc_of t" x A, OF _ assms(1)] snoc.prems by simp
  also have "\<dots> = rev (A @ rev (push_back (ccc_of t) x (rev (sort_key (ccc_of t) run))))" by simp
  also have "rev (push_back (ccc_of t) x (rev (sort_key (ccc_of t) run))) = sort_key (ccc_of t) (sort_key (ccc_of t) run @ [x])"
    by (rule push_back_sorted) simp
  also have "\<dots> = sort_key (ccc_of t) (run @ [x])"
  proof (rule sym, rule properties_for_sort_key)
    show "filter (\<lambda>y. ccc_of t k = ccc_of t y) (sort_key (ccc_of t) (sort_key (ccc_of t) run @ [x])) =
        filter (\<lambda>y. ccc_of t k = ccc_of t y) (run @ [x])" for k
      unfolding eq_commute [of "ccc_of t k"] by (simp add: sort_key_stable)
  qed simp_all
  finally show ?case .
qed simp

lemma reorder_canonical:
  assumes "A = [] \<or> ccc_of t (last A) = 0 \<or> xs = [] \<or> ccc_of t (hd xs) = 0"
  shows "foldl (reorder_push t) (rev A) xs = rev (A @ canonical_order t xs)"
  using assms
proof (induction t xs arbitrary: A rule: canonical_order.induct)
  case (2 t x xs)
  show ?case
  proof (cases "ccc_of t x = 0")
    case True
    from "2.IH"(1) [OF True, of "A @ [x]"] True show ?thesis
      by (simp add: reorder_push_def canonical_order.simps(2))
  next
    case False
    let ?run = "takeWhile (\<lambda>y. ccc_of t y \<noteq> 0) (x # xs)" and ?suffix = "dropWhile (\<lambda>y. ccc_of t y \<noteq> 0) (x # xs)"
    have A: "A = [] \<or> ccc_of t (last A) = 0" using "2.prems" False by simp
    have r: "list_all (\<lambda>y. ccc_of t y \<noteq> 0) ?run" unfolding list_all_iff by (blast dest: set_takeWhileD)
    have s: "?suffix = [] \<or> ccc_of t (hd ?suffix) = 0" using hd_dropWhile [of "\<lambda>y. ccc_of t y \<noteq> 0" "x # xs"] by blast
    have "foldl (reorder_push t) (rev A) (x # xs) = foldl (reorder_push t) (foldl (reorder_push t) (rev A) ?run) ?suffix"
      by (metis foldl_append takeWhile_dropWhile_id)
    also have "\<dots> = foldl (reorder_push t) (rev (A @ sort_key (ccc_of t) ?run)) ?suffix"
      by (simp only: reorder_run [OF A r])
    also have "\<dots> = rev ((A @ sort_key (ccc_of t) ?run) @ canonical_order t ?suffix)"
      by (rule "2.IH"(2) [OF False]) (use s in blast)
    finally show ?thesis unfolding canonical_order.simps(2) if_not_P [OF False] append_assoc .
  qed
qed simp

lemma canonical_reorder_canonical: "canonical_reorder t xs = canonical_order t xs"
  using reorder_canonical [of "[]" t xs] by (simp add: canonical_reorder_foldl)

text \<open>C32: the in-place reordering of combining marks is the canonical ordering of the standard: every maximal
  run of non-starters is stably sorted by combining class, and no mark crosses a starter.\<close>

theorem canonical_reorder_sorts: "canonical_reorder t xs = canonical_order t xs"
  by (rule canonical_reorder_canonical)

section \<open>Hangul\<close>

text \<open>What the pinned tables say about Hangul: jamo are starters, and no table pair starts with a syllable.\<close>

definition is_syllable :: "nat \<Rightarrow> bool" where
  "is_syllable s \<longleftrightarrow> HANGUL_S_BASE \<le> s \<and> s < HANGUL_S_BASE + HANGUL_S_COUNT"

definition hangul_tables :: "Tables \<Rightarrow> bool" where
  "hangul_tables t \<longleftrightarrow> (\<forall>j. HANGUL_L_BASE \<le> j \<and> j < HANGUL_T_BASE + HANGUL_T_COUNT \<longrightarrow> ccc_of t j = 0) \<and>
     (\<forall>s b. is_syllable s \<longrightarrow> composition t (s, b) = None)"


lemma syllable_parts:
  assumes "is_syllable s"
  defines "k \<equiv> s - HANGUL_S_BASE"
  shows "s = HANGUL_S_BASE + k" "k < HANGUL_S_COUNT" "k div HANGUL_N_COUNT < HANGUL_L_COUNT"
    "(k mod HANGUL_N_COUNT) div HANGUL_T_COUNT < HANGUL_V_COUNT" "k mod HANGUL_T_COUNT < HANGUL_T_COUNT"
    "k = (k div HANGUL_N_COUNT * HANGUL_V_COUNT + (k mod HANGUL_N_COUNT) div HANGUL_T_COUNT) * HANGUL_T_COUNT + k mod HANGUL_T_COUNT"
proof -
  show "s = HANGUL_S_BASE + k" and lt: "k < HANGUL_S_COUNT" using assms by (auto simp: is_syllable_def)
  show "k div HANGUL_N_COUNT < HANGUL_L_COUNT"
    using lt by (simp add: hangul_consts less_mult_imp_div_less)
  show "(k mod HANGUL_N_COUNT) div HANGUL_T_COUNT < HANGUL_V_COUNT"
    using mod_less_divisor [of 588 k] by (simp add: hangul_consts less_mult_imp_div_less)
  show "k mod HANGUL_T_COUNT < HANGUL_T_COUNT" by (simp add: hangul_consts)
  have "k mod 588 mod 28 = k mod 28" by (rule mod_mod_cancel) simp
  then show "k = (k div HANGUL_N_COUNT * HANGUL_V_COUNT + (k mod HANGUL_N_COUNT) div HANGUL_T_COUNT) * HANGUL_T_COUNT + k mod HANGUL_T_COUNT"
  proof -
    define q m u where "q = k div 588" and "m = k mod 588" and "u = m div 28"
    define r where "r = k mod 28"
    have "m = u * 28 + r" "k = q * 588 + m"
      using \<open>k mod 588 mod 28 = k mod 28\<close> div_mult_mod_eq [of m 28] div_mult_mod_eq [of k 588]
      unfolding q_def m_def u_def r_def by simp_all
    then have "k = (q * 21 + u) * 28 + r" by (simp add: algebra_simps)
    then have "k = (q * 21 + u) * 28 + k mod 28" unfolding r_def .
    then show ?thesis by (simp add: hangul_consts q_def m_def u_def)
  qed
qed

text \<open>
  Feeding the jamo of one syllable to the composition loop after any output that ends in a syllable
  appends that syllable.
\<close>

lemma compose_syllable:
  assumes t: "hangul_tables t" and s: "is_syllable s" and out: "out = [] \<and> si = None \<or> out \<noteq> [] \<and> is_syllable (last out) \<and> si = Some (length out - 1)"
  shows "compose_loop t out si 0 (decompose_one t s @ cps) = compose_loop t (out @ [s]) (Some (length out)) 0 cps"
proof -
  let ?k = "s - HANGUL_S_BASE"
  note p = syllable_parts [OF s]
  define l v r where "l = ?k div HANGUL_N_COUNT" and "v = (?k mod HANGUL_N_COUNT) div HANGUL_T_COUNT" and "r = ?k mod HANGUL_T_COUNT"
  have k: "l < HANGUL_L_COUNT" "v < HANGUL_V_COUNT" "r < HANGUL_T_COUNT" "s = HANGUL_S_BASE + (l * HANGUL_V_COUNT + v) * HANGUL_T_COUNT + r"
    using p unfolding l_def v_def r_def by simp_all
  have d: "decompose_one t s = [HANGUL_L_BASE + l, HANGUL_V_BASE + v] @ (if r \<noteq> 0 then [HANGUL_T_BASE + r] else [])"
    using s by (simp add: decompose_one_def is_syllable_def Let_def l_def v_def r_def)
  have c0: "ccc_of t (HANGUL_L_BASE + l) = 0" "ccc_of t (HANGUL_V_BASE + v) = 0" "r \<noteq> 0 \<Longrightarrow> ccc_of t (HANGUL_T_BASE + r) = 0"
    using t k(1-3) by (auto simp: hangul_tables_def hangul_consts)
  have first: "compose_pair t (last out) (HANGUL_L_BASE + l) = None" if "is_syllable (last out)"
    using t that k(1) by (auto simp: compose_pair_def hangul_tables_def is_syllable_def hangul_consts)
  have lv: "compose_pair t (HANGUL_L_BASE + l) (HANGUL_V_BASE + v) = Some (HANGUL_S_BASE + (l * HANGUL_V_COUNT + v) * HANGUL_T_COUNT)"
    using k(1,2) by (simp add: compose_pair_def)
  let ?lv = "HANGUL_S_BASE + (l * HANGUL_V_COUNT + v) * HANGUL_T_COUNT"
  have lvt: "compose_pair t ?lv (HANGUL_T_BASE + r) = Some s" if "r \<noteq> 0"
  proof -
    have "(l * HANGUL_V_COUNT + v) * HANGUL_T_COUNT < HANGUL_S_COUNT" using k(1,2) by (simp add: hangul_consts)
    then show ?thesis using k that by (simp add: compose_pair_def HANGUL_S_BASE_def HANGUL_L_BASE_def HANGUL_L_COUNT_def)
  qed
  have step1: "compose_loop t out si 0 ((HANGUL_L_BASE + l) # xs) =
      compose_loop t (out @ [HANGUL_L_BASE + l]) (Some (length out)) 0 xs" for xs
    using out c0(1) first by (auto simp: last_conv_nth)
  have step2: "compose_loop t (out @ [HANGUL_L_BASE + l]) (Some (length out)) 0 ((HANGUL_V_BASE + v) # xs) =
      compose_loop t (out @ [?lv]) (Some (length out)) 0 xs" for xs
    using lv by simp
  have step3: "compose_loop t (out @ [?lv]) (Some (length out)) 0 ((HANGUL_T_BASE + r) # xs) =
      compose_loop t (out @ [s]) (Some (length out)) 0 xs" if "r \<noteq> 0" for xs
    using lvt [OF that] by simp
  show ?thesis
  proof (cases "r = 0")
    case True
    then have "?lv = s" using k(4) by simp
    then show ?thesis unfolding d using True step2 by (simp add: step1 del: compose_loop.simps)
  next
    case False
    then show ?thesis unfolding d by (simp add: step1 step2 step3 del: compose_loop.simps)
  qed
qed

text \<open>Normalisation decomposes Hangul syllables into jamo and composes them back: a text of assigned
  syllables is its own normal form.\<close>

theorem hangul_roundtrip:
  assumes "hangul_tables t" "list_all (\<lambda>s. is_syllable s \<and> in_ranges (assigned t) s) ss"
  shows "nfkc16 t ss = Some (Inr ss)"
proof -
  have "list_all is_syllable xs \<Longrightarrow> out = [] \<and> si = None \<or> out \<noteq> [] \<and> is_syllable (last out) \<and> si = Some (length out - 1) \<Longrightarrow>
      compose_loop t out si 0 (decompose t xs) = out @ xs" for xs out si
    by (induction xs arbitrary: out si) (simp_all add: decompose_def compose_syllable [OF assms(1)])
  moreover have "list_all is_syllable ss" using assms(2) by (simp add: list_all_iff)
  ultimately have c: "compose t (decompose t ss) = ss" by (simp add: compose_def)
  have "list_all (\<lambda>x. ccc_of t x = 0) (decompose_one t s)" if "is_syllable s" for s
  proof -
    have "HANGUL_L_BASE + l < HANGUL_T_BASE + HANGUL_T_COUNT" if "l < HANGUL_L_COUNT" for l using that by (simp add: hangul_consts)
    moreover have "HANGUL_V_BASE + v < HANGUL_T_BASE + HANGUL_T_COUNT" if "v < HANGUL_V_COUNT" for v using that by (simp add: hangul_consts)
    moreover have "HANGUL_L_BASE \<le> HANGUL_V_BASE + v" "HANGUL_L_BASE \<le> HANGUL_T_BASE + v" for v by (simp_all add: hangul_consts)
    ultimately show ?thesis using assms(1) syllable_parts(3-5) [OF that] that
      by (simp add: decompose_one_def hangul_tables_def is_syllable_def Let_def)
  qed
  then have z: "list_all (\<lambda>x. ccc_of t x = 0) (decompose t ss)"
    using assms(2) by (auto simp: decompose_def list_all_iff)
  have "list_all (\<lambda>x. ccc_of t x = 0) xs \<Longrightarrow> canonical_order t xs = xs" for xs
    by (induction xs) (simp_all add: canonical_order.simps(2))
  then have "canonical_reorder t (decompose t ss) = decompose t ss" using z by (simp add: canonical_reorder_canonical)
  moreover have "find (\<lambda>cp. \<not> in_ranges (assigned t) cp) ss = None"
    using assms(2) by (simp add: find_None_iff list_all_iff)
  moreover have "list_all is_scalar ss"
    using assms(2) by (auto simp: list_all_iff is_scalar_def is_syllable_def hangul_consts)
  ultimately show ?thesis using c by (simp add: nfkc16_def)
qed

text \<open>The pinned white-space ranges.\<close>

lemma hex_digits:
  "hex_value CHR ''0'' = Some 0" "hex_value CHR ''1'' = Some 1" "hex_value CHR ''2'' = Some 2"
  "hex_value CHR ''3'' = Some 3" "hex_value CHR ''5'' = Some 5" "hex_value CHR ''6'' = Some 6"
  "hex_value CHR ''8'' = Some 8" "hex_value CHR ''9'' = Some 9" "hex_value CHR ''A'' = Some 10"
  "hex_value CHR ''D'' = Some 13" "hex_value CHR ''F'' = Some 15"
  by (simp_all add: hex_value_def)

text \<open>\<open>UNICODE_WHITE_SPACE\<close> of \<open>src/sealed_poe/normalize.rs\<close>, which enumerates the same set.\<close>

definition UNICODE_WHITE_SPACE :: "nat list" where
  "UNICODE_WHITE_SPACE =
     [0x0009, 0x000a, 0x000b, 0x000c, 0x000d, 0x0020, 0x0085, 0x00a0,
      0x1680, 0x2000, 0x2001, 0x2002, 0x2003, 0x2004, 0x2005, 0x2006,
      0x2007, 0x2008, 0x2009, 0x200a, 0x2028, 0x2029, 0x202f, 0x205f,
      0x3000]"

lemma white_space_ranges: "parse_ranges WHITE_SPACE_RANGES_PACKED =
    Some [(9, 13), (32, 32), (133, 133), (160, 160), (5760, 5760), (8192, 8202), (8232, 8233), (8239, 8239),
      (8287, 8287), (12288, 12288)]"
  by (simp add: parse_ranges_def WHITE_SPACE_RANGES_PACKED_def parse_span_def split_once_def parse_hex_def
      hex_digits)

lemma tables_white_space:
  assumes "tables d c k a = Some t"
  shows "is_white_space16 t cp \<longleftrightarrow> cp \<in> set UNICODE_WHITE_SPACE"
proof -
  have w: "white_space t = [(9, 13), (32, 32), (133, 133), (160, 160), (5760, 5760), (8192, 8202), (8232, 8233), (8239, 8239),
      (8287, 8287), (12288, 12288)]"
    using assms by (auto simp: tables_def white_space_ranges bind_eq_Some_conv)
  have "ranges_sorted (white_space t)" by (simp add: w ranges_sorted_def)
  from in_ranges_iff [OF this, of cp]
  have "is_white_space16 t cp \<longleftrightarrow> cp \<le> 1114111 \<and> (9 \<le> cp \<and> cp \<le> 13 \<or> 32 \<le> cp \<and> cp \<le> 32 \<or> 133 \<le> cp \<and> cp \<le> 133 \<or>
      160 \<le> cp \<and> cp \<le> 160 \<or> 5760 \<le> cp \<and> cp \<le> 5760 \<or> 8192 \<le> cp \<and> cp \<le> 8202 \<or> 8232 \<le> cp \<and> cp \<le> 8233 \<or>
      8239 \<le> cp \<and> cp \<le> 8239 \<or> 8287 \<le> cp \<and> cp \<le> 8287 \<or> 12288 \<le> cp \<and> cp \<le> 12288)"
    by (simp add: is_white_space16_def MAX_CODE_POINT_def w)
  also have "\<dots> \<longleftrightarrow> cp \<in> set UNICODE_WHITE_SPACE"
    unfolding UNICODE_WHITE_SPACE_def list.set insert_iff empty_iff by presburger
  finally show ?thesis .
qed

end
