(* ===== verification/Sealed_Passphrase.thy ===== *)
theory Sealed_Passphrase
  imports Unicode_Nfkc Sealed_Transcript
begin

text \<open>
  The passphrase path of the sealed envelope: \<open>src/sealed_poe/normalize.rs\<close> and
  \<open>src/sealed_poe/passphrase.rs\<close>. A passphrase is the list of its Unicode scalar values; the pinned
  tables and the crates are arguments. An outer \<open>None\<close> is a panic.
\<close>

section \<open>\<open>src/sealed_poe/normalize.rs\<close>\<close>

definition MAX_PASSPHRASE_INPUT_BYTES :: nat where
  "MAX_PASSPHRASE_INPUT_BYTES = 4096"

text \<open>\<open>str::len\<close> and \<open>str::as_bytes\<close>: the UTF-8 form of a string.\<close>

definition char_bytes :: "nat \<Rightarrow> bytes" where
  "char_bytes cp =
     (if cp < 0x80 then [of_nat cp]
      else if cp < 0x800 then [of_nat (0xC0 + cp div 0x40), of_nat (0x80 + cp mod 0x40)]
      else if cp < 0x10000 then
        [of_nat (0xE0 + cp div 0x1000), of_nat (0x80 + cp div 0x40 mod 0x40), of_nat (0x80 + cp mod 0x40)]
      else [of_nat (0xF0 + cp div 0x40000), of_nat (0x80 + cp div 0x1000 mod 0x40),
        of_nat (0x80 + cp div 0x40 mod 0x40), of_nat (0x80 + cp mod 0x40)])"

definition str_bytes :: "nat list \<Rightarrow> bytes" where
  "str_bytes s = concat (map char_bytes s)"

fun collapse :: "Tables \<Rightarrow> bool \<Rightarrow> nat list \<Rightarrow> nat list" where
  "collapse t in_run [] = []"
| "collapse t in_run (ch # chs) =
     (if is_white_space16 t ch then (if \<not> in_run then 0x20 # collapse t True chs else collapse t True chs)
      else ch # collapse t False chs)"

definition strip_prefix :: "nat \<Rightarrow> nat list \<Rightarrow> nat list" where
  "strip_prefix c s = (if s \<noteq> [] \<and> hd s = c then tl s else s)"

definition strip_suffix :: "nat \<Rightarrow> nat list \<Rightarrow> nat list" where
  "strip_suffix c s = (if s \<noteq> [] \<and> last s = c then butlast s else s)"

definition normalize_passphrase :: "Tables \<Rightarrow> nat list \<Rightarrow> (EciesSealedPoeErrorCode + nat list) option" where
  "normalize_passphrase t passphrase =
     (if length (str_bytes passphrase) > MAX_PASSPHRASE_INPUT_BYTES then Some (Inl PassphraseInputTooLong)
      else case nfkc16 t passphrase of
        None \<Rightarrow> None
      | Some (Inl _) \<Rightarrow> Some (Inl EncPassphraseUnnormalizable)
      | Some (Inr normalized) \<Rightarrow>
          let trimmed = strip_suffix 0x20 (strip_prefix 0x20 (collapse t False normalized))
          in if trimmed = [] then Some (Inl EncPassphraseEmpty) else Some (Inr trimmed))"

section \<open>\<open>src/sealed_poe/passphrase.rs\<close>\<close>

definition PASSPHRASE_KDF_ARGON2ID :: rstring where
  "PASSPHRASE_KDF_ARGON2ID = lit ''argon2id''"

definition PASSPHRASE_COMMITMENT_LENGTH :: nat where "PASSPHRASE_COMMITMENT_LENGTH = 32"
definition MIN_PASSPHRASE_SALT_LENGTH :: nat where "MIN_PASSPHRASE_SALT_LENGTH = 16"
definition MAX_PASSPHRASE_SALT_LENGTH :: nat where "MAX_PASSPHRASE_SALT_LENGTH = 64"
definition ARGON2_PARAM_MAX :: u64 where "ARGON2_PARAM_MAX = 0xFFFFFFFF"
definition ARGON2_M_MIN :: u64 where "ARGON2_M_MIN = 65536"
definition ARGON2_T_MIN :: u64 where "ARGON2_T_MIN = 3"
definition ARGON2_P_MIN :: u64 where "ARGON2_P_MIN = 1"
definition NONCE_LENGTH :: nat where "NONCE_LENGTH = 24"
definition MIN_PASSPHRASE_BLOB_LENGTH :: nat where
  "MIN_PASSPHRASE_BLOB_LENGTH = PASSPHRASE_COMMITMENT_LENGTH + TAG_SIZE"

record PassphraseSealArgs =
  ps_plaintext :: bytes
  ps_passphrase :: "nat list"
  ps_salt :: bytes
  ps_m :: u64
  ps_t :: u64
  ps_p :: u64
  ps_nonce :: bytes
  ps_hashes :: hash_map

record PassphraseOpenArgs =
  po_blob :: bytes
  po_passphrase :: "nat list"
  po_aead :: rstring
  po_alg :: rstring
  po_salt :: bytes
  po_m :: u64
  po_t :: u64
  po_p :: u64
  po_nonce :: bytes
  po_hashes :: hash_map

datatype PassphraseOpenResult = Opened bytes | Rejected

fun opened :: "PassphraseOpenResult \<Rightarrow> bool" where
  "opened (Opened _) \<longleftrightarrow> True"
| "opened Rejected \<longleftrightarrow> False"

definition assert_kdf_inputs ::
  "bytes \<Rightarrow> bytes \<Rightarrow> u64 \<Rightarrow> u64 \<Rightarrow> u64 \<Rightarrow> EciesSealedPoeErrorCode + unit" where
  "assert_kdf_inputs salt nonce m t p =
     (if length salt < MIN_PASSPHRASE_SALT_LENGTH then Inl EncPassphraseSaltTooShort
      else if length salt > MAX_PASSPHRASE_SALT_LENGTH then Inl EncPassphraseSaltTooLong
      else if length nonce \<noteq> NONCE_LENGTH then Inl NonceLengthMismatch
      else if list_ex (\<lambda>v. v > ARGON2_PARAM_MAX) [m, t, p] then Inl InvalidPassphraseParams
      else if m < ARGON2_M_MIN \<or> t < ARGON2_T_MIN \<or> p < ARGON2_P_MIN then Inl EncPassphraseArgon2ParamsTooLow
      else Inr ())"

text \<open>The parameters narrow to \<open>u32\<close>; the crate refuses what it cannot hash.\<close>

definition argon2_cek ::
  "crypto \<Rightarrow> nat list \<Rightarrow> bytes \<Rightarrow> u64 \<Rightarrow> u64 \<Rightarrow> u64 \<Rightarrow> EciesSealedPoeErrorCode + bytes" where
  "argon2_cek c normalized salt m t p =
     (if m > 0xFFFFFFFF \<or> t > 0xFFFFFFFF \<or> p > 0xFFFFFFFF then Inl KdfDerivationFailed
      else case argon2id c (str_bytes normalized) salt (unat m) (unat t) (unat p) of
        None \<Rightarrow> Inl KdfDerivationFailed
      | Some cek \<Rightarrow> Inr cek)"

definition passphrase_commitment :: "crypto \<Rightarrow> bytes \<Rightarrow> bytes \<Rightarrow> bytes" where
  "passphrase_commitment c cek pw_hash =
     hmac_sha256 c (hkdf32 c cek [] CARDANO_POE_HKDF_INFO_PASSPHRASE_MAC) pw_hash"

definition passphrase_sealed_poe_seal ::
  "Tables \<Rightarrow> crypto \<Rightarrow> PassphraseSealArgs \<Rightarrow> (EciesSealedPoeErrorCode + bytes) option" where
  "passphrase_sealed_poe_seal tb c args =
     (case assert_kdf_inputs (ps_salt args) (ps_nonce args) (ps_m args) (ps_t args) (ps_p args) of
        Inl e \<Rightarrow> Some (Inl e)
      | Inr _ \<Rightarrow> (case normalize_passphrase tb (ps_passphrase args) of
          None \<Rightarrow> None
        | Some (Inl e) \<Rightarrow> Some (Inl e)
        | Some (Inr normalized) \<Rightarrow>
            (case and_then (argon2_cek c normalized (ps_salt args) (ps_m args) (ps_t args) (ps_p args))
                 (\<lambda>cek. map_sum id (Pair cek) (item_hashes_hash c (ps_hashes args))) of
               Inl e \<Rightarrow> Some (Inl e)
             | Inr (cek, hashes_hash) \<Rightarrow>
                 let pw_hash = compute_passphrase_hash c AEAD_CHACHA20_POLY1305_STREAM64K (ps_nonce args)
                       PASSPHRASE_KDF_ARGON2ID (ps_salt args) (ps_m args) (ps_t args) (ps_p args) hashes_hash;
                     commitment = passphrase_commitment c cek pw_hash;
                     payload_key = passphrase_payload_key c cek (ps_nonce args)
                 in map_option (\<lambda>stream. Inr (commitment @ stream))
                      (stream_seal (aead_encrypt c) payload_key (ps_plaintext args)))))"

definition passphrase_sealed_poe_open ::
  "Tables \<Rightarrow> crypto \<Rightarrow> PassphraseOpenArgs \<Rightarrow> (EciesSealedPoeErrorCode + PassphraseOpenResult) option" where
  "passphrase_sealed_poe_open tb c args =
     (case item_hashes_hash c (po_hashes args) of
        Inl e \<Rightarrow> Some (Inl e)
      | Inr hashes_hash \<Rightarrow> (case normalize_passphrase tb (po_passphrase args) of
          None \<Rightarrow> None
        | Some (Inl e) \<Rightarrow> Some (Inl e)
        | Some (Inr normalized) \<Rightarrow>
            if po_aead args \<noteq> AEAD_CHACHA20_POLY1305_STREAM64K then Some (Inl UnsupportedAeadAlg)
            else if po_alg args \<noteq> PASSPHRASE_KDF_ARGON2ID then Some (Inl EncPassphraseAlgUnsupported)
            else case assert_kdf_inputs (po_salt args) (po_nonce args) (po_m args) (po_t args) (po_p args) of
              Inl e \<Rightarrow> Some (Inl e)
            | Inr _ \<Rightarrow>
                if length (po_blob args) < MIN_PASSPHRASE_BLOB_LENGTH then Some (Inr Rejected)
                else case argon2_cek c normalized (po_salt args) (po_m args) (po_t args) (po_p args) of
                  Inl e \<Rightarrow> Some (Inl e)
                | Inr cek \<Rightarrow>
                    let pw_hash = compute_passphrase_hash c (po_aead args) (po_nonce args) (po_alg args)
                          (po_salt args) (po_m args) (po_t args) (po_p args) hashes_hash;
                        expected = passphrase_commitment c cek pw_hash;
                        header = take PASSPHRASE_COMMITMENT_LENGTH (po_blob args)
                    in if expected \<noteq> header then Some (Inr Rejected)
                       else map_option (\<lambda>r. Inr (case r of Inr plaintext \<Rightarrow> Opened plaintext | Inl _ \<Rightarrow> Rejected))
                              (stream_open (aead_decrypt c) (passphrase_payload_key c cek (po_nonce args))
                                (drop PASSPHRASE_COMMITMENT_LENGTH (po_blob args)))))"

section \<open>Normalisation keeps the words\<close>

text \<open>The reference: the maximal runs without white space, joined by single spaces.\<close>

function words_of :: "('a \<Rightarrow> bool) \<Rightarrow> 'a list \<Rightarrow> 'a list list" where
  "words_of P [] = []"
| "words_of P (x # xs) = (if P x then words_of P xs
     else takeWhile (\<lambda>y. \<not> P y) (x # xs) # words_of P (dropWhile (\<lambda>y. \<not> P y) xs))"
  by pat_completeness auto
termination by (relation "measure (\<lambda>(P, xs). length xs)") (simp_all add: less_Suc_eq_le length_dropWhile_le)

declare words_of.simps(2) [simp del]

lemma words_of_simps:
  "P x \<Longrightarrow> words_of P (x # xs) = words_of P xs"
  "\<not> P x \<Longrightarrow> words_of P (x # xs) = (x # takeWhile (\<lambda>y. \<not> P y) xs) # words_of P (dropWhile (\<lambda>y. \<not> P y) xs)"
  by (simp_all add: words_of.simps(2))

fun join_words :: "nat list list \<Rightarrow> nat list" where
  "join_words [] = []"
| "join_words [w] = w"
| "join_words (w # ws) = w @ 0x20 # join_words ws"

lemma words_of_Nil: "words_of P xs = [] \<longleftrightarrow> list_all P xs"
proof (induction P xs rule: words_of.induct)
  case (2 P x xs)
  then show ?case by (cases "P x") (simp_all add: words_of_simps)
qed simp

lemma words_of_ok: "w \<in> set (words_of P xs) \<Longrightarrow> w \<noteq> [] \<and> list_all (\<lambda>y. \<not> P y) w"
proof (induction P xs rule: words_of.induct)
  case (2 P x xs)
  show ?case
  proof (cases "P x")
    case True
    then show ?thesis using "2.IH"(1) [OF True] "2.prems" words_of_simps(1) [of P x xs, OF True] by metis
  next
    case False
    have "list_all (\<lambda>y. \<not> P y) (x # takeWhile (\<lambda>y. \<not> P y) xs)"
      using False by (auto simp: list_all_iff dest: set_takeWhileD)
    then show ?thesis using "2.IH"(2) [OF False] "2.prems" unfolding words_of_simps(2) [of P x, OF False] list.set
      by blast
  qed
qed simp

lemma list_all_last: "list_all P xs \<Longrightarrow> xs \<noteq> [] \<Longrightarrow> P (last xs)"
  unfolding list_all_iff by (blast intro: last_in_set)

lemma join_words_Cons: "join_words (w # ws) = w @ (if ws = [] then [] else 0x20 # join_words ws)"
  by (cases ws) simp_all

lemma join_words_ends:
  assumes "ws \<noteq> []" "\<And>w. w \<in> set ws \<Longrightarrow> w \<noteq> [] \<and> list_all (\<lambda>y. \<not> P y) w"
  shows "join_words ws \<noteq> [] \<and> \<not> P (hd (join_words ws)) \<and> \<not> P (last (join_words ws))"
  using assms
proof (induction ws)
  case (Cons w ws)
  then have w: "w \<noteq> []" "list_all (\<lambda>y. \<not> P y) w" by simp_all
  then show ?case using Cons.IH Cons.prems(2)
    by (cases "ws = []") (auto simp: join_words_Cons list_all_iff)
qed simp

lemma collapse_False: "collapse t False xs =
    (if xs \<noteq> [] \<and> is_white_space16 t (hd xs) then [0x20] else []) @ collapse t True xs"
  by (cases xs) auto

lemma collapse_word: "list_all (\<lambda>y. \<not> is_white_space16 t y) w \<Longrightarrow> w \<noteq> [] \<Longrightarrow>
    collapse t b (w @ xs) = w @ collapse t False xs"
proof (induction w arbitrary: b)
  case (Cons x w)
  then show ?case by (cases "w = []") auto
qed simp

lemma collapse_words_step:
  fixes t
  defines "P \<equiv> is_white_space16 t"
  assumes w: "w \<noteq> []" "list_all (\<lambda>y. \<not> P y) w" and d: "d \<noteq> [] \<Longrightarrow> P (hd d)"
    and IH: "collapse t True d = join_words (words_of P d) @ (if words_of P d \<noteq> [] \<and> P (last d) then [0x20] else [])"
  shows "collapse t True (w @ d) = join_words (w # words_of P d) @ (if P (last (w @ d)) then [0x20] else [])"
proof -
  have c: "collapse t True (w @ d) = w @ (if d \<noteq> [] then [0x20] else []) @ collapse t True d"
    using collapse_word [of t w True d] w d collapse_False [of t d] by (simp add: P_def)
  show ?thesis
  proof (cases "d = []")
    case True
    then show ?thesis using list_all_last [OF w(2,1)] c by simp
  next
    case False
    have "words_of P d = [] \<Longrightarrow> P (last d)" unfolding words_of_Nil by (rule list_all_last [OF _ False])
    then show ?thesis using False by (auto simp: c IH join_words_Cons)
  qed
qed

lemma collapse_words:
  "collapse t True xs = join_words (words_of (is_white_space16 t) xs) @
     (if words_of (is_white_space16 t) xs \<noteq> [] \<and> is_white_space16 t (last xs) then [0x20] else [])"
proof (induction "is_white_space16 t" xs rule: words_of.induct)
  case (2 x xs)
  let ?P = "is_white_space16 t"
  show ?case
  proof (cases "?P x")
    case True
    have "words_of ?P xs \<noteq> [] \<Longrightarrow> last (x # xs) = last xs" by auto
    then show ?thesis using "2"(1) [OF True] True by (cases "words_of ?P xs = []") (simp_all add: words_of_simps)
  next
    case False
    let ?w = "x # takeWhile (\<lambda>y. \<not> ?P y) xs" and ?d = "dropWhile (\<lambda>y. \<not> ?P y) xs"
    have w: "?w \<noteq> []" "list_all (\<lambda>y. \<not> ?P y) ?w" using False by (auto simp: list_all_iff dest: set_takeWhileD)
    have hd: "?d \<noteq> [] \<Longrightarrow> ?P (hd ?d)" using hd_dropWhile [of "\<lambda>y. \<not> ?P y" xs] by simp
    have eq: "x # xs = ?w @ ?d" by simp
    show ?thesis using collapse_words_step [OF w hd "2"(2) [OF False]]
      unfolding eq [symmetric] words_of_simps(2) [of ?P, OF False] by simp
  qed
qed simp

lemma trimmed_words:
  assumes "is_white_space16 t 0x20"
  shows "strip_suffix 0x20 (strip_prefix 0x20 (collapse t False xs)) = join_words (words_of (is_white_space16 t) xs)"
proof (cases "words_of (is_white_space16 t) xs = []")
  case True
  then show ?thesis unfolding collapse_False collapse_words by (simp add: strip_prefix_def strip_suffix_def)
next
  case False
  let ?j = "join_words (words_of (is_white_space16 t) xs)"
  have j: "?j \<noteq> []" "hd ?j \<noteq> 0x20" "last ?j \<noteq> 0x20"
    using join_words_ends [of "words_of (is_white_space16 t) xs" "is_white_space16 t"] False words_of_ok assms
    by metis+
  then show ?thesis unfolding collapse_False collapse_words by (auto simp: strip_prefix_def strip_suffix_def)
qed

lemma join_words_Nil: "join_words (words_of P xs) = [] \<longleftrightarrow> words_of P xs = []"
  using join_words_ends [of "words_of P xs" P] words_of_ok by fastforce

text \<open>
  C31: What normalisation returns, on every input: too many bytes are refused before any other work,
  unassigned code points before the empty result, and otherwise the result is the maximal runs of the
  NFKC form without white space, joined by single spaces, where white space is exactly the published list.
\<close>

theorem normalize_passphrase_words:
  assumes "tables d k pairs a = Some t"
  shows "normalize_passphrase t pw =
    (if 4096 < length (str_bytes pw) then Some (Inl PassphraseInputTooLong)
     else case nfkc16 t pw of None \<Rightarrow> None
       | Some (Inl _) \<Rightarrow> Some (Inl EncPassphraseUnnormalizable)
       | Some (Inr s) \<Rightarrow>
           let ws = words_of (\<lambda>ch. ch \<in> set UNICODE_WHITE_SPACE) s
           in if ws = [] then Some (Inl EncPassphraseEmpty) else Some (Inr (join_words ws)))"
proof -
  have ws: "is_white_space16 t = (\<lambda>ch. ch \<in> set UNICODE_WHITE_SPACE)"
    using tables_white_space [OF assms] by blast
  have "is_white_space16 t 0x20" unfolding ws UNICODE_WHITE_SPACE_def by simp
  from trimmed_words [OF this] show ?thesis
    unfolding normalize_passphrase_def MAX_PASSPHRASE_INPUT_BYTES_def Let_def
    by (simp only: ws join_words_Nil)
qed

section \<open>The commitment\<close>

lemma passphrase_map_distinct:
  "keys_distinct (CMap [(cbor_text ''alg'', Text alg), (cbor_text ''salt'', Bytes salt),
     (cbor_text ''params'', CMap [(cbor_text ''m'', Unsigned m), (cbor_text ''t'', Unsigned t), (cbor_text ''p'', Unsigned p)]),
     (cbor_text ''normalization'', Text norm)])"
proof -
  have "keys_distinct (CMap (map (\<lambda>(k, v). (cbor_text k, v)) [(''m'', Unsigned m), (''t'', Unsigned t), (''p'', Unsigned p)]))"
    by (rule keys_distinct_lits) simp_all
  then have "keys_distinct (CMap (map (\<lambda>(k, v). (cbor_text k, v)) [(''alg'', Text alg), (''salt'', Bytes salt),
      (''params'', CMap [(cbor_text ''m'', Unsigned m), (cbor_text ''t'', Unsigned t), (cbor_text ''p'', Unsigned p)]),
      (''normalization'', Text norm)]))"
    by (intro keys_distinct_lits) (simp_all del: keys_distinct.simps(6))
  then show ?thesis by (simp del: keys_distinct.simps)
qed

lemma passphrase_transcript_encodes:
  "encode_canonical_cbor (CMap (passphrase_transcript aead nonce alg salt m t p hh)) =
     Inr (passphrase_transcript_bytes aead nonce alg salt m t p hh)"
proof -
  let ?pw = "CMap [(cbor_text ''alg'', Text alg), (cbor_text ''salt'', Bytes salt),
     (cbor_text ''params'', CMap [(cbor_text ''m'', Unsigned m), (cbor_text ''t'', Unsigned t), (cbor_text ''p'', Unsigned p)]),
     (cbor_text ''normalization'', Text CARDANO_POE_PW_NORM_PROFILE)]"
  let ?kvs = "[(''scheme'', Unsigned 1), (''path'', cbor_text ''passphrase''), (''aead'', Text aead),
    (''nonce'', Bytes nonce), (''hashes_hash'', Bytes hh), (''passphrase'', ?pw)]"
  have "passphrase_transcript aead nonce alg salt m t p hh = map (\<lambda>(k, v). (cbor_text k, v)) ?kvs"
    by (simp add: passphrase_transcript_def Let_def)
  moreover have "keys_distinct (CMap (map (\<lambda>(k, v). (cbor_text k, v)) ?kvs))"
    by (rule keys_distinct_lits) (simp_all add: passphrase_map_distinct cbor_text_def [of "''passphrase''"] del: keys_distinct.simps(6))
  ultimately have "keys_distinct (CMap (passphrase_transcript aead nonce alg salt m t p hh))" by (simp only:)
  then have "\<exists>bs. encode_canonical_cbor (CMap (passphrase_transcript aead nonce alg salt m t p hh)) = Inr bs"
    unfolding encode_canonical_cbor_Inr_iff by blast
  then show ?thesis by (auto simp: passphrase_transcript_bytes_def)
qed

text \<open>What the header of a passphrase envelope satisfies as a value of the program.\<close>

definition pw_header_wf :: "rstring \<Rightarrow> bytes \<Rightarrow> rstring \<Rightarrow> bytes \<Rightarrow> bytes \<Rightarrow> bool" where
  "pw_header_wf aead nonce alg salt hh \<longleftrightarrow> utf8_valid aead \<and> length aead < usize_limit \<and> utf8_valid alg \<and>
     length alg < usize_limit \<and> length nonce < usize_limit \<and> length salt < usize_limit \<and> length hh < usize_limit"

lemma passphrase_transcript_wf:
  assumes "pw_header_wf aead nonce alg salt hh"
  shows "wf_cbor (CMap (passphrase_transcript aead nonce alg salt m t p hh))"
proof -
  have "list_all (\<lambda>s. utf8_valid (lit s)) [''scheme'', ''path'', ''passphrase'', ''aead'', ''nonce'', ''hashes_hash'',
      ''alg'', ''salt'', ''params'', ''m'', ''t'', ''p'', ''normalization'', ''cardano-poe-pw-norm-v1'']"
    by code_simp
  then show ?thesis using assms
    by (simp add: passphrase_transcript_def pw_header_wf_def cbor_text_def CARDANO_POE_PW_NORM_PROFILE_def)
qed

lemma passphrase_transcript_inj:
  assumes wf: "pw_header_wf aead nonce alg salt hh" "pw_header_wf aead' nonce' alg' salt' hh'"
    and eq: "passphrase_transcript_bytes aead nonce alg salt m t p hh = passphrase_transcript_bytes aead' nonce' alg' salt' m' t' p' hh'"
    and len: "length (passphrase_transcript_bytes aead nonce alg salt m t p hh) < usize_limit"
  shows "aead = aead' \<and> nonce = nonce' \<and> alg = alg' \<and> salt = salt' \<and> m = m' \<and> t = t' \<and> p = p' \<and> hh = hh'"
proof -
  have get: "map_option canon_cbor (map_get (passphrase_transcript aead nonce alg salt m t p hh) key) =
      map_option canon_cbor (map_get (passphrase_transcript aead' nonce' alg' salt' m' t' p' hh') key)" for key
    by (rule encoded_map_get [OF passphrase_transcript_encodes
          passphrase_transcript_encodes [of aead' nonce' alg' salt' m' t' p' hh', folded eq]
          passphrase_transcript_wf [OF wf(1)] passphrase_transcript_wf [OF wf(2)] len])
  let ?params = "\<lambda>m t p :: u64. [(cbor_text ''m'', Unsigned m), (cbor_text ''t'', Unsigned t), (cbor_text ''p'', Unsigned p)]"
  let ?pw = "\<lambda>alg salt m t p. [(cbor_text ''alg'', Text alg), (cbor_text ''salt'', Bytes salt),
     (cbor_text ''params'', CMap (?params m t p)), (cbor_text ''normalization'', Text CARDANO_POE_PW_NORM_PROFILE)]"
  have inner: "map_option canon_cbor (map_get a key) = map_option canon_cbor (map_get b key)"
    if "canon_cbor (CMap a) = canon_cbor (CMap b)" "keys_distinct (CMap a)" "keys_distinct (CMap b)" for a b key
  proof -
    obtain rs where rs: "canon_cbor (CMap a) = CMap rs" by simp
    show ?thesis using map_get_canon [OF that(2) rs] map_get_canon [OF that(3), of rs] rs that(1) by simp
  qed
  note lookup = map_get_def cbor_text_def
  have pd: "keys_distinct (CMap (?params m t p))" for m t p
    using keys_distinct_lits [of "[(''m'', Unsigned m), (''t'', Unsigned t), (''p'', Unsigned p)]"] by simp
  have "canon_cbor (CMap (?pw alg salt m t p)) = canon_cbor (CMap (?pw alg' salt' m' t' p'))"
    using get [of "lit ''passphrase''"] by (simp add: passphrase_transcript_def lookup del: canon_cbor.simps)
  from inner [OF this passphrase_map_distinct passphrase_map_distinct]
  have pw: "map_option canon_cbor (map_get (?pw alg salt m t p) key) = map_option canon_cbor (map_get (?pw alg' salt' m' t' p') key)" for key .
  have "canon_cbor (CMap (?params m t p)) = canon_cbor (CMap (?params m' t' p'))"
    using pw [of "lit ''params''"] by (simp add: lookup del: canon_cbor.simps)
  from inner [OF this pd pd]
  have params: "map_option canon_cbor (map_get (?params m t p) key) = map_option canon_cbor (map_get (?params m' t' p') key)" for key .
  show ?thesis
    using get [of "lit ''aead''"] get [of "lit ''nonce''"] get [of "lit ''hashes_hash''"] pw [of "lit ''alg''"] pw [of "lit ''salt''"]
      params [of "lit ''m''"] params [of "lit ''t''"] params [of "lit ''p''"]
    by (simp add: lookup passphrase_transcript_def del: canon_cbor.simps(5,6))
qed

section \<open>Opening and sealing\<close>

lemma sum_bind_Pair: "and_then r (\<lambda>x. map_sum id (Pair x) q) = Inr (a, b) \<longleftrightarrow> r = Inr a \<and> q = Inr b"
  by (cases r; cases q) auto

lemma opened_verdict: "(case r of Inl e \<Rightarrow> Rejected | Inr q \<Rightarrow> Opened q) = Opened p \<longleftrightarrow> r = Inr p"
  by (cases r) auto

lemma seal_Inr:
  "passphrase_sealed_poe_seal tb c args = Some (Inr blob) \<longleftrightarrow>
     (\<exists>n cek hh stream. assert_kdf_inputs (ps_salt args) (ps_nonce args) (ps_m args) (ps_t args) (ps_p args) = Inr () \<and>
       normalize_passphrase tb (ps_passphrase args) = Some (Inr n) \<and>
       argon2_cek c n (ps_salt args) (ps_m args) (ps_t args) (ps_p args) = Inr cek \<and>
       item_hashes_hash c (ps_hashes args) = Inr hh \<and>
       stream_seal (aead_encrypt c) (passphrase_payload_key c cek (ps_nonce args)) (ps_plaintext args) = Some stream \<and>
       blob = passphrase_commitment c cek (compute_passphrase_hash c AEAD_CHACHA20_POLY1305_STREAM64K (ps_nonce args)
         PASSPHRASE_KDF_ARGON2ID (ps_salt args) (ps_m args) (ps_t args) (ps_p args) hh) @ stream)"
  unfolding passphrase_sealed_poe_seal_def Let_def
  by (auto simp: sum_bind_Pair and_then_Inl_iff split: sum.splits option.splits)

lemma open_Opened:
  "passphrase_sealed_poe_open tb c args = Some (Inr (Opened p)) \<longleftrightarrow>
     (\<exists>n cek hh. assert_kdf_inputs (po_salt args) (po_nonce args) (po_m args) (po_t args) (po_p args) = Inr () \<and>
       po_aead args = AEAD_CHACHA20_POLY1305_STREAM64K \<and> po_alg args = PASSPHRASE_KDF_ARGON2ID \<and>
       normalize_passphrase tb (po_passphrase args) = Some (Inr n) \<and>
       argon2_cek c n (po_salt args) (po_m args) (po_t args) (po_p args) = Inr cek \<and>
       item_hashes_hash c (po_hashes args) = Inr hh \<and> MIN_PASSPHRASE_BLOB_LENGTH \<le> length (po_blob args) \<and>
       take PASSPHRASE_COMMITMENT_LENGTH (po_blob args) = passphrase_commitment c cek (compute_passphrase_hash c
         (po_aead args) (po_nonce args) (po_alg args) (po_salt args) (po_m args) (po_t args) (po_p args) hh) \<and>
       stream_open (aead_decrypt c) (passphrase_payload_key c cek (po_nonce args))
         (drop PASSPHRASE_COMMITMENT_LENGTH (po_blob args)) = Some (Inr p))"
  unfolding passphrase_sealed_poe_open_def Let_def
  by (auto simp: opened_verdict not_less split: sum.splits option.splits if_splits)

text \<open>The open call for what a seal call produced.\<close>

definition open_args_of :: "PassphraseSealArgs \<Rightarrow> bytes \<Rightarrow> PassphraseOpenArgs" where
  "open_args_of a blob = \<lparr>po_blob = blob, po_passphrase = ps_passphrase a,
     po_aead = AEAD_CHACHA20_POLY1305_STREAM64K, po_alg = PASSPHRASE_KDF_ARGON2ID, po_salt = ps_salt a,
     po_m = ps_m a, po_t = ps_t a, po_p = ps_p a, po_nonce = ps_nonce a, po_hashes = ps_hashes a\<rparr>"

text \<open>
  C29: Sealing and opening with a passphrase are inverse: under any passphrase with the normal form of the
  one that was sealed with, and the other inputs unchanged, a blob opens to a plaintext exactly if it is
  the blob that sealing this plaintext produces. So every other blob is rejected.
\<close>

theorem passphrase_open_inverts_seal:
  assumes laws: "crypto_laws c" and len: "length blob < usize_limit" "length (ps_plaintext a) < usize_limit"
    and pw: "normalize_passphrase tb pw = normalize_passphrase tb (ps_passphrase a)"
  shows "passphrase_sealed_poe_open tb c ((open_args_of a blob)\<lparr>po_passphrase := pw\<rparr>) = Some (Inr (Opened (ps_plaintext a))) \<longleftrightarrow>
    passphrase_sealed_poe_seal tb c a = Some (Inr blob)"
proof -
  have digests: "digest_laws c" using laws by (simp add: crypto_laws_def)
  have key: "length (passphrase_payload_key c cek nonce) = 32" for cek nonce
    using digests by (simp add: passphrase_payload_key_def)
  have com: "length (passphrase_commitment c cek h) = 32" for cek h
    using digests by (simp add: passphrase_commitment_def digest_laws_def)
  note st = stream_open_iff_seal [OF crypto_lawsD(4) [OF laws] key _ len(2)]
  have min: "16 \<le> length stream"
    if "stream_seal (aead_encrypt c) (passphrase_payload_key c cek nonce) (ps_plaintext a) = Some stream" for cek nonce stream
    using stream_seal_length [OF crypto_lawsD(4) [OF laws] key len(2) that] by (simp add: TAG_SIZE_def)
  have blob: "blob = x @ stream \<longleftrightarrow> take 32 blob = x \<and> drop 32 blob = stream \<and> 32 \<le> length blob" if "length x = 32" for x stream
    using that by (auto simp: append_eq_conv_conj min_def)
  have drop: "length (drop 32 blob) < usize_limit" using len(1) by simp
  show ?thesis
    unfolding open_Opened seal_Inr
    using st [OF drop] min blob [OF com]
    by (simp add: pw open_args_of_def PASSPHRASE_COMMITMENT_LENGTH_def MIN_PASSPHRASE_BLOB_LENGTH_def TAG_SIZE_def) fastforce
qed

text \<open>The inputs of the two digests an open call computes, and the fields its transcript covers.\<close>

definition open_transcript :: "PassphraseOpenArgs \<Rightarrow> bytes \<Rightarrow> bytes" where
  "open_transcript a hh = CARDANO_POE_HASH_PREFIX_PASSPHRASE_TRANSCRIPT @ passphrase_transcript_bytes (po_aead a)
     (po_nonce a) (po_alg a) (po_salt a) (po_m a) (po_t a) (po_p a) hh"

definition hashes_preimage :: "hash_map \<Rightarrow> bytes" where
  "hashes_preimage hashes = CARDANO_POE_HASH_PREFIX_ITEM_HASHES @ expect (encode_canonical_cbor (hashes_cbor hashes))"

definition same_header :: "PassphraseOpenArgs \<Rightarrow> PassphraseOpenArgs \<Rightarrow> bool" where
  "same_header a b \<longleftrightarrow> po_aead a = po_aead b \<and> po_alg a = po_alg b \<and> po_nonce a = po_nonce b \<and>
     po_salt a = po_salt b \<and> po_m a = po_m b \<and> po_t a = po_t b \<and> po_p a = po_p b"

definition open_argon2 :: "crypto \<Rightarrow> PassphraseOpenArgs \<Rightarrow> nat list \<Rightarrow> bytes option" where
  "open_argon2 c a n = argon2id c (str_bytes n) (po_salt a) (unat (po_m a)) (unat (po_t a)) (unat (po_p a))"

lemma opened_parts:
  assumes op: "passphrase_sealed_poe_open tb c a = Some (Inr (Opened p))" and laws: "digest_laws c"
  obtains n cek hh where "normalize_passphrase tb (po_passphrase a) = Some (Inr n)" "open_argon2 c a n = Some cek"
    "item_hashes_hash c (po_hashes a) = Inr hh" "length hh = 32" "hh = sha256 c (hashes_preimage (po_hashes a))"
    "pw_header_wf (po_aead a) (po_nonce a) (po_alg a) (po_salt a) hh"
    "take 32 (po_blob a) = passphrase_commitment c cek (sha256 c (open_transcript a hh))"
    "stream_open (aead_decrypt c) (passphrase_payload_key c cek (po_nonce a)) (drop 32 (po_blob a)) = Some (Inr p)"
proof -
  from op [unfolded open_Opened] obtain n cek hh where a:
    "assert_kdf_inputs (po_salt a) (po_nonce a) (po_m a) (po_t a) (po_p a) = Inr ()"
    "po_aead a = AEAD_CHACHA20_POLY1305_STREAM64K" "po_alg a = PASSPHRASE_KDF_ARGON2ID"
    "normalize_passphrase tb (po_passphrase a) = Some (Inr n)"
    "argon2_cek c n (po_salt a) (po_m a) (po_t a) (po_p a) = Inr cek" "item_hashes_hash c (po_hashes a) = Inr hh"
    "take PASSPHRASE_COMMITMENT_LENGTH (po_blob a) = passphrase_commitment c cek (compute_passphrase_hash c
       (po_aead a) (po_nonce a) (po_alg a) (po_salt a) (po_m a) (po_t a) (po_p a) hh)"
    "stream_open (aead_decrypt c) (passphrase_payload_key c cek (po_nonce a)) (drop PASSPHRASE_COMMITMENT_LENGTH (po_blob a)) = Some (Inr p)"
    by blast
  have hh: "hh = sha256 c (hashes_preimage (po_hashes a))" "length hh = 32"
    using a(6) laws by (auto simp: item_hashes_hash_def labelled_sha256_def hashes_preimage_def Let_def digest_laws_def split: if_splits)
  have ascii: "utf8_valid AEAD_CHACHA20_POLY1305_STREAM64K" "utf8_valid PASSPHRASE_KDF_ARGON2ID" by code_simp+
  have sizes: "length AEAD_CHACHA20_POLY1305_STREAM64K < usize_limit" "length PASSPHRASE_KDF_ARGON2ID < usize_limit"
    by (simp_all add: AEAD_CHACHA20_POLY1305_STREAM64K_def PASSPHRASE_KDF_ARGON2ID_def)
  have "pw_header_wf (po_aead a) (po_nonce a) (po_alg a) (po_salt a) hh"
    using a(1-3) hh(2) ascii sizes by (auto simp: pw_header_wf_def assert_kdf_inputs_def NONCE_LENGTH_def
        MAX_PASSPHRASE_SALT_LENGTH_def split: if_splits)
  moreover have "open_argon2 c a n = Some cek"
    using a(5) by (auto simp: argon2_cek_def open_argon2_def split: if_splits option.splits)
  ultimately show thesis using that a(4,6-8) hh
    by (simp add: compute_passphrase_hash_def labelled_sha256_def open_transcript_def PASSPHRASE_COMMITMENT_LENGTH_def)
qed

text \<open>
  C30: A blob commits to its passphrase and header. If one blob opens for two calls, the calls agree in
  every header field, in the hash claim and in the normalised passphrase, and return the same plaintext;
  otherwise the theorem exhibits a collision of the commitment, of SHA-256 or of Argon2id.
\<close>

theorem passphrase_blob_commits:
  assumes op: "passphrase_sealed_poe_open tb c a = Some (Inr (Opened p))"
      "passphrase_sealed_poe_open tb c b = Some (Inr (Opened q))" and blob: "po_blob a = po_blob b"
    and wf: "hash_map_wf (po_hashes a)" "hash_map_wf (po_hashes b)" and laws: "digest_laws c"
    and len: "length (hashes_preimage (po_hashes a)) < usize_limit"
      "\<And>hh. length hh = 32 \<Longrightarrow> length (open_transcript a hh) < usize_limit"
  shows "\<exists>n n' cek cek' hh hh'. normalize_passphrase tb (po_passphrase a) = Some (Inr n) \<and>
      normalize_passphrase tb (po_passphrase b) = Some (Inr n') \<and>
      open_argon2 c a n = Some cek \<and> open_argon2 c b n' = Some cek' \<and>
      item_hashes_hash c (po_hashes a) = Inr hh \<and> item_hashes_hash c (po_hashes b) = Inr hh' \<and>
    (let t = open_transcript a hh; t' = open_transcript b hh';
         e = hashes_preimage (po_hashes a); e' = hashes_preimage (po_hashes b)
     in (same_header a b \<and> po_hashes a = po_hashes b \<and> str_bytes n = str_bytes n' \<and> p = q) \<or>
        ((cek, sha256 c t) \<noteq> (cek', sha256 c t') \<and>
           passphrase_commitment c cek (sha256 c t) = passphrase_commitment c cek' (sha256 c t')) \<or>
        (t \<noteq> t' \<and> sha256 c t = sha256 c t') \<or> (e \<noteq> e' \<and> sha256 c e = sha256 c e') \<or>
        (str_bytes n \<noteq> str_bytes n' \<and> open_argon2 c a n = open_argon2 c b n'))"
proof -
  obtain n cek hh where a: "normalize_passphrase tb (po_passphrase a) = Some (Inr n)" "open_argon2 c a n = Some cek"
    "item_hashes_hash c (po_hashes a) = Inr hh" "length hh = 32" "hh = sha256 c (hashes_preimage (po_hashes a))"
    "pw_header_wf (po_aead a) (po_nonce a) (po_alg a) (po_salt a) hh"
    "take 32 (po_blob a) = passphrase_commitment c cek (sha256 c (open_transcript a hh))"
    "stream_open (aead_decrypt c) (passphrase_payload_key c cek (po_nonce a)) (drop 32 (po_blob a)) = Some (Inr p)"
    using opened_parts [OF op(1) laws] by metis
  obtain n' cek' hh' where b: "normalize_passphrase tb (po_passphrase b) = Some (Inr n')" "open_argon2 c b n' = Some cek'"
    "item_hashes_hash c (po_hashes b) = Inr hh'" "length hh' = 32" "hh' = sha256 c (hashes_preimage (po_hashes b))"
    "pw_header_wf (po_aead b) (po_nonce b) (po_alg b) (po_salt b) hh'"
    "take 32 (po_blob b) = passphrase_commitment c cek' (sha256 c (open_transcript b hh'))"
    "stream_open (aead_decrypt c) (passphrase_payload_key c cek' (po_nonce b)) (drop 32 (po_blob b)) = Some (Inr q)"
    using opened_parts [OF op(2) laws] by metis
  have len': "length (expect (encode_canonical_cbor (hashes_cbor (po_hashes a)))) < usize_limit"
    "length (passphrase_transcript_bytes (po_aead a) (po_nonce a) (po_alg a) (po_salt a) (po_m a) (po_t a) (po_p a) hh) < usize_limit"
    using len(1) len(2) [OF a(4)] by (simp_all add: hashes_preimage_def open_transcript_def)
  have header: "same_header a b \<and> hh = hh'" if "open_transcript a hh = open_transcript b hh'"
    using passphrase_transcript_inj [OF a(6) b(6) _ len'(2)] that by (simp add: open_transcript_def same_header_def)
  have hashes: "po_hashes a = po_hashes b" if "hashes_preimage (po_hashes a) = hashes_preimage (po_hashes b)"
    using hashes_cbor_inj [OF wf _ len'(1)] that by (simp add: hashes_preimage_def)
  have plain: "p = q" if "cek = cek'" "same_header a b" using a(8) b(8) blob that by (simp add: same_header_def)
  have "passphrase_commitment c cek (sha256 c (open_transcript a hh)) = passphrase_commitment c cek' (sha256 c (open_transcript b hh'))"
    using a(7) b(7) blob by simp
  then show ?thesis
    using a(1-3,5) b(1-3,5) header hashes plain unfolding Let_def prod.inject by metis
qed

end
