(* ===== verification/Sealed_Pw_Samples.thy ===== *)
theory Sealed_Pw_Samples
  imports Sealed_Passphrase Sealed_Samples
begin

text \<open>Small tables, one blob sealed under a passphrase, and the witnesses of the passphrase path.\<close>

definition sample_tables :: Tables where
  "sample_tables = \<lparr>decomposition = map_of [(0xFB01, [0x66, 0x69])], ccc = map_of [(0x300, 0xE6)],
     composition = map_of [((0x41, 0x300), 0xC0)], assigned = [(0, 0x10FFFF)],
     white_space = [(9, 13), (32, 32), (133, 133), (160, 160), (5760, 5760), (8192, 8202), (8232, 8233), (8239, 8239),
      (8287, 8287), (12288, 12288)]\<rparr>"

lemma more_hex_digits: "hex_value CHR ''4'' = Some 4" "hex_value CHR ''B'' = Some 11" "hex_value CHR ''C'' = Some 12"
  "hex_value CHR ''E'' = Some 14"
  by (simp_all add: hex_value_def)

lemma sample_tables: "tables ''FB01=66 69'' ''300:E6'' ''41 300=C0'' ''0-10FFFF'' = Some sample_tables"
proof -
  note digits = hex_digits more_hex_digits parse_hex_def parse_span_def split_once_def
  have "parse_decomposition ''FB01=66 69'' = Some [(0xFB01, [0x66, 0x69])]" by (simp add: parse_decomposition_def digits)
  moreover have "parse_ccc ''300:E6'' = Some [(0x300, 0xE6)]" by (simp add: parse_ccc_def digits)
  moreover have "parse_composition ''41 300=C0'' = Some [((0x41, 0x300), 0xC0)]" by (simp add: parse_composition_def digits)
  moreover have "parse_ranges ''0-10FFFF'' = Some [(0, 0x10FFFF)]" by (simp add: parse_ranges_def digits)
  ultimately show ?thesis by (simp add: tables_def white_space_ranges sample_tables_def)
qed

lemma sample_assigned: "cp \<le> 0x10FFFF \<Longrightarrow> in_ranges (assigned sample_tables) cp"
  by (simp add: in_ranges_iff ranges_sorted_def sample_tables_def)

lemma sample_hangul: "hangul_tables sample_tables"
  by (auto simp: hangul_tables_def sample_tables_def ccc_of_def hangul_consts is_syllable_def)

lemma hangul_roundtrip_witness: "nfkc16 sample_tables [0xAC00, 0xD55C, 0xAE00] = Some (Inr [0xAC00, 0xD55C, 0xAE00])"
  by (rule hangul_roundtrip [OF sample_hangul]) (simp add: sample_assigned is_syllable_def hangul_consts)

lemma sample_nfkc:
  assumes "list_all (\<lambda>cp. cp < 0x80) s"
  shows "nfkc16 sample_tables s = Some (Inr s)"
proof -
  have d: "decompose sample_tables s = s"
    using assms by (induction s) (simp_all add: decompose_def decompose_one_def hangul_consts sample_tables_def)
  have z: "cp < 0x80 \<Longrightarrow> ccc_of sample_tables cp = 0" for cp by (simp add: ccc_of_def sample_tables_def)
  have r: "canonical_order sample_tables s = s"
    using assms by (induction s) (simp_all add: canonical_order.simps(2) z)
  have pair: "compose_pair sample_tables x y = None" if "x < 0x80" "y < 0x80" for x y
    using that by (simp add: compose_pair_def hangul_consts sample_tables_def)
  have "compose_loop sample_tables out si 0 s = out @ s"
    if "list_all (\<lambda>cp. cp < 0x80) out" "out = [] \<and> si = None \<or> out \<noteq> [] \<and> si = Some (length out - 1)" for out si
    using assms that
  proof (induction s arbitrary: out si)
    case (Cons x s)
    have "out \<noteq> [] \<Longrightarrow> compose_pair sample_tables (out ! (length out - 1)) x = None"
      using pair Cons.prems(1,2) by (auto simp: list_all_iff last_conv_nth [symmetric])
    then have "compose_loop sample_tables out si 0 (x # s) = compose_loop sample_tables (out @ [x]) (Some (length out)) 0 s"
      using Cons.prems z by auto
    then show ?case using Cons.IH [of "out @ [x]" "Some (length out)"] Cons.prems by simp
  qed simp
  from this [of "[]" None] have "compose sample_tables s = s" by (simp add: compose_def)
  moreover have "find (\<lambda>cp. \<not> in_ranges (assigned sample_tables) cp) s = None" "list_all is_scalar s"
    using assms sample_assigned by (auto simp: find_None_iff list_all_iff is_scalar_def)
  ultimately show ?thesis by (simp add: nfkc16_def d canonical_reorder_canonical r)
qed

lemma normalize_passphrase_words_witness:
  "normalize_passphrase sample_tables [0x20, 0x61, 0x09, 0x20, 0x62] = Some (Inr [0x61, 0x20, 0x62])"
  using normalize_passphrase_words [OF sample_tables, of "[0x20, 0x61, 0x09, 0x20, 0x62]"]
  by (simp add: sample_nfkc str_bytes_def char_bytes_def words_of.simps UNICODE_WHITE_SPACE_def)

definition sample_pw_args :: PassphraseSealArgs where
  "sample_pw_args = \<lparr>ps_plaintext = [1, 2, 3], ps_passphrase = [0x61], ps_salt = replicate 16 5,
     ps_m = 65536, ps_t = 3, ps_p = 1, ps_nonce = replicate 24 6,
     ps_hashes = [(lit ''sha2-256'', replicate 32 12)]\<rparr>"

definition sample_blob :: bytes where
  "sample_blob = replicate 32 2 @ [1, 2, 3] @ replicate 11 0 @ [1, 0, 0, 0, 0]"

lemma sample_normalized:
  assumes "ch = 0x61 \<or> ch = 0x62"
  shows "normalize_passphrase sample_tables [ch] = Some (Inr [ch])"
proof -
  have "is_white_space16 sample_tables ch = False"
    unfolding tables_white_space [OF sample_tables] using assms by (auto simp: UNICODE_WHITE_SPACE_def)
  moreover have "ch < 0x80" "ch \<noteq> 0x20" using assms by auto
  ultimately show ?thesis
    by (simp add: normalize_passphrase_def MAX_PASSPHRASE_INPUT_BYTES_def str_bytes_def char_bytes_def
        sample_nfkc strip_prefix_def strip_suffix_def)
qed

lemma sample_kdf: "assert_kdf_inputs (replicate 16 5) (replicate 24 6) 65536 3 1 = Inr ()"
  by (simp add: assert_kdf_inputs_def MIN_PASSPHRASE_SALT_LENGTH_def MAX_PASSPHRASE_SALT_LENGTH_def
      Sealed_Passphrase.NONCE_LENGTH_def
      ARGON2_PARAM_MAX_def ARGON2_M_MIN_def ARGON2_T_MIN_def ARGON2_P_MIN_def)

lemma sample_argon2: "argon2_cek sample_crypto n s 65536 3 1 = Inr (replicate 32 10)"
  by (simp add: argon2_cek_def sample_crypto_def)

lemma sample_sealed: "passphrase_sealed_poe_seal sample_tables sample_crypto sample_pw_args = Some (Inr sample_blob)"
  unfolding seal_Inr
  by (simp add: sample_pw_args_def sample_kdf sample_normalized sample_argon2 sample_hashes passphrase_commitment_def
      passphrase_payload_key_def hkdf_sha256_32 sample_simps sample_stream sample_blob_def)

text \<open>The passphrase with a space before it has the same normal form, and opens the blob.\<close>

lemma sample_spaced: "normalize_passphrase sample_tables [0x20, 0x61] = Some (Inr [0x61])"
proof -
  have "is_white_space16 sample_tables 0x61 = False" "is_white_space16 sample_tables 0x20 = True"
    unfolding tables_white_space [OF sample_tables] by (auto simp: UNICODE_WHITE_SPACE_def)
  then show ?thesis
    by (simp add: normalize_passphrase_def MAX_PASSPHRASE_INPUT_BYTES_def str_bytes_def char_bytes_def
        sample_nfkc strip_prefix_def strip_suffix_def)
qed

lemma passphrase_open_inverts_seal_witness:
  "passphrase_sealed_poe_open sample_tables sample_crypto
     ((open_args_of sample_pw_args sample_blob)\<lparr>po_passphrase := [0x20, 0x61]\<rparr>) = Some (Inr (Opened [1, 2, 3]))"
proof -
  have "normalize_passphrase sample_tables [0x20, 0x61] = normalize_passphrase sample_tables (ps_passphrase sample_pw_args)"
    using sample_spaced sample_normalized by (simp add: sample_pw_args_def)
  from passphrase_open_inverts_seal [OF sample_laws _ _ this, where blob = sample_blob] sample_sealed
  show ?thesis by (simp add: sample_blob_def sample_pw_args_def)
qed

text \<open>A KDF without strength: one blob under two passphrases, and the collision the theorem names.\<close>

definition sample_open_args :: "nat \<Rightarrow> PassphraseOpenArgs" where
  "sample_open_args ch = open_args_of (sample_pw_args\<lparr>ps_passphrase := [ch]\<rparr>) sample_blob"

lemma sample_opens:
  assumes "ch = 0x61 \<or> ch = 0x62"
  shows "passphrase_sealed_poe_open sample_tables sample_crypto (sample_open_args ch) = Some (Inr (Opened [1, 2, 3]))"
proof -
  have "stream_open plain_decrypt (replicate 32 4) ([1, 2, 3] @ replicate 11 0 @ [1, 0, 0, 0, 0]) = Some (Inr [1, 2, 3])"
    by code_simp
  then show ?thesis
    unfolding open_Opened
    by (simp add: sample_open_args_def open_args_of_def sample_pw_args_def sample_kdf sample_normalized [OF assms] sample_argon2
        sample_hashes passphrase_commitment_def passphrase_payload_key_def hkdf_sha256_32 sample_simps sample_blob_def
        MIN_PASSPHRASE_BLOB_LENGTH_def PASSPHRASE_COMMITMENT_LENGTH_def TAG_SIZE_def)
qed

lemma encoded_size: "encode_canonical_cbor v = Inr bs \<Longrightarrow> length (expect (encode_canonical_cbor v)) = length (enc_cbor v)"
  by (metis encode_canonical_cbor_Inr_iff length_enc_canon projr_def sum.sel(2))

lemma sample_preimages:
  "length (hashes_preimage [(lit ''sha2-256'', replicate 32 12)]) < usize_limit"
  "length hh = 32 \<Longrightarrow> length (open_transcript (sample_open_args ch) hh) < usize_limit"
proof -
  have "length (enc_cbor (hashes_cbor [(lit ''sha2-256'', replicate 32 12)])) < 1000"
    using length_head [of 5 1] length_head [of 3 8] length_head [of 2 32] by (simp add: hashes_cbor_def)
  then show "length (hashes_preimage [(lit ''sha2-256'', replicate 32 12)]) < usize_limit"
    using encoded_size [OF hashes_cbor_encodes(1) [OF sample_headers_wf(1)]]
    by (simp add: hashes_preimage_def CARDANO_POE_HASH_PREFIX_ITEM_HASHES_def)
  have key_len: "length (enc_cbor (cbor_text s)) \<le> 100" if "length s \<le> 20" for s
    using that length_head [of 3 "of_nat (length s)"] by (simp add: cbor_text_def)
  assume hh: "length hh = 32"
  let ?tr = "passphrase_transcript AEAD_CHACHA20_POLY1305_STREAM64K (replicate 24 6) PASSPHRASE_KDF_ARGON2ID (replicate 16 5) 65536 3 1 hh"
  have "length (enc_cbor (CMap ?tr)) < 5000"
    by (simp add: passphrase_transcript_def AEAD_CHACHA20_POLY1305_STREAM64K_def PASSPHRASE_KDF_ARGON2ID_def hh
          CARDANO_POE_PW_NORM_PROFILE_def)
      (use length_head [of 5 6] length_head [of 5 4] length_head [of 5 3] length_head [of 0 1] length_head [of 0 3]
        length_head [of 0 65536] length_head [of 3 27] length_head [of 3 8] length_head [of 3 22] length_head [of 2 24]
        length_head [of 2 16] length_head [of 2 32]
        key_len [of "''scheme''", simplified] key_len [of "''path''", simplified] key_len [of "''passphrase''", simplified]
        key_len [of "''aead''", simplified] key_len [of "''nonce''", simplified] key_len [of "''hashes_hash''", simplified]
        key_len [of "''alg''", simplified] key_len [of "''salt''", simplified] key_len [of "''params''", simplified]
        key_len [of "''m''", simplified] key_len [of "''t''", simplified] key_len [of "''p''", simplified]
        key_len [of "''normalization''", simplified] in linarith)
  then show "length (open_transcript (sample_open_args ch) hh) < usize_limit"
    using encoded_size [OF passphrase_transcript_encodes, of AEAD_CHACHA20_POLY1305_STREAM64K "replicate 24 6"
        PASSPHRASE_KDF_ARGON2ID "replicate 16 5" 65536 3 1 hh]
    by (simp add: open_transcript_def passphrase_transcript_bytes_def sample_open_args_def open_args_of_def
        sample_pw_args_def CARDANO_POE_HASH_PREFIX_PASSPHRASE_TRANSCRIPT_def)
qed

lemma passphrase_blob_commits_witness:
  "\<exists>n n'. str_bytes n \<noteq> str_bytes n' \<and>
     open_argon2 sample_crypto (sample_open_args 0x61) n = open_argon2 sample_crypto (sample_open_args 0x62) n'"
proof -
  let ?a = "sample_open_args 0x61" and ?b = "sample_open_args 0x62"
  have f: "po_blob ?a = po_blob ?b" "po_hashes ?a = [(lit ''sha2-256'', replicate 32 12)]"
    "po_hashes ?b = [(lit ''sha2-256'', replicate 32 12)]" "po_passphrase ?a = [0x61]" "po_passphrase ?b = [0x62]"
    "open_transcript ?a hh = open_transcript ?b hh" for hh
    by (simp_all add: sample_open_args_def open_args_of_def sample_pw_args_def open_transcript_def)
  have "digest_laws sample_crypto" using sample_laws by (simp add: crypto_laws_def)
  from passphrase_blob_commits [OF sample_opens sample_opens f(1) _ _ this _ sample_preimages(2), unfolded f(2,3),
      OF _ _ sample_headers_wf(1) sample_headers_wf(1) sample_preimages(1)]
  have "\<exists>n n'. str_bytes n \<noteq> str_bytes n' \<and> open_argon2 sample_crypto ?a n = open_argon2 sample_crypto ?b n' \<or>
      n = [0x61] \<and> n' = [0x62] \<and> str_bytes n = str_bytes n'"
    by (auto simp: sample_normalized f sample_hashes open_argon2_def Let_def sample_crypto_def)
  then show ?thesis by (auto simp: str_bytes_def char_bytes_def)
qed

end
