(* ===== verification/Client_Http.thy ===== *)
theory Client_Http
  imports L309_Prelude
begin

text \<open>
  \<open>src/client/errors.rs\<close>, \<open>src/client/http.rs\<close> and the request types of \<open>src/client/transport.rs\<close>: JSON
  documents, the problem document of a non-2xx response, headers and bodies. Parsing JSON text is the
  crate \<open>serde_json\<close>; here a document is already parsed. Numbers that are not integers only occur as
  \<open>JFloat\<close>, since the code never reads them.
\<close>

section \<open>JSON\<close>

datatype json = JNull | JBool bool | JInt int | JFloat | JString rstring | JArray "json list"
  | JObject "(rstring \<times> json) list"

fun json_str :: "json \<Rightarrow> rstring option" where
  "json_str (JString s) = Some s"
| "json_str _ = None"

fun json_u64 :: "json \<Rightarrow> nat option" where
  "json_u64 (JInt i) = (if 0 \<le> i \<and> i < 2 ^ 64 then Some (nat i) else None)"
| "json_u64 _ = None"

fun json_array :: "json \<Rightarrow> json list option" where
  "json_array (JArray xs) = Some xs"
| "json_array _ = None"

fun json_object :: "json \<Rightarrow> (rstring \<times> json) list option" where
  "json_object (JObject m) = Some m"
| "json_object _ = None"

definition obj_get :: "(rstring \<times> json) list \<Rightarrow> string \<Rightarrow> json option" where
  "obj_get m k = map_of m (lit k)"

definition obj_str :: "(rstring \<times> json) list \<Rightarrow> string \<Rightarrow> rstring option" where
  "obj_str m k = Option.bind (obj_get m k) json_str"

definition obj_u64 :: "(rstring \<times> json) list \<Rightarrow> string \<Rightarrow> nat option" where
  "obj_u64 m k = Option.bind (obj_get m k) json_u64"

definition unwrap_or :: "'a \<Rightarrow> 'a option \<Rightarrow> 'a" where
  "unwrap_or d x = (case x of None \<Rightarrow> d | Some v \<Rightarrow> v)"

text \<open>Decimal text of a number (\<open>to_string\<close>), and \<open>str::parse::<u64>\<close>.\<close>

fun dec :: "nat \<Rightarrow> rstring" where
  "dec n = (if n < 10 then [of_nat (48 + n)] else dec (n div 10) @ [of_nat (48 + n mod 10)])"

declare dec.simps [simp del]

definition digit_value :: "u8 \<Rightarrow> nat option" where
  "digit_value b = (if 48 \<le> b \<and> b \<le> 57 then Some (unat b - 48) else None)"

definition parse_u64 :: "rstring \<Rightarrow> nat option" where
  "parse_u64 s =
     (let digits = (if s \<noteq> [] \<and> hd s = 43 then tl s else s)
      in if digits = [] then None
         else case collect_opt (map digit_value digits) of
           None \<Rightarrow> None
         | Some ds \<Rightarrow> let n = foldl (\<lambda>a d. a * 10 + d) 0 ds in if n < 2 ^ 64 then Some n else None)"

section \<open>The problem document\<close>

record ProblemErrorEntry =
  pe_field :: rstring
  pe_code :: rstring
  pe_detail :: rstring

record ProblemDetails =
  pd_type :: rstring
  pd_title :: rstring
  pd_status :: nat
  pd_detail :: rstring
  pd_code :: rstring
  pd_trace_id :: rstring
  pd_errors :: "ProblemErrorEntry list option"
  pd_instance :: "rstring option"
  pd_extensions :: "(rstring \<times> json) list"

definition CANONICAL_PROBLEM_KEYS :: "rstring list" where
  "CANONICAL_PROBLEM_KEYS = map lit [''type'', ''title'', ''status'', ''detail'', ''code'', ''trace_id'',
     ''errors'', ''instance'']"

definition problem_message :: "ProblemDetails \<Rightarrow> rstring" where
  "problem_message p = (if pd_detail p = [] then pd_title p @ lit '' (HTTP '' @ dec (pd_status p) @ lit '')''
     else pd_detail p)"

definition extension_str :: "ProblemDetails \<Rightarrow> string \<Rightarrow> rstring option" where
  "extension_str p k = obj_str (pd_extensions p) k"

definition extension_u64 :: "ProblemDetails \<Rightarrow> string \<Rightarrow> nat option" where
  "extension_u64 p k = obj_u64 (pd_extensions p) k"

definition extension_decimal_u64 :: "ProblemDetails \<Rightarrow> string \<Rightarrow> nat option" where
  "extension_decimal_u64 p k = Option.bind (extension_str p k) parse_u64"

definition extension_string_array :: "ProblemDetails \<Rightarrow> string \<Rightarrow> rstring list" where
  "extension_string_array p k = (case obj_get (pd_extensions p) k of
     Some (JArray items) \<Rightarrow> List.map_filter json_str items | _ \<Rightarrow> [])"

datatype HttpErrorKind = Unauthorized | Forbidden
  | InsufficientScope "rstring list" "rstring list"
  | InsufficientFunds "nat option" "nat option" "rstring option"
  | QuoteExpired "rstring option" | QuoteNotFound "rstring option" | QuoteAlreadyConsumed "rstring option"
  | NotFound | RecordNotFound | IdempotencyConflict | RateLimited | ValidationFailed | InvalidBody
  | MalformedCborBody | BatchTooLarge "nat option" "nat option" | BatchEmpty | InternalServer
  | ServiceUnavailable | OtherKind

record Label309HttpError =
  he_problem :: ProblemDetails
  he_request_id :: rstring
  he_retry_after_seconds :: "nat option"
  he_kind :: HttpErrorKind

definition http_code :: "Label309HttpError \<Rightarrow> rstring" where
  "http_code e = pd_code (he_problem e)"

definition http_status :: "Label309HttpError \<Rightarrow> nat" where
  "http_status e = pd_status (he_problem e)"

definition synthesise_problem :: "nat \<Rightarrow> rstring option \<Rightarrow> ProblemDetails" where
  "synthesise_problem status request_id =
     \<lparr>pd_type = lit ''about:blank'', pd_title = lit ''HTTP '' @ dec status, pd_status = status,
      pd_detail = lit ''Server returned HTTP '' @ dec status @ lit '' without a problem+json body.'',
      pd_code = lit ''http-'' @ dec status, pd_trace_id = unwrap_or [] request_id,
      pd_errors = None, pd_instance = None, pd_extensions = []\<rparr>"

definition project_problem_errors :: "json \<Rightarrow> ProblemErrorEntry list option" where
  "project_problem_errors v = map_option (\<lambda>arr. map (\<lambda>obj.
     \<lparr>pe_field = unwrap_or [] (obj_str obj ''field''), pe_code = unwrap_or [] (obj_str obj ''code''),
      pe_detail = unwrap_or [] (obj_str obj ''detail'')\<rparr>) (List.map_filter json_object arr)) (json_array v)"

definition to_problem_details :: "nat \<Rightarrow> json option \<Rightarrow> rstring option \<Rightarrow> ProblemDetails" where
  "to_problem_details resp_status body request_id = (case body of
     Some (JObject obj) \<Rightarrow>
       let code = obj_str obj ''code''; title = obj_str obj ''title''
       in if code = None \<and> title = None then synthesise_problem resp_status request_id
          else let status = (case obj_u64 obj ''status'' of None \<Rightarrow> resp_status | Some s \<Rightarrow> min s 0xFFFF)
            in \<lparr>pd_type = unwrap_or (lit ''about:blank'') (obj_str obj ''type''),
                pd_title = unwrap_or (lit ''HTTP '' @ dec status) title,
                pd_status = status,
                pd_detail = unwrap_or [] (obj_str obj ''detail''),
                pd_code = unwrap_or (lit ''http-'' @ dec status) code,
                pd_trace_id = unwrap_or (unwrap_or [] request_id) (obj_str obj ''trace_id''),
                pd_errors = Option.bind (obj_get obj ''errors'') project_problem_errors,
                pd_instance = obj_str obj ''instance'',
                pd_extensions = filter (\<lambda>(k, _). k \<notin> set CANONICAL_PROBLEM_KEYS) obj\<rparr>
   | _ \<Rightarrow> synthesise_problem resp_status request_id)"

definition error_kind :: "ProblemDetails \<Rightarrow> HttpErrorKind" where
  "error_kind p =
     (let is = (\<lambda>c. pd_code p = lit c)
      in if is ''unauthorized'' then Unauthorized
         else if is ''forbidden'' \<or> is ''csrf-invalid'' then Forbidden
         else if is ''insufficient-scope'' then
           InsufficientScope (extension_string_array p ''required'') (extension_string_array p ''granted'')
         else if is ''insufficient-funds'' \<or> is ''insufficient-storage-credit'' \<or> is ''no-funding-grant'' then
           InsufficientFunds (extension_decimal_u64 p ''balance_usd_micros'')
             (extension_decimal_u64 p ''required_usd_micros'') (extension_str p ''top_up_url'')
         else if is ''quote-expired'' then QuoteExpired (extension_str p ''quote_id'')
         else if is ''quote-not-found'' then QuoteNotFound (extension_str p ''quote_id'')
         else if is ''quote-already-consumed'' then QuoteAlreadyConsumed (extension_str p ''quote_id'')
         else if is ''not-found'' then NotFound
         else if is ''record-not-found'' then RecordNotFound
         else if is ''idempotency-key-conflict'' then IdempotencyConflict
         else if is ''rate-limited'' then RateLimited
         else if is ''validation-failed'' then ValidationFailed
         else if is ''invalid-body'' then InvalidBody
         else if is ''malformed-cbor'' then MalformedCborBody
         else if is ''batch-too-large'' then BatchTooLarge (extension_u64 p ''max'') (extension_u64 p ''got'')
         else if is ''batch-empty'' then BatchEmpty
         else if is ''internal-error'' then InternalServer
         else if is ''service-unavailable'' \<or> is ''fx-stale'' then ServiceUnavailable
         else OtherKind)"

record ParseHttpErrorArgs =
  pa_http_status :: nat
  pa_body :: "json option"
  pa_request_id :: "rstring option"
  pa_retry_after_seconds :: "nat option"

definition parse_http_error :: "ParseHttpErrorArgs \<Rightarrow> Label309HttpError" where
  "parse_http_error args =
     (let problem = to_problem_details (pa_http_status args) (pa_body args) (pa_request_id args)
      in \<lparr>he_problem = problem, he_request_id = unwrap_or (pd_trace_id problem) (pa_request_id args),
          he_retry_after_seconds = pa_retry_after_seconds args, he_kind = error_kind problem\<rparr>)"

section \<open>Requests and responses\<close>

datatype HttpMethod = Get | Post | Put | Delete

record MultipartField =
  mf_name :: rstring
  mf_filename :: "rstring option"
  mf_content_type :: "rstring option"
  mf_value :: bytes

datatype RequestBody = NoBody | JsonBody rstring | Multipart "MultipartField list" | BytesBody bytes

type_synonym headers = "(rstring \<times> rstring) list"

record request =
  rq_url :: rstring
  rq_method :: HttpMethod
  rq_headers :: headers
  rq_body :: RequestBody

record ClientResponse =
  rs_status :: nat
  rs_body :: bytes
  rs_request_id :: "rstring option"
  rs_retry_after_seconds :: "nat option"

text \<open>The egress failure of a request is opaque to the client.\<close>

datatype ClientError = HttpError Label309HttpError | Outbound rstring | DecodeError rstring

definition json_headers :: "rstring option \<Rightarrow> rstring option \<Rightarrow> headers" where
  "json_headers api_key idempotency_key =
     [(lit ''content-type'', lit ''application/json''), (lit ''accept'', lit ''application/json'')] @
     (case api_key of None \<Rightarrow> [] | Some key \<Rightarrow> [(lit ''authorization'', lit ''Bearer '' @ key)]) @
     (case idempotency_key of None \<Rightarrow> [] | Some idem \<Rightarrow> [(lit ''idempotency-key'', idem)])"

definition multipart_headers :: "rstring option \<Rightarrow> rstring option \<Rightarrow> headers" where
  "multipart_headers api_key idempotency_key =
     [(lit ''accept'', lit ''application/json'')] @
     (case api_key of None \<Rightarrow> [] | Some key \<Rightarrow> [(lit ''authorization'', lit ''Bearer '' @ key)]) @
     (case idempotency_key of None \<Rightarrow> [] | Some idem \<Rightarrow> [(lit ''idempotency-key'', idem)])"

definition is_2xx :: "ClientResponse \<Rightarrow> bool" where
  "is_2xx r \<longleftrightarrow> 200 \<le> rs_status r \<and> rs_status r < 300"

definition read_json :: "(bytes \<Rightarrow> json option) \<Rightarrow> bytes \<Rightarrow> json option" where
  "read_json parse_json body = (if body = [] then None else parse_json body)"

definition throw_if_not_ok :: "(bytes \<Rightarrow> json option) \<Rightarrow> ClientResponse \<Rightarrow> ClientError + ClientResponse" where
  "throw_if_not_ok parse_json response =
     (if is_2xx response then Inr response
      else Inl (HttpError (parse_http_error \<lparr>pa_http_status = rs_status response,
        pa_body = read_json parse_json (rs_body response), pa_request_id = rs_request_id response,
        pa_retry_after_seconds = rs_retry_after_seconds response\<rparr>)))"

section \<open>Multipart bodies\<close>

definition MULTIPART_BOUNDARY :: bytes where
  "MULTIPART_BOUNDARY = lit ''label309sdkrsboundaryV1aaaaaaaaaa''"

definition CRLF :: bytes where
  "CRLF = [13, 10]"

definition encode_field :: "MultipartField \<Rightarrow> bytes" where
  "encode_field field = lit ''--'' @ MULTIPART_BOUNDARY @ CRLF @
     lit ''Content-Disposition: form-data; name='' @ [34] @ mf_name field @ [34] @
     (case mf_filename field of None \<Rightarrow> [] | Some filename \<Rightarrow> lit ''; filename='' @ [34] @ filename @ [34]) @ CRLF @
     (case mf_content_type field of None \<Rightarrow> [] | Some ct \<Rightarrow> lit ''Content-Type: '' @ ct @ CRLF) @ CRLF @
     mf_value field @ CRLF"

definition encode_multipart :: "MultipartField list \<Rightarrow> bytes" where
  "encode_multipart fs = concat (map encode_field fs) @ lit ''--'' @ MULTIPART_BOUNDARY @ lit ''--'' @ CRLF"

text \<open>
  The boundary is a constant, and values are copied verbatim: the body that carries two fields is also the body
  of one field, whose value continues with the boundary and the second field.
\<close>

definition swallow :: "MultipartField \<Rightarrow> MultipartField \<Rightarrow> MultipartField" where
  "swallow f g = f\<lparr>mf_value := mf_value f @ CRLF @ butlast (butlast (encode_field g))\<rparr>"

lemma encode_field_ends: "butlast (butlast (encode_field g)) @ CRLF = encode_field g"
proof -
  obtain front where f: "encode_field g = front @ CRLF" by (simp add: encode_field_def)
  then have "encode_field g = (front @ [13]) @ [10]" by (simp add: CRLF_def)
  then have "butlast (encode_field g) = front @ [13]" by (simp only: butlast_snoc)
  then show ?thesis using f by simp
qed

text \<open>C39: the multipart encoding is ambiguous. For any two fields the body of both is also the body of one field,
  the first with a longer value; so a file that contains the boundary is not read back as it was sent.\<close>

theorem multipart_ambiguous:
  "encode_multipart [swallow f g] = encode_multipart [f, g] \<and> [swallow f g] \<noteq> [f, g]"
proof -
  have "encode_field (f\<lparr>mf_value := mf_value f @ CRLF @ v\<rparr>) = encode_field f @ v @ CRLF" for v
    by (simp add: encode_field_def)
  then have "encode_field (swallow f g) = encode_field f @ encode_field g"
    by (simp add: swallow_def encode_field_ends)
  then show ?thesis by (simp add: encode_multipart_def)
qed

end
