(* ===== verification/Client_Upload.thy ===== *)
theory Client_Upload
  imports Client_Http
begin

unbundle bit_operations_syntax

text \<open>
  \<open>src/client/resumable.rs\<close>: the resumable upload.

  The code runs against a gateway, a caller's cancel predicate, a clock and a file system. The model
  records every interaction in a history, and a host answers each one from the history so far: every
  deterministic behaviour of the outside is such a host. A program is a function from the history to
  a result and the longer history; \<open>None\<close> is a panic or a loop that never ends. JSON text is parsed
  and printed by \<open>serde_json\<close>, hashing and hexadecimal are crates: all are fields of the host.

  Integers keep the width of the code, and its unchecked multiplications wrap as in a release build.
\<close>

section \<open>Types (\<open>src/client/types.rs\<close>)\<close>

type_synonym u32 = "32 word"

datatype ResumableSource = PathSource rstring | BytesSource bytes

record UploadProgress =
  up_bytes_sent :: u64
  up_total_bytes :: u64
  up_chunk_index :: u32
  up_chunks_total :: u32

record ResumableUploadInput =
  in_target :: rstring
  in_source :: ResumableSource
  in_content_type :: "rstring option"
  in_threshold_bytes :: "u64 option"
  in_chunk_bytes :: "u64 option"
  in_resume_session_id :: "rstring option"
  in_idempotency_key :: "rstring option"
  in_has_progress :: bool
  in_has_cancel :: bool
  in_has_session_created :: bool

record UploadError =
  ue_code :: rstring
  ue_detail :: rstring

datatype UploadEntry = UploadSuccess nat bool rstring rstring u64 | UploadFailure nat bool UploadError

record UploadSessionCreated =
  sc_session_id :: rstring
  sc_chunk_bytes :: u64
  sc_chunk_count :: u32
  sc_received :: "u32 list"

record UploadSessionDeduplicated =
  sd_uri :: rstring
  sd_sha256 :: rstring
  sd_bytes :: u64

record UploadSessionStatus =
  ss_session_id :: rstring
  ss_state :: rstring
  ss_sha256 :: rstring
  ss_total_bytes :: u64
  ss_chunk_bytes :: u64
  ss_chunk_count :: u32
  ss_received :: "u32 list"
  ss_missing :: "u32 list"
  ss_attempt_id :: "rstring option"
  ss_uri :: "rstring option"

record UploadSessionChunkAck =
  ca_index :: u32
  ca_received :: "u32 list"
  ca_remaining :: u32
  ca_complete :: bool

record ResumableUploadResult =
  ru_uri :: rstring
  ru_sha256 :: "rstring option"
  ru_bytes :: "u64 option"
  ru_charged_usd_micros :: "u64 option"
  ru_deduplicated :: bool
  ru_session_id :: "rstring option"

record UploadAttemptStatus =
  as_state :: rstring
  as_sha256 :: rstring
  as_bytes :: u64
  as_uri :: "rstring option"
  as_charged_usd_micros :: "u64 option"
  as_reason :: "rstring option"

record NamespaceConfig =
  cfg_api_key :: "rstring option"
  cfg_base_url :: rstring

text \<open>The errors; the text of a message is kept only where it carries data of the gateway.\<close>

datatype ResumableUploadError = Http ClientError | SourceError | SourceTruncated u32 u64 u64
  | InsufficientFundsError Label309HttpError | Failed "rstring option" | UploadRejected UploadError
  | Decode | Protocol | Cancelled | AbandonFailed rstring ClientError

section \<open>Interactions\<close>

datatype event = Sent request "rstring + ClientResponse" | CancelRead bool | ClockRead nat | Slept nat
  | Progress UploadProgress | SessionCreated rstring
  | FileLen rstring "rstring + u64" | FileRead rstring nat nat "rstring + bytes"

type_synonym history = "event list"

record host =
  h_send :: "history \<Rightarrow> request \<Rightarrow> rstring + ClientResponse"
  h_cancelled :: "history \<Rightarrow> bool"
  h_clock :: "history \<Rightarrow> nat"
  h_file_len :: "history \<Rightarrow> rstring \<Rightarrow> rstring + u64"
  h_file_read :: "history \<Rightarrow> rstring \<Rightarrow> nat \<Rightarrow> nat \<Rightarrow> rstring + bytes"
  h_sha256 :: "bytes \<Rightarrow> bytes"
  h_hex :: "bytes \<Rightarrow> rstring"
  h_print_json :: "json \<Rightarrow> rstring option"
  h_parse_json :: "bytes \<Rightarrow> json option"
  h_parse_uploads :: "bytes \<Rightarrow> UploadEntry list option"
  h_parse_created :: "bytes \<Rightarrow> UploadSessionCreated option"
  h_parse_dedup :: "bytes \<Rightarrow> UploadSessionDeduplicated option"
  h_parse_status :: "bytes \<Rightarrow> UploadSessionStatus option"
  h_parse_ack :: "bytes \<Rightarrow> UploadSessionChunkAck option"
  h_parse_attempt :: "bytes \<Rightarrow> UploadAttemptStatus option"

type_synonym ('e, 'a) io = "history \<Rightarrow> (('e + 'a) \<times> history) option"

definition io_lift :: "'e + 'a \<Rightarrow> ('e, 'a) io" where
  "io_lift r h = Some (r, h)"

abbreviation io_ok :: "'a \<Rightarrow> ('e, 'a) io" where "io_ok x \<equiv> io_lift (Inr x)"
abbreviation io_err :: "'e \<Rightarrow> ('e, 'a) io" where "io_err e \<equiv> io_lift (Inl e)"

text \<open>The \<open>?\<close> operator, and a match on the result of a call.\<close>

definition io_bind :: "('e, 'a) io \<Rightarrow> ('a \<Rightarrow> ('e, 'b) io) \<Rightarrow> ('e, 'b) io" where
  "io_bind m f h = Option.bind (m h) (\<lambda>(r, h'). case r of Inl e \<Rightarrow> Some (Inl e, h') | Inr x \<Rightarrow> f x h')"

definition io_match :: "('e, 'a) io \<Rightarrow> ('e + 'a \<Rightarrow> ('f, 'b) io) \<Rightarrow> ('f, 'b) io" where
  "io_match m f h = Option.bind (m h) (\<lambda>(r, h'). f r h')"

definition io_map_err :: "('e \<Rightarrow> 'f) \<Rightarrow> ('e, 'a) io \<Rightarrow> ('f, 'a) io" where
  "io_map_err g m = io_match m (\<lambda>r. io_lift (map_sum g id r))"

definition of_option :: "'e \<Rightarrow> 'a option \<Rightarrow> 'e + 'a" where
  "of_option e x = (case x of None \<Rightarrow> Inl e | Some v \<Rightarrow> Inr v)"

definition send_raw :: "host \<Rightarrow> request \<Rightarrow> (ClientError, ClientResponse) io" where
  "send_raw host rq h = (let r = h_send host h rq
     in Some (map_sum Outbound id r, h @ [Sent rq r]))"

definition into_http_error :: "host \<Rightarrow> ClientResponse \<Rightarrow> ClientError + ClientResponse" where
  "into_http_error host response = throw_if_not_ok (h_parse_json host) response"

definition send :: "host \<Rightarrow> request \<Rightarrow> (ClientError, ClientResponse) io" where
  "send host rq = io_bind (send_raw host rq) (\<lambda>response. io_lift (into_http_error host response))"

definition is_cancelled :: "host \<Rightarrow> ResumableUploadInput \<Rightarrow> history \<Rightarrow> bool \<times> history" where
  "is_cancelled host inp h =
     (if in_has_cancel inp then let c = h_cancelled host h in (c, h @ [CancelRead c]) else (False, h))"

text \<open>\<open>if is_cancelled(input) { return Err(Cancelled) }\<close>\<close>

definition check_cancelled :: "host \<Rightarrow> ResumableUploadInput \<Rightarrow> (ResumableUploadError, unit) io" where
  "check_cancelled host inp h =
     (case is_cancelled host inp h of (c, h') \<Rightarrow> Some (if c then Inl Cancelled else Inr (), h'))"

definition report_progress :: "ResumableUploadInput \<Rightarrow> UploadProgress \<Rightarrow> ('e, unit) io" where
  "report_progress inp progress h = Some (Inr (), if in_has_progress inp then h @ [Progress progress] else h)"

definition read_clock :: "host \<Rightarrow> history \<Rightarrow> nat \<times> history" where
  "read_clock host h = (let t = h_clock host h in (t, h @ [ClockRead t]))"

section \<open>Small helpers\<close>

text \<open>Times are in nanoseconds.\<close>

definition DEFAULT_RESUMABLE_THRESHOLD_BYTES :: u64 where "DEFAULT_RESUMABLE_THRESHOLD_BYTES = 50331648"
definition DEFAULT_RESUMABLE_CHUNK_BYTES :: u64 where "DEFAULT_RESUMABLE_CHUNK_BYTES = 50331648"
definition CHUNK_RETRY_ATTEMPTS :: nat where "CHUNK_RETRY_ATTEMPTS = 3"
definition ATTEMPT_POLL_INTERVAL :: nat where "ATTEMPT_POLL_INTERVAL = 1000 * 1000000"
definition ATTEMPT_POLL_TIMEOUT :: nat where "ATTEMPT_POLL_TIMEOUT = 600 * 1000000000"
definition COMPLETE_RETRY_ATTEMPTS :: nat where "COMPLETE_RETRY_ATTEMPTS = 2"
definition CANCEL_POLL_SLICE :: nat where "CANCEL_POLL_SLICE = 50 * 1000000"
definition STREAM_READ_BYTES :: nat where "STREAM_READ_BYTES = 64 * 1024"

definition default_idempotency_key :: "rstring \<Rightarrow> rstring" where
  "default_idempotency_key declared_sha256_hex = lit ''resumable-'' @ declared_sha256_hex"

definition BASE64_ALPHABET :: bytes where
  "BASE64_ALPHABET = lit ''ABCDEFGHIJKLMNOPQRSTUVWXYZabcdefghijklmnopqrstuvwxyz0123456789+/''"

definition base64_char :: "u32 \<Rightarrow> nat \<Rightarrow> u8" where
  "base64_char n shift = BASE64_ALPHABET ! unat (drop_bit shift n AND 0x3f)"

definition base64_triple :: "bytes \<Rightarrow> bytes" where
  "base64_triple triple =
     (let get = (\<lambda>i. if i < length triple then ucast (triple ! i) else 0 :: u32);
          n = push_bit 16 (get 0) OR push_bit 8 (get 1) OR get 2
      in [base64_char n 18, base64_char n 12,
          if length triple > 1 then base64_char n 6 else 61,
          if length triple > 2 then base64_char n 0 else 61])"

fun base64_standard :: "bytes \<Rightarrow> rstring" where
  "base64_standard (a # b # c # bs) = base64_triple [a, b, c] @ base64_standard bs"
| "base64_standard [] = []"
| "base64_standard bs = base64_triple bs"

definition is_ascii_alphanumeric :: "u8 \<Rightarrow> bool" where
  "is_ascii_alphanumeric b \<longleftrightarrow> 48 \<le> b \<and> b \<le> 57 \<or> 65 \<le> b \<and> b \<le> 90 \<or> 97 \<le> b \<and> b \<le> 122"

definition hex_upper :: "nat \<Rightarrow> u8" where
  "hex_upper d = of_nat (if d < 10 then 48 + d else 55 + d)"

definition encode_path_segment :: "rstring \<Rightarrow> rstring" where
  "encode_path_segment segment = concat (map (\<lambda>b.
     if is_ascii_alphanumeric b \<or> b \<in> set (lit ''-_.!~*'' @ [39] @ lit ''()'') then [b]
     else [37, hex_upper (unat b div 16), hex_upper (unat b mod 16)]) segment)"

definition funding_error :: "host \<Rightarrow> ClientResponse \<Rightarrow> ResumableUploadError" where
  "funding_error host response = (case into_http_error host response of
     Inl (HttpError e) \<Rightarrow> InsufficientFundsError e
   | Inl other \<Rightarrow> Http other
   | Inr _ \<Rightarrow> Protocol)"

fun is_terminal_chunk_error :: "ResumableUploadError \<Rightarrow> bool" where
  "is_terminal_chunk_error (Http (HttpError e)) \<longleftrightarrow>
     400 \<le> http_status e \<and> http_status e < 500 \<and> http_status e \<noteq> 408 \<and> http_status e \<noteq> 429"
| "is_terminal_chunk_error (Http _) \<longleftrightarrow> False"
| "is_terminal_chunk_error _ \<longleftrightarrow> True"

fun is_incomplete_upload_error :: "ResumableUploadError \<Rightarrow> bool" where
  "is_incomplete_upload_error (Http (HttpError e)) \<longleftrightarrow>
     http_status e = 409 \<and> http_code e = lit ''incomplete-upload''"
| "is_incomplete_upload_error _ \<longleftrightarrow> False"

definition sat_add :: "u64 \<Rightarrow> u64 \<Rightarrow> u64" where
  "sat_add a b = (if unat a + unat b < 2 ^ 64 then a + b else - 1)"

section \<open>The source\<close>

definition file_len :: "host \<Rightarrow> rstring \<Rightarrow> (ResumableUploadError, u64) io" where
  "file_len host path h = (let r = h_file_len host h path
     in Some (map_sum (\<lambda>_. SourceError) id r, h @ [FileLen path r]))"

definition source_len :: "host \<Rightarrow> ResumableSource \<Rightarrow> (ResumableUploadError, u64) io" where
  "source_len host source = (case source of
     BytesSource b \<Rightarrow> io_ok (of_nat (length b))
   | PathSource path \<Rightarrow> file_len host path)"

text \<open>Reading to the end of a file in steps of \<open>STREAM_READ_BYTES\<close>; a file need not end.\<close>

partial_function (option) read_all ::
  "host \<Rightarrow> rstring \<Rightarrow> bytes \<Rightarrow> history \<Rightarrow> ((ResumableUploadError + bytes) \<times> history) option" where
  "read_all host path acc h =
     (let r = h_file_read host h path (length acc) STREAM_READ_BYTES;
          h' = h @ [FileRead path (length acc) STREAM_READ_BYTES r]
      in case r of
           Inl _ \<Rightarrow> Some (Inl SourceError, h')
         | Inr bs \<Rightarrow> if bs = [] then Some (Inr acc, h') else read_all host path (acc @ bs) h')"

definition read_source :: "host \<Rightarrow> ResumableSource \<Rightarrow> (ResumableUploadError, bytes) io" where
  "read_source host source = (case source of
     BytesSource b \<Rightarrow> io_ok b
   | PathSource path \<Rightarrow> read_all host path [])"

definition stream_sha256 :: "host \<Rightarrow> ResumableSource \<Rightarrow> (ResumableUploadError, bytes) io" where
  "stream_sha256 host source = (case source of
     BytesSource b \<Rightarrow> io_ok (h_sha256 host b)
   | PathSource path \<Rightarrow> io_bind (read_all host path []) (\<lambda>bs. io_ok (h_sha256 host bs)))"

text \<open>
  The loop that fills the buffer of a chunk: a read returns at most what is left (more would panic on the
  slice), nothing at the end of the file.
\<close>

function fill_buffer :: "host \<Rightarrow> rstring \<Rightarrow> nat \<Rightarrow> nat \<Rightarrow> bytes \<Rightarrow> (ResumableUploadError, bytes) io" where
  "fill_buffer host path offset want filled h =
     (let r = h_file_read host h path (offset + length filled) (want - length filled);
          h' = h @ [FileRead path (offset + length filled) (want - length filled) r]
      in case r of
           Inl _ \<Rightarrow> Some (Inl SourceError, h')
         | Inr bs \<Rightarrow>
             if bs = [] then Some (Inr filled, h')
             else if length bs > want - length filled then None
             else if length filled + length bs = want then Some (Inr (filled @ bs), h')
             else fill_buffer host path offset want (filled @ bs) h')"
  by pat_completeness auto
termination by (relation "measure (\<lambda>(host, path, offset, want, filled, h). want - length filled)") (auto simp flip: length_greater_0_conv)

declare fill_buffer.simps [simp del]

definition read_chunk :: "host \<Rightarrow> ResumableSource \<Rightarrow> u32 \<Rightarrow> u64 \<Rightarrow> u64 \<Rightarrow> (ResumableUploadError, bytes) io" where
  "read_chunk host source index chunk_bytes total_bytes =
     (let offset = ucast index * chunk_bytes
      in if offset \<ge> total_bytes then io_ok []
         else let want = min (total_bytes - offset) chunk_bytes
           in case source of
                BytesSource b \<Rightarrow>
                  let source_len = of_nat (length b)
                  in if offset \<ge> source_len then io_err (SourceTruncated index offset source_len)
                     else let last = sat_add offset want
                       in if last > source_len then io_err (SourceTruncated index offset source_len)
                          else io_ok (take (unat last - unat offset) (drop (unat offset) b))
              | PathSource path \<Rightarrow>
                  io_bind (file_len host path) (\<lambda>source_len.
                    if offset \<ge> source_len \<or> sat_add offset want > source_len
                    then io_err (SourceTruncated index offset source_len)
                    else io_bind (fill_buffer host path (unat offset) (unat want) []) (\<lambda>buf.
                      if length buf \<noteq> unat want
                      then io_err (SourceTruncated index offset (sat_add offset (of_nat (length buf))))
                      else io_ok buf)))"

end
