(* ===== verification/Client_Session.thy ===== *)
theory Client_Session
  imports Client_Upload
begin

text \<open>
  \<open>src/client/resumable.rs\<close>: the requests of an upload session, the retry loops, and \<open>upload_resumable\<close>.
  The waiting loops are \<open>partial_function\<close>s, since they end only when the clock or the gateway moves.
\<close>

section \<open>Requests\<close>

definition lift_http :: "(ClientError, 'a) io \<Rightarrow> (ResumableUploadError, 'a) io" where
  "lift_http m = io_map_err Http m"

definition parse :: "'a option \<Rightarrow> (ResumableUploadError, 'a) io" where
  "parse x = io_lift (of_option Decode x)"

definition session_url :: "NamespaceConfig \<Rightarrow> rstring \<Rightarrow> rstring" where
  "session_url config session_id =
     cfg_base_url config @ lit ''/poe/uploads/sessions/'' @ encode_path_segment session_id"

definition single_shot_request :: "NamespaceConfig \<Rightarrow> ResumableUploadInput \<Rightarrow> bytes \<Rightarrow> request" where
  "single_shot_request config inp content =
     \<lparr>rq_url = cfg_base_url config @ lit ''/poe/uploads'', rq_method = Post,
      rq_headers = multipart_headers (cfg_api_key config) (in_idempotency_key inp),
      rq_body = Multipart
        [\<lparr>mf_name = lit ''target'', mf_filename = None, mf_content_type = None, mf_value = in_target inp\<rparr>,
         \<lparr>mf_name = lit ''file_0'', mf_filename = Some (lit ''file_0.bin''),
          mf_content_type = Some (unwrap_or (lit ''application/octet-stream'') (in_content_type inp)),
          mf_value = content\<rparr>]\<rparr>"

definition single_shot ::
  "host \<Rightarrow> NamespaceConfig \<Rightarrow> ResumableUploadInput \<Rightarrow> (ResumableUploadError, ResumableUploadResult) io" where
  "single_shot host config inp =
     io_bind (check_cancelled host inp) (\<lambda>_.
     io_bind (read_source host (in_source inp)) (\<lambda>content.
     io_bind (lift_http (send host (single_shot_request config inp content))) (\<lambda>response.
     io_bind (io_lift (of_option (Http (DecodeError [])) (h_parse_uploads host (rs_body response)))) (\<lambda>uploads.
       case uploads of
         [] \<Rightarrow> io_err Protocol
       | UploadSuccess _ _ uri sha256 bytes # _ \<Rightarrow>
           io_bind (report_progress inp
             \<lparr>up_bytes_sent = of_nat (length content), up_total_bytes = of_nat (length content),
              up_chunk_index = 0, up_chunks_total = 1\<rparr>) (\<lambda>_.
           io_ok \<lparr>ru_uri = uri, ru_sha256 = Some sha256, ru_bytes = Some bytes, ru_charged_usd_micros = None,
             ru_deduplicated = False, ru_session_id = None\<rparr>)
       | UploadFailure _ _ e # _ \<Rightarrow> io_err (UploadRejected e)))))"

datatype CreateOutcome = Deduplicated UploadSessionDeduplicated | Created UploadSessionCreated

text \<open>\<open>serde_json::Map\<close> is ordered by key.\<close>

definition create_body :: "host \<Rightarrow> ResumableUploadInput \<Rightarrow> bytes \<Rightarrow> u64 \<Rightarrow> u64 \<Rightarrow> json" where
  "create_body host inp whole_sha256 total_bytes chunk_request = JObject (
     [(lit ''chunk_bytes'', JInt (uint chunk_request))] @
     (case in_content_type inp of None \<Rightarrow> [] | Some ct \<Rightarrow> [(lit ''content_type'', JString ct)]) @
     [(lit ''sha256'', JString (h_hex host whole_sha256)), (lit ''target'', JString (in_target inp)),
      (lit ''total_bytes'', JInt (uint total_bytes))])"

definition create_session ::
  "host \<Rightarrow> NamespaceConfig \<Rightarrow> ResumableUploadInput \<Rightarrow> bytes \<Rightarrow> u64 \<Rightarrow> u64 \<Rightarrow>
   (ResumableUploadError, CreateOutcome) io" where
  "create_session host config inp whole_sha256 total_bytes chunk_request =
     (case h_print_json host (create_body host inp whole_sha256 total_bytes chunk_request) of
        None \<Rightarrow> io_err Protocol
      | Some text \<Rightarrow>
          io_bind (lift_http (send_raw host
            \<lparr>rq_url = cfg_base_url config @ lit ''/poe/uploads/sessions'', rq_method = Post,
             rq_headers = json_headers (cfg_api_key config) None, rq_body = JsonBody text\<rparr>)) (\<lambda>response.
          if rs_status response = 402 then io_err (funding_error host response)
          else io_bind (lift_http (io_lift (into_http_error host response))) (\<lambda>response.
            if rs_status response = 200
            then io_bind (parse (h_parse_dedup host (rs_body response))) (\<lambda>d. io_ok (Deduplicated d))
            else io_bind (parse (h_parse_created host (rs_body response))) (\<lambda>c. io_ok (Created c)))))"

definition get_status ::
  "host \<Rightarrow> NamespaceConfig \<Rightarrow> rstring \<Rightarrow> (ResumableUploadError, UploadSessionStatus) io" where
  "get_status host config session_id =
     io_bind (lift_http (send host
       \<lparr>rq_url = session_url config session_id, rq_method = Get,
        rq_headers = json_headers (cfg_api_key config) None, rq_body = NoBody\<rparr>)) (\<lambda>response.
     parse (h_parse_status host (rs_body response)))"

definition delete_request :: "NamespaceConfig \<Rightarrow> rstring \<Rightarrow> request" where
  "delete_request config session_id =
     \<lparr>rq_url = session_url config session_id, rq_method = Delete,
      rq_headers = json_headers (cfg_api_key config) None, rq_body = NoBody\<rparr>"

definition abandon_session :: "host \<Rightarrow> NamespaceConfig \<Rightarrow> rstring \<Rightarrow> (ClientError, unit) io" where
  "abandon_session host config session_id =
     io_bind (send_raw host (delete_request config session_id)) (\<lambda>response.
     if rs_status response = 404 \<or> rs_status response = 410 then io_ok ()
     else io_bind (io_lift (into_http_error host response)) (\<lambda>_. io_ok ()))"

section \<open>Chunks\<close>

definition eq_ignore_ascii_case :: "rstring \<Rightarrow> rstring \<Rightarrow> bool" where
  "eq_ignore_ascii_case a b =
     (let lower = map (\<lambda>c. if 65 \<le> c \<and> c \<le> 90 then c + 32 else c) in lower a = lower b)"

definition put_request :: "host \<Rightarrow> NamespaceConfig \<Rightarrow> rstring \<Rightarrow> u32 \<Rightarrow> bytes \<Rightarrow> request" where
  "put_request host config session_id index chunk =
     \<lparr>rq_url = session_url config session_id @ lit ''/chunks/'' @ dec (unat index), rq_method = Put,
      rq_headers = filter (\<lambda>(k, _). \<not> eq_ignore_ascii_case k (lit ''content-type''))
          (json_headers (cfg_api_key config) None) @
        [(lit ''content-length'', dec (length chunk)),
         (lit ''digest'', lit ''sha-256='' @ base64_standard (h_sha256 host chunk))],
      rq_body = BytesBody chunk\<rparr>"

text \<open>The attempts left and the error of the last one.\<close>

fun put_attempts ::
  "host \<Rightarrow> NamespaceConfig \<Rightarrow> ResumableUploadInput \<Rightarrow> rstring \<Rightarrow> u32 \<Rightarrow> bytes \<Rightarrow> nat \<Rightarrow>
   ResumableUploadError option \<Rightarrow> (ResumableUploadError, UploadSessionChunkAck) io" where
  "put_attempts host config inp session_id index chunk 0 last_err = io_err (unwrap_or Protocol last_err)"
| "put_attempts host config inp session_id index chunk (Suc n) last_err =
     io_bind (check_cancelled host inp) (\<lambda>_.
     io_bind (lift_http (send_raw host (put_request host config session_id index chunk))) (\<lambda>response.
     case into_http_error host response of
       Inr _ \<Rightarrow> parse (h_parse_ack host (rs_body response))
     | Inl e \<Rightarrow>
         if is_terminal_chunk_error (Http e) then io_err (Http e)
         else put_attempts host config inp session_id index chunk n (Some (Http e))))"

definition put_chunk_with_retry ::
  "host \<Rightarrow> NamespaceConfig \<Rightarrow> ResumableUploadInput \<Rightarrow> rstring \<Rightarrow> u32 \<Rightarrow> bytes \<Rightarrow>
   (ResumableUploadError, UploadSessionChunkAck) io" where
  "put_chunk_with_retry host config inp session_id index chunk =
     put_attempts host config inp session_id index chunk CHUNK_RETRY_ATTEMPTS None"

record SessionGrid =
  sg_session_id :: rstring
  sg_chunk_bytes :: u64
  sg_chunk_count :: u32
  sg_total_bytes :: u64
  sg_declared_sha256_hex :: rstring
  sg_missing :: "u32 list"

definition chunk_span_bytes :: "SessionGrid \<Rightarrow> u32 \<Rightarrow> u64" where
  "chunk_span_bytes session chunks_done =
     min (ucast chunks_done * sg_chunk_bytes session) (sg_total_bytes session)"

definition acked_bytes :: "SessionGrid \<Rightarrow> u64" where
  "acked_bytes session =
     (let missing = of_nat (length (sg_missing session))
      in chunk_span_bytes session
           (if missing \<le> sg_chunk_count session then sg_chunk_count session - missing else 0))"

definition saturating_succ :: "u32 \<Rightarrow> u32" where
  "saturating_succ i = (if i = - 1 then i else i + 1)"

text \<open>The result is the new \<open>bytes_acked\<close>.\<close>

fun send_missing_chunks ::
  "host \<Rightarrow> NamespaceConfig \<Rightarrow> ResumableUploadInput \<Rightarrow> SessionGrid \<Rightarrow> u32 list \<Rightarrow> u64 \<Rightarrow>
   (ResumableUploadError, u64) io" where
  "send_missing_chunks host config inp session [] acked = io_ok acked"
| "send_missing_chunks host config inp session (index # missing) acked =
     io_bind (check_cancelled host inp) (\<lambda>_.
     io_bind (read_chunk host (in_source inp) index (sg_chunk_bytes session) (sg_total_bytes session)) (\<lambda>chunk.
     io_bind (put_chunk_with_retry host config inp (sg_session_id session) index chunk) (\<lambda>_.
       let acked' = max (chunk_span_bytes session (saturating_succ index)) acked
       in io_bind (report_progress inp
            \<lparr>up_bytes_sent = acked', up_total_bytes = sg_total_bytes session, up_chunk_index = index,
             up_chunks_total = sg_chunk_count session\<rparr>) (\<lambda>_.
          send_missing_chunks host config inp session missing acked'))))"

section \<open>Waiting for the attempt\<close>

partial_function (option) sleep_loop ::
  "host \<Rightarrow> ResumableUploadInput \<Rightarrow> nat \<Rightarrow> history \<Rightarrow> (bool \<times> history) option" where
  "sleep_loop host inp deadline h =
     (let (c, h1) = is_cancelled host inp h
      in if c then Some (False, h1)
         else let (now, h2) = read_clock host h1
           in if now \<ge> deadline then Some (True, h2)
              else sleep_loop host inp deadline (h2 @ [Slept (min CANCEL_POLL_SLICE (deadline - now))]))"

definition interruptible_sleep :: "host \<Rightarrow> nat \<Rightarrow> ResumableUploadInput \<Rightarrow> history \<Rightarrow> (bool \<times> history) option" where
  "interruptible_sleep host duration inp h =
     (if \<not> in_has_cancel inp then Some (True, h @ [Slept duration])
      else let (now, h1) = read_clock host h in sleep_loop host inp (now + duration) h1)"

definition sleep_or_cancel :: "host \<Rightarrow> ResumableUploadInput \<Rightarrow> (ResumableUploadError, unit) io" where
  "sleep_or_cancel host inp h = Option.bind (interruptible_sleep host ATTEMPT_POLL_INTERVAL inp h)
     (\<lambda>(elapsed, h'). Some (if elapsed then Inr () else Inl Cancelled, h'))"

definition check_deadline :: "host \<Rightarrow> nat \<Rightarrow> (ResumableUploadError, unit) io" where
  "check_deadline host deadline h =
     (let (now, h') = read_clock host h in Some (if now \<ge> deadline then Inl (Failed None) else Inr (), h'))"

definition attempt_request :: "NamespaceConfig \<Rightarrow> rstring \<Rightarrow> request" where
  "attempt_request config attempt_id =
     \<lparr>rq_url = cfg_base_url config @ lit ''/poe/uploads/attempts/'' @ encode_path_segment attempt_id,
      rq_method = Get, rq_headers = json_headers (cfg_api_key config) None, rq_body = NoBody\<rparr>"

text \<open>One turn of the poll loop; \<open>None\<close> goes around again.\<close>

definition poll_once ::
  "host \<Rightarrow> NamespaceConfig \<Rightarrow> ResumableUploadInput \<Rightarrow> rstring \<Rightarrow> rstring \<Rightarrow> nat \<Rightarrow>
   (ResumableUploadError, ResumableUploadResult option) io" where
  "poll_once host config inp session_id attempt_id deadline =
     io_bind (check_cancelled host inp) (\<lambda>_.
     io_bind (lift_http (send host (attempt_request config attempt_id))) (\<lambda>response.
     io_bind (parse (h_parse_attempt host (rs_body response))) (\<lambda>status.
       if as_state status = lit ''committed'' then
         (case as_uri status of
            None \<Rightarrow> io_err Protocol
          | Some uri \<Rightarrow> io_ok (Some \<lparr>ru_uri = uri, ru_sha256 = Some (as_sha256 status),
              ru_bytes = Some (as_bytes status), ru_charged_usd_micros = as_charged_usd_micros status,
              ru_deduplicated = (as_charged_usd_micros status = Some 0), ru_session_id = Some session_id\<rparr>))
       else if as_state status = lit ''released'' then
         io_err (Failed (Some (unwrap_or (lit ''the upload attempt was released'') (as_reason status))))
       else io_bind (check_deadline host deadline) (\<lambda>_.
         io_bind (sleep_or_cancel host inp) (\<lambda>_. io_ok None)))))"

partial_function (option) poll_loop ::
  "host \<Rightarrow> NamespaceConfig \<Rightarrow> ResumableUploadInput \<Rightarrow> rstring \<Rightarrow> rstring \<Rightarrow> nat \<Rightarrow> history \<Rightarrow>
   ((ResumableUploadError + ResumableUploadResult) \<times> history) option" where
  "poll_loop host config inp session_id attempt_id deadline h =
     Option.bind (poll_once host config inp session_id attempt_id deadline h) (\<lambda>(r, h').
       case r of
         Inl e \<Rightarrow> Some (Inl e, h')
       | Inr None \<Rightarrow> poll_loop host config inp session_id attempt_id deadline h'
       | Inr (Some result) \<Rightarrow> Some (Inr result, h'))"

definition poll_attempt ::
  "host \<Rightarrow> NamespaceConfig \<Rightarrow> ResumableUploadInput \<Rightarrow> rstring \<Rightarrow> rstring \<Rightarrow>
   (ResumableUploadError, ResumableUploadResult) io" where
  "poll_attempt host config inp session_id attempt_id h =
     (let (now, h1) = read_clock host h
      in poll_loop host config inp session_id attempt_id (now + ATTEMPT_POLL_TIMEOUT) h1)"

section \<open>Completing the session\<close>

definition complete_body_to_result ::
  "host \<Rightarrow> NamespaceConfig \<Rightarrow> ResumableUploadInput \<Rightarrow> rstring \<Rightarrow> bytes \<Rightarrow>
   (ResumableUploadError, ResumableUploadResult) io" where
  "complete_body_to_result host config inp session_id body =
     io_bind (parse (h_parse_json host body)) (\<lambda>value.
       let obj = unwrap_or [] (json_object value)
       in case obj_str obj ''uri'' of
            Some uri \<Rightarrow>
              io_ok \<lparr>ru_uri = uri, ru_sha256 = obj_str obj ''sha256'',
                ru_bytes = map_option of_nat (obj_u64 obj ''bytes''),
                ru_charged_usd_micros = map_option of_nat (obj_u64 obj ''charged_usd_micros''),
                ru_deduplicated = (obj_u64 obj ''charged_usd_micros'' = Some 0), ru_session_id = Some session_id\<rparr>
          | None \<Rightarrow>
              (case obj_str obj ''attempt_id'' of
                 Some attempt_id \<Rightarrow> poll_attempt host config inp session_id attempt_id
               | None \<Rightarrow> io_err Protocol))"

definition complete_request ::
  "NamespaceConfig \<Rightarrow> SessionGrid \<Rightarrow> rstring option \<Rightarrow> request" where
  "complete_request config session idempotency_key =
     \<lparr>rq_url = session_url config (sg_session_id session) @ lit ''/complete'', rq_method = Post,
      rq_headers = json_headers (cfg_api_key config)
        (Some (unwrap_or (default_idempotency_key (sg_declared_sha256_hex session)) idempotency_key)),
      rq_body = JsonBody (lit ''{}'')\<rparr>"

text \<open>The turns left; each but the last resend goes around with what was acknowledged so far.\<close>

fun complete_attempts ::
  "host \<Rightarrow> NamespaceConfig \<Rightarrow> ResumableUploadInput \<Rightarrow> SessionGrid \<Rightarrow> rstring option \<Rightarrow> nat \<Rightarrow> u64 \<Rightarrow>
   (ResumableUploadError, ResumableUploadResult) io" where
  "complete_attempts host config inp session idempotency_key 0 acked = io_err (Failed None)"
| "complete_attempts host config inp session idempotency_key (Suc n) acked =
     io_bind (check_cancelled host inp) (\<lambda>_.
     io_bind (lift_http (send_raw host (complete_request config session idempotency_key))) (\<lambda>response.
     case into_http_error host response of
       Inr _ \<Rightarrow> complete_body_to_result host config inp (sg_session_id session) (rs_body response)
     | Inl e \<Rightarrow>
         if \<not> is_incomplete_upload_error (Http e) then io_err (Http e)
         else io_bind (get_status host config (sg_session_id session)) (\<lambda>status.
           io_bind (send_missing_chunks host config inp session (ss_missing status) acked) (\<lambda>acked'.
             complete_attempts host config inp session idempotency_key n acked'))))"

definition complete_session ::
  "host \<Rightarrow> NamespaceConfig \<Rightarrow> ResumableUploadInput \<Rightarrow> SessionGrid \<Rightarrow> rstring option \<Rightarrow> u64 \<Rightarrow>
   (ResumableUploadError, ResumableUploadResult) io" where
  "complete_session host config inp session idempotency_key acked =
     complete_attempts host config inp session idempotency_key (Suc COMPLETE_RETRY_ATTEMPTS) acked"

section \<open>The upload\<close>

text \<open>\<open>return Err(abandon_on_cancel(config, input, session_id, err))\<close>\<close>

definition abandon_on_cancel ::
  "host \<Rightarrow> NamespaceConfig \<Rightarrow> rstring \<Rightarrow> ResumableUploadError \<Rightarrow> (ResumableUploadError, 'a) io" where
  "abandon_on_cancel host config session_id err =
     (if err \<noteq> Cancelled then io_err err
      else io_match (abandon_session host config session_id) (\<lambda>r. case r of
             Inr _ \<Rightarrow> io_err Cancelled
           | Inl e \<Rightarrow> io_err (AbandonFailed session_id e)))"

definition guarded ::
  "host \<Rightarrow> NamespaceConfig \<Rightarrow> rstring \<Rightarrow> (ResumableUploadError, 'a) io \<Rightarrow> (ResumableUploadError, 'a) io" where
  "guarded host config session_id m = io_match m (\<lambda>r. case r of
     Inr x \<Rightarrow> io_ok x | Inl err \<Rightarrow> abandon_on_cancel host config session_id err)"

definition terminal_from_status ::
  "host \<Rightarrow> NamespaceConfig \<Rightarrow> ResumableUploadInput \<Rightarrow> UploadSessionStatus \<Rightarrow>
   (ResumableUploadError, ResumableUploadResult option) io" where
  "terminal_from_status host config inp status =
     (if ss_state status = lit ''completed'' then
        (case ss_uri status of
           None \<Rightarrow> io_err Protocol
         | Some uri \<Rightarrow> io_ok (Some \<lparr>ru_uri = uri, ru_sha256 = Some (ss_sha256 status),
             ru_bytes = Some (ss_total_bytes status), ru_charged_usd_micros = None, ru_deduplicated = False,
             ru_session_id = Some (ss_session_id status)\<rparr>))
      else if ss_state status = lit ''failed'' then io_err (Failed None)
      else if ss_state status = lit ''expired'' then io_err (Failed None)
      else if ss_state status = lit ''assembling'' then
        (case ss_attempt_id status of
           Some attempt_id \<Rightarrow>
             io_bind (poll_attempt host config inp (ss_session_id status) attempt_id) (\<lambda>r. io_ok (Some r))
         | None \<Rightarrow> io_ok None)
      else io_ok None)"

text \<open>From the point where a session exists.\<close>

definition run_session ::
  "host \<Rightarrow> NamespaceConfig \<Rightarrow> ResumableUploadInput \<Rightarrow> SessionGrid \<Rightarrow>
   (ResumableUploadError, ResumableUploadResult) io" where
  "run_session host config inp session =
     guarded host config (sg_session_id session)
       (io_bind (send_missing_chunks host config inp session (sg_missing session) (acked_bytes session)) (\<lambda>acked.
        complete_session host config inp session (in_idempotency_key inp) acked))"

definition grid_of_status :: "UploadSessionStatus \<Rightarrow> SessionGrid" where
  "grid_of_status status =
     \<lparr>sg_session_id = ss_session_id status, sg_chunk_bytes = ss_chunk_bytes status,
      sg_chunk_count = ss_chunk_count status, sg_total_bytes = ss_total_bytes status,
      sg_declared_sha256_hex = ss_sha256 status, sg_missing = ss_missing status\<rparr>"

definition grid_of_created :: "host \<Rightarrow> u64 \<Rightarrow> bytes \<Rightarrow> UploadSessionCreated \<Rightarrow> SessionGrid" where
  "grid_of_created host total_bytes whole_sha256 created =
     \<lparr>sg_session_id = sc_session_id created, sg_chunk_bytes = sc_chunk_bytes created,
      sg_chunk_count = sc_chunk_count created, sg_total_bytes = total_bytes,
      sg_declared_sha256_hex = h_hex host whole_sha256,
      sg_missing = filter (\<lambda>i. i \<notin> set (sc_received created)) (map of_nat [0..<unat (sc_chunk_count created)])\<rparr>"

definition report_session :: "ResumableUploadInput \<Rightarrow> rstring \<Rightarrow> (ResumableUploadError, unit) io" where
  "report_session inp session_id h =
     Some (Inr (), if in_has_session_created inp then h @ [SessionCreated session_id] else h)"

definition resume_session ::
  "host \<Rightarrow> NamespaceConfig \<Rightarrow> ResumableUploadInput \<Rightarrow> rstring \<Rightarrow>
   (ResumableUploadError, ResumableUploadResult) io" where
  "resume_session host config inp sid =
     io_bind (check_cancelled host inp) (\<lambda>_.
     io_bind (get_status host config sid) (\<lambda>status.
     io_bind (guarded host config sid (terminal_from_status host config inp status)) (\<lambda>r.
       case r of
         Some done \<Rightarrow> io_ok done
       | None \<Rightarrow> run_session host config inp (grid_of_status status))))"

definition fresh_session ::
  "host \<Rightarrow> NamespaceConfig \<Rightarrow> ResumableUploadInput \<Rightarrow> u64 \<Rightarrow>
   (ResumableUploadError, ResumableUploadResult) io" where
  "fresh_session host config inp chunk_request =
     io_bind (check_cancelled host inp) (\<lambda>_.
     io_bind (source_len host (in_source inp)) (\<lambda>total_bytes.
     io_bind (stream_sha256 host (in_source inp)) (\<lambda>whole_sha256.
     io_bind (create_session host config inp whole_sha256 total_bytes chunk_request) (\<lambda>outcome.
       case outcome of
         Deduplicated dedup \<Rightarrow>
           io_ok \<lparr>ru_uri = sd_uri dedup, ru_sha256 = Some (sd_sha256 dedup), ru_bytes = Some (sd_bytes dedup),
             ru_charged_usd_micros = Some 0, ru_deduplicated = True, ru_session_id = None\<rparr>
       | Created created \<Rightarrow>
           io_bind (report_session inp (sc_session_id created)) (\<lambda>_.
           run_session host config inp (grid_of_created host total_bytes whole_sha256 created))))))"

definition chunked ::
  "host \<Rightarrow> NamespaceConfig \<Rightarrow> ResumableUploadInput \<Rightarrow> (ResumableUploadError, ResumableUploadResult) io" where
  "chunked host config inp =
     (let chunk_request = unwrap_or DEFAULT_RESUMABLE_CHUNK_BYTES (in_chunk_bytes inp)
      in case in_resume_session_id inp of
           Some sid \<Rightarrow> resume_session host config inp sid
         | None \<Rightarrow> fresh_session host config inp chunk_request)"

definition upload_resumable ::
  "host \<Rightarrow> NamespaceConfig \<Rightarrow> ResumableUploadInput \<Rightarrow> (ResumableUploadError, ResumableUploadResult) io" where
  "upload_resumable host config inp =
     (let threshold = unwrap_or DEFAULT_RESUMABLE_THRESHOLD_BYTES (in_threshold_bytes inp)
      in if in_resume_session_id inp = None
         then io_bind (source_len host (in_source inp)) (\<lambda>total_bytes.
           if total_bytes \<le> threshold then single_shot host config inp else chunked host config inp)
         else chunked host config inp)"

end
