(* ===== verification/Client_Trace.thy ===== *)
theory Client_Trace
  imports Client_Session
begin

text \<open>
  What an upload does to the history. A contract is a predicate on the part of the history that an
  operation adds and on the error it ends with; the locale \<open>trace_contract\<close> lists what a contract has to
  say of single interactions, and lifts it to every operation up to the handling of a cancelled session.
  \<open>progress_contract\<close> is its extension to contracts that do not watch the progress reports.
\<close>

section \<open>Contracts\<close>

definition outcome :: "'e + 'a \<Rightarrow> 'e option" where
  "outcome r = (case r of Inl e \<Rightarrow> Some e | Inr _ \<Rightarrow> None)"

lemma outcome_simps [simp]: "outcome (Inl e) = Some e" "outcome (Inr x) = None"
  by (simp_all add: outcome_def)

definition emits :: "(history \<Rightarrow> 'e option \<Rightarrow> bool) \<Rightarrow> ('e, 'a) io \<Rightarrow> bool" where
  "emits Q m \<longleftrightarrow> (\<forall>h r h'. m h = Some (r, h') \<longrightarrow> (\<exists>t. h' = h @ t \<and> Q t (outcome r)))"

lemma emitsI: "(\<And>h r h'. m h = Some (r, h') \<Longrightarrow> \<exists>t. h' = h @ t \<and> Q t (outcome r)) \<Longrightarrow> emits Q m"
  by (simp add: emits_def)

lemma emitsD: "emits Q m \<Longrightarrow> m h = Some (r, h') \<Longrightarrow> \<exists>t. h' = h @ t \<and> Q t (outcome r)"
  by (simp add: emits_def)

lemma io_bind_cases:
  assumes "io_bind m f h = Some (r, h')"
  obtains (stop) e where "m h = Some (Inl e, h')" "r = Inl e"
    | (go) x h1 where "m h = Some (Inr x, h1)" "f x h1 = Some (r, h')"
proof -
  obtain a b where "m h = Some (a, b)" using assms by (auto simp: io_bind_def bind_eq_Some_conv)
  then show thesis using assms that by (cases a) (auto simp: io_bind_def)
qed

fun is_cancel_error :: "ResumableUploadError \<Rightarrow> bool" where
  "is_cancel_error Cancelled \<longleftrightarrow> True"
| "is_cancel_error (AbandonFailed _ _) \<longleftrightarrow> True"
| "is_cancel_error _ \<longleftrightarrow> False"

text \<open>The interactions with the clock and the file system.\<close>

fun is_quiet :: "event \<Rightarrow> bool" where
  "is_quiet (ClockRead _) \<longleftrightarrow> True"
| "is_quiet (Slept _) \<longleftrightarrow> True"
| "is_quiet (FileLen _ _) \<longleftrightarrow> True"
| "is_quiet (FileRead _ _ _ _) \<longleftrightarrow> True"
| "is_quiet (SessionCreated _) \<longleftrightarrow> True"
| "is_quiet _ \<longleftrightarrow> False"

lemma funding_error_not_cancel: "\<not> is_cancel_error (funding_error host response)"
  by (simp add: funding_error_def split: sum.split ClientError.split)

lemma into_http_error_Inl: "into_http_error host response = Inl e \<Longrightarrow> \<not> is_2xx response \<and> (\<exists>x. e = HttpError x)"
  by (auto simp: into_http_error_def throw_if_not_ok_def split: if_splits)

lemma into_http_error_Inr: "into_http_error host response = Inr x \<Longrightarrow> is_2xx response \<and> x = response"
  by (auto simp: into_http_error_def throw_if_not_ok_def split: if_splits)

lemma outcome_map_sum [simp]: "outcome (map_sum f g r) = map_option f (outcome r)"
  by (cases r) simp_all

lemmas read_all_induct = read_all.raw_induct [rotated, consumes 1, case_names turn]
lemmas sleep_loop_induct = sleep_loop.raw_induct [rotated, consumes 1, case_names turn]
lemmas poll_loop_induct = poll_loop.raw_induct [rotated, consumes 1, case_names turn]

text \<open>The single-shot path after its first look at the predicate.\<close>

definition single_shot_rest ::
  "host \<Rightarrow> NamespaceConfig \<Rightarrow> ResumableUploadInput \<Rightarrow> (ResumableUploadError, ResumableUploadResult) io" where
  "single_shot_rest host config inp =
     io_bind (read_source host (in_source inp)) (\<lambda>content.
     io_bind (lift_http (send host (single_shot_request config inp content))) (\<lambda>response.
     io_bind (io_lift (of_option (Http (DecodeError [])) (h_parse_uploads host (rs_body response)))) (\<lambda>uploads.
       case uploads of
         [] \<Rightarrow> io_err Protocol
       | UploadSuccess _ _ uri sha256 bytes # _ \<Rightarrow>
           io_bind (report_progress inp
             \<lparr>up_bytes_sent = of_nat (length content), up_total_bytes = of_nat (length content),
              up_chunk_index = 0, up_chunks_total = 1\<rparr>) (\<lambda>_.
           io_ok \<lparr>ru_uri = uri, ru_sha256 = Some sha256, ru_bytes = Some bytes, ru_charged_usd_micros = None,
             ru_deduplicated = False, ru_session_id = None\<rparr>)
       | UploadFailure _ _ e # _ \<Rightarrow> io_err (UploadRejected e))))"

lemma single_shot_parts: "single_shot host config inp = io_bind (check_cancelled host inp) (\<lambda>_. single_shot_rest host config inp)"
  by (simp add: single_shot_def single_shot_rest_def)

locale trace_contract =
  fixes Q :: "history \<Rightarrow> ResumableUploadError option \<Rightarrow> bool"
    and allowed :: "request \<Rightarrow> bool"
  assumes silent: "Q [] None"
    and fail: "\<not> is_cancel_error e \<Longrightarrow> Q [] (Some e)"
    and seq: "Q t None \<Longrightarrow> Q u x \<Longrightarrow> Q (t @ u) x"
    and quiet: "is_quiet ev \<Longrightarrow> Q [ev] None"
    and not_cancelled: "Q [CancelRead False] None"
    and cancelled: "Q [CancelRead True] (Some Cancelled)"
    and sent: "allowed rq \<Longrightarrow> Q [Sent rq r] None"
    and plain: "rq_method rq \<noteq> Put \<Longrightarrow> rq_method rq \<noteq> Delete \<Longrightarrow> allowed rq"
begin

lemma seq_fail: "Q t None \<Longrightarrow> \<not> is_cancel_error e \<Longrightarrow> Q t (Some e)"
  using seq [of t "[]" "Some e"] fail by simp

lemma seq_any: "Q t None \<Longrightarrow> (\<And>e. x = Some e \<Longrightarrow> \<not> is_cancel_error e) \<Longrightarrow> Q t x"
  by (cases x) (auto intro: seq_fail)

lemma ok: "emits Q (io_ok x)"
  by (auto simp: emits_def io_lift_def silent)

lemma err: "\<not> is_cancel_error e \<Longrightarrow> emits Q (io_err e)"
  by (auto simp: emits_def io_lift_def fail)

lemma bind:
  assumes "emits Q m" "\<And>x. emits Q (f x)"
  shows "emits Q (io_bind m f)"
proof (rule emitsI, erule io_bind_cases)
  fix h r h' e
  assume "m h = Some (Inl e, h')" "r = Inl e"
  then show "\<exists>t. h' = h @ t \<and> Q t (outcome r)" using emitsD [OF assms(1)] by fastforce
next
  fix h r h' x h1
  assume a: "m h = Some (Inr x, h1)" "f x h1 = Some (r, h')"
  obtain t where t: "h1 = h @ t" "Q t None" using emitsD [OF assms(1) a(1)] by auto
  obtain u where u: "h' = h1 @ u" "Q u (outcome r)" using emitsD [OF assms(2) a(2)] by auto
  from t u show "\<exists>t. h' = h @ t \<and> Q t (outcome r)" by (auto intro: seq)
qed

lemma lift: "(\<And>e. r = Inl e \<Longrightarrow> \<not> is_cancel_error e) \<Longrightarrow> emits Q (io_lift r)"
  by (cases r) (auto simp: emits_def io_lift_def silent fail)

lemma parse: "emits Q (parse x)"
  unfolding parse_def by (rule lift) (auto simp: of_option_def split: option.splits)

lemma check_cancelled: "emits Q (check_cancelled host inp)"
  by (auto simp: emits_def check_cancelled_def is_cancelled_def Let_def silent cancelled not_cancelled)

lemma send_raw: "allowed rq \<Longrightarrow> emits Q (lift_http (send_raw host rq))"
  by (auto simp: emits_def lift_http_def io_map_err_def io_match_def send_raw_def io_lift_def Let_def
      intro!: seq_any sent)

lemma http_result: "emits Q (lift_http (io_lift (into_http_error host response)))"
  by (auto simp: emits_def lift_http_def io_map_err_def io_match_def io_lift_def
      intro!: seq_any silent)

lemma lift_http_bind: "lift_http (io_bind m f) = io_bind (lift_http m) (\<lambda>x. lift_http (f x))"
  by (rule ext) (auto simp: lift_http_def io_map_err_def io_match_def io_bind_def io_lift_def
      split: option.splits sum.splits bind_splits)

lemma send: "allowed rq \<Longrightarrow> emits Q (lift_http (send host rq))"
  unfolding send_def lift_http_bind by (intro bind send_raw http_result)

lemma get_status: "emits Q (get_status host config session_id)"
  unfolding get_status_def by (intro bind send parse plain) simp_all

lemma file_len: "emits Q (file_len host path)"
  by (auto simp: emits_def file_len_def Let_def intro!: quiet seq_any)

lemma source_len: "emits Q (source_len host source)"
  by (auto simp: source_len_def ok file_len split: ResumableSource.split)

lemma quiet_seq: "is_quiet ev \<Longrightarrow> Q t e \<Longrightarrow> Q (ev # t) e"
  using seq [OF quiet] by fastforce

lemma quiet_fail: "is_quiet ev \<Longrightarrow> \<not> is_cancel_error e \<Longrightarrow> Q [ev] (Some e)"
  by (rule quiet_seq) (simp_all add: fail)

lemma read_all: "emits Q (read_all host path acc)"
proof (rule emitsI)
  fix h r h'
  assume "read_all host path acc h = Some (r, h')"
  then have "\<exists>t. snd (r, h') = h @ t \<and> Q t (outcome (fst (r, h')))"
  proof (induction rule: read_all_induct)
    case (turn f host path acc h y)
    let ?r = "h_file_read host h path (length acc) STREAM_READ_BYTES"
    let ?ev = "FileRead path (length acc) STREAM_READ_BYTES ?r"
    show ?case
    proof (cases ?r)
      case (Inl e)
      then show ?thesis using turn(2) by (auto simp: Let_def intro!: quiet_fail)
    next
      case (Inr bs)
      show ?thesis
      proof (cases "bs = []")
        case True
        then show ?thesis using turn(2) Inr by (auto simp: Let_def intro!: quiet)
      next
        case False
        then have "f host path (acc @ bs) (h @ [?ev]) = Some y" using turn(2) Inr by (simp add: Let_def)
        from turn(1) [OF this] obtain t where "snd y = h @ ?ev # t" "Q t (outcome (fst y))" by auto
        then show ?thesis using quiet_seq [of ?ev] by auto
      qed
    qed
  qed
  then show "\<exists>t. h' = h @ t \<and> Q t (outcome r)" by simp
qed

lemma fill_buffer: "fill_buffer host path offset want filled h = Some (r, h') \<Longrightarrow> \<exists>t. h' = h @ t \<and> Q t (outcome r)"
proof (induction host path offset want filled h rule: fill_buffer.induct)
  case (1 host path offset want filled h)
  let ?r = "h_file_read host h path (offset + length filled) (want - length filled)"
  let ?ev = "FileRead path (offset + length filled) (want - length filled) ?r"
  note prem = 1(2) [unfolded fill_buffer.simps [of host path offset want filled h]]
  show ?case
  proof (cases ?r)
    case (Inl e)
    then show ?thesis using prem by (auto simp: Let_def intro!: quiet_fail)
  next
    case (Inr bs)
    consider "bs = [] \<or> length filled + length bs = want" | "bs \<noteq> []" "length filled + length bs \<noteq> want" by blast
    then show ?thesis
    proof cases
      case 1
      then show ?thesis using prem Inr by (auto simp: Let_def intro!: quiet split: if_splits)
    next
      case 2
      then have le: "\<not> want - length filled < length bs"
        and go: "fill_buffer host path offset want (filled @ bs) (h @ [?ev]) = Some (r, h')"
        using prem Inr by (auto simp: Let_def split: if_splits)
      from "1.IH" [OF refl refl Inr 2(1) le 2(2)] go
      obtain t where "h' = h @ ?ev # t" "Q t (outcome r)" by auto
      then show ?thesis using quiet_seq [of ?ev] by auto
    qed
  qed
qed

lemma fill_buffer_emits: "emits Q (fill_buffer host path offset want filled)"
  by (rule emitsI, rule fill_buffer)

lemma read_chunk: "emits Q (read_chunk host source index chunk_bytes total_bytes)"
  unfolding read_chunk_def Let_def
  by (auto split: ResumableSource.split intro!: ok err bind file_len fill_buffer_emits)

lemma put_attempts:
  assumes "allowed (put_request host config session_id index chunk)" "\<And>e. last_err = Some e \<Longrightarrow> \<not> is_cancel_error e"
  shows "emits Q (put_attempts host config inp session_id index chunk n last_err)"
  using assms(2)
proof (induction n arbitrary: last_err)
  case 0
  then show ?case by (auto simp: unwrap_or_def split: option.splits intro!: err)
next
  case (Suc n)
  show ?case
    unfolding put_attempts.simps
    by (auto intro!: bind check_cancelled send_raw assms(1) parse err Suc.IH split: sum.splits)
qed

lemma put_chunk:
  "allowed (put_request host config session_id index chunk) \<Longrightarrow>
   emits Q (put_chunk_with_retry host config inp session_id index chunk)"
  unfolding put_chunk_with_retry_def by (rule put_attempts) simp_all

lemma sleep_loop:
  "sleep_loop host inp deadline h = Some (b, h') \<Longrightarrow> \<exists>t. h' = h @ t \<and> Q t (if b then None else Some Cancelled)"
proof -
  assume "sleep_loop host inp deadline h = Some (b, h')"
  then have "\<exists>t. snd (b, h') = h @ t \<and> Q t (if fst (b, h') then None else Some Cancelled)"
  proof (induction rule: sleep_loop_induct)
    case (turn f host inp deadline h y)
    obtain c h1 where c: "is_cancelled host inp h = (c, h1)" by fastforce
    then obtain t1 where t1: "h1 = h @ t1" "Q t1 (if c then Some Cancelled else None)"
      by (cases c) (auto simp: is_cancelled_def Let_def silent cancelled not_cancelled split: if_splits)
    obtain now h2 where n: "read_clock host h1 = (now, h2)" by fastforce
    then have h2: "h2 = h1 @ [ClockRead now]" by (auto simp: read_clock_def Let_def)
    show ?case
    proof (cases "c \<or> now \<ge> deadline")
      case True
      then show ?thesis using turn(2) c n t1 h2 seq [OF _ quiet, of t1 "ClockRead now"] by (cases c) auto
    next
      case False
      let ?s = "Slept (min CANCEL_POLL_SLICE (deadline - now))"
      have "f host inp deadline (h2 @ [?s]) = Some y" using turn(2) c n False by simp
      from turn(1) [OF this] obtain t where t: "snd y = h @ t1 @ ClockRead now # ?s # t" "Q t (if fst y then None else Some Cancelled)"
        using t1 h2 by auto
      then have "Q (t1 @ ClockRead now # ?s # t) (if fst y then None else Some Cancelled)"
        using t1(2) False by (intro seq quiet_seq) simp_all
      then show ?thesis using t(1) by blast
    qed
  qed
  then show ?thesis by simp
qed

lemma sleep_or_cancel: "emits Q (sleep_or_cancel host inp)"
proof (rule emitsI)
  fix h r h'
  assume "sleep_or_cancel host inp h = Some (r, h')"
  then obtain b where b: "interruptible_sleep host ATTEMPT_POLL_INTERVAL inp h = Some (b, h')"
    and r: "r = (if b then Inr () else Inl Cancelled)"
    by (auto simp: sleep_or_cancel_def bind_eq_Some_conv)
  show "\<exists>t. h' = h @ t \<and> Q t (outcome r)"
  proof (cases "in_has_cancel inp")
    case True
    then obtain now where "sleep_loop host inp (now + ATTEMPT_POLL_INTERVAL) (h @ [ClockRead now]) = Some (b, h')"
      using b by (auto simp: interruptible_sleep_def read_clock_def Let_def)
    from sleep_loop [OF this] obtain t where "h' = h @ ClockRead now # t" "Q t (if b then None else Some Cancelled)" by auto
    then show ?thesis using r quiet_seq [of "ClockRead now" t] by auto
  next
    case False
    then show ?thesis using b r by (auto simp: interruptible_sleep_def intro!: quiet)
  qed
qed

lemma check_deadline: "emits Q (check_deadline host deadline)"
  by (auto simp: emits_def check_deadline_def read_clock_def Let_def intro!: quiet quiet_fail)

lemma poll_once: "emits Q (poll_once host config inp session_id attempt_id deadline)"
  unfolding poll_once_def
  by (auto intro!: bind check_cancelled send plain parse ok err check_deadline sleep_or_cancel
      simp: attempt_request_def split: option.split)

lemma poll_loop:
  "poll_loop host config inp session_id attempt_id deadline h = Some (r, h') \<Longrightarrow> \<exists>t. h' = h @ t \<and> Q t (outcome r)"
proof -
  assume "poll_loop host config inp session_id attempt_id deadline h = Some (r, h')"
  then have "\<exists>t. snd (r, h') = h @ t \<and> Q t (outcome (fst (r, h')))"
  proof (induction rule: poll_loop_induct)
    case (turn f host config inp session_id attempt_id deadline h y)
    then obtain o1 h1 where o1: "poll_once host config inp session_id attempt_id deadline h = Some (o1, h1)"
      and y: "(case o1 of Inl e \<Rightarrow> Some (Inl e, h1)
        | Inr None \<Rightarrow> f host config inp session_id attempt_id deadline h1
        | Inr (Some result) \<Rightarrow> Some (Inr result, h1)) = Some y"
      by (auto simp: bind_eq_Some_conv)
    obtain t where t: "h1 = h @ t" "Q t (outcome o1)" using emitsD [OF poll_once o1] by blast
    show ?case
    proof (cases "o1 = Inr None")
      case True
      then have "f host config inp session_id attempt_id deadline h1 = Some y" using y by simp
      from turn(1) [OF this] t True show ?thesis by (auto intro: seq)
    next
      case False
      then show ?thesis using y t by (auto split: sum.splits option.splits)
    qed
  qed
  then show ?thesis by simp
qed

lemma poll_attempt: "emits Q (poll_attempt host config inp session_id attempt_id)"
proof (rule emitsI)
  fix h r h'
  assume "poll_attempt host config inp session_id attempt_id h = Some (r, h')"
  then obtain now where "poll_loop host config inp session_id attempt_id (now + ATTEMPT_POLL_TIMEOUT) (h @ [ClockRead now]) = Some (r, h')"
    by (auto simp: poll_attempt_def read_clock_def Let_def)
  from poll_loop [OF this] show "\<exists>t. h' = h @ t \<and> Q t (outcome r)"
    using quiet_seq [of "ClockRead now"] by auto
qed

lemma complete_body: "emits Q (complete_body_to_result host config inp session_id body)"
  unfolding complete_body_to_result_def Let_def
  by (auto intro!: bind parse ok err poll_attempt split: option.split)

lemma terminal_from_status: "emits Q (terminal_from_status host config inp status)"
  unfolding terminal_from_status_def by (auto intro!: bind ok err poll_attempt split: option.split)

lemma create_session: "emits Q (create_session host config inp whole_sha256 total_bytes chunk_request)"
  unfolding create_session_def
  by (auto intro!: bind send_raw plain parse ok err http_result funding_error_not_cancel split: option.split)

lemma stream_sha256: "emits Q (stream_sha256 host source)"
  unfolding stream_sha256_def by (auto intro!: bind ok read_all split: ResumableSource.split)

lemma read_source: "emits Q (read_source host source)"
  unfolding read_source_def by (auto intro!: ok read_all split: ResumableSource.split)

lemma report_session: "emits Q (report_session inp session_id)"
  by (auto simp: emits_def report_session_def silent intro!: quiet)

lemmas steps = check_cancelled send_raw send get_status source_len read_chunk put_chunk poll_attempt
  complete_body terminal_from_status create_session stream_sha256 read_source report_session parse ok err bind

end

locale progress_contract = trace_contract +
  assumes progress: "Q [Progress p] None"
begin

lemma report_progress: "emits Q (report_progress inp p)"
  by (auto simp: emits_def report_progress_def silent progress)

lemma send_missing:
  assumes "\<And>index chunk h h'. read_chunk host (in_source inp) index (sg_chunk_bytes session) (sg_total_bytes session) h
      = Some (Inr chunk, h') \<Longrightarrow> allowed (put_request host config (sg_session_id session) index chunk)"
  shows "emits Q (send_missing_chunks host config inp session missing acked)"
proof (induction missing arbitrary: acked)
  case Nil
  then show ?case by (simp add: ok)
next
  case (Cons index missing)
  let ?rd = "read_chunk host (in_source inp) index (sg_chunk_bytes session) (sg_total_bytes session)"
  let ?go = "\<lambda>chunk. io_bind (put_chunk_with_retry host config inp (sg_session_id session) index chunk) (\<lambda>_.
       let acked' = max (chunk_span_bytes session (saturating_succ index)) acked
       in io_bind (report_progress inp
            \<lparr>up_bytes_sent = acked', up_total_bytes = sg_total_bytes session, up_chunk_index = index,
             up_chunks_total = sg_chunk_count session\<rparr>) (\<lambda>_.
          send_missing_chunks host config inp session missing acked'))"
  have go: "emits Q (?go chunk)" if "?rd h = Some (Inr chunk, h')" for chunk h h'
    unfolding Let_def by (intro bind put_chunk report_progress Cons.IH assms [OF that])
  have "emits Q (io_bind ?rd ?go)"
  proof (rule emitsI, erule io_bind_cases)
    fix h r h' e
    assume "?rd h = Some (Inl e, h')" "r = Inl e"
    then show "\<exists>t. h' = h @ t \<and> Q t (outcome r)" using emitsD [OF read_chunk] by fastforce
  next
    fix h r h' x h1
    assume a: "?rd h = Some (Inr x, h1)" "?go x h1 = Some (r, h')"
    obtain t where t: "h1 = h @ t" "Q t None" using emitsD [OF read_chunk a(1)] by auto
    obtain u where u: "h' = h1 @ u" "Q u (outcome r)" using emitsD [OF go [OF a(1)] a(2)] by blast
    from t u show "\<exists>t. h' = h @ t \<and> Q t (outcome r)" by (auto intro: seq)
  qed
  then show ?case unfolding send_missing_chunks.simps by - (rule bind [OF check_cancelled])
qed

lemma complete_session:
  assumes "\<And>index chunk h h'. read_chunk host (in_source inp) index (sg_chunk_bytes session) (sg_total_bytes session) h
      = Some (Inr chunk, h') \<Longrightarrow> allowed (put_request host config (sg_session_id session) index chunk)"
  shows "emits Q (complete_attempts host config inp session idempotency_key n acked)"
proof (induction n arbitrary: acked)
  case 0
  then show ?case by (simp add: err)
next
  case (Suc n)
  show ?case
    unfolding complete_attempts.simps
    by (auto intro!: bind check_cancelled send_raw plain complete_body err get_status send_missing Suc.IH assms
        simp: complete_request_def split: sum.splits)
qed

text \<open>The body of a session, before a cancellation is turned into a \<open>DELETE\<close>.\<close>

lemma session_body:
  assumes "\<And>index chunk h h'. read_chunk host (in_source inp) index (sg_chunk_bytes session) (sg_total_bytes session) h
      = Some (Inr chunk, h') \<Longrightarrow> allowed (put_request host config (sg_session_id session) index chunk)"
  shows "emits Q (io_bind (send_missing_chunks host config inp session missing acked)
    (\<lambda>acked. complete_session host config inp session key acked))"
  unfolding complete_session_def by (intro bind send_missing complete_session assms)

lemma single_shot_tail: "emits Q (single_shot_rest host config inp)"
  unfolding single_shot_rest_def
  by (auto intro!: steps lift plain report_progress simp: single_shot_request_def of_option_def split: list.split option.splits UploadEntry.split)

lemma single_shot: "emits Q (single_shot host config inp)"
  unfolding single_shot_parts by (intro bind check_cancelled single_shot_tail)

end

end
