(* ===== verification/Client_Promises.thy ===== *)
theory Client_Promises
  imports Client_Trace
begin

text \<open>What the resumable upload of \<open>src/client/resumable.rs\<close> guarantees: \<open>Client_Trace\<close> on three contracts.\<close>

section \<open>Cancellation\<close>

text \<open>A cancelled part of the history ends with the answer of the predicate that cancelled it.\<close>

definition cancel_contract :: "history \<Rightarrow> ResumableUploadError option \<Rightarrow> bool" where
  "cancel_contract t x = (case x of
     Some Cancelled \<Rightarrow> (\<exists>u. t = u @ [CancelRead True] \<and> CancelRead True \<notin> set u)
   | Some (AbandonFailed _ _) \<Rightarrow> False
   | _ \<Rightarrow> CancelRead True \<notin> set t)"

lemma cancel_contract_None: "cancel_contract t None \<longleftrightarrow> CancelRead True \<notin> set t"
  by (simp add: cancel_contract_def)

lemma cancel_contract_Cancelled:
  "cancel_contract t (Some Cancelled) \<longleftrightarrow> (\<exists>u. t = u @ [CancelRead True] \<and> CancelRead True \<notin> set u)"
  by (simp add: cancel_contract_def)

lemma cancel_contract_other: "\<not> is_cancel_error e \<Longrightarrow> cancel_contract t (Some e) \<longleftrightarrow> CancelRead True \<notin> set t"
  by (cases e) (simp_all add: cancel_contract_def)

interpretation cancel: progress_contract cancel_contract "\<lambda>_. True"
proof
  show "cancel_contract (t @ u) x" if "cancel_contract t None" "cancel_contract u x" for t u x
    using that by (auto simp: cancel_contract_def split: option.splits ResumableUploadError.splits)
  show "cancel_contract [ev] None" if "is_quiet ev" for ev
    using that by (cases ev) (simp_all add: cancel_contract_None)
qed (auto simp: cancel_contract_None cancel_contract_Cancelled cancel_contract_other)

definition is_sent :: "event \<Rightarrow> bool" where
  "is_sent ev = (case ev of Sent _ _ \<Rightarrow> True | _ \<Rightarrow> False)"

definition delete_outcome ::
  "host \<Rightarrow> rstring \<Rightarrow> rstring + ClientResponse \<Rightarrow> ResumableUploadError" where
  "delete_outcome host session_id answer = (case answer of
     Inl m \<Rightarrow> AbandonFailed session_id (Outbound m)
   | Inr response \<Rightarrow>
       if rs_status response = 404 \<or> rs_status response = 410 then Cancelled
       else case into_http_error host response of Inl e \<Rightarrow> AbandonFailed session_id e | Inr _ \<Rightarrow> Cancelled)"

text \<open>The part of a history in which a session was guarded: uncancelled, or cancelled and deleted.\<close>

definition stop_contract :: "host \<Rightarrow> NamespaceConfig \<Rightarrow> rstring \<Rightarrow> history \<Rightarrow> ResumableUploadError option \<Rightarrow> bool" where
  "stop_contract host config session_id t x \<longleftrightarrow>
     CancelRead True \<notin> set t \<and> (\<forall>e. x = Some e \<longrightarrow> \<not> is_cancel_error e) \<or>
     (\<exists>u answer. t = u @ [CancelRead True, Sent (delete_request config session_id) answer] \<and>
        CancelRead True \<notin> set u \<and> x = Some (delete_outcome host session_id answer))"

lemma delete_outcome_abandon:
  "abandon_on_cancel host config session_id Cancelled h =
     (let answer = h_send host h (delete_request config session_id)
      in Some (Inl (delete_outcome host session_id answer), h @ [Sent (delete_request config session_id) answer]))"
  by (auto simp: abandon_on_cancel_def io_match_def abandon_session_def io_bind_def send_raw_def io_lift_def Let_def
      delete_outcome_def into_http_error_def split: sum.splits)

lemma stop_guarded:
  assumes "emits cancel_contract m"
  shows "emits (stop_contract host config session_id) (guarded host config session_id m)"
proof (rule emitsI)
  fix h r h'
  assume g: "guarded host config session_id m h = Some (r, h')"
  then obtain o1 h1 where m: "m h = Some (o1, h1)" by (auto simp: guarded_def io_match_def bind_eq_Some_conv)
  obtain t where t: "h1 = h @ t" "cancel_contract t (outcome o1)" using emitsD [OF assms m] by blast
  show "\<exists>t. h' = h @ t \<and> stop_contract host config session_id t (outcome r)"
  proof (cases "o1 = Inl Cancelled")
    case True
    let ?answer = "h_send host h1 (delete_request config session_id)"
    obtain u where u: "t = u @ [CancelRead True]" "CancelRead True \<notin> set u"
      using t True by (auto simp: cancel_contract_Cancelled)
    have "r = Inl (delete_outcome host session_id ?answer)" "h' = h1 @ [Sent (delete_request config session_id) ?answer]"
      using g m True by (auto simp: guarded_def io_match_def delete_outcome_abandon Let_def)
    then show ?thesis using t u by (auto simp: stop_contract_def)
  next
    case False
    have "r = o1" "h' = h1" using g m False
      by (auto simp: guarded_def io_match_def io_lift_def abandon_on_cancel_def split: sum.splits if_splits)
    moreover have "CancelRead True \<notin> set t \<and> (\<forall>e. outcome o1 = Some e \<longrightarrow> \<not> is_cancel_error e)"
      using t(2) False by (cases o1; simp; cases "projl o1") (auto simp: cancel_contract_def)
    ultimately show ?thesis using t(1) by (auto simp: stop_contract_def)
  qed
qed

text \<open>Before a session is open nothing else cancels.\<close>

definition never_cancels :: "(ResumableUploadError, 'a) io \<Rightarrow> bool" where
  "never_cancels m \<longleftrightarrow> (\<forall>h e h'. m h = Some (Inl e, h') \<longrightarrow> \<not> is_cancel_error e)"

lemma never_cancels_bind: "never_cancels m \<Longrightarrow> (\<And>x. never_cancels (f x)) \<Longrightarrow> never_cancels (io_bind m f)"
  unfolding never_cancels_def by (metis io_bind_cases sum.inject(1))

lemma never_cancels_lift: "(\<And>e. r = Inl e \<Longrightarrow> \<not> is_cancel_error e) \<Longrightarrow> never_cancels (io_lift r)"
  by (auto simp: never_cancels_def io_lift_def)

lemma never_cancels_parse: "never_cancels (parse x)"
  unfolding parse_def by (rule never_cancels_lift) (auto simp: of_option_def split: option.splits)

lemma never_cancels_http: "never_cancels (lift_http m)"
  unfolding never_cancels_def
proof (intro allI impI)
  fix h e h'
  assume "lift_http m h = Some (Inl e, h')"
  then obtain a where "map_sum Http id a = (Inl e :: ResumableUploadError + 'a)"
    by (auto simp: lift_http_def io_map_err_def io_match_def io_lift_def bind_eq_Some_conv)
  then show "\<not> is_cancel_error e" by (cases a) auto
qed

lemma never_cancels_read_all: "never_cancels (read_all host path acc)"
  unfolding never_cancels_def
proof (intro allI impI)
  fix h e h'
  assume "read_all host path acc h = Some (Inl e, h')"
  then have "\<forall>e'. fst (Inl e :: ResumableUploadError + bytes, h') = Inl e' \<longrightarrow> \<not> is_cancel_error e'"
    by (induction rule: read_all_induct) (auto simp: Let_def split: sum.splits if_splits)
  then show "\<not> is_cancel_error e" by simp
qed

lemma never_cancels_prelude:
  "never_cancels (get_status host config session_id)"
  "never_cancels (source_len host source)"
  "never_cancels (stream_sha256 host source)"
  "never_cancels (create_session host config inp whole_sha256 total_bytes chunk_request)"
proof -
  show "never_cancels (get_status host config session_id)"
    unfolding get_status_def by (intro never_cancels_bind never_cancels_http never_cancels_parse)
  show "never_cancels (source_len host source)"
    by (auto simp: source_len_def never_cancels_def io_lift_def file_len_def Let_def map_sum_def
        split: ResumableSource.splits sum.splits)
  show "never_cancels (stream_sha256 host source)"
    unfolding stream_sha256_def
    by (auto intro!: never_cancels_bind never_cancels_lift never_cancels_read_all split: ResumableSource.split)
  show "never_cancels (create_session host config inp whole_sha256 total_bytes chunk_request)"
    unfolding create_session_def
    by (auto intro!: never_cancels_bind never_cancels_lift never_cancels_http never_cancels_parse
        simp: funding_error_not_cancel split: option.split)
qed

lemma stop_run_session: "emits (stop_contract host config (sg_session_id session)) (run_session host config inp session)"
  unfolding run_session_def by (intro stop_guarded cancel.session_body) simp

text \<open>What follows the first look at the predicate.\<close>

definition after_check ::
  "host \<Rightarrow> NamespaceConfig \<Rightarrow> ResumableUploadInput \<Rightarrow> (ResumableUploadError, ResumableUploadResult) io" where
  "after_check host config inp = (case in_resume_session_id inp of
     Some sid \<Rightarrow> io_bind (get_status host config sid) (\<lambda>status.
       io_bind (guarded host config sid (terminal_from_status host config inp status)) (\<lambda>r.
       case r of Some done \<Rightarrow> io_ok done | None \<Rightarrow> run_session host config inp (grid_of_status status)))
   | None \<Rightarrow> io_bind (source_len host (in_source inp)) (\<lambda>total_bytes.
       io_bind (stream_sha256 host (in_source inp)) (\<lambda>whole_sha256.
       io_bind (create_session host config inp whole_sha256 total_bytes
         (unwrap_or DEFAULT_RESUMABLE_CHUNK_BYTES (in_chunk_bytes inp))) (\<lambda>outcome.
       case outcome of
         Deduplicated dedup \<Rightarrow>
           io_ok \<lparr>ru_uri = sd_uri dedup, ru_sha256 = Some (sd_sha256 dedup), ru_bytes = Some (sd_bytes dedup),
             ru_charged_usd_micros = Some 0, ru_deduplicated = True, ru_session_id = None\<rparr>
       | Created created \<Rightarrow>
           io_bind (report_session inp (sc_session_id created)) (\<lambda>_.
           run_session host config inp (grid_of_created host total_bytes whole_sha256 created))))))"

lemma chunked_after_check: "chunked host config inp = io_bind (check_cancelled host inp) (\<lambda>_. after_check host config inp)"
  by (simp add: chunked_def after_check_def resume_session_def fresh_session_def Let_def split: option.split)

text \<open>
  What the gateway has answered: with a new session, to the request that creates one, or with the status
  of a session.
\<close>

definition created_in :: "host \<Rightarrow> NamespaceConfig \<Rightarrow> history \<Rightarrow> UploadSessionCreated \<Rightarrow> bool" where
  "created_in host config h c \<longleftrightarrow> (\<exists>rq a. Sent rq (Inr a) \<in> set h \<and> rq_method rq = Post \<and>
     rq_url rq = cfg_base_url config @ lit ''/poe/uploads/sessions'' \<and> is_2xx a \<and> h_parse_created host (rs_body a) = Some c)"

definition status_in :: "host \<Rightarrow> NamespaceConfig \<Rightarrow> rstring \<Rightarrow> history \<Rightarrow> UploadSessionStatus \<Rightarrow> bool" where
  "status_in host config sid h st \<longleftrightarrow> (\<exists>rq a. Sent rq (Inr a) \<in> set h \<and> rq_method rq = Get \<and>
     rq_url rq = session_url config sid \<and> is_2xx a \<and> h_parse_status host (rs_body a) = Some st)"

lemma answered_append:
  "created_in host config h c \<Longrightarrow> created_in host config (h @ t) c"
  "status_in host config sid h st \<Longrightarrow> status_in host config sid (h @ t) st"
  unfolding created_in_def status_in_def by fastforce+

lemma send_answer:
  assumes "lift_http (send host rq) h = Some (Inr x, h')"
  shows "Sent rq (Inr x) \<in> set h' \<and> is_2xx x"
proof -
  obtain o1 where "send host rq h = Some (o1, h')" "map_sum Http id o1 = (Inr x :: ResumableUploadError + ClientResponse)"
    using assms by (auto simp: lift_http_def io_map_err_def io_match_def io_lift_def bind_eq_Some_conv)
  then have "send host rq h = Some (Inr x, h')" by (cases o1) auto
  then have "io_bind (send_raw host rq) (\<lambda>response. io_lift (into_http_error host response)) h = Some (Inr x, h')"
    by (simp add: send_def)
  then show ?thesis
    by (rule io_bind_cases) (auto simp: send_raw_def io_lift_def Let_def map_sum_def into_http_error_def throw_if_not_ok_def
        split: sum.splits if_splits)
qed

lemma send_raw_answer:
  assumes "lift_http (send_raw host rq) h = Some (Inr x, h')"
  shows "Sent rq (Inr x) \<in> set h'"
  using assms by (auto simp: lift_http_def io_map_err_def io_match_def io_lift_def bind_eq_Some_conv send_raw_def Let_def map_sum_def
      split: sum.splits)

lemma get_status_answer:
  assumes "get_status host config session_id h = Some (Inr status, h')"
  shows "status_in host config session_id h' status"
  using assms unfolding get_status_def
proof (rule io_bind_cases)
  fix x h1
  assume a: "lift_http (send host \<lparr>rq_url = session_url config session_id, rq_method = Get,
      rq_headers = json_headers (cfg_api_key config) None, rq_body = NoBody\<rparr>) h = Some (Inr x, h1)"
    "parse (h_parse_status host (rs_body x)) h1 = Some (Inr status, h')"
  then have "h' = h1" "h_parse_status host (rs_body x) = Some status"
    by (auto simp: parse_def io_lift_def of_option_def split: option.splits)
  then show ?thesis using send_answer [OF a(1)] unfolding status_in_def by fastforce
qed simp

lemma create_session_answer:
  assumes "create_session host config inp digest whole chunk_request h = Some (Inr (Created c), h')"
  shows "created_in host config h' c"
proof -
  obtain js where "io_bind (lift_http (send_raw host
            \<lparr>rq_url = cfg_base_url config @ lit ''/poe/uploads/sessions'', rq_method = Post,
             rq_headers = json_headers (cfg_api_key config) None, rq_body = JsonBody js\<rparr>)) (\<lambda>response.
          if rs_status response = 402 then io_err (funding_error host response)
          else io_bind (lift_http (io_lift (into_http_error host response))) (\<lambda>response.
            if rs_status response = 200
            then io_bind (parse (h_parse_dedup host (rs_body response))) (\<lambda>d. io_ok (Deduplicated d))
            else io_bind (parse (h_parse_created host (rs_body response))) (\<lambda>c. io_ok (Created c)))) h
      = Some (Inr (Created c), h')"
    using assms by (auto simp: create_session_def io_lift_def split: option.splits)
  then show ?thesis
  proof (rule io_bind_cases)
    fix x h1
    assume a: "lift_http (send_raw host
            \<lparr>rq_url = cfg_base_url config @ lit ''/poe/uploads/sessions'', rq_method = Post,
             rq_headers = json_headers (cfg_api_key config) None, rq_body = JsonBody js\<rparr>) h = Some (Inr x, h1)"
      and go: "(if rs_status x = 402 then io_err (funding_error host x)
          else io_bind (lift_http (io_lift (into_http_error host x))) (\<lambda>response.
            if rs_status response = 200
            then io_bind (parse (h_parse_dedup host (rs_body response))) (\<lambda>d. io_ok (Deduplicated d))
            else io_bind (parse (h_parse_created host (rs_body response))) (\<lambda>c. io_ok (Created c)))) h1
      = Some (Inr (Created c), h')"
    have "h' = h1 \<and> h_parse_created host (rs_body x) = Some c \<and> is_2xx x"
      using go by (cases "into_http_error host x")
        (auto simp: io_bind_def io_lift_def lift_http_def io_map_err_def io_match_def parse_def of_option_def
          into_http_error_def throw_if_not_ok_def split: if_splits option.splits)
    then show ?thesis using send_raw_answer [OF a] unfolding created_in_def by fastforce
  qed simp
qed

text \<open>The session that is open: the resumed one, or the one the gateway's answer names.\<close>

definition opened :: "host \<Rightarrow> NamespaceConfig \<Rightarrow> ResumableUploadInput \<Rightarrow> history \<Rightarrow> rstring \<Rightarrow> bool" where
  "opened host config inp h sid \<longleftrightarrow> (case in_resume_session_id inp of
     None \<Rightarrow> \<exists>c. created_in host config h c \<and> sid = sc_session_id c
   | Some s \<Rightarrow> sid = s \<or> (\<exists>st. status_in host config s h st \<and> sid = ss_session_id st))"

lemma opened_append: "opened host config inp h sid \<Longrightarrow> opened host config inp (h @ t) sid"
  unfolding opened_def by (auto split: option.splits intro: answered_append)

text \<open>A run from the start, not cancelled or cancelled with a session open.\<close>

definition calm :: "history \<Rightarrow> bool" where
  "calm h \<longleftrightarrow> CancelRead True \<notin> set h"

definition stops ::
  "host \<Rightarrow> NamespaceConfig \<Rightarrow> ResumableUploadInput \<Rightarrow> history \<Rightarrow> ResumableUploadError option \<Rightarrow> bool" where
  "stops host config inp h x \<longleftrightarrow>
     calm h \<and> (\<forall>e. x = Some e \<longrightarrow> \<not> is_cancel_error e) \<or>
     (\<exists>u sid answer. h = u @ [CancelRead True, Sent (delete_request config sid) answer] \<and> calm u \<and>
        opened host config inp u sid \<and> x = Some (delete_outcome host sid answer))"

lemma calm_step: "emits cancel_contract m \<Longrightarrow> m h = Some (Inr x, h1) \<Longrightarrow> calm h \<Longrightarrow> calm h1"
  by (drule emitsD, assumption) (auto simp: calm_def cancel_contract_None)

lemma calm_then:
  assumes "io_bind m f h = Some (r, h')" "never_cancels m" "emits cancel_contract m" "calm h"
    "\<And>x h1. m h = Some (Inr x, h1) \<Longrightarrow> calm h1 \<Longrightarrow> f x h1 = Some (r, h') \<Longrightarrow> stops host config inp h' (outcome r)"
  shows "stops host config inp h' (outcome r)"
  using assms(1)
proof (rule io_bind_cases)
  fix e
  assume e: "m h = Some (Inl e, h')" "r = Inl e"
  then have "\<not> is_cancel_error e" using assms(2) by (auto simp: never_cancels_def)
  moreover obtain t where "h' = h @ t" "cancel_contract t (Some e)" using emitsD [OF assms(3) e(1)] by auto
  ultimately show ?thesis using e(2) assms(4) by (auto simp: stops_def calm_def cancel_contract_other)
next
  fix x h1
  assume "m h = Some (Inr x, h1)" "f x h1 = Some (r, h')"
  then show ?thesis using assms(5) calm_step [OF assms(3) _ assms(4)] by blast
qed

lemma calm_guarded:
  assumes "emits (stop_contract host config sid) m" "m h = Some (r, h')" "calm h" "opened host config inp h sid"
  shows "stops host config inp h' (outcome r)"
proof -
  obtain t where t: "h' = h @ t" "stop_contract host config sid t (outcome r)" using emitsD [OF assms(1,2)] by blast
  from t(2) consider "CancelRead True \<notin> set t" "\<forall>e. outcome r = Some e \<longrightarrow> \<not> is_cancel_error e"
    | u answer where "t = u @ [CancelRead True, Sent (delete_request config sid) answer]" "CancelRead True \<notin> set u"
      "outcome r = Some (delete_outcome host sid answer)"
    unfolding stop_contract_def by blast
  then show ?thesis
  proof cases
    case 1
    then show ?thesis using t(1) assms(3) by (simp add: stops_def calm_def)
  next
    case 2
    then have "h' = (h @ u) @ [CancelRead True, Sent (delete_request config sid) answer]" "calm (h @ u)"
      using t(1) assms(3) by (simp_all add: calm_def)
    then show ?thesis using 2(3) opened_append [OF assms(4)] unfolding stops_def by blast
  qed
qed

lemma calm_guarded_then:
  assumes "io_bind (guarded host config sid m) f h = Some (r, h')" "emits cancel_contract m" "calm h"
    "opened host config inp h sid"
    "\<And>x h1. guarded host config sid m h = Some (Inr x, h1) \<Longrightarrow> calm h1 \<Longrightarrow> f x h1 = Some (r, h') \<Longrightarrow>
      stops host config inp h' (outcome r)"
  shows "stops host config inp h' (outcome r)"
  using assms(1)
proof (rule io_bind_cases)
  fix e
  assume "guarded host config sid m h = Some (Inl e, h')" "r = Inl e"
  then show ?thesis using calm_guarded [OF stop_guarded [OF assms(2)] _ assms(3,4)] by fastforce
next
  fix x h1
  assume g: "guarded host config sid m h = Some (Inr x, h1)" "f x h1 = Some (r, h')"
  have "calm h1" using calm_guarded [OF stop_guarded [OF assms(2)] g(1) assms(3,4)] by (auto simp: stops_def)
  then show ?thesis using assms(5) g by blast
qed

lemma stops_ok: "calm h \<Longrightarrow> io_ok x h = Some (r, h') \<Longrightarrow> stops host config inp h' (outcome r)"
  by (auto simp: io_lift_def stops_def)

lemma never_cancels_report: "never_cancels (report_progress inp p)" "never_cancels (report_session inp session_id)"
  by (simp_all add: never_cancels_def report_progress_def report_session_def)

lemma stops_resumed:
  assumes "in_resume_session_id inp = Some sid" "calm h" "after_check host config inp h = Some (r, h')"
  shows "stops host config inp h' (outcome r)"
proof -
  have "io_bind (get_status host config sid) (\<lambda>status.
       io_bind (guarded host config sid (terminal_from_status host config inp status)) (\<lambda>r.
       case r of Some done \<Rightarrow> io_ok done | None \<Rightarrow> run_session host config inp (grid_of_status status))) h = Some (r, h')"
    using assms(1,3) by (simp add: after_check_def)
  then show ?thesis
  proof (rule calm_then [OF _ never_cancels_prelude(1) cancel.get_status assms(2)])
    fix status h1
    assume st: "get_status host config sid h = Some (Inr status, h1)" and h1: "calm h1"
    assume "io_bind (guarded host config sid (terminal_from_status host config inp status)) (\<lambda>r.
       case r of Some done \<Rightarrow> io_ok done | None \<Rightarrow> run_session host config inp (grid_of_status status)) h1 = Some (r, h')"
    then show "stops host config inp h' (outcome r)"
    proof (rule calm_guarded_then [OF _ cancel.terminal_from_status h1])
      show "opened host config inp h1 sid" by (simp add: opened_def assms(1))
    next
      fix x h2
      assume g: "guarded host config sid (terminal_from_status host config inp status) h1 = Some (Inr x, h2)"
        and h2: "calm h2"
        and go: "(case x of Some done \<Rightarrow> io_ok done | None \<Rightarrow> run_session host config inp (grid_of_status status)) h2 = Some (r, h')"
      obtain t where "h2 = h1 @ t" using emitsD [OF stop_guarded [OF cancel.terminal_from_status] g] by blast
      then have "status_in host config sid h2 status" using get_status_answer [OF st] answered_append by blast
      then have o2: "opened host config inp h2 (sg_session_id (grid_of_status status))"
        by (auto simp: opened_def assms(1) grid_of_status_def)
      show "stops host config inp h' (outcome r)"
      proof (cases x)
        case None
        then show ?thesis using go calm_guarded [OF stop_run_session _ h2 o2] by simp
      next
        case (Some res)
        then show ?thesis using go stops_ok [OF h2] by simp
      qed
    qed
  qed
qed

lemma stops_fresh:
  assumes "in_resume_session_id inp = None" "calm h" "after_check host config inp h = Some (r, h')"
  shows "stops host config inp h' (outcome r)"
proof -
  let ?chunk = "unwrap_or DEFAULT_RESUMABLE_CHUNK_BYTES (in_chunk_bytes inp)"
  let ?go = "\<lambda>total_bytes whole_sha256 outcome. case outcome of
         Deduplicated dedup \<Rightarrow>
           io_ok \<lparr>ru_uri = sd_uri dedup, ru_sha256 = Some (sd_sha256 dedup), ru_bytes = Some (sd_bytes dedup),
             ru_charged_usd_micros = Some 0, ru_deduplicated = True, ru_session_id = None\<rparr>
       | Created created \<Rightarrow>
           io_bind (report_session inp (sc_session_id created)) (\<lambda>_.
           run_session host config inp (grid_of_created host total_bytes whole_sha256 created))"
  have "io_bind (source_len host (in_source inp)) (\<lambda>total_bytes.
       io_bind (stream_sha256 host (in_source inp)) (\<lambda>whole_sha256.
       io_bind (create_session host config inp whole_sha256 total_bytes ?chunk) (?go total_bytes whole_sha256))) h
      = Some (r, h')"
    using assms(1,3) by (simp add: after_check_def)
  then show ?thesis
  proof (rule calm_then [OF _ never_cancels_prelude(2) cancel.source_len assms(2)])
    fix n h1
    assume h1: "calm h1"
    assume "io_bind (stream_sha256 host (in_source inp)) (\<lambda>whole_sha256.
       io_bind (create_session host config inp whole_sha256 n ?chunk) (?go n whole_sha256)) h1 = Some (r, h')"
    then show "stops host config inp h' (outcome r)"
    proof (rule calm_then [OF _ never_cancels_prelude(3) cancel.stream_sha256 h1])
      fix d h2
      assume h2: "calm h2"
      assume "io_bind (create_session host config inp d n ?chunk) (?go n d) h2 = Some (r, h')"
      then show "stops host config inp h' (outcome r)"
      proof (rule calm_then [OF _ never_cancels_prelude(4) cancel.create_session h2])
        fix x h3
        assume cr: "create_session host config inp d n ?chunk h2 = Some (Inr x, h3)" and h3: "calm h3"
          and go: "?go n d x h3 = Some (r, h')"
        show "stops host config inp h' (outcome r)"
        proof (cases x)
          case (Deduplicated dd)
          then show ?thesis using go stops_ok [OF h3] by simp
        next
          case (Created c)
          let ?g = "grid_of_created host n d c"
          have o3: "opened host config inp h3 (sg_session_id ?g)"
            using create_session_answer [OF cr [unfolded Created]] by (auto simp: opened_def assms(1) grid_of_created_def)
          from go Created have "io_bind (report_session inp (sc_session_id c)) (\<lambda>_. run_session host config inp ?g) h3 = Some (r, h')"
            by simp
          then show ?thesis
          proof (rule calm_then [OF _ never_cancels_report(2) cancel.report_session h3])
            fix u h4
            assume rep: "report_session inp (sc_session_id c) h3 = Some (Inr u, h4)" and h4: "calm h4"
              and run: "run_session host config inp ?g h4 = Some (r, h')"
            obtain t where "h4 = h3 @ t" using emitsD [OF cancel.report_session rep] by blast
            then have "opened host config inp h4 (sg_session_id ?g)" using opened_append [OF o3] by blast
            then show "stops host config inp h' (outcome r)" by (rule calm_guarded [OF stop_run_session run h4])
          qed
        qed
      qed
    qed
  qed
qed

lemma stops_after_check:
  "calm h \<Longrightarrow> after_check host config inp h = Some (r, h') \<Longrightarrow> stops host config inp h' (outcome r)"
  using stops_resumed stops_fresh by (cases "in_resume_session_id inp") blast+

lemma upload_check:
  "upload_resumable host config inp = (if in_resume_session_id inp = None
     then io_bind (source_len host (in_source inp)) (\<lambda>total_bytes.
       if total_bytes \<le> unwrap_or DEFAULT_RESUMABLE_THRESHOLD_BYTES (in_threshold_bytes inp)
       then single_shot host config inp
       else io_bind (check_cancelled host inp) (\<lambda>_. after_check host config inp))
     else io_bind (check_cancelled host inp) (\<lambda>_. after_check host config inp))"
  unfolding upload_resumable_def chunked_after_check Let_def by (rule refl)

text \<open>Cancelled at the first look: nothing was sent.\<close>

definition unsent :: "history \<Rightarrow> ResumableUploadError option \<Rightarrow> bool" where
  "unsent h x \<longleftrightarrow> x = Some Cancelled \<and> (\<exists>u. h = u @ [CancelRead True] \<and> calm u \<and> \<not> list_ex is_sent u)"

lemma never_cancels_tail: "never_cancels (single_shot_rest host config inp)"
  unfolding single_shot_rest_def read_source_def
  by (auto intro!: never_cancels_bind never_cancels_lift never_cancels_http never_cancels_read_all never_cancels_report
      simp: of_option_def
      split: list.split option.splits UploadEntry.split ResumableSource.split)

lemma calm_check:
  assumes "io_bind (check_cancelled host inp) (\<lambda>_. m) h = Some (r, h')" "calm h" "\<not> list_ex is_sent h"
    "\<And>h1. calm h1 \<Longrightarrow> m h1 = Some (r, h') \<Longrightarrow> stops host config inp h' (outcome r)"
  shows "stops host config inp h' (outcome r) \<or> unsent h' (outcome r)"
  using assms(1)
proof (rule io_bind_cases)
  fix e
  assume "check_cancelled host inp h = Some (Inl e, h')" "r = Inl e"
  then have "h' = h @ [CancelRead True] \<and> r = Inl Cancelled"
    by (auto simp: check_cancelled_def is_cancelled_def Let_def split: if_splits)
  then show ?thesis using assms(2,3) by (auto simp: unsent_def)
next
  fix x h1
  assume "check_cancelled host inp h = Some (Inr x, h1)" "m h1 = Some (r, h')"
  then show ?thesis using assms(4) calm_step [OF cancel.check_cancelled _ assms(2)] by blast
qed

lemma stops_tail: "calm h \<Longrightarrow> single_shot_rest host config inp h = Some (r, h') \<Longrightarrow> stops host config inp h' (outcome r)"
proof -
  assume h: "calm h" and m: "single_shot_rest host config inp h = Some (r, h')"
  obtain t where t: "h' = h @ t" "cancel_contract t (outcome r)" using emitsD [OF cancel.single_shot_tail m] by blast
  have "\<not> is_cancel_error e" if "r = Inl e" for e
    using never_cancels_tail [of host config inp] m that by (auto simp: never_cancels_def)
  then show ?thesis
    using t h by (cases r) (auto simp: stops_def calm_def cancel_contract_None cancel_contract_other)
qed

lemma upload_stops:
  assumes "upload_resumable host config inp [] = Some (r, h)"
  shows "stops host config inp h (outcome r) \<or> unsent h (outcome r)"
proof (cases "in_resume_session_id inp = None")
  case False
  have "io_bind (check_cancelled host inp) (\<lambda>_. after_check host config inp) [] = Some (r, h)"
    using assms unfolding upload_check if_not_P [OF False] .
  then show ?thesis by (rule calm_check) (simp_all add: calm_def stops_after_check [unfolded calm_def])
next
  case True
  have "io_bind (source_len host (in_source inp)) (\<lambda>total_bytes.
       if total_bytes \<le> unwrap_or DEFAULT_RESUMABLE_THRESHOLD_BYTES (in_threshold_bytes inp)
       then single_shot host config inp
       else io_bind (check_cancelled host inp) (\<lambda>_. after_check host config inp)) [] = Some (r, h)"
    using assms unfolding upload_check if_P [OF True] .
  then show ?thesis
  proof (rule io_bind_cases)
    fix e
    assume e: "source_len host (in_source inp) [] = Some (Inl e, h)" "r = Inl e"
    have "\<not> is_cancel_error e"
      using e(1) never_cancels_prelude(2) [of host "in_source inp"] by (auto simp: never_cancels_def)
    moreover have "cancel_contract h (Some e)" using emitsD [OF cancel.source_len e(1)] by auto
    ultimately show ?thesis using e(2) by (simp add: stops_def calm_def cancel_contract_other)
  next
    fix n h1
    assume n: "source_len host (in_source inp) [] = Some (Inr n, h1)"
      and go: "(if n \<le> unwrap_or DEFAULT_RESUMABLE_THRESHOLD_BYTES (in_threshold_bytes inp)
       then single_shot host config inp
       else io_bind (check_cancelled host inp) (\<lambda>_. after_check host config inp)) h1 = Some (r, h)"
    have h1: "calm h1" "\<not> list_ex is_sent h1"
      using n by (auto simp: source_len_def io_lift_def file_len_def Let_def calm_def is_sent_def split: ResumableSource.splits)
    show ?thesis
    proof (cases "n \<le> unwrap_or DEFAULT_RESUMABLE_THRESHOLD_BYTES (in_threshold_bytes inp)")
      case True
      then have "io_bind (check_cancelled host inp) (\<lambda>_. single_shot_rest host config inp) h1 = Some (r, h)"
        using go by (simp add: single_shot_parts)
      then show ?thesis by (rule calm_check [OF _ h1]) (rule stops_tail)
    next
      case False
      then have "io_bind (check_cancelled host inp) (\<lambda>_. after_check host config inp) h1 = Some (r, h)"
        using go by simp
      then show ?thesis by (rule calm_check [OF _ h1]) (rule stops_after_check)
    qed
  qed
qed

text \<open>C33: a cancelled upload stops at once. If the caller's predicate ever answers yes, that answer is the last
  interaction and no request was made before it, with the result \<open>Cancelled\<close>; or it is followed by one \<open>DELETE\<close>
  alone, of the session that is open: the one the gateway created for this upload, or the resumed one, by the
  caller's identifier or the one in its status. The result is then \<open>Cancelled\<close> when the gateway confirmed the
  deletion, and \<open>AbandonFailed\<close> with that session otherwise. Conversely no upload ends in those two errors
  uncancelled. (In the first case a session that was to be resumed is left as it was, without a \<open>DELETE\<close>.)\<close>

theorem cancelled_upload_stops:
  assumes "upload_resumable host config inp [] = Some (r, h)"
  shows "if CancelRead True \<in> set h
     then (\<exists>u. h = u @ [CancelRead True] \<and> CancelRead True \<notin> set u \<and> \<not> list_ex is_sent u \<and> r = Inl Cancelled) \<or>
       (\<exists>u session_id answer. h = u @ [CancelRead True, Sent (delete_request config session_id) answer] \<and>
          CancelRead True \<notin> set u \<and> opened host config inp u session_id \<and>
          r = Inl (delete_outcome host session_id answer))
     else \<forall>e. r = Inl e \<longrightarrow> \<not> is_cancel_error e"
  using upload_stops [OF assms] by (cases r) (auto simp: stops_def unsent_def calm_def)

section \<open>The bytes that are sent\<close>

definition slot :: "bytes \<Rightarrow> SessionGrid \<Rightarrow> u32 \<Rightarrow> bytes" where
  "slot b g i = (let offset = unat (ucast i * sg_chunk_bytes g)
     in take (min (unat (sg_total_bytes g) - offset) (unat (sg_chunk_bytes g))) (drop offset b))"

definition slot_length :: "SessionGrid \<Rightarrow> u32 \<Rightarrow> nat" where
  "slot_length g i = min (unat (sg_total_bytes g) - unat (ucast i * sg_chunk_bytes g)) (unat (sg_chunk_bytes g))"

text \<open>
  The source holds the bytes \<open>b\<close> for the whole upload: in memory, or in a file that does not change. Its
  reads may fail or fall short, but what they return is what the file has at the offset, and nothing
  only at its end.
\<close>

definition source_is :: "host \<Rightarrow> ResumableSource \<Rightarrow> bytes \<Rightarrow> bool" where
  "source_is host source b \<longleftrightarrow> length b < 2 ^ 64 \<and> (case source of
     BytesSource c \<Rightarrow> c = b
   | PathSource path \<Rightarrow>
       (\<forall>h n. h_file_len host h path = Inr n \<longrightarrow> n = of_nat (length b)) \<and>
       (\<forall>h off n bs. h_file_read host h path off n = Inr bs \<longrightarrow> bs = take (length bs) (drop off b)) \<and>
       (\<forall>h off n. off < length b \<and> 0 < n \<longrightarrow> h_file_read host h path off n \<noteq> Inr []))"

lemma source_file:
  assumes "source_is host (PathSource path) b"
  shows "h_file_read host h path off n = Inr bs \<Longrightarrow> bs = take (length bs) (drop off b)"
    "h_file_read host h path off n = Inr [] \<Longrightarrow> 0 < n \<Longrightarrow> length b \<le> off"
  using assms unfolding source_is_def ResumableSource.case by (blast, metis linorder_not_less)

lemma io_bind_Inr:
  "io_bind m f h = Some (Inr y, h') \<longleftrightarrow> (\<exists>x h1. m h = Some (Inr x, h1) \<and> f x h1 = Some (Inr y, h'))"
proof
  show "io_bind m f h = Some (Inr y, h') \<Longrightarrow> \<exists>x h1. m h = Some (Inr x, h1) \<and> f x h1 = Some (Inr y, h')"
    by (erule io_bind_cases) auto
qed (auto simp: io_bind_def)

lemma prefix_append:
  "xs = take (length xs) (drop k b) \<Longrightarrow> ys = take (length ys) (drop (k + length xs) b) \<Longrightarrow>
   xs @ ys = take (length (xs @ ys)) (drop k b)"
  by (metis add.commute drop_drop length_append take_add)

lemma fill_buffer_slice:
  "fill_buffer host path offset want filled h = Some (Inr buf, h') \<Longrightarrow> source_is host (PathSource path) b \<Longrightarrow> filled = take (length filled) (drop offset b) \<Longrightarrow>
    (\<exists>t. h' = h @ t \<and> list_all is_quiet t) \<and> buf = take (length buf) (drop offset b)"
proof (induction host path offset want filled h rule: fill_buffer.induct)
  case (1 host path offset want filled h)
  let ?r = "h_file_read host h path (offset + length filled) (want - length filled)"
  let ?ev = "FileRead path (offset + length filled) (want - length filled) ?r"
  note prem = 1(2) [unfolded fill_buffer.simps [of host path offset want filled h]]
  show ?case
  proof (cases ?r)
    case (Inl e)
    then show ?thesis using prem by (auto simp: Let_def)
  next
    case (Inr bs)
    have "bs = take (length bs) (drop (offset + length filled) b)"
      by (rule source_file(1) [OF 1(3) Inr])
    with 1(4) have ext: "filled @ bs = take (length (filled @ bs)) (drop offset b)" by (rule prefix_append)
    consider "bs = []" | "bs \<noteq> []" "length filled + length bs = want"
      | "bs \<noteq> []" "length filled + length bs \<noteq> want" by blast
    then show ?thesis
    proof cases
      case 1
      then show ?thesis using prem Inr ext by (auto simp: Let_def)
    next
      case 2
      then have "buf = filled @ bs" "h' = h @ [?ev]" using prem Inr by (auto simp: Let_def split: if_splits)
      then show ?thesis using ext by (metis is_quiet.simps(4) list.pred_inject)
    next
      case 3
      then have le: "\<not> want - length filled < length bs"
        and go: "fill_buffer host path offset want (filled @ bs) (h @ [?ev]) = Some (Inr buf, h')"
        using prem Inr by (auto simp: Let_def split: if_splits)
      from "1.IH" [OF refl refl Inr 3(1) le 3(2)] go ext 1(3)
      obtain t where "h' = h @ ?ev # t" "list_all is_quiet t" "buf = take (length buf) (drop offset b)" by auto
      then show ?thesis by (metis is_quiet.simps(4) list.pred_inject)
    qed
  qed
qed

text \<open>A chunk that could be read is the slot of the source, whichever kind of source it is.\<close>

lemma read_bytes_slot:
  assumes b: "length b < 2 ^ 64"
    and r: "read_chunk host (BytesSource b) i (sg_chunk_bytes g) (sg_total_bytes g) h = Some (Inr c, h')"
  shows "h' = h \<and> c = slot b g i \<and> length c = slot_length g i"
proof -
  let ?cb = "sg_chunk_bytes g" and ?total = "sg_total_bytes g" and ?off = "ucast i * sg_chunk_bytes g :: u64"
  let ?want = "min (?total - ?off) ?cb"
  show ?thesis
  proof (cases "?off \<ge> ?total")
    case True
    then have "unat ?total \<le> unat ?off" by (simp add: word_le_nat_alt)
    then show ?thesis using r True by (simp add: read_chunk_def Let_def io_lift_def slot_def slot_length_def)
  next
    case False
    have lb: "unat (of_nat (length b) :: u64) = length b" using b by (simp add: unat_of_nat)
    have want: "unat ?want = min (unat ?total - unat ?off) (unat ?cb)"
      using False by (simp add: min_def word_le_nat_alt unat_sub)
    have s: "\<not> sat_add ?off ?want > of_nat (length b)" "h' = h"
      "c = take (unat (sat_add ?off ?want) - unat ?off) (drop (unat ?off) b)"
      using r False by (auto simp: read_chunk_def Let_def io_lift_def split: if_splits)
    have fit: "unat ?off + unat ?want \<le> length b"
    proof (cases "unat ?off + unat ?want < 2 ^ 64")
      case True
      then have "unat (sat_add ?off ?want) = unat ?off + unat ?want" by (simp add: sat_add_def unat_add_lem [symmetric])
      then show ?thesis using s(1) lb by (simp add: word_less_nat_alt)
    next
      case False
      then have "sat_add ?off ?want = - 1" by (simp add: sat_add_def)
      then have "unat (- 1 :: u64) \<le> length b" using s(1) lb by (simp add: word_less_nat_alt)
      moreover have "unat ?off + unat ?want \<le> unat ?total"
        using want \<open>\<not> ?total \<le> ?off\<close> by (simp add: word_le_nat_alt)
      moreover have "unat ?total \<le> unat (- 1 :: u64)" by (simp add: word_le_nat_alt [symmetric])
      ultimately show ?thesis by linarith
    qed
    then have "unat (sat_add ?off ?want) = unat ?off + unat ?want" using b by (simp add: sat_add_def unat_add_lem [symmetric])
    then have "c = take (unat ?want) (drop (unat ?off) b)" using s(3) by simp
    then show ?thesis using s(2) want fit by (simp add: slot_def slot_length_def Let_def)
  qed
qed

lemma read_chunk_slot:
  assumes src: "source_is host source b"
    and r: "read_chunk host source i (sg_chunk_bytes g) (sg_total_bytes g) h = Some (Inr c, h')"
  shows "\<exists>t. h' = h @ t \<and> list_all is_quiet t" "c = slot b g i" "length c = slot_length g i"
proof -
  have "(\<exists>t. h' = h @ t \<and> list_all is_quiet t) \<and> c = slot b g i \<and> length c = slot_length g i"
  proof (cases source)
    case (BytesSource c')
    then show ?thesis using src r read_bytes_slot [of b host i g h c h'] by (auto simp: source_is_def)
  next
    case (PathSource path)
    let ?cb = "sg_chunk_bytes g" and ?total = "sg_total_bytes g" and ?off = "ucast i * sg_chunk_bytes g :: u64"
    let ?want = "min (?total - ?off) ?cb"
    show ?thesis
    proof (cases "?off \<ge> ?total")
      case True
      then have "unat ?total \<le> unat ?off" by (simp add: word_le_nat_alt)
      then show ?thesis using r True by (simp add: read_chunk_def Let_def io_lift_def slot_def slot_length_def)
    next
      case False
      have want: "unat ?want = min (unat ?total - unat ?off) (unat ?cb)"
        using False by (simp add: min_def word_le_nat_alt unat_sub)
      let ?fill = "fill_buffer host path (unat ?off) (unat ?want) []"
      have "io_bind (file_len host path) (\<lambda>source_len.
          if ?off \<ge> source_len \<or> sat_add ?off ?want > source_len then io_err (SourceTruncated i ?off source_len)
          else io_bind ?fill (\<lambda>buf. if length buf \<noteq> unat ?want
            then io_err (SourceTruncated i ?off (sat_add ?off (of_nat (length buf)))) else io_ok buf)) h = Some (Inr c, h')"
        using r False by (simp add: read_chunk_def Let_def PathSource)
      then obtain n h1 where n: "file_len host path h = Some (Inr n, h1)"
        and go: "io_bind ?fill (\<lambda>buf. if length buf \<noteq> unat ?want
            then io_err (SourceTruncated i ?off (sat_add ?off (of_nat (length buf)))) else io_ok buf) h1 = Some (Inr c, h')"
        unfolding io_bind_Inr [of "file_len host path"] by (auto simp: io_lift_def split: if_splits)
      from go have fb: "?fill h1 = Some (Inr c, h')" and len: "length c = unat ?want"
        unfolding io_bind_Inr by (auto simp: io_lift_def split: if_splits)
      have "\<exists>t. h1 = h @ t \<and> list_all is_quiet t" using n by (auto simp: file_len_def Let_def)
      moreover note fill_buffer_slice [OF fb src [unfolded PathSource]]
      ultimately have "\<exists>t. h' = h @ t \<and> list_all is_quiet t" "c = take (length c) (drop (unat ?off) b)" by fastforce+
      then show ?thesis using len want by (simp add: slot_def slot_length_def Let_def)
    qed
  qed
  then show "\<exists>t. h' = h @ t \<and> list_all is_quiet t" "c = slot b g i" "length c = slot_length g i" by blast+
qed

lemma read_all_source:
  assumes "source_is host (PathSource path) b" "read_all host path [] h = Some (Inr x, h')"
  shows "x = b"
proof -
  have "source_is host (PathSource path) b \<Longrightarrow> acc = take (length acc) b \<Longrightarrow> fst y = Inr x \<Longrightarrow> x = b"
    if "read_all host path acc h = Some y" for host path acc h y
    using that
  proof (induction rule: read_all_induct)
    case (turn f host path acc h y)
    let ?r = "h_file_read host h path (length acc) STREAM_READ_BYTES"
    let ?h = "h @ [FileRead path (length acc) STREAM_READ_BYTES ?r]"
    show ?case
    proof (cases ?r)
      case (Inl e)
      then show ?thesis using turn(2,5) by (auto simp: Let_def)
    next
      case (Inr bs)
      show ?thesis
      proof (cases "bs = []")
        case True
        then have "length b \<le> length acc"
          using source_file(2) [OF turn(3), of h "length acc" STREAM_READ_BYTES] Inr by (simp add: STREAM_READ_BYTES_def)
        moreover have "x = acc" using True Inr turn(2,5) by (auto simp: Let_def)
        ultimately show ?thesis using turn(4) by (metis take_all)
      next
        case False
        have "bs = take (length bs) (drop (length acc) b)" by (rule source_file(1) [OF turn(3) Inr])
        with turn(4) have ext: "acc @ bs = take (length (acc @ bs)) b"
          using prefix_append [of acc 0 b bs] by (metis add_0 drop0)
        have "f host path (acc @ bs) ?h = Some y" using False Inr turn(2) by (simp add: Let_def)
        from turn(1) [OF this turn(3) ext turn(5)] show ?thesis .
      qed
    qed
  qed
  from this [OF assms(2,1)] show ?thesis by simp
qed

lemma source_len_source: "source_is host source b \<Longrightarrow> source_len host source h = Some (Inr n, h') \<Longrightarrow> n = of_nat (length b)"
  by (auto simp: source_is_def source_len_def io_lift_def file_len_def Let_def map_sum_def
      split: ResumableSource.splits sum.splits)

lemma stream_source: "source_is host source b \<Longrightarrow> stream_sha256 host source h = Some (Inr d, h') \<Longrightarrow> d = h_sha256 host b"
proof (cases source)
  case (PathSource path)
  assume s: "source_is host source b" and d: "stream_sha256 host source h = Some (Inr d, h')"
  from d PathSource have "io_bind (read_all host path []) (\<lambda>bs. io_ok (h_sha256 host bs)) h = Some (Inr d, h')"
    by (simp add: stream_sha256_def)
  then obtain bs h1 where "read_all host path [] h = Some (Inr bs, h1)" "d = h_sha256 host bs"
    by (rule io_bind_cases) (auto simp: io_lift_def)
  then show ?thesis using read_all_source [OF s [unfolded PathSource]] by fastforce
qed (auto simp: source_is_def stream_sha256_def io_lift_def)

text \<open>A \<open>PUT\<close> of one slot of the grid.\<close>

definition put_ok :: "host \<Rightarrow> NamespaceConfig \<Rightarrow> bytes \<Rightarrow> SessionGrid \<Rightarrow> request \<Rightarrow> bool" where
  "put_ok host config b g rq \<longleftrightarrow> (rq_method rq = Put \<longrightarrow>
     (\<exists>i. rq = put_request host config (sg_session_id g) i (slot b g i) \<and> length (slot b g i) = slot_length g i))"

definition put_contract ::
  "host \<Rightarrow> NamespaceConfig \<Rightarrow> bytes \<Rightarrow> SessionGrid \<Rightarrow> history \<Rightarrow> ResumableUploadError option \<Rightarrow> bool" where
  "put_contract host config b g t x \<longleftrightarrow> (\<forall>rq a. Sent rq a \<in> set t \<longrightarrow> put_ok host config b g rq)"

interpretation put: progress_contract "put_contract host config b g" "put_ok host config b g" for host config b g
proof
  show "put_contract host config b g [ev] None" if "is_quiet ev" for ev
    using that by (cases ev) (simp_all add: put_contract_def)
qed (auto simp: put_contract_def put_ok_def)

lemma guarded_end:
  assumes "m h = Some (o1, h1)" "guarded host config session_id m h = Some (r, h')"
  shows "h' = h1 \<or> (\<exists>a. h' = h1 @ [Sent (delete_request config session_id) a])"
proof (cases "o1 = Inl Cancelled")
  case True
  then show ?thesis using assms by (auto simp: guarded_def io_match_def delete_outcome_abandon Let_def)
next
  case False
  then show ?thesis using assms
    by (auto simp: guarded_def io_match_def io_lift_def abandon_on_cancel_def split: sum.splits if_splits)
qed

lemma guarded_emits:
  assumes "emits Q m" "\<And>t x y. Q t x \<Longrightarrow> Q t y"
    "\<And>t x a. Q t x \<Longrightarrow> Q (t @ [Sent (delete_request config session_id) a]) x"
  shows "emits Q (guarded host config session_id m)"
proof (rule emitsI)
  fix h r h'
  assume g: "guarded host config session_id m h = Some (r, h')"
  then obtain o1 h1 where m: "m h = Some (o1, h1)" by (auto simp: guarded_def io_match_def bind_eq_Some_conv)
  obtain t where t: "h1 = h @ t" "Q t (outcome r)" using emitsD [OF assms(1) m] assms(2) by blast
  from guarded_end [OF m g] show "\<exists>t. h' = h @ t \<and> Q t (outcome r)"
  proof
    assume "\<exists>a. h' = h1 @ [Sent (delete_request config session_id) a]"
    then show ?thesis using t assms(3) by fastforce
  qed (use t in blast)
qed

lemma put_ok_delete: "put_ok host config b g (delete_request config session_id)"
  by (simp add: put_ok_def delete_request_def)

lemma put_contract_delete:
  "put_contract host config b g t x \<Longrightarrow> put_contract host config b g (t @ [Sent (delete_request config session_id) a]) x"
  unfolding put_contract_def using put_ok_delete by (metis Un_iff event.inject(1) list.set_intros(1) set_ConsD empty_iff set_append empty_set)

lemma put_session_body:
  assumes "source_is host (in_source inp) b"
  shows "emits (put_contract host config b g) (run_session host config inp g)"
  unfolding run_session_def
proof (rule guarded_emits [OF put.session_body _ put_contract_delete])
  fix i c h h'
  assume "read_chunk host (in_source inp) i (sg_chunk_bytes g) (sg_total_bytes g) h = Some (Inr c, h')"
  from read_chunk_slot [OF assms this]
  show "put_ok host config b g (put_request host config (sg_session_id g) i c)"
    unfolding put_ok_def by auto
qed (simp_all add: put_contract_def)

text \<open>The grids the gateway has answered with: of a new session, or of the status of an old one.\<close>

definition declared_grid ::
  "host \<Rightarrow> NamespaceConfig \<Rightarrow> ResumableUploadInput \<Rightarrow> bytes \<Rightarrow> history \<Rightarrow> SessionGrid \<Rightarrow> bool" where
  "declared_grid host config inp b h g \<longleftrightarrow> (case in_resume_session_id inp of
     None \<Rightarrow> \<exists>c. created_in host config h c \<and> g = grid_of_created host (of_nat (length b)) (h_sha256 host b) c
   | Some sid \<Rightarrow> \<exists>st. status_in host config sid h st \<and> g = grid_of_status st)"

lemma declared_grid_append: "declared_grid host config inp b h g \<Longrightarrow> declared_grid host config inp b (h @ t) g"
  unfolding declared_grid_def by (auto split: option.splits intro: answered_append)

definition no_put :: "history \<Rightarrow> ResumableUploadError option \<Rightarrow> bool" where
  "no_put t x \<longleftrightarrow> (\<forall>rq a. Sent rq a \<in> set t \<longrightarrow> rq_method rq \<noteq> Put)"

lemma no_put_append: "no_put (t @ u) x \<longleftrightarrow> no_put t None \<and> no_put u None"
  unfolding no_put_def by (auto; blast)

lemma no_put_delete: "no_put [Sent (delete_request config session_id) a] x"
  by (simp add: no_put_def delete_request_def)

interpretation noput: progress_contract no_put "\<lambda>rq. rq_method rq \<noteq> Put"
proof
  show "no_put [ev] None" if "is_quiet ev" for ev
    using that by (cases ev) (simp_all add: no_put_def)
qed (auto simp: no_put_def)

lemma no_put_guarded: "emits no_put m \<Longrightarrow> emits no_put (guarded host config session_id m)"
  by (rule guarded_emits) (use no_put_delete no_put_append in \<open>auto simp: no_put_def\<close>)

definition puts_declared ::
  "host \<Rightarrow> NamespaceConfig \<Rightarrow> ResumableUploadInput \<Rightarrow> bytes \<Rightarrow> history \<Rightarrow> bool" where
  "puts_declared host config inp b h \<longleftrightarrow> no_put h None \<or> (\<exists>g. declared_grid host config inp b h g \<and> put_contract host config b g h None)"

lemma no_put_step:
  assumes "emits no_put m" "m h = Some (x, h')" "no_put h None"
  shows "no_put h' None"
  using emitsD [OF assms(1,2)] assms(3) no_put_append by (metis no_put_def)

lemma no_put_run:
  assumes "run_session host config inp g h = Some (r, h')" "no_put h None" "declared_grid host config inp b h g"
    "source_is host (in_source inp) b"
  shows "puts_declared host config inp b h'"
proof -
  obtain t where t: "h' = h @ t" "put_contract host config b g t (outcome r)"
    using emitsD [OF put_session_body [OF assms(4)] assms(1)] by blast
  then have "put_contract host config b g h' None"
    using assms(2) by (auto simp: put_contract_def no_put_def put_ok_def)
  then show ?thesis using t(1) assms(3) declared_grid_append unfolding puts_declared_def by blast
qed

lemma no_put_then:
  assumes "io_bind m f h = Some (r, h')" "emits no_put m" "no_put h None"
    "\<And>x h1. m h = Some (Inr x, h1) \<Longrightarrow> no_put h1 None \<Longrightarrow> f x h1 = Some (r, h') \<Longrightarrow> puts_declared host config inp b h'"
  shows "puts_declared host config inp b h'"
  using assms(1)
proof (rule io_bind_cases)
  fix e
  assume "m h = Some (Inl e, h')"
  then show ?thesis using no_put_step [OF assms(2) _ assms(3)] unfolding puts_declared_def by blast
next
  fix x h1
  assume a: "m h = Some (Inr x, h1)" "f x h1 = Some (r, h')"
  show ?thesis by (rule assms(4) [OF a(1) no_put_step [OF assms(2) a(1) assms(3)] a(2)])
qed

lemma puts_resume:
  assumes "source_is host (in_source inp) b" "in_resume_session_id inp = Some sid"
    "io_bind (get_status host config sid) (\<lambda>status.
       io_bind (guarded host config sid (terminal_from_status host config inp status)) (\<lambda>r.
       case r of Some done \<Rightarrow> io_ok done | None \<Rightarrow> run_session host config inp (grid_of_status status))) h = Some (r, h')"
    "no_put h None"
  shows "puts_declared host config inp b h'"
  using assms(3)
proof (rule no_put_then [OF _ noput.get_status assms(4)])
  fix status h1
  assume st: "get_status host config sid h = Some (Inr status, h1)" and h1: "no_put h1 None"
  assume "io_bind (guarded host config sid (terminal_from_status host config inp status)) (\<lambda>r.
       case r of Some done \<Rightarrow> io_ok done | None \<Rightarrow> run_session host config inp (grid_of_status status)) h1 = Some (r, h')"
  then show "puts_declared host config inp b h'"
  proof (rule no_put_then [OF _ no_put_guarded [OF noput.terminal_from_status] h1])
    fix x h2
    assume g: "guarded host config sid (terminal_from_status host config inp status) h1 = Some (Inr x, h2)" and h2: "no_put h2 None"
      and go: "(case x of Some done \<Rightarrow> io_ok done | None \<Rightarrow> run_session host config inp (grid_of_status status)) h2 = Some (r, h')"
    obtain t where "h2 = h1 @ t" using emitsD [OF no_put_guarded [OF noput.terminal_from_status] g] by blast
    then have d: "declared_grid host config inp b h2 (grid_of_status status)"
      using answered_append(2) [OF get_status_answer [OF st]] assms(2) by (auto simp: declared_grid_def)
    show ?thesis
    proof (cases x)
      case None
      then show ?thesis using go no_put_run [OF _ h2 d assms(1)] by simp
    next
      case (Some res)
      then show ?thesis using go h2 by (simp add: io_lift_def puts_declared_def)
    qed
  qed
qed

lemma puts_fresh:
  assumes "source_is host (in_source inp) b" "in_resume_session_id inp = None"
    "after_check host config inp h = Some (r, h')" "no_put h None"
  shows "puts_declared host config inp b h'"
proof -
  let ?chunk = "unwrap_or DEFAULT_RESUMABLE_CHUNK_BYTES (in_chunk_bytes inp)"
  let ?go = "\<lambda>total_bytes whole_sha256 outcome. case outcome of
         Deduplicated dedup \<Rightarrow>
           io_ok \<lparr>ru_uri = sd_uri dedup, ru_sha256 = Some (sd_sha256 dedup), ru_bytes = Some (sd_bytes dedup),
             ru_charged_usd_micros = Some 0, ru_deduplicated = True, ru_session_id = None\<rparr>
       | Created created \<Rightarrow>
           io_bind (report_session inp (sc_session_id created)) (\<lambda>_.
           run_session host config inp (grid_of_created host total_bytes whole_sha256 created))"
  have "io_bind (source_len host (in_source inp)) (\<lambda>total_bytes.
       io_bind (stream_sha256 host (in_source inp)) (\<lambda>whole_sha256.
       io_bind (create_session host config inp whole_sha256 total_bytes ?chunk) (?go total_bytes whole_sha256))) h
      = Some (r, h')"
    using assms(2,3) by (simp add: after_check_def)
  then show ?thesis
  proof (rule no_put_then [OF _ noput.source_len assms(4)])
    fix n h1
    assume n: "source_len host (in_source inp) h = Some (Inr n, h1)" and h1: "no_put h1 None"
    assume "io_bind (stream_sha256 host (in_source inp)) (\<lambda>whole_sha256.
       io_bind (create_session host config inp whole_sha256 n ?chunk) (?go n whole_sha256)) h1 = Some (r, h')"
    then show "puts_declared host config inp b h'"
    proof (rule no_put_then [OF _ noput.stream_sha256 h1])
      fix d h2
      assume d: "stream_sha256 host (in_source inp) h1 = Some (Inr d, h2)" and h2: "no_put h2 None"
      assume "io_bind (create_session host config inp d n ?chunk) (?go n d) h2 = Some (r, h')"
      then show "puts_declared host config inp b h'"
      proof (rule no_put_then [OF _ noput.create_session h2])
        fix x h3
        assume cr: "create_session host config inp d n ?chunk h2 = Some (Inr x, h3)" and h3: "no_put h3 None"
          and go: "?go n d x h3 = Some (r, h')"
        show "puts_declared host config inp b h'"
        proof (cases x)
          case (Deduplicated dd)
          then show ?thesis using go h3 by (simp add: io_lift_def puts_declared_def)
        next
          case (Created c)
          let ?g = "grid_of_created host n d c"
          have g: "declared_grid host config inp b h3 ?g"
            using create_session_answer [OF cr [unfolded Created]] source_len_source [OF assms(1) n]
              stream_source [OF assms(1) d] by (auto simp: declared_grid_def assms(2))
          from go Created have "io_bind (report_session inp (sc_session_id c)) (\<lambda>_. run_session host config inp ?g) h3 = Some (r, h')"
            by simp
          then show ?thesis
          proof (rule no_put_then [OF _ noput.report_session h3])
            fix u h4
            assume rep: "report_session inp (sc_session_id c) h3 = Some (Inr u, h4)" and h4: "no_put h4 None"
              and run: "run_session host config inp ?g h4 = Some (r, h')"
            obtain t where "h4 = h3 @ t" using emitsD [OF noput.report_session rep] by blast
            then show "puts_declared host config inp b h'"
              using no_put_run [OF run h4 _ assms(1)] declared_grid_append [OF g] by blast
          qed
        qed
      qed
    qed
  qed
qed

lemma puts_chunked:
  assumes "source_is host (in_source inp) b" "no_put h None"
    "io_bind (check_cancelled host inp) (\<lambda>_. after_check host config inp) h = Some (r, h')"
  shows "puts_declared host config inp b h'"
  using assms(3)
proof (rule no_put_then [OF _ noput.check_cancelled assms(2)])
  fix x h1
  assume h1: "no_put h1 None" and go: "after_check host config inp h1 = Some (r, h')"
  show "puts_declared host config inp b h'"
  proof (cases "in_resume_session_id inp")
    case None
    then show ?thesis using puts_fresh [OF assms(1) _ go h1] by simp
  next
    case (Some sid)
    then show ?thesis using puts_resume [OF assms(1) Some _ h1] go by (simp add: after_check_def)
  qed
qed

lemma puts_upload:
  assumes "source_is host (in_source inp) b" "upload_resumable host config inp [] = Some (r, h)"
  shows "puts_declared host config inp b h"
proof -
  have z: "no_put [] None" by (simp add: no_put_def)
  show ?thesis
  proof (cases "in_resume_session_id inp = None")
    case False
    have "io_bind (check_cancelled host inp) (\<lambda>_. after_check host config inp) [] = Some (r, h)"
      using assms(2) unfolding upload_check if_not_P [OF False] .
    then show ?thesis by (rule puts_chunked [OF assms(1) z])
  next
    case True
    have "io_bind (source_len host (in_source inp)) (\<lambda>total_bytes.
       if total_bytes \<le> unwrap_or DEFAULT_RESUMABLE_THRESHOLD_BYTES (in_threshold_bytes inp)
       then single_shot host config inp
       else io_bind (check_cancelled host inp) (\<lambda>_. after_check host config inp)) [] = Some (r, h)"
      using assms(2) unfolding upload_check if_P [OF True] .
    then show ?thesis
    proof (rule no_put_then [OF _ noput.source_len z])
      fix n h1
      assume h1: "no_put h1 None"
        and go: "(if n \<le> unwrap_or DEFAULT_RESUMABLE_THRESHOLD_BYTES (in_threshold_bytes inp)
         then single_shot host config inp
         else io_bind (check_cancelled host inp) (\<lambda>_. after_check host config inp)) h1 = Some (r, h)"
      show "puts_declared host config inp b h"
      proof (cases "n \<le> unwrap_or DEFAULT_RESUMABLE_THRESHOLD_BYTES (in_threshold_bytes inp)")
        case True
        then show ?thesis using go no_put_step [OF noput.single_shot _ h1] by (simp add: puts_declared_def)
      next
        case False
        then show ?thesis using go puts_chunked [OF assms(1) h1] by simp
      qed
    qed
  qed
qed

text \<open>C35: every chunk the upload sends is the declared slot of the source, be it in memory or a file whose content
  stays the same while the upload runs. Either no \<open>PUT\<close> is sent, or one grid places them all: for a new upload the
  one the gateway answered to the request that created the session, with the length and digest of this source;
  for a resumed one, the grid in the status of the resumed session. The body of a \<open>PUT\<close> is the source's bytes at
  the chunk's offset, as many as the slot holds, and the length and digest headers are of that body.\<close>

theorem sent_chunks_are_slots:
  assumes "source_is host (in_source inp) b" "upload_resumable host config inp [] = Some (r, h)"
  shows "(\<forall>rq a. Sent rq a \<in> set h \<longrightarrow> rq_method rq \<noteq> Put) \<or>
    (\<exists>g. declared_grid host config inp b h g \<and> (\<forall>rq a. Sent rq a \<in> set h \<and> rq_method rq = Put \<longrightarrow>
       (\<exists>i. rq = put_request host config (sg_session_id g) i (slot b g i) \<and> length (slot b g i) = slot_length g i)))"
  using puts_upload [OF assms] unfolding puts_declared_def no_put_def put_contract_def put_ok_def by blast

end
