(* ===== verification/Client_Complete.thy ===== *)
theory Client_Complete
  imports Client_Promises
begin

text \<open>
  What a completed upload of \<open>src/client/resumable.rs\<close> has sent, how often a chunk is tried, what the
  progress reports say, and that an upload ends.
\<close>

section \<open>A chunk is acknowledged, and tried at most three times\<close>

definition acked :: "request \<Rightarrow> history \<Rightarrow> bool" where
  "acked rq t \<longleftrightarrow> (\<exists>a. Sent rq (Inr a) \<in> set t \<and> is_2xx a)"

lemma acked_append: "acked rq t \<or> acked rq u \<Longrightarrow> acked rq (t @ u)"
  by (auto simp: acked_def)

lemma acked_Cons: "acked rq t \<Longrightarrow> acked rq (ev # t)"
  by (auto simp: acked_def)

text \<open>The requests of a history, with their answers.\<close>

definition requests :: "history \<Rightarrow> (request \<times> (rstring + ClientResponse)) list" where
  "requests t = List.map_filter (\<lambda>ev. case ev of Sent rq a \<Rightarrow> Some (rq, a) | _ \<Rightarrow> None) t"

lemma requests_simps [simp]:
  "requests [] = []" "requests (Sent rq a # t) = (rq, a) # requests t" "requests (CancelRead c # t) = requests t"
  "requests (t @ u) = requests t @ requests u"
  by (simp_all add: requests_def List.map_filter_def)

text \<open>An answer after which the chunk is sent again.\<close>

definition transient :: "host \<Rightarrow> rstring + ClientResponse \<Rightarrow> bool" where
  "transient host a \<longleftrightarrow> (case a of Inl _ \<Rightarrow> False | Inr response \<Rightarrow>
     (case into_http_error host response of Inl e \<Rightarrow> \<not> is_terminal_chunk_error (Http e) | Inr _ \<Rightarrow> False))"

fun attempts_ok :: "host \<Rightarrow> request \<Rightarrow> (request \<times> (rstring + ClientResponse)) list \<Rightarrow> bool" where
  "attempts_ok host rq [] \<longleftrightarrow> True"
| "attempts_ok host rq ((rq', a) # rs) \<longleftrightarrow> rq' = rq \<and> (rs = [] \<or> transient host a) \<and> attempts_ok host rq rs"

lemma check_cancelled_cases:
  assumes "check_cancelled host inp h = Some (r, h')"
  shows "\<exists>t. h' = h @ t \<and> requests t = []"
  using assms by (auto simp: check_cancelled_def is_cancelled_def Let_def split: if_splits)

lemma send_raw_cases:
  assumes "lift_http (send_raw host rq) h = Some (r, h')"
  shows "(\<exists>m. r = Inl (Http (Outbound m)) \<and> h' = h @ [Sent rq (Inl m)]) \<or> (\<exists>a. r = Inr a \<and> h' = h @ [Sent rq (Inr a)])"
  using assms by (auto simp: lift_http_def io_map_err_def io_match_def send_raw_def io_lift_def Let_def map_sum_def
      split: sum.splits)

lemma put_attempts_tries:
  assumes "put_attempts host config inp sid index chunk n last_err h = Some (r, h')"
  shows "\<exists>t. h' = h @ t \<and> length (requests t) \<le> n \<and> attempts_ok host (put_request host config sid index chunk) (requests t) \<and>
    (\<forall>ack. r = Inr ack \<longrightarrow> acked (put_request host config sid index chunk) t)"
  using assms
proof (induction n arbitrary: last_err h)
  case 0
  then show ?case by (auto simp: io_lift_def)
next
  case (Suc n)
  let ?rq = "put_request host config sid index chunk"
  from Suc.prems [unfolded put_attempts.simps] show ?case
  proof (rule io_bind_cases)
    fix e
    assume "check_cancelled host inp h = Some (Inl e, h')" "r = Inl e"
    then show ?thesis using check_cancelled_cases by fastforce
  next
    fix x h1
    assume c: "check_cancelled host inp h = Some (Inr x, h1)"
    obtain t1 where t1: "h1 = h @ t1" "requests t1 = []" using check_cancelled_cases [OF c] by blast
    assume "io_bind (lift_http (send_raw host ?rq)) (\<lambda>response.
       case into_http_error host response of
         Inl e \<Rightarrow> if is_terminal_chunk_error (Http e) then io_err (Http e)
           else put_attempts host config inp sid index chunk n (Some (Http e))
       | Inr _ \<Rightarrow> parse (h_parse_ack host (rs_body response))) h1 = Some (r, h')"
    then show ?thesis
    proof (rule io_bind_cases)
      fix e
      assume "lift_http (send_raw host ?rq) h1 = Some (Inl e, h')" "r = Inl e"
      then obtain m where "h' = h @ (t1 @ [Sent ?rq (Inl m)])" "r = Inl e" using send_raw_cases t1(1) by fastforce
      then show ?thesis using t1(2) by (intro exI [of _ "t1 @ [Sent ?rq (Inl m)]"]) simp
    next
      fix a h2
      assume s: "lift_http (send_raw host ?rq) h1 = Some (Inr a, h2)"
        and go: "(case into_http_error host a of
          Inl e \<Rightarrow> if is_terminal_chunk_error (Http e) then io_err (Http e)
            else put_attempts host config inp sid index chunk n (Some (Http e))
        | Inr _ \<Rightarrow> parse (h_parse_ack host (rs_body a))) h2 = Some (r, h')"
      have h2: "h2 = h @ t1 @ [Sent ?rq (Inr a)]" using send_raw_cases [OF s] t1(1) by auto
      show ?thesis
      proof (cases "into_http_error host a")
        case (Inr b)
        then have "h' = h2" using go by (simp add: parse_def io_lift_def)
        moreover have "is_2xx a" using into_http_error_Inr [OF Inr] by simp
        ultimately show ?thesis using h2 t1(2) by (intro exI [of _ "t1 @ [Sent ?rq (Inr a)]"]) (auto simp: acked_def)
      next
        case (Inl e)
        show ?thesis
        proof (cases "is_terminal_chunk_error (Http e)")
          case True
          then show ?thesis using go Inl h2 t1(2) by (intro exI [of _ "t1 @ [Sent ?rq (Inr a)]"]) (auto simp: io_lift_def)
        next
          case False
          then have "put_attempts host config inp sid index chunk n (Some (Http e)) h2 = Some (r, h')" using go Inl by simp
          from Suc.IH [OF this] obtain t where t: "h' = h2 @ t" "length (requests t) \<le> n" "attempts_ok host ?rq (requests t)"
            "\<forall>ack. r = Inr ack \<longrightarrow> acked ?rq t" by blast
          have "transient host (Inr a)" using Inl False by (simp add: transient_def)
          then show ?thesis using t h2 t1(2)
            by (intro exI [of _ "t1 @ [Sent ?rq (Inr a)] @ t"]) (auto intro: acked_append acked_Cons)
        qed
      qed
    qed
  qed
qed

text \<open>C38: one chunk is sent at most three times, always as the same request, and again only after an answer that is
  not the client's fault (a server error, 408 or 429); a transport failure ends the attempts. The chunk is
  reported as acknowledged only if the gateway answered with a 2xx.\<close>

theorem chunk_attempts:
  assumes "put_chunk_with_retry host config inp session_id index chunk h = Some (r, h')"
  shows "\<exists>t. h' = h @ t \<and> length (requests t) \<le> 3 \<and>
    attempts_ok host (put_request host config session_id index chunk) (requests t) \<and>
    (\<forall>ack. r = Inr ack \<longrightarrow> acked (put_request host config session_id index chunk) t)"
  using put_attempts_tries [OF assms [unfolded put_chunk_with_retry_def]] by (simp add: CHUNK_RETRY_ATTEMPTS_def)

section \<open>A completed upload\<close>

definition is_post :: "event \<Rightarrow> bool" where
  "is_post ev \<longleftrightarrow> (\<exists>rq a. ev = Sent rq a \<and> rq_method rq = Post)"

definition no_post :: "history \<Rightarrow> ResumableUploadError option \<Rightarrow> bool" where
  "no_post t x \<longleftrightarrow> (\<forall>ev\<in>set t. \<not> is_post ev)"

lemma attempts_no_post:
  assumes "attempts_ok host rq (requests t)" "rq_method rq = Put"
  shows "no_post t x"
proof -
  have "rq_method (fst p) = Put" if "p \<in> set (requests t)" for p
  proof -
    have "attempts_ok host rq rs \<Longrightarrow> p \<in> set rs \<Longrightarrow> fst p = rq" for rs
      by (induction host rq rs rule: attempts_ok.induct) auto
    then show ?thesis using that assms by blast
  qed
  moreover have "(rq', a) \<in> set (requests t)" if "Sent rq' a \<in> set t" for rq' a
    using that by (force simp: requests_def List.map_filter_def)
  ultimately show ?thesis unfolding no_post_def is_post_def by fastforce
qed

lemma quiet_no_post: "list_all is_quiet t \<Longrightarrow> no_post t x"
  by (auto simp: no_post_def is_post_def list_all_iff)

lemma send_missing_acks:
  assumes "source_is host (in_source inp) b"
    and "send_missing_chunks host config inp g missing n h = Some (Inr n', h')"
  shows "\<exists>t. h' = h @ t \<and> no_post t None \<and> (\<forall>i\<in>set missing. acked (put_request host config (sg_session_id g) i (slot b g i)) t)"
  using assms(2)
proof (induction missing arbitrary: n h)
  case Nil
  then show ?case by (auto simp: io_lift_def no_post_def)
next
  case (Cons i missing)
  let ?rq = "put_request host config (sg_session_id g) i (slot b g i)"
  from Cons.prems obtain x h1 chunk h2 ack h3 p v h4 n2 where
    c: "check_cancelled host inp h = Some (Inr x, h1)" and
    rd: "read_chunk host (in_source inp) i (sg_chunk_bytes g) (sg_total_bytes g) h1 = Some (Inr chunk, h2)" and
    put: "put_chunk_with_retry host config inp (sg_session_id g) i chunk h2 = Some (Inr ack, h3)" and
    pr: "report_progress inp p h3 = Some (Inr v :: ResumableUploadError + unit, h4)" and
    rest: "send_missing_chunks host config inp g missing n2 h4 = Some (Inr n', h')"
    unfolding send_missing_chunks.simps io_bind_Inr Let_def by blast
  obtain t1 where t1: "h1 = h @ t1" "requests t1 = []" "no_post t1 None"
    using c by (auto simp: check_cancelled_def is_cancelled_def Let_def no_post_def is_post_def split: if_splits)
  note chunk = read_chunk_slot [OF assms(1) rd]
  obtain tq where tq: "h2 = h1 @ tq" "no_post tq None" using chunk(1) quiet_no_post by blast
  from put_attempts_tries [OF put [unfolded put_chunk_with_retry_def]] obtain t2 where
    t2: "h3 = h2 @ t2" "attempts_ok host ?rq (requests t2)" "acked ?rq t2" using chunk(2) by auto
  have np: "no_post t2 None" by (rule attempts_no_post [OF t2(2)]) (simp add: put_request_def)
  obtain t3 where t3: "h4 = h3 @ t3" "no_post t3 None"
    using pr by (auto simp: report_progress_def no_post_def is_post_def split: if_splits)
  from Cons.IH [OF rest] obtain t where t: "h' = h4 @ t" "no_post t None"
    "\<forall>j\<in>set missing. acked (put_request host config (sg_session_id g) j (slot b g j)) t" by blast
  have "h' = h @ (t1 @ tq @ t2 @ t3 @ t)" using t1(1) tq(1) t2(1) t3(1) t(1) by simp
  moreover have "no_post (t1 @ tq @ t2 @ t3 @ t) None" using t1(3) tq(2) np t3(2) t(2) by (auto simp: no_post_def)
  moreover have "\<forall>j\<in>set (i # missing). acked (put_request host config (sg_session_id g) j (slot b g j)) (t1 @ tq @ t2 @ t3 @ t)"
    using t2(3) t(3) acked_append by auto
  ultimately show ?case by blast
qed

interpretation grows: progress_contract "\<lambda>_ _. True" "\<lambda>_. True"
  by unfold_locales simp_all

lemma complete_attempts_first:
  assumes "complete_attempts host config inp g key (Suc n) m h = Some (Inr result, h')"
  shows "\<exists>t u a. h' = h @ t @ [Sent (complete_request config g key) (Inr a)] @ u \<and> requests t = []"
  using assms unfolding complete_attempts.simps
proof (rule io_bind_cases)
  fix x h1
  assume c: "check_cancelled host inp h = Some (Inr x, h1)"
  obtain t1 where t1: "h1 = h @ t1" "requests t1 = []" using check_cancelled_cases [OF c] by blast
  let ?f = "\<lambda>response. case into_http_error host response of
       Inl e \<Rightarrow>
         if \<not> is_incomplete_upload_error (Http e) then io_err (Http e)
         else io_bind (get_status host config (sg_session_id g)) (\<lambda>status.
           io_bind (send_missing_chunks host config inp g (ss_missing status) m) (\<lambda>acked'.
             complete_attempts host config inp g key n acked'))
     | Inr _ \<Rightarrow> complete_body_to_result host config inp (sg_session_id g) (rs_body response)"
  assume "io_bind (lift_http (send_raw host (complete_request config g key))) ?f h1 = Some (Inr result, h')"
  then show ?thesis
  proof (rule io_bind_cases)
    fix a h2
    assume s: "lift_http (send_raw host (complete_request config g key)) h1 = Some (Inr a, h2)" and go: "?f a h2 = Some (Inr result, h')"
    have h2: "h2 = h @ t1 @ [Sent (complete_request config g key) (Inr a)]" using send_raw_cases [OF s] t1(1) by auto
    have "emits (\<lambda>_ _. True) (?f a)"
      by (auto intro!: grows.steps grows.send_missing grows.complete_session grows.err split: sum.split
          simp del: emits_def)
    from emitsD [OF this go] obtain u where "h' = h2 @ u" by blast
    then have "h' = h @ t1 @ [Sent (complete_request config g key) (Inr a)] @ u" using h2 by simp
    then show ?thesis using t1(2) by blast
  qed simp
qed simp

lemma run_session_success:
  assumes "run_session host config inp g h = Some (Inr result, h')"
  obtains m h1 where "send_missing_chunks host config inp g (sg_missing g) (acked_bytes g) h = Some (Inr m, h1)"
    "complete_attempts host config inp g (in_idempotency_key inp) (Suc COMPLETE_RETRY_ATTEMPTS) m h1 = Some (Inr result, h')"
proof -
  let ?body = "io_bind (send_missing_chunks host config inp g (sg_missing g) (acked_bytes g)) (\<lambda>acked.
        complete_session host config inp g (in_idempotency_key inp) acked)"
  obtain o1 h2 where o1: "?body h = Some (o1, h2)"
    using assms by (auto simp: run_session_def guarded_def io_match_def bind_eq_Some_conv)
  have "?body h = Some (Inr result, h')"
  proof (cases o1)
    case (Inr y)
    then show ?thesis using assms o1 by (simp add: run_session_def guarded_def io_match_def io_lift_def)
  next
    case (Inl e)
    then have "abandon_on_cancel host config (sg_session_id g) e h2 = Some (Inr result, h')"
      using assms o1 by (simp add: run_session_def guarded_def io_match_def)
    then have False
      by (cases "e = Cancelled") (auto simp: delete_outcome_abandon Let_def, simp add: abandon_on_cancel_def io_lift_def)
    then show ?thesis ..
  qed
  then show thesis
    by (rule io_bind_cases) (simp_all add: complete_session_def that)
qed

lemma slots_concat:
  assumes "sg_total_bytes g = of_nat (length b)" "length b < 2 ^ 64" "n * unat (sg_chunk_bytes g) < 2 ^ 64" "n \<le> 2 ^ 32"
  shows "concat (map (\<lambda>i. slot b g (of_nat i)) [0..<n]) = take (n * unat (sg_chunk_bytes g)) b"
  using assms(3,4)
proof (induction n)
  case 0
  then show ?case by simp
next
  case (Suc n)
  let ?C = "unat (sg_chunk_bytes g)"
  have "n * ?C < 2 ^ 64" using Suc.prems(1) by simp
  moreover have "unat (ucast (of_nat n :: u32) :: u64) = n" using Suc.prems(2) by (simp add: unsigned_ucast_eq unsigned_of_nat take_bit_nat_eq_self)
  ultimately have "unat (ucast (of_nat n :: u32) * sg_chunk_bytes g) = n * ?C"
    using unat_mult_lem [of "ucast (of_nat n :: u32) :: u64" "sg_chunk_bytes g"] by simp
  moreover have "unat (sg_total_bytes g) = length b" using assms(1,2) by (simp add: unat_of_nat)
  ultimately have "slot b g (of_nat n) = take ?C (drop (n * ?C) b)" by (simp add: slot_def Let_def min_def)
  then show ?case using Suc by (simp add: take_add [symmetric] add.commute)
qed

text \<open>C34: a session, new or resumed, that ends in success has first been sent what was missing. Before the first
  request to complete it, and before any other \<open>POST\<close>, the gateway acknowledged every chunk that the grid lists as
  missing, each with the bytes of its slot of the source (in memory, or a file that stays the same). And where the
  grid declares the length of the source and covers it, the slots of the grid in order are the source: a new
  session of which the gateway held nothing was sent the whole of it.\<close>

theorem completed_session_has_source:
  assumes "source_is host (in_source inp) b" "run_session host config inp g h = Some (Inr result, h')"
  shows "(\<exists>t u a. h' = h @ t @ [Sent (complete_request config g (in_idempotency_key inp)) (Inr a)] @ u \<and>
      (\<forall>ev\<in>set t. \<not> is_post ev) \<and>
      (\<forall>i\<in>set (sg_missing g). acked (put_request host config (sg_session_id g) i (slot b g i)) t)) \<and>
    (sg_total_bytes g = of_nat (length b) \<and> length b \<le> unat (sg_chunk_count g) * unat (sg_chunk_bytes g) \<and>
     unat (sg_chunk_count g) * unat (sg_chunk_bytes g) < 2 ^ 64 \<longrightarrow>
     concat (map (\<lambda>i. slot b g (of_nat i)) [0..<unat (sg_chunk_count g)]) = b)"
proof (intro conjI impI; (elim conjE)?)
  obtain m h1 where s: "send_missing_chunks host config inp g (sg_missing g) (acked_bytes g) h = Some (Inr m, h1)"
    and c: "complete_attempts host config inp g (in_idempotency_key inp) (Suc COMPLETE_RETRY_ATTEMPTS) m h1 = Some (Inr result, h')"
    by (rule run_session_success [OF assms(2)])
  obtain t where t: "h1 = h @ t" "no_post t None"
    "\<forall>i\<in>set (sg_missing g). acked (put_request host config (sg_session_id g) i (slot b g i)) t"
    using send_missing_acks [OF assms(1) s] by blast
  obtain t' u a where u: "h' = h1 @ t' @ [Sent (complete_request config g (in_idempotency_key inp)) (Inr a)] @ u" "requests t' = []"
    using complete_attempts_first [OF c] by blast
  have "no_post t' None" using attempts_no_post [of host "put_request host config [] 0 []" t'] u(2) by (simp add: put_request_def)
  then have "\<forall>ev\<in>set (t @ t'). \<not> is_post ev" using t(2) by (auto simp: no_post_def)
  moreover have "\<forall>i\<in>set (sg_missing g). acked (put_request host config (sg_session_id g) i (slot b g i)) (t @ t')"
    using t(3) acked_append by blast
  moreover have "h' = h @ (t @ t') @ [Sent (complete_request config g (in_idempotency_key inp)) (Inr a)] @ u"
    using u(1) t(1) by simp
  ultimately show "\<exists>t u a. h' = h @ t @ [Sent (complete_request config g (in_idempotency_key inp)) (Inr a)] @ u \<and>
      (\<forall>ev\<in>set t. \<not> is_post ev) \<and>
      (\<forall>i\<in>set (sg_missing g). acked (put_request host config (sg_session_id g) i (slot b g i)) t)" by blast
next
  assume g: "sg_total_bytes g = of_nat (length b)" "length b \<le> unat (sg_chunk_count g) * unat (sg_chunk_bytes g)"
    "unat (sg_chunk_count g) * unat (sg_chunk_bytes g) < 2 ^ 64"
  have "unat (sg_chunk_count g) < 2 ^ LENGTH(32)" by (rule unsigned_less)
  then have "unat (sg_chunk_count g) \<le> 2 ^ 32" by simp
  moreover have "length b < 2 ^ 64" using assms(1) by (simp add: source_is_def)
  ultimately show "concat (map (\<lambda>i. slot b g (of_nat i)) [0..<unat (sg_chunk_count g)]) = b"
    using slots_concat [OF g(1) _ g(3)] g(2) by simp
qed

end
