(* ===== verification/Client_Ends.thy ===== *)
theory Client_Ends
  imports Client_Complete
begin

text \<open>The progress reports of an upload of \<open>src/client/resumable.rs\<close>, and that an upload ends.\<close>

section \<open>Progress reports\<close>

definition reports :: "history \<Rightarrow> UploadProgress list" where
  "reports t = List.map_filter (\<lambda>ev. case ev of Progress p \<Rightarrow> Some p | _ \<Rightarrow> None) t"

lemma reports_simps [simp]: "reports [] = []" "reports (Progress p # t) = p # reports t"
  "reports (Sent rq a # t) = reports t" "reports (CancelRead c # t) = reports t" "reports (t @ u) = reports t @ reports u"
  by (simp_all add: reports_def List.map_filter_def)

definition mute :: "history \<Rightarrow> ResumableUploadError option \<Rightarrow> bool" where
  "mute t x \<longleftrightarrow> reports t = []"

interpretation mute: trace_contract mute "\<lambda>_. True"
proof
  show "mute [ev] None" if "is_quiet ev" for ev
    using that by (cases ev) (simp_all add: mute_def reports_def List.map_filter_def)
qed (simp_all add: mute_def)

text \<open>Reports that do not decrease from \<open>m\<close> to \<open>m'\<close>, none above the total.\<close>

definition climbs :: "u64 \<Rightarrow> u64 \<Rightarrow> UploadProgress list \<Rightarrow> u64 \<Rightarrow> bool" where
  "climbs whole m ps m' \<longleftrightarrow> m \<le> m' \<and> sorted (map up_bytes_sent ps) \<and>
     (\<forall>p\<in>set ps. m \<le> up_bytes_sent p \<and> up_bytes_sent p \<le> m' \<and> up_bytes_sent p \<le> whole \<and> up_total_bytes p = whole)"

lemma climbs_Nil: "climbs whole m [] m"
  by (simp add: climbs_def)

lemma climbs_append: "climbs whole m ps m' \<Longrightarrow> climbs whole m' qs m'' \<Longrightarrow> climbs whole m (ps @ qs) m''"
  by (auto simp: climbs_def sorted_append intro: order_trans)

definition steady :: "history \<Rightarrow> ResumableUploadError option \<Rightarrow> bool" where
  "steady t x \<longleftrightarrow> sorted (map up_bytes_sent (reports t)) \<and>
     (\<exists>whole. \<forall>p\<in>set (reports t). up_bytes_sent p \<le> whole \<and> up_total_bytes p = whole)"

lemma climbs_steady: "climbs whole m (reports t) m' \<Longrightarrow> steady t x"
  by (auto simp: climbs_def steady_def)

lemma mute_then:
  assumes "emits mute m" "\<And>x. emits steady (f x)"
  shows "emits steady (io_bind m f)"
proof (rule emitsI, erule io_bind_cases)
  fix h r h' e
  assume "m h = Some (Inl e, h')" "r = Inl e"
  then show "\<exists>t. h' = h @ t \<and> steady t (outcome r)" using emitsD [OF assms(1)] by (fastforce simp: mute_def steady_def)
next
  fix h r h' x h1
  assume a: "m h = Some (Inr x, h1)" "f x h1 = Some (r, h')"
  obtain t where t: "h1 = h @ t" "reports t = []" using emitsD [OF assms(1) a(1)] by (auto simp: mute_def)
  obtain u where "h' = h1 @ u" "steady u (outcome r)" using emitsD [OF assms(2) a(2)] by blast
  then have "h' = h @ (t @ u) \<and> steady (t @ u) (outcome r)" using t by (simp add: steady_def)
  then show "\<exists>t. h' = h @ t \<and> steady t (outcome r)" by blast
qed

lemma mute_steady: "emits mute m \<Longrightarrow> emits steady m"
  unfolding emits_def mute_def steady_def by fastforce

lemma guarded_steady: "emits steady m \<Longrightarrow> emits steady (guarded host config session_id m)"
  by (rule guarded_emits) (auto simp: steady_def)

lemma guarded_mute: "emits mute m \<Longrightarrow> emits mute (guarded host config session_id m)"
  by (rule guarded_emits) (auto simp: mute_def)

text \<open>What a part of a session does to the reports, from the bytes acknowledged before it.\<close>

definition climbing :: "u64 \<Rightarrow> u64 \<Rightarrow> (ResumableUploadError, 'a) io \<Rightarrow> ('a \<Rightarrow> u64 \<Rightarrow> bool) \<Rightarrow> bool" where
  "climbing whole m prog P \<longleftrightarrow> (\<forall>h r h'. prog h = Some (r, h') \<longrightarrow>
     (\<exists>t m'. h' = h @ t \<and> climbs whole m (reports t) m' \<and> m' \<le> whole \<and> (\<forall>x. r = Inr x \<longrightarrow> P x m')))"

lemma climbingD:
  assumes "climbing whole m prog P" "prog h = Some (r, h')"
  obtains t m' where "h' = h @ t" "climbs whole m (reports t) m'" "m' \<le> whole" "\<And>x. r = Inr x \<Longrightarrow> P x m'"
  using assms unfolding climbing_def by metis

lemma climbing_mute:
  assumes "emits mute prog" "m \<le> whole"
  shows "climbing whole m prog (\<lambda>_ m'. m' = m)"
  unfolding climbing_def
proof (intro allI impI)
  fix h r h'
  assume "prog h = Some (r, h')"
  from emitsD [OF assms(1) this] obtain t where "h' = h @ t" "reports t = []" by (auto simp: mute_def)
  then show "\<exists>t m'. h' = h @ t \<and> climbs whole m (reports t) m' \<and> m' \<le> whole \<and> (\<forall>x. r = Inr x \<longrightarrow> m' = m)"
    using climbs_Nil [of whole m] assms(2) by fastforce
qed

lemma climbing_bind:
  fixes f :: "'a \<Rightarrow> (ResumableUploadError, 'b) io"
  assumes "climbing whole m prog P" "\<And>x m'. P x m' \<Longrightarrow> m' \<le> whole \<Longrightarrow> climbing whole m' (f x) R"
  shows "climbing whole m (io_bind prog f) R"
  unfolding climbing_def
proof (intro allI impI, erule io_bind_cases)
  fix h h' e and r :: "ResumableUploadError + 'b"
  assume "prog h = Some (Inl e, h')" "r = Inl e"
  then show "\<exists>t m'. h' = h @ t \<and> climbs whole m (reports t) m' \<and> m' \<le> whole \<and> (\<forall>x. r = Inr x \<longrightarrow> R x m')"
    using assms(1) unfolding climbing_def by fastforce
next
  fix h r h' x h1
  assume a: "prog h = Some (Inr x, h1)" "f x h1 = Some (r, h')"
  obtain t m' where t: "h1 = h @ t" "climbs whole m (reports t) m'" "m' \<le> whole" "P x m'"
    by (rule climbingD [OF assms(1) a(1)]) blast
  obtain u m'' where u: "h' = h1 @ u" "climbs whole m' (reports u) m''" "m'' \<le> whole" "\<And>x. r = Inr x \<Longrightarrow> R x m''"
    by (rule climbingD [OF assms(2) [OF t(4,3)] a(2)]) blast
  show "\<exists>t m'. h' = h @ t \<and> climbs whole m (reports t) m' \<and> m' \<le> whole \<and> (\<forall>y. r = Inr y \<longrightarrow> R y m')"
    using t u climbs_append [OF t(2) u(2)] by (intro exI [of _ "t @ u"] exI [of _ m'']) simp
qed

lemma climbing_mute_bind:
  "emits mute prog \<Longrightarrow> m \<le> whole \<Longrightarrow> (\<And>x. climbing whole m (f x) R) \<Longrightarrow> climbing whole m (io_bind prog f) R"
  by (rule climbing_bind [OF climbing_mute]) auto

lemma climbing_weaken:
  assumes "climbing whole m prog P" "\<And>x m'. P x m' \<Longrightarrow> R x m'"
  shows "climbing whole m prog R"
  unfolding climbing_def
proof (intro allI impI)
  fix h r h'
  assume p: "prog h = Some (r, h')"
  obtain t m' where "h' = h @ t" "climbs whole m (reports t) m'" "m' \<le> whole" "\<forall>x. r = Inr x \<longrightarrow> P x m'"
    by (rule climbingD [OF assms(1) p]) blast
  then show "\<exists>t m'. h' = h @ t \<and> climbs whole m (reports t) m' \<and> m' \<le> whole \<and> (\<forall>x. r = Inr x \<longrightarrow> R x m')"
    using assms(2) by (intro exI [of _ t] exI [of _ m']) simp
qed

lemma climbing_report:
  assumes "m \<le> up_bytes_sent p" "up_bytes_sent p \<le> up_total_bytes p"
  shows "climbing (up_total_bytes p) m (report_progress inp p) (\<lambda>_ m'. m' = up_bytes_sent p)"
  using assms by (auto simp: climbing_def report_progress_def climbs_def)

lemma send_missing_climbs:
  "m \<le> sg_total_bytes g \<Longrightarrow> climbing (sg_total_bytes g) m (send_missing_chunks host config inp g missing m) (\<lambda>x m'. x = m')"
proof (induction missing arbitrary: m)
  case Nil
  then show ?case by (auto simp: climbing_def io_lift_def climbs_def)
next
  case (Cons i missing)
  let ?m = "max (chunk_span_bytes g (saturating_succ i)) m"
  let ?p = "\<lparr>up_bytes_sent = ?m, up_total_bytes = sg_total_bytes g, up_chunk_index = i, up_chunks_total = sg_chunk_count g\<rparr>"
  have le: "?m \<le> sg_total_bytes g" using Cons.prems by (simp add: chunk_span_bytes_def)
  have rep: "climbing (sg_total_bytes g) m (report_progress inp ?p) (\<lambda>_ m'. m' = ?m)"
    using climbing_report [of m ?p inp] le by simp
  have go: "climbing (sg_total_bytes g) m (io_bind (report_progress inp ?p)
      (\<lambda>_. send_missing_chunks host config inp g missing ?m)) (\<lambda>x m'. x = m')"
    by (rule climbing_bind [OF rep]) (use Cons.IH [OF le] in simp)
  show ?case unfolding send_missing_chunks.simps Let_def
    by (intro climbing_mute_bind mute.check_cancelled mute.read_chunk mute.put_chunk go Cons.prems) simp
qed

lemma complete_climbs:
  "m \<le> sg_total_bytes g \<Longrightarrow> climbing (sg_total_bytes g) m (complete_attempts host config inp g key n m) (\<lambda>_ _. True)"
proof (induction n arbitrary: m)
  case 0
  then show ?case by (auto simp: climbing_def io_lift_def climbs_def)
next
  case (Suc n)
  have fin: "emits mute prog \<Longrightarrow> climbing (sg_total_bytes g) m prog (\<lambda>_ _. True)" for prog :: "(ResumableUploadError, ResumableUploadResult) io"
    by (rule climbing_weaken [OF climbing_mute]) (simp_all add: Suc.prems)
  have again: "climbing (sg_total_bytes g) m (io_bind (send_missing_chunks host config inp g missing m)
      (\<lambda>m'. complete_attempts host config inp g key n m')) (\<lambda>_ _. True)" for missing
    by (rule climbing_bind [OF send_missing_climbs [OF Suc.prems]]) (use Suc.IH in blast)
  have step: "climbing (sg_total_bytes g) m (case into_http_error host response of
       Inl e \<Rightarrow>
         if \<not> is_incomplete_upload_error (Http e) then io_err (Http e)
         else io_bind (get_status host config (sg_session_id g)) (\<lambda>status.
           io_bind (send_missing_chunks host config inp g (ss_missing status) m) (\<lambda>m'.
             complete_attempts host config inp g key n m'))
     | Inr _ \<Rightarrow> complete_body_to_result host config inp (sg_session_id g) (rs_body response)) (\<lambda>_ _. True)" for response
    by (auto split: sum.split intro!: fin [OF mute.err] fin [OF mute.complete_body]
        climbing_mute_bind [OF mute.get_status Suc.prems again])
  show ?case unfolding complete_attempts.simps
    by (rule climbing_mute_bind [OF mute.check_cancelled Suc.prems climbing_mute_bind [OF mute.send_raw [OF TrueI] Suc.prems step]])
qed

lemma run_session_steady: "emits steady (run_session host config inp g)"
proof -
  have "acked_bytes g \<le> sg_total_bytes g" by (simp add: acked_bytes_def chunk_span_bytes_def Let_def)
  then have "climbing (sg_total_bytes g) (acked_bytes g)
      (io_bind (send_missing_chunks host config inp g (sg_missing g) (acked_bytes g))
        (\<lambda>acked. complete_session host config inp g (in_idempotency_key inp) acked)) (\<lambda>_ _. True)"
  proof (rule climbing_bind [OF send_missing_climbs])
    fix x m'
    assume "x = m'" "m' \<le> sg_total_bytes g"
    then show "climbing (sg_total_bytes g) m' (complete_session host config inp g (in_idempotency_key inp) x) (\<lambda>_ _. True)"
      unfolding complete_session_def by (simp only: complete_climbs)
  qed
  then show ?thesis unfolding run_session_def
    by (intro guarded_steady emitsI) (metis climbing_def climbs_steady)
qed

lemma single_shot_steady: "emits steady (single_shot host config inp)"
proof -
  have rep: "emits steady (io_bind (report_progress inp \<lparr>up_bytes_sent = n, up_total_bytes = n, up_chunk_index = i,
      up_chunks_total = j\<rparr>) (\<lambda>_. io_ok x))" for n i j and x :: ResumableUploadResult
    by (auto simp: emits_def steady_def io_bind_def report_progress_def io_lift_def)
  have fin: "emits steady (case uploads of
         [] \<Rightarrow> io_err Protocol
       | UploadSuccess _ _ uri sha256 bytes # _ \<Rightarrow>
           io_bind (report_progress inp
             \<lparr>up_bytes_sent = of_nat (length content), up_total_bytes = of_nat (length content),
              up_chunk_index = 0, up_chunks_total = 1\<rparr>) (\<lambda>_.
           io_ok \<lparr>ru_uri = uri, ru_sha256 = Some sha256, ru_bytes = Some bytes, ru_charged_usd_micros = None,
             ru_deduplicated = False, ru_session_id = None\<rparr>)
       | UploadFailure _ _ e # _ \<Rightarrow> io_err (UploadRejected e))" for uploads and content :: bytes
    by (auto split: list.split UploadEntry.split intro: rep mute_steady [OF mute.err])
  have l: "emits mute (io_lift (of_option (Http (DecodeError [])) x))" for x :: "UploadEntry list option"
    by (rule mute.lift) (auto simp: of_option_def split: option.splits)
  show ?thesis unfolding single_shot_def
    by (rule mute_then [OF mute.check_cancelled mute_then [OF mute.read_source
        mute_then [OF mute.send [OF TrueI] mute_then [OF l fin]]]])
qed

lemma after_check_steady: "emits steady (after_check host config inp)"
  unfolding after_check_def
  by (auto intro!: mute_then mute.get_status mute.source_len mute.stream_sha256 mute.create_session mute.report_session
      run_session_steady mute_steady [OF mute.ok] guarded_mute mute.terminal_from_status split: option.split CreateOutcome.split)

text \<open>C37: progress never goes back and never exceeds the total: over a whole upload, resumed or not, resends after an
  incomplete completion included, the reported byte counts do not decrease, all reports name one whole, and no
  count is above it.\<close>

theorem progress_monotone:
  assumes "upload_resumable host config inp [] = Some (r, h)"
  shows "sorted (map up_bytes_sent (reports h)) \<and>
    (\<exists>whole. \<forall>p\<in>set (reports h). up_bytes_sent p \<le> whole \<and> up_total_bytes p = whole)"
proof -
  have "emits steady (upload_resumable host config inp)"
    unfolding upload_check
    by (auto intro!: mute_then mute.source_len mute.check_cancelled single_shot_steady after_check_steady)
  from emitsD [OF this assms] show ?thesis by (simp add: steady_def)
qed

section \<open>An upload ends\<close>

text \<open>What the loops rely on: \<open>Instant\<close> never goes back and a sleep lasts at least as long as asked; a file has
  an end, and a read returns no more bytes than it was given room for.\<close>

definition clock_ok :: "host \<Rightarrow> bool" where
  "clock_ok host \<longleftrightarrow> (\<forall>h ev. h_clock host h \<le> h_clock host (h @ [ev])) \<and>
     (\<forall>h n. h_clock host h + n \<le> h_clock host (h @ [Slept n]))"

definition files_ok :: "host \<Rightarrow> (rstring \<Rightarrow> nat) \<Rightarrow> bool" where
  "files_ok host file_end \<longleftrightarrow> (\<forall>h path off n bs. h_file_read host h path off n = Inr bs \<longrightarrow>
     length bs \<le> n \<and> (file_end path \<le> off \<longrightarrow> bs = []))"

definition returns :: "('e, 'a) io \<Rightarrow> bool" where
  "returns m \<longleftrightarrow> (\<forall>h. m h \<noteq> None)"

lemma returnsE: "returns m \<Longrightarrow> (\<And>r h'. m h = Some (r, h') \<Longrightarrow> thesis) \<Longrightarrow> thesis"
  unfolding returns_def by (metis not_None_eq surj_pair)

lemma returns_bind:
  assumes "returns m" "\<And>x. returns (f x)"
  shows "returns (io_bind m f)"
  unfolding returns_def
proof
  fix h
  obtain r h' where m: "m h = Some (r, h')" by (rule returnsE [OF assms(1)])
  show "io_bind m f h \<noteq> None"
    using m assms(2) by (cases r) (simp_all add: io_bind_def returns_def)
qed

lemma returns_match:
  assumes "returns m" "\<And>x. returns (f x)"
  shows "returns (io_match m f)"
  unfolding returns_def
proof
  fix h
  obtain r h' where m: "m h = Some (r, h')" by (rule returnsE [OF assms(1)])
  show "io_match m f h \<noteq> None"
    using m assms(2) by (simp add: io_match_def returns_def)
qed

lemma returns_lift [simp]: "returns (io_lift r)"
  by (simp add: returns_def io_lift_def)

lemma returns_steps [simp]:
  "returns (check_cancelled host inp)" "returns (lift_http (send_raw host rq))" "returns (parse x)"
  "returns (report_progress inp p)" "returns (report_session inp sid)" "returns (file_len host path)"
  "returns (check_deadline host deadline)" "returns (send_raw host rq)"
  by (auto simp: returns_def check_cancelled_def lift_http_def io_map_err_def io_match_def send_raw_def Let_def io_lift_def
      parse_def report_progress_def report_session_def file_len_def check_deadline_def split: prod.split)

lemma returns_http: "returns m \<Longrightarrow> returns (lift_http m)"
  unfolding lift_http_def io_map_err_def by (rule returns_match) simp_all

lemma returns_send [simp]: "returns (lift_http (send host rq))" "returns (get_status host config sid)"
  "returns (source_len host source)" "returns (abandon_session host config sid)"
  by (auto simp: send_def get_status_def source_len_def abandon_session_def
      intro!: returns_bind returns_http split: ResumableSource.split)

lemma returns_create: "returns (create_session host config inp whole_sha256 total_bytes chunk_request)"
  unfolding create_session_def by (auto intro!: returns_bind returns_http split: option.split)

lemma returns_read_all:
  assumes "files_ok host file_end"
  shows "returns (read_all host path acc)"
proof -
  have "read_all host path acc h \<noteq> None" for h
  proof (induction "file_end path - length acc" arbitrary: acc h rule: less_induct)
    case less
    show ?case
    proof (cases "h_file_read host h path (length acc) STREAM_READ_BYTES")
      case (Inr bs)
      have "bs \<noteq> [] \<Longrightarrow> file_end path - length (acc @ bs) < file_end path - length acc"
        using assms Inr unfolding files_ok_def by (cases "file_end path \<le> length acc") (auto simp flip: length_greater_0_conv)
      then show ?thesis using less Inr by (subst read_all.simps) (simp add: Let_def)
    qed (subst read_all.simps, simp add: Let_def)
  qed
  then show ?thesis by (simp add: returns_def)
qed

lemma returns_fill_buffer:
  assumes "files_ok host file_end"
  shows "fill_buffer host path offset want filled h \<noteq> None"
  using assms
proof (induction host path offset want filled h rule: fill_buffer.induct)
  case (1 host path offset want filled h)
  show ?case
  proof (cases "h_file_read host h path (offset + length filled) (want - length filled)")
    case (Inr bs)
    then have "length bs \<le> want - length filled" using 1(2) unfolding files_ok_def by blast
    then show ?thesis using 1 Inr by (subst fill_buffer.simps) (auto simp: Let_def)
  qed (subst fill_buffer.simps, simp add: Let_def)
qed

lemma returns_source:
  assumes "files_ok host file_end"
  shows "returns (read_source host source)" "returns (stream_sha256 host source)"
    "returns (read_chunk host source i chunk_bytes total_bytes)"
  using returns_read_all [OF assms] returns_fill_buffer [OF assms]
  by (auto simp: read_source_def stream_sha256_def read_chunk_def Let_def returns_def [of "fill_buffer _ _ _ _ _"]
      intro!: returns_bind split: ResumableSource.split)

lemma returns_put: "returns (put_attempts host config inp sid index chunk n last_err)"
  by (induction n arbitrary: last_err) (auto intro!: returns_bind split: sum.split)

lemma returns_send_missing:
  assumes "files_ok host file_end"
  shows "returns (send_missing_chunks host config inp g missing m)"
  by (induction missing arbitrary: m)
    (auto simp: Let_def put_chunk_with_retry_def intro!: returns_bind returns_source [OF assms] returns_put)

lemma clock_mono: "clock_ok host \<Longrightarrow> h_clock host h \<le> h_clock host (h @ t)"
  by (induction t rule: rev_induct) (auto simp: clock_ok_def simp flip: append_assoc intro: order_trans)

lemma sleep_loop_ends:
  assumes "clock_ok host"
  shows "\<exists>b h'. sleep_loop host inp deadline h = Some (b, h') \<and> (b \<longrightarrow> deadline \<le> h_clock host h')"
proof (induction "deadline - h_clock host h" arbitrary: h rule: less_induct)
  case less
  obtain c h1 where c: "is_cancelled host inp h = (c, h1)" by fastforce
  then obtain t where t: "h1 = h @ t" by (auto simp: is_cancelled_def Let_def split: if_splits)
  let ?now = "h_clock host h1"
  let ?h2 = "h1 @ [ClockRead ?now]"
  let ?d = "min CANCEL_POLL_SLICE (deadline - ?now)"
  have now: "h_clock host h \<le> ?now" "?now \<le> h_clock host ?h2"
    unfolding t by (rule clock_mono [OF assms])+
  show ?case
  proof (cases "c \<or> ?now \<ge> deadline")
    case True
    then show ?thesis using c now by (subst sleep_loop.simps) (auto simp: read_clock_def Let_def)
  next
    case False
    have "h_clock host ?h2 + ?d \<le> h_clock host (?h2 @ [Slept ?d])" using assms unfolding clock_ok_def by blast
    moreover have "?d > 0" using False by (simp add: CANCEL_POLL_SLICE_def)
    ultimately have "deadline - h_clock host (?h2 @ [Slept ?d]) < deadline - h_clock host h" using now False by linarith
    from less [OF this] show ?thesis using c False by (subst sleep_loop.simps) (simp add: read_clock_def Let_def)
  qed
qed

lemma sleep_ends:
  assumes "clock_ok host"
  shows "\<exists>r h'. sleep_or_cancel host inp h = Some (r, h') \<and> (r = Inr () \<longrightarrow> h_clock host h < h_clock host h')"
proof (cases "in_has_cancel inp")
  case True
  let ?now = "h_clock host h"
  obtain b h' where "sleep_loop host inp (?now + ATTEMPT_POLL_INTERVAL) (h @ [ClockRead ?now]) = Some (b, h')"
    "b \<longrightarrow> ?now + ATTEMPT_POLL_INTERVAL \<le> h_clock host h'" using sleep_loop_ends [OF assms] by blast
  then show ?thesis using True
    by (auto simp: sleep_or_cancel_def interruptible_sleep_def read_clock_def Let_def ATTEMPT_POLL_INTERVAL_def)
next
  case False
  have "h_clock host h + ATTEMPT_POLL_INTERVAL \<le> h_clock host (h @ [Slept ATTEMPT_POLL_INTERVAL])"
    using assms unfolding clock_ok_def by blast
  then show ?thesis using False
    by (auto simp: sleep_or_cancel_def interruptible_sleep_def ATTEMPT_POLL_INTERVAL_def)
qed

lemma poll_once_ends:
  assumes "clock_ok host"
  shows "\<exists>r h'. poll_once host config inp sid aid deadline h = Some (r, h') \<and>
    (r = Inr None \<longrightarrow> h_clock host h < deadline \<and> h_clock host h < h_clock host h')"
proof -
  have "returns (sleep_or_cancel host inp)" using sleep_ends [OF assms] unfolding returns_def by (metis option.distinct(1))
  then have "returns (poll_once host config inp sid aid deadline)"
    unfolding poll_once_def by (auto intro!: returns_bind split: option.split)
  then obtain r h' where r: "poll_once host config inp sid aid deadline h = Some (r, h')" by (rule returnsE)
  have "h_clock host h < deadline \<and> h_clock host h < h_clock host h'" if n: "r = Inr None"
  proof -
    from r [unfolded n poll_once_def] obtain x h1 resp h2 st h3 y h4 z where
      c: "check_cancelled host inp h = Some (Inr x, h1)"
      and s: "lift_http (send host (attempt_request config aid)) h1 = Some (Inr resp, h2)"
      and p: "parse (h_parse_attempt host (rs_body resp)) h2 = Some (Inr st, h3)"
      and d: "check_deadline host deadline h3 = Some (Inr y, h4)"
      and w: "sleep_or_cancel host inp h4 = Some (Inr z, h')"
      by (auto simp: io_bind_Inr io_lift_def split: if_splits option.splits)
    obtain t where t: "h3 = h @ t"
      using emitsD [OF grows.check_cancelled c] emitsD [OF grows.send [OF TrueI] s] emitsD [OF grows.parse p] by auto
    have h4: "h4 = h @ t @ [ClockRead (h_clock host h3)]" "h_clock host h3 < deadline"
      using d t by (auto simp: check_deadline_def read_clock_def Let_def split: if_splits)
    have "h_clock host h4 < h_clock host h'" using sleep_ends [OF assms, of inp h4] w by auto
    moreover have "h_clock host h \<le> h_clock host h3" "h_clock host h \<le> h_clock host h4"
      unfolding t h4(1) by (rule clock_mono [OF assms])+
    ultimately show ?thesis using h4(2) by simp
  qed
  then show ?thesis using r by blast
qed

lemma poll_ends:
  assumes "clock_ok host"
  shows "returns (poll_attempt host config inp sid aid)"
proof -
  have loop: "poll_loop host config inp sid aid deadline h \<noteq> None" for deadline h
  proof (induction "deadline - h_clock host h" arbitrary: h rule: less_induct)
    case less
    obtain r h' where r: "poll_once host config inp sid aid deadline h = Some (r, h')"
      and n: "r = Inr None \<longrightarrow> h_clock host h < deadline \<and> h_clock host h < h_clock host h'"
      using poll_once_ends [OF assms] by blast
    show ?case
    proof (cases "r = Inr None")
      case True
      then have "poll_loop host config inp sid aid deadline h' \<noteq> None" using n by (intro less) linarith
      then show ?thesis using r True by (subst poll_loop.simps) simp
    next
      case False
      then show ?thesis using r by (subst poll_loop.simps) (simp split: sum.split option.split)
    qed
  qed
  then show ?thesis by (simp add: returns_def poll_attempt_def read_clock_def Let_def)
qed

lemma returns_complete:
  assumes "clock_ok host" "files_ok host file_end"
  shows "returns (complete_attempts host config inp g key n m)"
proof (induction n arbitrary: m)
  case 0
  then show ?case by simp
next
  case (Suc n)
  have "returns (complete_body_to_result host config inp sid body)" for sid body
    unfolding complete_body_to_result_def Let_def
    by (auto intro!: returns_bind poll_ends assms(1) split: option.split)
  then show ?case unfolding complete_attempts.simps
    by (auto intro!: returns_bind returns_send_missing [OF assms(2)] Suc.IH split: sum.split)
qed

lemma returns_guarded:
  assumes "returns m"
  shows "returns (guarded host config sid m)"
proof -
  have "returns (abandon_on_cancel host config sid e)" for e
    unfolding abandon_on_cancel_def by (auto intro!: returns_match split: sum.split)
  then show ?thesis unfolding guarded_def by (auto intro!: returns_match assms split: sum.split)
qed

text \<open>C36: an upload ends. However the gateway, the caller's predicate and the file system behave, with a clock that
  never goes back, sleeps that last as long as asked and files that end, \<open>upload_resumable\<close> returns: no retry
  or wait of it goes on forever, and no slice or division of it panics.\<close>

theorem upload_returns:
  assumes "clock_ok host" "files_ok host file_end"
  shows "\<exists>r h'. upload_resumable host config inp h = Some (r, h')"
proof -
  have run: "returns (run_session host config inp g)" for g
    unfolding run_session_def complete_session_def
    by (intro returns_guarded returns_bind returns_send_missing [OF assms(2)] returns_complete [OF assms])
  have terminal: "returns (terminal_from_status host config inp status)" for status
    unfolding terminal_from_status_def by (auto intro!: returns_bind poll_ends assms(1) split: option.split)
  have single: "returns (single_shot host config inp)"
    unfolding single_shot_def
    by (auto intro!: returns_bind returns_source [OF assms(2)] split: list.split UploadEntry.split)
  have "returns (after_check host config inp)"
    unfolding after_check_def
    by (auto intro!: returns_bind returns_guarded terminal run returns_source [OF assms(2)] returns_create
        split: option.split CreateOutcome.split)
  then have "returns (upload_resumable host config inp)"
    unfolding upload_check using single by (auto intro!: returns_bind)
  then show ?thesis by (rule returnsE) blast
qed

end
