(* ===== verification/Client_Samples.thy ===== *)
theory Client_Samples
  imports Client_Ends
begin

text \<open>
  A gateway that accepts everything, at which the guarantees of the upload are instantiated: the upload of
  three bytes in chunks of two, completed or cancelled.
\<close>

definition reply :: "nat \<Rightarrow> bytes \<Rightarrow> rstring + ClientResponse" where
  "reply status body = Inr \<lparr>rs_status = status, rs_body = body, rs_request_id = None, rs_retry_after_seconds = None\<rparr>"

definition sample_answer :: "request \<Rightarrow> rstring + ClientResponse" where
  "sample_answer rq = (case rq_method rq of
     Put \<Rightarrow> reply 200 [1]
   | Delete \<Rightarrow> reply 204 []
   | Get \<Rightarrow> reply 200 []
   | Post \<Rightarrow> if rq_body rq = JsonBody (lit ''{}'') then reply 200 [3] else reply 201 [2])"

fun slept :: "event \<Rightarrow> nat" where
  "slept (Slept n) = n"
| "slept _ = 0"

text \<open>The predicate of the caller: yes, once a request has been sent.\<close>

definition sample_stop :: "bool \<Rightarrow> history \<Rightarrow> bool" where
  "sample_stop cancel h \<longleftrightarrow> cancel \<and> list_ex is_sent h"

lemma sample_stop_simps [simp]:
  "\<not> sample_stop False h" "\<not> sample_stop c []" "sample_stop c (h @ [CancelRead b]) \<longleftrightarrow> sample_stop c h"
  by (auto simp: sample_stop_def is_sent_def)

definition sample_host :: "bool \<Rightarrow> host" where
  "sample_host cancel =
     \<lparr>h_send = (\<lambda>h rq. sample_answer rq), h_cancelled = sample_stop cancel,
      h_clock = (\<lambda>h. sum_list (map slept h)), h_file_len = (\<lambda>h path. Inl []), h_file_read = (\<lambda>h path off n. Inl []),
      h_sha256 = (\<lambda>b. []), h_hex = (\<lambda>b. []), h_print_json = (\<lambda>j. Some []),
      h_parse_json = (\<lambda>b. if b = [3] then Some (JObject [(lit ''uri'', JString [9])]) else None),
      h_parse_uploads = (\<lambda>b. None),
      h_parse_created = (\<lambda>b. if b = [2] then Some \<lparr>sc_session_id = [7], sc_chunk_bytes = 2, sc_chunk_count = 2, sc_received = []\<rparr> else None),
      h_parse_dedup = (\<lambda>b. None), h_parse_status = (\<lambda>b. None),
      h_parse_ack = (\<lambda>b. Some \<lparr>ca_index = 0, ca_received = [], ca_remaining = 0, ca_complete = False\<rparr>),
      h_parse_attempt = (\<lambda>b. None)\<rparr>"

definition sample_config :: NamespaceConfig where
  "sample_config = \<lparr>cfg_api_key = None, cfg_base_url = []\<rparr>"

definition sample_input :: ResumableUploadInput where
  "sample_input = \<lparr>in_target = [], in_source = BytesSource [1, 2, 3], in_content_type = None, in_threshold_bytes = Some 0,
     in_chunk_bytes = None, in_resume_session_id = None, in_idempotency_key = None, in_has_progress = True,
     in_has_cancel = True, in_has_session_created = False\<rparr>"

definition sample_grid :: SessionGrid where
  "sample_grid = \<lparr>sg_session_id = [7], sg_chunk_bytes = 2, sg_chunk_count = 2, sg_total_bytes = 3,
     sg_declared_sha256_hex = [], sg_missing = [0, 1]\<rparr>"

lemma sample_send_raw: "lift_http (send_raw (sample_host c) rq) h =
    Some (map_sum (Http \<circ> Outbound) id (sample_answer rq), h @ [Sent rq (sample_answer rq)])"
  by (cases "sample_answer rq")
    (simp_all add: lift_http_def io_map_err_def io_match_def send_raw_def io_lift_def Let_def sample_host_def)

lemma sample_answers [simp]:
  "rq_method rq = Put \<Longrightarrow> sample_answer rq = reply 200 [1]"
  "rq_method rq = Delete \<Longrightarrow> sample_answer rq = reply 204 []"
  "sample_answer (complete_request config g key) = reply 200 [3]"
  by (simp_all add: sample_answer_def complete_request_def)

lemma sample_check: "check_cancelled (sample_host c) sample_input h =
    (let b = sample_stop c h in Some (if b then Inl Cancelled else Inr (), h @ [CancelRead b]))"
  by (simp add: check_cancelled_def is_cancelled_def Let_def sample_input_def sample_host_def)

lemma sample_put: "\<not> sample_stop c h \<Longrightarrow>
    put_chunk_with_retry (sample_host c) sample_config sample_input sid i chunk h =
    Some (Inr \<lparr>ca_index = 0, ca_received = [], ca_remaining = 0, ca_complete = False\<rparr>,
      h @ [CancelRead False, Sent (put_request (sample_host c) sample_config sid i chunk) (reply 200 [1])])"
  by (simp add: put_chunk_with_retry_def CHUNK_RETRY_ATTEMPTS_def numeral_3_eq_3 io_bind_def sample_check Let_def
      sample_send_raw put_request_def reply_def into_http_error_def throw_if_not_ok_def is_2xx_def parse_def of_option_def
      io_lift_def) (simp add: sample_host_def)

lemma sample_chunks:
  "read_chunk (sample_host c) (BytesSource [1, 2, 3]) 0 2 3 h = Some (Inr [1, 2], h)"
  "read_chunk (sample_host c) (BytesSource [1, 2, 3]) 1 2 3 h = Some (Inr [3], h)"
  by (simp_all add: read_chunk_def io_lift_def sat_add_def Let_def)

definition sample_progress :: "u64 \<Rightarrow> u32 \<Rightarrow> event" where
  "sample_progress n i = Progress \<lparr>up_bytes_sent = n, up_total_bytes = 3, up_chunk_index = i, up_chunks_total = 2\<rparr>"

abbreviation sample_put_request :: "bool \<Rightarrow> u32 \<Rightarrow> bytes \<Rightarrow> request" where
  "sample_put_request c i chunk \<equiv> put_request (sample_host c) sample_config [7] i chunk"

abbreviation sample_complete :: request where
  "sample_complete \<equiv> complete_request sample_config sample_grid None"

definition sample_sends :: "bool \<Rightarrow> history" where
  "sample_sends c = [CancelRead False, CancelRead False, Sent (sample_put_request c 0 [1, 2]) (reply 200 [1]), sample_progress 2 0]"

definition sample_result :: ResumableUploadResult where
  "sample_result = \<lparr>ru_uri = [9], ru_sha256 = None, ru_bytes = None, ru_charged_usd_micros = None, ru_deduplicated = False,
     ru_session_id = Some [7]\<rparr>"

lemma sample_span:
  "chunk_span_bytes sample_grid (saturating_succ 0) = 2" "chunk_span_bytes sample_grid (saturating_succ 1) = 3"
  "acked_bytes sample_grid = 0"
  by (simp_all add: chunk_span_bytes_def saturating_succ_def acked_bytes_def sample_grid_def)

lemma sample_fields:
  "in_source sample_input = BytesSource [1, 2, 3]" "in_has_progress sample_input" "in_idempotency_key sample_input = None"
  "sg_chunk_bytes sample_grid = 2" "sg_total_bytes sample_grid = 3" "sg_session_id sample_grid = [7]"
  "sg_chunk_count sample_grid = 2" "sg_missing sample_grid = [0, 1]"
  by (simp_all add: sample_input_def sample_grid_def)

lemma sample_first: "\<not> sample_stop c h \<Longrightarrow>
    send_missing_chunks (sample_host c) sample_config sample_input sample_grid (0 # is) 0 h =
    send_missing_chunks (sample_host c) sample_config sample_input sample_grid is 2 (h @ sample_sends c)"
  by (simp add: io_bind_def sample_check Let_def sample_chunks sample_put sample_span sample_sends_def sample_progress_def
      is_sent_def sample_fields report_progress_def max_def)

definition sample_rest :: history where
  "sample_rest = [CancelRead False, CancelRead False, Sent (sample_put_request False 1 [3]) (reply 200 [1]), sample_progress 3 1]"

lemma sample_second:
  "send_missing_chunks (sample_host False) sample_config sample_input sample_grid [1] 2 h = Some (Inr 3, h @ sample_rest)"
  by (simp add: io_bind_def io_lift_def sample_check Let_def sample_chunks sample_put sample_span sample_rest_def
      sample_progress_def sample_fields report_progress_def max_def)

lemma sample_complete_run:
  "complete_attempts (sample_host False) sample_config sample_input sample_grid None (Suc n) m h =
     Some (Inr sample_result, h @ [CancelRead False, Sent sample_complete (reply 200 [3])])"
  by (simp add: io_bind_def sample_check Let_def sample_send_raw)
    (simp add: reply_def into_http_error_def throw_if_not_ok_def is_2xx_def complete_body_to_result_def io_bind_def
      parse_def of_option_def io_lift_def Let_def sample_host_def unwrap_or_def obj_str_def obj_get_def obj_u64_def
      sample_result_def sample_fields lit_def)

lemma sample_run:
  "run_session (sample_host False) sample_config sample_input sample_grid h =
     Some (Inr sample_result, h @ sample_sends False @ sample_rest @ [CancelRead False, Sent sample_complete (reply 200 [3])])"
  by (simp add: run_session_def guarded_def io_match_def io_bind_def sample_span sample_fields sample_first sample_second
      complete_session_def sample_complete_run io_lift_def del: complete_attempts.simps send_missing_chunks.simps)

definition sample_create :: request where
  "sample_create = \<lparr>rq_url = lit ''/poe/uploads/sessions'', rq_method = Post, rq_headers = json_headers None None, rq_body = JsonBody []\<rparr>"

lemma lift_http_lift: "lift_http (io_lift r) = io_lift (map_sum Http id r)"
  by (rule ext) (simp add: lift_http_def io_map_err_def io_match_def io_lift_def)

lemma sample_host_fields:
  "h_print_json (sample_host c) j = Some []" "h_sha256 (sample_host c) b = []" "h_hex (sample_host c) b = []"
  "h_parse_created (sample_host c) [2] = Some \<lparr>sc_session_id = [7], sc_chunk_bytes = 2, sc_chunk_count = 2, sc_received = []\<rparr>"
  by (simp_all add: sample_host_def)

lemma sample_created: "create_session (sample_host c) sample_config sample_input [] 3 chunk h =
    Some (Inr (Created \<lparr>sc_session_id = [7], sc_chunk_bytes = 2, sc_chunk_count = 2, sc_received = []\<rparr>), h @ [Sent sample_create (reply 201 [2])])"
proof -
  have "create_session (sample_host c) sample_config sample_input [] 3 chunk =
      io_bind (lift_http (send_raw (sample_host c) sample_create)) (\<lambda>response.
          if rs_status response = 402 then io_err (funding_error (sample_host c) response)
          else io_bind (lift_http (io_lift (into_http_error (sample_host c) response))) (\<lambda>response.
            if rs_status response = 200
            then io_bind (parse (h_parse_dedup (sample_host c) (rs_body response))) (\<lambda>d. io_ok (Deduplicated d))
            else io_bind (parse (h_parse_created (sample_host c) (rs_body response))) (\<lambda>c. io_ok (Created c))))"
    by (simp add: create_session_def sample_host_fields sample_create_def sample_config_def)
  moreover have "sample_answer sample_create = reply 201 [2]"
    by (simp add: sample_answer_def sample_create_def lit_def)
  ultimately show ?thesis
    by (simp add: io_bind_def sample_send_raw reply_def into_http_error_def throw_if_not_ok_def is_2xx_def lift_http_lift
        io_lift_def parse_def of_option_def sample_host_fields)
qed

lemma sample_upload:
  "upload_resumable (sample_host c) sample_config sample_input [] =
     run_session (sample_host c) sample_config sample_input sample_grid [CancelRead False, Sent sample_create (reply 201 [2])]"
proof -
  have "in_resume_session_id sample_input = None" "in_threshold_bytes sample_input = Some 0" "\<not> in_has_session_created sample_input"
    by (simp_all add: sample_input_def)
  moreover have "grid_of_created (sample_host c) 3 [] \<lparr>sc_session_id = [7], sc_chunk_bytes = 2, sc_chunk_count = 2, sc_received = []\<rparr> = sample_grid"
    by (simp add: grid_of_created_def sample_grid_def upt_rec sample_host_fields)
  ultimately show ?thesis
    by (simp add: sample_host_fields upload_resumable_def chunked_def fresh_session_def source_len_def stream_sha256_def sample_fields io_bind_def
        io_lift_def unwrap_or_def sample_check Let_def sample_created report_session_def)
qed

lemma sample_completed:
  "upload_resumable (sample_host False) sample_config sample_input [] = Some (Inr sample_result,
     [CancelRead False, Sent sample_create (reply 201 [2])] @ sample_sends False @ sample_rest @
     [CancelRead False, Sent sample_complete (reply 200 [3])])"
  by (simp add: sample_upload sample_run)

lemma sample_abandoned:
  "upload_resumable (sample_host True) sample_config sample_input [] = Some (Inl Cancelled,
     [CancelRead False, Sent sample_create (reply 201 [2]), CancelRead True, Sent (delete_request sample_config [7]) (reply 204 [])])"
  by (simp add: sample_upload run_session_def guarded_def io_match_def io_bind_def sample_fields sample_check Let_def
      sample_stop_def is_sent_def)
    (simp add: delete_outcome_abandon sample_host_def Let_def sample_answer_def delete_request_def delete_outcome_def reply_def
      into_http_error_def throw_if_not_ok_def is_2xx_def)

section \<open>The guarantees at the sample\<close>

lemma cancelled_upload_stops_witness:
  "\<exists>u session_id answer. [CancelRead False, Sent sample_create (reply 201 [2]), CancelRead True,
       Sent (delete_request sample_config [7]) (reply 204 [])] =
     u @ [CancelRead True, Sent (delete_request sample_config session_id) answer] \<and> CancelRead True \<notin> set u \<and>
     opened (sample_host True) sample_config sample_input u session_id \<and>
     (Inl Cancelled :: ResumableUploadError + ResumableUploadResult) = Inl (delete_outcome (sample_host True) session_id answer)"
  using cancelled_upload_stops [OF sample_abandoned] by simp

lemma sample_source: "source_is (sample_host c) (in_source sample_input) [1, 2, 3]"
  by (simp add: source_is_def sample_fields)

lemma sent_chunks_are_slots_witness:
  "\<exists>g. declared_grid (sample_host False) sample_config sample_input [1, 2, 3] ([CancelRead False, Sent sample_create (reply 201 [2])] @
       sample_sends False @ sample_rest @ [CancelRead False, Sent sample_complete (reply 200 [3])]) g \<and>
     (\<exists>i. sample_put_request False 1 [3] = put_request (sample_host False) sample_config (sg_session_id g) i (slot [1, 2, 3] g i) \<and>
       length (slot [1, 2, 3] g i) = slot_length g i)"
proof -
  have "Sent (sample_put_request False 1 [3]) (reply 200 [1]) \<in> set ([CancelRead False, Sent sample_create (reply 201 [2])] @
      sample_sends False @ sample_rest @ [CancelRead False, Sent sample_complete (reply 200 [3])])"
    by (simp add: sample_rest_def)
  moreover have "rq_method (sample_put_request False 1 [3]) = Put" by (simp add: put_request_def)
  ultimately show ?thesis
    using sent_chunks_are_slots [OF sample_source sample_completed] by fastforce
qed

lemma chunk_attempts_witness:
  "\<exists>t. [CancelRead False, Sent (sample_put_request False 1 [3]) (reply 200 [1])] = t \<and> length (requests t) \<le> 3 \<and>
     attempts_ok (sample_host False) (sample_put_request False 1 [3]) (requests t) \<and> acked (sample_put_request False 1 [3]) t"
  using chunk_attempts [OF sample_put [of False "[]" "[7]" 1 "[3]"]] by simp

lemma completed_session_has_source_witness:
  "(\<exists>t u a. sample_sends False @ sample_rest @ [CancelRead False, Sent sample_complete (reply 200 [3])] =
     t @ [Sent sample_complete (Inr a)] @ u \<and> (\<forall>ev\<in>set t. \<not> is_post ev) \<and>
     (\<forall>i\<in>{0, 1}. acked (sample_put_request False i (slot [1, 2, 3] sample_grid i)) t)) \<and>
   concat (map (\<lambda>i. slot [1, 2, 3] sample_grid (of_nat i)) [0..<2]) = [1, 2, 3]"
  using completed_session_has_source [OF sample_source sample_run [of "[]"]] by (simp add: sample_fields)

lemma progress_monotone_witness:
  "sorted (map up_bytes_sent (reports ([CancelRead False, Sent sample_create (reply 201 [2])] @ sample_sends False @
     sample_rest @ [CancelRead False, Sent sample_complete (reply 200 [3])])))"
  using progress_monotone [OF sample_completed] by blast

lemma upload_returns_witness:
  "\<exists>r h'. upload_resumable (sample_host True) sample_config sample_input [] = Some (r, h')"
  by (rule upload_returns) (auto simp: clock_ok_def files_ok_def sample_host_def)

end
