(* ===== verification/Verifier_Walker.thy ===== *)
theory Verifier_Walker
  imports Cbor_Decode Poe_Codes
begin

text \<open>
  The position-aware CBOR walker of \<open>src/verifier/cbor_walker.rs\<close>: heads, skipping of items, slicing
  of a fetched transaction, its integrity binding, unwrapping of the auxiliary data and reassembly
  of the label-309 chunk array.

  A position is a \<open>usize\<close> index into the fetched bytes. \<open>skip_cbor_item\<close> and its two counted loops
  (\<open>skip_items\<close> for an array, \<open>skip_pairs\<close> for a map) are mutually recursive; the recursion needs no
  fuel because each item consumes at least one byte, which is proved on the domain of the functions
  before their termination. BLAKE2b-256 and the hexadecimal encoder are crates: arguments of
  \<open>bind_transaction\<close>.
\<close>

section \<open>Errors\<close>

record CarriageError =
  code :: ErrorCode
  message :: string

definition malformed :: "string \<Rightarrow> CarriageError" where
  "malformed m = \<lparr>code = MalformedCbor, message = m\<rparr>"

definition chunk_too_large :: "string \<Rightarrow> CarriageError" where
  "chunk_too_large m = \<lparr>code = ChunkTooLarge, message = m\<rparr>"

text \<open>The decimal numerals that \<open>format!\<close> writes into the messages.\<close>

fun show_nat :: "nat \<Rightarrow> string" where
  "show_nat n = (if n < 10 then [char_of (48 + n)] else show_nat (n div 10) @ [char_of (48 + n mod 10)])"

declare show_nat.simps [simp del]

abbreviation show_word :: "'a::len word \<Rightarrow> string" where
  "show_word w \<equiv> show_nat (unat w)"

section \<open>Heads\<close>

definition CARDANO_AUX_DATA_TAG :: u64 where
  "CARDANO_AUX_DATA_TAG = 259"

definition POE_LABEL :: u64 where
  "POE_LABEL = 309"

definition TRANSPORT_CHUNK_MAX_BYTES :: nat where
  "TRANSPORT_CHUNK_MAX_BYTES = 64"

record CborHead =
  mt :: u8
  ai :: u8
  payload_start :: nat
  value_u64 :: u64

text \<open>\<open>bytes.get(p..p + n)\<close>, whose failure is a truncation.\<close>

definition get_range :: "bytes \<Rightarrow> nat \<Rightarrow> nat \<Rightarrow> string \<Rightarrow> CarriageError + bytes" where
  "get_range bs p n what =
     (if p + n \<le> length bs then Inr (take n (drop p bs)) else Inl (malformed what))"

definition read_head :: "bytes \<Rightarrow> nat \<Rightarrow> CarriageError + CborHead" where
  "read_head bs pos =
     (if pos < length bs then
        let head = bs ! pos; major = drop_bit 5 head; info = head AND 0x1F; p = pos + 1;
            wide = \<lambda>n what. and_then (get_range bs p n what) (\<lambda>raw.
              Inr \<lparr>mt = major, ai = info, payload_start = p + n, value_u64 = of_nat (nat_of_be raw)\<rparr>)
        in if info < 24 then
             Inr \<lparr>mt = major, ai = info, payload_start = p, value_u64 = ucast info\<rparr>
           else if info = 24 then wide 1 ''truncated 1-byte argument''
           else if info = 25 then wide 2 ''truncated 2-byte argument''
           else if info = 26 then wide 4 ''truncated 4-byte argument''
           else if info = 27 then wide 8 ''truncated 8-byte argument''
           else if info = 31 then
             Inl (malformed ''indefinite-length encoding (ai=31) not allowed'')
           else Inl (malformed (''reserved additional info ai='' @ show_word info))
      else Inl (malformed ''truncated input (no head byte)''))"

section \<open>Skipping an item\<close>

text \<open>\<open>usize::try_from\<close> cannot fail on a 64-bit target; \<open>checked_add\<close> can.\<close>

definition skip_string :: "bytes \<Rightarrow> CborHead \<Rightarrow> CarriageError + nat" where
  "skip_string bs h =
     (let end_pos = payload_start h + unat (value_u64 h)
      in if end_pos \<ge> usize_limit then Inl (malformed ''string length overflow'')
         else if end_pos > length bs then
           Inl (malformed (''truncated '' @ (if mt h = 2 then ''byte'' else ''text'') @ '' string payload''))
         else Inr end_pos)"

definition skip_major7 :: "bytes \<Rightarrow> CborHead \<Rightarrow> CarriageError + nat" where
  "skip_major7 bs h =
     (let p = payload_start h
      in if ai h < 24 then Inr p
         else if ai h = 24 then
           (if p + 1 > length bs then Inl (malformed ''truncated simple value'') else Inr (p + 1))
         else if ai h = 25 \<or> ai h = 26 \<or> ai h = 27 then Inr p
         else Inl (malformed (''unsupported major-7 ai='' @ show_word (ai h))))"

function (sequential, domintros)
  skip_cbor_item :: "bytes \<Rightarrow> nat \<Rightarrow> CarriageError + nat"
  and skip_items :: "nat \<Rightarrow> bytes \<Rightarrow> nat \<Rightarrow> CarriageError + nat"
  and skip_pairs :: "nat \<Rightarrow> bytes \<Rightarrow> nat \<Rightarrow> CarriageError + nat"
where
  "skip_cbor_item bs pos =
     and_then (read_head bs pos) (\<lambda>h.
       if mt h = 0 \<or> mt h = 1 then Inr (payload_start h)
       else if mt h = 2 \<or> mt h = 3 then skip_string bs h
       else if mt h = 4 then skip_items (unat (value_u64 h)) bs (payload_start h)
       else if mt h = 5 then skip_pairs (unat (value_u64 h)) bs (payload_start h)
       else if mt h = 6 then skip_cbor_item bs (payload_start h)
       else if mt h = 7 then skip_major7 bs h
       else Inl (malformed (''unknown major type '' @ show_word (mt h))))"
| "skip_items n bs p =
     (if n = 0 then Inr p
      else and_then (skip_cbor_item bs p) (\<lambda>p. skip_items (n - 1) bs p))"
| "skip_pairs n bs p =
     (if n = 0 then Inr p
      else and_then (skip_cbor_item bs p) (\<lambda>p.
        and_then (skip_cbor_item bs p) (\<lambda>p. skip_pairs (n - 1) bs p)))"
  by pat_completeness auto

subsection \<open>Termination: every item consumes input\<close>

definition moves :: "bytes \<Rightarrow> nat \<Rightarrow> nat \<Rightarrow> bool" where
  "moves bs p q \<longleftrightarrow> p \<le> q \<and> (p \<le> length bs \<longrightarrow> q \<le> length bs)"

definition strictly_moves :: "bytes \<Rightarrow> nat \<Rightarrow> nat \<Rightarrow> bool" where
  "strictly_moves bs p q \<longleftrightarrow> p < q \<and> q \<le> length bs"

lemma moves_refl [simp]: "moves bs p p"
  by (simp add: moves_def)

lemma moves_trans: "moves bs p q \<Longrightarrow> moves bs q r \<Longrightarrow> moves bs p r"
  by (auto simp: moves_def)

lemma strictly_moves_trans: "strictly_moves bs p q \<Longrightarrow> moves bs q r \<Longrightarrow> strictly_moves bs p r"
  by (auto simp: moves_def strictly_moves_def)

lemma strictly_moves_moves: "strictly_moves bs p q \<Longrightarrow> moves bs p q"
  by (auto simp: moves_def strictly_moves_def)

lemma get_range_Inr: "get_range bs p n what = Inr raw \<longleftrightarrow>
    p + n \<le> length bs \<and> raw = take n (drop p bs)"
  by (auto simp: get_range_def)

lemma read_head_moves: "read_head bs p = Inr h \<Longrightarrow> strictly_moves bs p (payload_start h)"
  by (auto simp: read_head_def Let_def res_simps get_range_Inr strictly_moves_def split: if_splits)

lemma skip_string_moves: "skip_string bs h = Inr q \<Longrightarrow> moves bs (payload_start h) q"
  by (auto simp: skip_string_def Let_def moves_def split: if_splits)

lemma skip_major7_moves: "skip_major7 bs h = Inr q \<Longrightarrow> moves bs (payload_start h) q"
  by (auto simp: skip_major7_def Let_def moves_def split: if_splits)

abbreviation "skip_dom \<equiv> skip_cbor_item_skip_items_skip_pairs_dom"

lemma skip_moves_dom:
  "skip_dom (Inl (bs, p)) \<Longrightarrow> skip_cbor_item bs p = Inr q \<Longrightarrow> strictly_moves bs p q"
  "skip_dom (Inr (Inl (n, bs, p))) \<Longrightarrow> skip_items n bs p = Inr q \<Longrightarrow> moves bs p q"
  "skip_dom (Inr (Inr (n, bs, p))) \<Longrightarrow> skip_pairs n bs p = Inr q \<Longrightarrow> moves bs p q"
proof (induction bs p and n bs p and n bs p arbitrary: q and q and q
    rule: skip_cbor_item_skip_items_skip_pairs.pinduct)
  case (1 bs p)
  from "1.prems" "1.hyps" obtain h where h: "read_head bs p = Inr h"
    by (auto simp: skip_cbor_item.psimps res_simps)
  note step = strictly_moves_trans [OF read_head_moves [OF h]]
  from "1.prems" "1.hyps" h "1.IH" [OF h] show ?case
    by (auto simp: skip_cbor_item.psimps intro!: step dest: skip_string_moves skip_major7_moves
        intro: strictly_moves_moves split: if_splits)
next
  case (2 n bs p)
  show ?case
  proof (cases "n = 0")
    case False
    with "2.prems" "2.hyps" obtain k where k: "skip_cbor_item bs p = Inr k"
      and r: "skip_items (n - 1) bs k = Inr q"
      by (auto simp: skip_items.psimps res_simps)
    show ?thesis
      using "2.IH"(1)[OF False k] "2.IH"(2)[OF False k r] by (meson moves_trans strictly_moves_moves)
  qed (use "2.prems" "2.hyps" in \<open>simp add: skip_items.psimps\<close>)
next
  case (3 n bs p)
  show ?case
  proof (cases "n = 0")
    case False
    with "3.prems" "3.hyps" obtain k v where k: "skip_cbor_item bs p = Inr k"
      and v: "skip_cbor_item bs k = Inr v" and r: "skip_pairs (n - 1) bs v = Inr q"
      by (auto simp: skip_pairs.psimps res_simps)
    show ?thesis
      using "3.IH"(1)[OF False k] "3.IH"(2)[OF False k v] "3.IH"(3)[OF False k v r]
      by (meson moves_trans strictly_moves_moves)
  qed (use "3.prems" "3.hyps" in \<open>simp add: skip_pairs.psimps\<close>)
qed

definition left :: "bytes \<Rightarrow> nat \<Rightarrow> nat" where
  "left bs p = length bs - p"

lemma left_strict: "strictly_moves bs p q \<Longrightarrow> left bs q < left bs p"
  by (auto simp: strictly_moves_def left_def)

lemma skip_total: "All skip_dom"
  by (relation "measures [\<lambda>a. case a of Inl (bs, p) \<Rightarrow> left bs p
      | Inr (Inl (n, bs, p)) \<Rightarrow> left bs p
      | Inr (Inr (n, bs, p)) \<Rightarrow> left bs p,
    \<lambda>a. case a of Inl _ \<Rightarrow> 0 | Inr (Inl (n, bs, p)) \<Rightarrow> 1 | Inr (Inr (n, bs, p)) \<Rightarrow> 1]")
    (auto dest!: left_strict [OF read_head_moves] left_strict [OF skip_moves_dom(1)] split: prod.splits)

termination skip_cbor_item
  by (rule skip_total)

declare skip_cbor_item.simps [simp del] skip_items.simps [simp del] skip_pairs.simps [simp del]

lemma skip_moves:
  "skip_cbor_item bs p = Inr q \<Longrightarrow> strictly_moves bs p q"
  by (rule skip_moves_dom(1) [OF skip_total [rule_format]])

section \<open>Transaction slicing\<close>

text \<open>\<open>&bytes[start..end]\<close>: every caller takes it inside the input (\<open>skip_moves\<close>).\<close>

definition span :: "bytes \<Rightarrow> nat \<Rightarrow> nat \<Rightarrow> bytes" where
  "span bs s e = take (e - s) (drop s bs)"

record TxSlices =
  tx_body :: bytes
  witness_set :: bytes
  aux_data :: "bytes option"

definition slice_tx :: "bytes \<Rightarrow> CarriageError + TxSlices" where
  "slice_tx tx_cbor =
     and_then (read_head tx_cbor 0) (\<lambda>tx_head.
       if mt tx_head \<noteq> 4 then
         Inl (malformed (''tx CBOR is not a CBOR array (major type '' @ show_word (mt tx_head) @ '')''))
       else if value_u64 tx_head \<noteq> 3 \<and> value_u64 tx_head \<noteq> 4 then
         Inl (malformed (''tx CBOR array has '' @ show_word (value_u64 tx_head) @
           '' elements; expected 3 ([body, witness_set, auxiliary_data]) or 4 ([body, witness_set, is_valid, auxiliary_data])''))
       else
         let body_start = payload_start tx_head
         in and_then (skip_cbor_item tx_cbor body_start) (\<lambda>body_end.
           let witness_set_start = body_end
           in and_then (skip_cbor_item tx_cbor witness_set_start) (\<lambda>witness_set_end.
             and_then (if value_u64 tx_head = 4 then skip_cbor_item tx_cbor witness_set_end
                       else Inr witness_set_end) (\<lambda>aux_start.
               if aux_start \<ge> length tx_cbor then
                 Inl (malformed ''truncated tx (auxiliary_data missing)'')
               else
                 let aux_first_byte = tx_cbor ! aux_start
                 in and_then (if aux_first_byte = 0xF6 \<or> aux_first_byte = 0xF7 then Inr None
                      else and_then (skip_cbor_item tx_cbor aux_start) (\<lambda>aux_end.
                        Inr (Some (span tx_cbor aux_start aux_end)))) (\<lambda>aux.
                   Inr \<lparr>tx_body = span tx_cbor body_start body_end,
                        witness_set = span tx_cbor witness_set_start witness_set_end,
                        aux_data = aux\<rparr>)))))"

section \<open>Transaction-reference integrity binding\<close>

text \<open>The entries of the body map that are still to be read, from position \<open>pos\<close> on.\<close>

fun find_aux_hash :: "nat \<Rightarrow> bytes \<Rightarrow> nat \<Rightarrow> CarriageError + bytes option" where
  "find_aux_hash n body pos =
     (if n = 0 then Inr None
      else and_then (read_head body pos) (\<lambda>key_head.
        and_then (skip_cbor_item body pos) (\<lambda>value_start.
          and_then (skip_cbor_item body value_start) (\<lambda>value_end.
            if mt key_head = 0 \<and> value_u64 key_head = 7 then
              and_then (read_head body value_start) (\<lambda>value_head.
                if mt value_head \<noteq> 2 then
                  Inl (malformed ''auxiliary_data_hash (body key 7) is not a byte string'')
                else Inr (Some (span body (payload_start value_head) value_end)))
            else find_aux_hash (n - 1) body value_end))))"

declare find_aux_hash.simps [simp del]

definition extract_auxiliary_data_hash :: "bytes \<Rightarrow> CarriageError + bytes option" where
  "extract_auxiliary_data_hash body =
     and_then (read_head body 0) (\<lambda>body_head.
       if mt body_head \<noteq> 5 then
         Inl (malformed (''transaction body is not a CBOR map (major type '' @ show_word (mt body_head) @ '')''))
       else find_aux_hash (unat (value_u64 body_head)) body (payload_start body_head))"

record TxBindingError =
  binding_message :: string

definition display_carriage :: "CarriageError \<Rightarrow> string" where
  "display_carriage e = code_string (code e) @ '': '' @ message e"

text \<open>\<open>blake2b256\<close> and \<open>hex_encode\<close> are the BLAKE2b-256 and hexadecimal crates.\<close>

definition bind_transaction :: "(bytes \<Rightarrow> bytes) \<Rightarrow> (bytes \<Rightarrow> string) \<Rightarrow>
    bytes \<Rightarrow> bytes \<Rightarrow> bytes option \<Rightarrow> TxBindingError + unit" where
  "bind_transaction blake2b256 hex_encode requested_tx_hash body aux =
     (let computed_tx_hash = blake2b256 body
      in if computed_tx_hash \<noteq> requested_tx_hash then
           Inl \<lparr>binding_message = ''transaction-body bytes hash to '' @ hex_encode computed_tx_hash @
             '', not the requested '' @ hex_encode requested_tx_hash\<rparr>
         else case extract_auxiliary_data_hash body of
           Inl e \<Rightarrow> Inl \<lparr>binding_message = ''transaction body is unreadable: '' @ display_carriage e\<rparr>
         | Inr committed \<Rightarrow> (case (aux, committed) of
             (None, None) \<Rightarrow> Inr ()
           | (Some a, Some c) \<Rightarrow>
               (if blake2b256 a = c then Inr ()
                else Inl \<lparr>binding_message = ''auxiliary-data bytes hash to '' @ hex_encode (blake2b256 a) @
                  '', not the body's auxiliary_data_hash '' @ hex_encode c\<rparr>)
           | (Some a, None) \<Rightarrow>
               Inl \<lparr>binding_message = ''auxiliary data is present but the verified body carries no '' @
                 ''auxiliary_data_hash; such a transaction cannot exist on chain''\<rparr>
           | (None, Some c) \<Rightarrow>
               Inl \<lparr>binding_message =
                 ''the verified body commits to auxiliary data the response does not carry''\<rparr>))"

section \<open>Auxiliary-data envelope forms\<close>

record UnwrappedAux =
  label_309_value :: "bytes option"
  labels :: "u64 list"

text \<open>The entries of a tag-259 map: the position of the last value under key 0.\<close>

fun find_metadata_map :: "nat \<Rightarrow> bytes \<Rightarrow> nat \<Rightarrow> nat option \<Rightarrow> CarriageError + nat option" where
  "find_metadata_map n aux pos found =
     (if n = 0 then Inr found
      else and_then (read_head aux pos) (\<lambda>key_head.
        and_then (skip_cbor_item aux pos) (\<lambda>value_start.
          and_then (skip_cbor_item aux value_start) (\<lambda>value_end.
            find_metadata_map (n - 1) aux value_end
              (if mt key_head = 0 \<and> value_u64 key_head = 0 then Some value_start else found)))))"

declare find_metadata_map.simps [simp del]

definition metadata_position :: "bytes \<Rightarrow> CborHead \<Rightarrow> CarriageError + nat option" where
  "metadata_position aux head =
     (if mt head = 5 then Inr (Some 0)
      else if mt head = 4 then
        (if value_u64 head \<noteq> 2 then
           Inl (malformed (''auxiliary-data array has '' @ show_word (value_u64 head) @
             '' elements; the metadata-with-scripts form has exactly 2''))
         else Inr (Some (payload_start head)))
      else if mt head = 6 then
        (if value_u64 head \<noteq> CARDANO_AUX_DATA_TAG then
           Inl (malformed (''auxiliary data carries CBOR tag '' @ show_word (value_u64 head) @
             ''; only tag '' @ show_word CARDANO_AUX_DATA_TAG @ '' is an auxiliary-data form''))
         else and_then (read_head aux (payload_start head)) (\<lambda>inner_head.
           if mt inner_head \<noteq> 5 then
             Inl (malformed ''tag-259 auxiliary data does not wrap a map'')
           else find_metadata_map (unat (value_u64 inner_head)) aux (payload_start inner_head) None))
      else Inl (malformed (''auxiliary data has top-level major type '' @ show_word (mt head) @
        ''; expected a map, an array, or tag 259'')))"

text \<open>
  The entries of the metadata map. The labels are pushed in reading order; \<open>sort_unstable\<close> of
  integers is \<open>sort\<close>.
\<close>

fun read_labels :: "nat \<Rightarrow> bytes \<Rightarrow> nat \<Rightarrow> u64 list \<Rightarrow> bytes option \<Rightarrow>
    CarriageError + u64 list \<times> bytes option" where
  "read_labels n aux pos ls value309 =
     (if n = 0 then Inr (ls, value309)
      else and_then (read_head aux pos) (\<lambda>key_head.
        if mt key_head \<noteq> 0 then
          Inl (malformed (''metadata map key has major type '' @ show_word (mt key_head) @
            ''; metadata labels are unsigned integers''))
        else
          let key = value_u64 key_head
          in and_then (skip_cbor_item aux pos) (\<lambda>value_start.
            and_then (skip_cbor_item aux value_start) (\<lambda>value_end.
              read_labels (n - 1) aux value_end (ls @ [key])
                (if key = POE_LABEL then Some (span aux value_start value_end) else value309)))))"

declare read_labels.simps [simp del]

definition unwrap_auxiliary_data :: "bytes \<Rightarrow> CarriageError + UnwrappedAux" where
  "unwrap_auxiliary_data aux =
     and_then (read_head aux 0) (\<lambda>head.
       and_then (skip_cbor_item aux 0) (\<lambda>end_pos.
         if end_pos \<noteq> length aux then
           Inl (malformed ''trailing bytes after the auxiliary-data value'')
         else and_then (metadata_position aux head) (\<lambda>position.
           case position of
             None \<Rightarrow> Inr \<lparr>label_309_value = None, labels = []\<rparr>
           | Some metadata_map_pos \<Rightarrow>
               and_then (read_head aux metadata_map_pos) (\<lambda>meta_head.
                 if mt meta_head \<noteq> 5 then
                   Inl (malformed (''metadata is not a CBOR map (major type '' @
                     show_word (mt meta_head) @ '')''))
                 else and_then (read_labels (unat (value_u64 meta_head)) aux
                     (payload_start meta_head) [] None) (\<lambda>(ls, value309).
                   Inr \<lparr>label_309_value = value309, labels = sort ls\<rparr>)))))"

section \<open>Reassembly of the chunk array\<close>

text \<open>\<open>many\<close> is the length of the array; the loop is at element \<open>i\<close>.\<close>

function read_chunks :: "nat \<Rightarrow> nat \<Rightarrow> bytes \<Rightarrow> nat \<Rightarrow> bytes \<Rightarrow> CarriageError + nat \<times> bytes" where
  "read_chunks i many value pos body =
     (if i \<ge> many then Inr (pos, body)
      else and_then (read_head value pos) (\<lambda>chunk_head.
        if mt chunk_head \<noteq> 2 then
          Inl (malformed (''chunk array element '' @ show_nat i @ '' has major type '' @
            show_word (mt chunk_head) @ ''; expected a byte string''))
        else
          let len = unat (value_u64 chunk_head)
          in if len > TRANSPORT_CHUNK_MAX_BYTES then
               Inl (chunk_too_large (''chunk array element '' @ show_nat i @ '' is '' @ show_nat len @
                 '' bytes; the ledger caps metadata byte strings at '' @ show_nat TRANSPORT_CHUNK_MAX_BYTES))
             else
               let start = payload_start chunk_head; end_pos = start + len
               in if end_pos \<ge> usize_limit \<or> end_pos > length value then
                    Inl (malformed ''truncated chunk payload'')
                  else read_chunks (i + 1) many value end_pos (body @ span value start end_pos)))"
  by pat_completeness auto

termination read_chunks
  by (relation "measure (\<lambda>(i, many, _). many - i)") auto

declare read_chunks.simps [simp del]

definition reassemble_label_309_value :: "bytes \<Rightarrow> CarriageError + bytes" where
  "reassemble_label_309_value value =
     and_then (read_head value 0) (\<lambda>head.
       if mt head \<noteq> 4 then
         Inl (malformed (''label-309 value has major type '' @ show_word (mt head) @
           ''; the whole-body chunk array (a CBOR array of byte strings) is required regardless of body length''))
       else and_then (read_chunks 0 (unat (value_u64 head)) value (payload_start head) []) (\<lambda>(pos, body).
         if pos \<noteq> length value then Inl (malformed ''trailing bytes after the chunk array'')
         else Inr body))"

section \<open>Extraction\<close>

definition extract_label_309_metadata :: "bytes \<Rightarrow> CarriageError + bytes option" where
  "extract_label_309_metadata tx_cbor =
     and_then (slice_tx tx_cbor) (\<lambda>slices.
       case aux_data slices of
         None \<Rightarrow> Inr None
       | Some aux \<Rightarrow>
           and_then (unwrap_auxiliary_data aux) (\<lambda>unwrapped.
             case label_309_value unwrapped of
               Some value \<Rightarrow> and_then (reassemble_label_309_value value) (\<lambda>body. Inr (Some body))
             | None \<Rightarrow> Inr None))"
end
