(* ===== verification/Verifier_Layout.thy ===== *)
theory Verifier_Layout
  imports Verifier_Walker
begin

text \<open>
  The bytes the walker walks. \<open>lies bs p x q\<close> says that the bytes \<open>x\<close> are the slice of \<open>bs\<close> from \<open>p\<close>
  to \<open>q\<close>; \<open>cbor_item K x\<close> that \<open>x\<close> is one definite-length CBOR item, of any head width and any key
  order, in which a simple value with the additional information 24 is followed by a number of
  bytes that is in \<open>K\<close> (one, in RFC 8949). \<open>skip_iff_item\<close> is the language of \<open>skip_cbor_item\<close>: it is
  \<open>cbor_item {2}\<close>.
\<close>

section \<open>Slices\<close>

definition lies :: "bytes \<Rightarrow> nat \<Rightarrow> bytes \<Rightarrow> nat \<Rightarrow> bool" where
  "lies bs p x q \<longleftrightarrow> p \<le> q \<and> q \<le> length bs \<and> span bs p q = x"

lemma length_span: "p \<le> q \<Longrightarrow> q \<le> length bs \<Longrightarrow> length (span bs p q) = q - p"
  by (simp add: span_def)

lemma span_append: "p \<le> q \<Longrightarrow> q \<le> r \<Longrightarrow> span bs p q @ span bs q r = span bs p r"
proof -
  assume "p \<le> q" "q \<le> r"
  then have "take (r - p) (drop p bs) = take (q - p) (drop p bs) @ take (r - q) (drop (q - p) (drop p bs))"
    using take_add [of "q - p" "r - q" "drop p bs"] by simp
  with \<open>p \<le> q\<close> show ?thesis by (simp add: span_def)
qed

lemma lies_length: "lies bs p x q \<Longrightarrow> q = p + length x"
  by (auto simp: lies_def length_span)

lemma lies_bound: "lies bs p x q \<Longrightarrow> p \<le> q \<and> q \<le> length bs"
  by (simp add: lies_def)

lemma lies_span: "lies bs p x q \<Longrightarrow> span bs p q = x"
  by (simp add: lies_def)

lemma lies_self: "p \<le> q \<Longrightarrow> q \<le> length bs \<Longrightarrow> lies bs p (span bs p q) q"
  by (simp add: lies_def)

lemma lies_whole: "lies bs 0 bs (length bs)"
  by (simp add: lies_def span_def)

lemma lies_whole_iff: "lies bs 0 x (length bs) \<longleftrightarrow> x = bs"
  by (auto simp: lies_def span_def)

lemma lies_unique: "lies bs p x q \<Longrightarrow> lies bs p y q \<Longrightarrow> x = y"
  by (simp add: lies_def)

lemma lies_trans: "lies bs p x q \<Longrightarrow> lies bs q y r \<Longrightarrow> lies bs p (x @ y) r"
  using span_append [of p q r bs] by (auto simp: lies_def)

lemma lies_append: "lies bs p (x @ y) r \<longleftrightarrow> lies bs p x (p + length x) \<and> lies bs (p + length x) y r"
proof
  assume l: "lies bs p (x @ y) r"
  let ?q = "p + length x"
  have q: "p \<le> ?q" "?q \<le> r" using lies_length [OF l] by auto
  have "span bs p ?q @ span bs ?q r = x @ y" using l span_append [OF q, of bs] by (simp add: lies_def)
  moreover have "length (span bs p ?q) = length x"
    using q lies_bound [OF l] length_span [of p ?q bs] by simp
  ultimately show "lies bs p x ?q \<and> lies bs ?q y r" using q lies_bound [OF l] by (simp add: lies_def)
qed (blast intro: lies_trans)

lemma lies_Nil [simp]: "lies bs p [] q \<longleftrightarrow> p = q \<and> p \<le> length bs"
  by (auto simp: lies_def span_def)

lemma lies_Cons: "lies bs p (c # x) r \<longleftrightarrow> p < length bs \<and> bs ! p = c \<and> lies bs (Suc p) x r"
proof -
  have "lies bs p [c] (Suc p) \<longleftrightarrow> p < length bs \<and> bs ! p = c"
    by (auto simp: lies_def span_def take_Suc_conv_app_nth hd_drop_conv_nth take_Suc)
  then show ?thesis using lies_append [of bs p "[c]" x r] by simp
qed

lemma lies_span_inner: "lies bs p x q \<Longrightarrow> lies x i y j \<Longrightarrow> lies bs (p + i) y (p + j)"
proof -
  assume x: "lies bs p x q" and y: "lies x i y j"
  have "x = take i x @ y @ drop j x"
  proof -
    from y have y': "i \<le> j" "j \<le> length x" "y = take (j - i) (drop i x)" by (auto simp: lies_def span_def)
    then have "y @ drop j x = drop i x"
      using append_take_drop_id [of "j - i" "drop i x"] by simp
    then show ?thesis by simp
  qed
  moreover have "length (take i x) = i" "j = i + length y"
    using lies_bound [OF y] lies_length [OF y] by auto
  ultimately show ?thesis using x lies_append [of bs p "take i x" "y @ drop j x" q]
      lies_append [of bs "p + i" y "drop j x" q] by (simp add: add.assoc)
qed

section \<open>Heads\<close>

datatype head_width = HImm | H1 | H2 | H4 | H8

fun width_bytes :: "head_width \<Rightarrow> nat" where
  "width_bytes HImm = 0"
| "width_bytes H1 = 1"
| "width_bytes H2 = 2"
| "width_bytes H4 = 4"
| "width_bytes H8 = 8"

fun width_info :: "head_width \<Rightarrow> u64 \<Rightarrow> u8" where
  "width_info HImm n = ucast n"
| "width_info H1 n = 24"
| "width_info H2 n = 25"
| "width_info H4 n = 26"
| "width_info H8 n = 27"

definition head_fits :: "head_width \<Rightarrow> u64 \<Rightarrow> bool" where
  "head_fits w n \<longleftrightarrow> (if w = HImm then unat n < 24 else unat n < 256 ^ width_bytes w)"

definition head_bytes :: "head_width \<Rightarrow> u8 \<Rightarrow> u64 \<Rightarrow> bytes" where
  "head_bytes w m n = (push_bit 5 m OR width_info w n) # be_bytes (width_bytes w) (unat n)"

lemma width_info_lt: "head_fits w n \<Longrightarrow> width_info w n < 32"
  by (cases w) (auto simp: head_fits_def word_less_nat_alt unsigned_ucast_eq take_bit_nat_eq_self)

lemma imm_info: "unat (n :: u64) < 24 \<Longrightarrow> (ucast n :: u8) < 24 \<and> ucast (ucast n :: u8) = n"
  using ucast_ucast_u8 [of n] by (simp add: word_less_nat_alt unsigned_ucast_eq take_bit_nat_eq_self)

lemma read_head_lies:
  assumes "m < 8" "head_fits w n" "lies bs p (head_bytes w m n) q"
  shows "read_head bs p = Inr \<lparr>mt = m, ai = width_info w n, payload_start = q, value_u64 = n\<rparr>"
proof -
  from assms(3) have p: "p < length bs" "bs ! p = push_bit 5 m OR width_info w n"
    and r: "lies bs (Suc p) (be_bytes (width_bytes w) (unat n)) q" by (auto simp: head_bytes_def lies_Cons)
  have q: "q = Suc p + width_bytes w" "Suc p + width_bytes w \<le> length bs"
    "take (width_bytes w) (drop (Suc p) bs) = be_bytes (width_bytes w) (unat n)"
    using lies_length [OF r] r by (auto simp: lies_def span_def)
  have b: "drop_bit 5 (bs ! p) = m" "bs ! p AND 0x1F = width_info w n"
    unfolding p(2) using assms(1) width_info_lt [OF assms(2)] by (rule head_major, intro head_additional)
  have un: "w \<noteq> HImm \<Longrightarrow> of_nat (nat_of_be (be_bytes (width_bytes w) (unat n))) = n"
    using assms(2) by (simp add: head_fits_def nat_of_be_be_bytes)
  show ?thesis
    using p(1) b q un imm_info [of n] assms(2)
    by (cases w) (auto simp: read_head_def get_range_def Let_def head_fits_def)
qed

lemma read_head_Inr:
  assumes "read_head bs p = Inr h"
  shows "mt h < 8 \<and> (\<exists>w. head_fits w (value_u64 h) \<and> ai h = width_info w (value_u64 h) \<and>
    lies bs p (head_bytes w (mt h) (value_u64 h)) (payload_start h))"
proof -
  let ?b = "bs ! p" and ?i = "bs ! p AND 0x1F"
  have p: "p < length bs" using assms by (auto simp: read_head_def split: if_splits)
  have m: "mt h = drop_bit 5 ?b" "ai h = ?i"
    using assms by (auto simp: read_head_def Let_def res_simps split: if_splits)
  have wide: "mt h < 8 \<and> (\<exists>w. head_fits w (value_u64 h) \<and> ai h = width_info w (value_u64 h) \<and>
      lies bs p (head_bytes w (mt h) (value_u64 h)) (payload_start h))"
    if "w \<noteq> HImm" "?i = width_info w (value_u64 h)" "payload_start h = p + 1 + width_bytes w"
      "\<exists>raw what. get_range bs (p + 1) (width_bytes w) what = Inr raw \<and>
        value_u64 h = of_nat (nat_of_be raw)" for w
  proof -
    from that(4) obtain raw what where get: "get_range bs (p + 1) (width_bytes w) what = Inr raw"
      and val: "value_u64 h = of_nat (nat_of_be raw)" by blast
    have raw: "p + 1 + width_bytes w \<le> length bs" "raw = take (width_bytes w) (drop (p + 1) bs)"
      using get by (auto simp: get_range_Inr)
    then have len: "length raw = width_bytes w" by simp
    have "nat_of_be raw < 256 ^ width_bytes w" using nat_of_be_bound [of raw] len by simp
    moreover have "(256 :: nat) ^ width_bytes w \<le> 2 ^ 64" by (cases w) auto
    ultimately have un: "unat (value_u64 h) = nat_of_be raw" "nat_of_be raw < 256 ^ width_bytes w"
      using val by (simp_all add: unat_of_nat)
    then have "be_bytes (width_bytes w) (unat (value_u64 h)) = raw" using len be_bytes_nat_of_be by metis
    moreover have "lies bs (Suc p) raw (payload_start h)"
      using raw that(3) by (simp add: lies_def span_def)
    ultimately have "lies bs p (head_bytes w (mt h) (value_u64 h)) (payload_start h)"
      using p that(2) m head_split [of ?b] by (simp add: head_bytes_def lies_Cons)
    moreover have "head_fits w (value_u64 h)" using un that(1) by (simp add: head_fits_def)
    ultimately show ?thesis using m that(2) major_le_7 by auto
  qed
  consider "?i < 24" | "?i = 24" | "?i = 25" | "?i = 26" | "?i = 27"
    using assms by (auto simp: read_head_def Let_def split: if_splits)
  then show ?thesis
  proof cases
    case 1
    then have h: "payload_start h = p + 1" "value_u64 h = ucast ?i"
      using assms p by (auto simp: read_head_def Let_def)
    have i: "ucast (ucast ?i :: u64) = ?i" by (rule ucast_ucast_u64)
    have "head_fits HImm (value_u64 h)" using 1 by (simp add: h head_fits_def unat_ucast_u64 word_less_nat_alt)
    moreover have "lies bs p (head_bytes HImm (mt h) (value_u64 h)) (payload_start h)"
      using p head_split [of ?b] by (simp add: head_bytes_def lies_Cons h i m)
    ultimately show ?thesis using m h i major_le_7 by (metis width_info.simps(1))
  next
    case 2
    show ?thesis by (rule wide [of H1]) (use 2 assms p in \<open>auto simp: read_head_def Let_def res_simps\<close>)
  next
    case 3
    show ?thesis by (rule wide [of H2]) (use 3 assms p in \<open>auto simp: read_head_def Let_def res_simps\<close>)
  next
    case 4
    show ?thesis by (rule wide [of H4]) (use 4 assms p in \<open>auto simp: read_head_def Let_def res_simps\<close>)
  next
    case 5
    show ?thesis by (rule wide [of H8]) (use 5 assms p in \<open>auto simp: read_head_def Let_def res_simps\<close>)
  qed
qed

section \<open>Items\<close>

inductive cbor_item :: "nat set \<Rightarrow> bytes \<Rightarrow> bool" for K where
  int_item: "m \<in> {0, 1} \<Longrightarrow> head_fits w n \<Longrightarrow> cbor_item K (head_bytes w m n)"
| string_item: "m \<in> {2, 3} \<Longrightarrow> head_fits w (of_nat (length s)) \<Longrightarrow> length s < usize_limit \<Longrightarrow>
    cbor_item K (head_bytes w m (of_nat (length s)) @ s)"
| array_item: "head_fits w (of_nat (length xs)) \<Longrightarrow> length xs < usize_limit \<Longrightarrow>
    \<forall>x\<in>set xs. cbor_item K x \<Longrightarrow> cbor_item K (head_bytes w 4 (of_nat (length xs)) @ concat xs)"
| map_item: "head_fits w (of_nat (length ps)) \<Longrightarrow> length ps < usize_limit \<Longrightarrow>
    \<forall>p\<in>set ps. cbor_item K (fst p) \<and> cbor_item K (snd p) \<Longrightarrow>
    cbor_item K (head_bytes w 5 (of_nat (length ps)) @ concat (map (\<lambda>p. fst p @ snd p) ps))"
| tag_item: "head_fits w n \<Longrightarrow> cbor_item K x \<Longrightarrow> cbor_item K (head_bytes w 6 n @ x)"
| simple_item: "w \<in> {HImm, H2, H4, H8} \<Longrightarrow> head_fits w n \<Longrightarrow> cbor_item K (head_bytes w 7 n)"
| simple1_item: "head_fits H1 n \<Longrightarrow> Suc (length t) \<in> K \<Longrightarrow> cbor_item K (head_bytes H1 7 n @ t)"

lemma cbor_item_mono: "cbor_item K x \<Longrightarrow> K \<subseteq> L \<Longrightarrow> cbor_item L x"
  by (induction rule: cbor_item.induct) (auto intro: cbor_item.intros)

lemma skip_items_0 [simp]: "skip_items 0 bs p = Inr p"
  by (subst skip_items.simps) simp

lemma skip_items_Suc [simp]:
  "skip_items (Suc n) bs p = and_then (skip_cbor_item bs p) (\<lambda>p. skip_items n bs p)"
  by (subst skip_items.simps) simp

lemma skip_pairs_0 [simp]: "skip_pairs 0 bs p = Inr p"
  by (subst skip_pairs.simps) simp

lemma skip_pairs_Suc [simp]:
  "skip_pairs (Suc n) bs p =
     and_then (skip_cbor_item bs p) (\<lambda>p. and_then (skip_cbor_item bs p) (\<lambda>p. skip_pairs n bs p))"
  by (subst skip_pairs.simps) simp

definition skips :: "bytes \<Rightarrow> bytes \<Rightarrow> bool" where
  "skips bs x \<longleftrightarrow> (\<forall>p q. lies bs p x q \<longrightarrow> skip_cbor_item bs p = Inr q)"

lemma skip_items_lies:
  "\<forall>x\<in>set xs. skips bs x \<Longrightarrow> lies bs p (concat xs) q \<Longrightarrow> skip_items (length xs) bs p = Inr q"
  by (induction xs arbitrary: p) (auto simp: skips_def lies_append)

lemma skip_pairs_lies:
  "\<forall>e\<in>set ps. skips bs (fst e) \<and> skips bs (snd e) \<Longrightarrow>
   lies bs p (concat (map (\<lambda>e. fst e @ snd e) ps)) q \<Longrightarrow> skip_pairs (length ps) bs p = Inr q"
  by (induction ps arbitrary: p) (auto simp: skips_def lies_append)

text \<open>One step of the walk, on a head that lies at the position.\<close>

lemma skip_head:
  assumes "lies bs p (head_bytes w m n) q" "head_fits w n" "m < 8"
  shows "skip_cbor_item bs p =
    (let h = \<lparr>mt = m, ai = width_info w n, payload_start = q, value_u64 = n\<rparr>
     in if m = 0 \<or> m = 1 then Inr q
        else if m = 2 \<or> m = 3 then skip_string bs h
        else if m = 4 then skip_items (unat n) bs q
        else if m = 5 then skip_pairs (unat n) bs q
        else if m = 6 then skip_cbor_item bs q
        else skip_major7 bs h)"
proof -
  have "m \<notin> {0, 1, 2, 3, 4, 5, 6} \<Longrightarrow> m = 7" using u8_lt_8_eq_7 [OF assms(3)] .
  then show ?thesis
    by (subst skip_cbor_item.simps) (auto simp: read_head_lies [OF assms(3,2,1)] Let_def)
qed

lemma unat_of_nat_usize: "n < usize_limit \<Longrightarrow> unat (of_nat n :: u64) = n"
  by (simp add: unat_of_nat)

lemma item_skips:
  assumes "cbor_item {2} x" "length bs < usize_limit"
  shows "skips bs x"
  using assms(1)
proof (induction rule: cbor_item.induct)
  case (int_item m w n)
  then show ?case by (auto simp: skips_def skip_head Let_def)
next
  case (string_item m w s)
  show ?case unfolding skips_def
  proof (intro allI impI)
    fix p q assume "lies bs p (head_bytes w m (of_nat (length s)) @ s) q"
    then obtain r where r: "lies bs p (head_bytes w m (of_nat (length s))) r" "lies bs r s q"
      by (auto simp: lies_append)
    moreover have "m < 8" using string_item(1) by auto
    ultimately have "skip_cbor_item bs p = skip_string bs
        \<lparr>mt = m, ai = width_info w (of_nat (length s)), payload_start = r, value_u64 = of_nat (length s)\<rparr>"
      using string_item by (auto simp: skip_head Let_def)
    also have "\<dots> = Inr q"
      using lies_length [OF r(2)] lies_bound [OF r(2)] assms(2) string_item(3)
      by (simp add: skip_string_def Let_def unat_of_nat_usize)
    finally show "skip_cbor_item bs p = Inr q" .
  qed
next
  case (array_item w xs)
  then show ?case unfolding skips_def
    by (auto simp: lies_append skip_head Let_def unat_of_nat_usize skip_items_lies [unfolded skips_def])
next
  case (map_item w ps)
  then show ?case unfolding skips_def
    by (auto simp: lies_append skip_head Let_def unat_of_nat_usize skip_pairs_lies [unfolded skips_def])
next
  case (tag_item w n x)
  then show ?case by (auto simp: skips_def lies_append skip_head Let_def)
next
  case (simple_item w n)
  then show ?case
    by (auto simp: skips_def skip_head Let_def skip_major7_def head_fits_def dest: imm_info)
next
  case (simple1_item n t)
  have t: "r + 1 = q \<and> r + 1 \<le> length bs" if "lies bs r t q" for r q
    using lies_length [OF that] lies_bound [OF that] simple1_item(2) by simp
  from simple1_item show ?case
    by (auto simp: skips_def lies_append skip_head Let_def skip_major7_def dest!: t)
qed

text \<open>Conversely, what the walk steps over is an item.\<close>

definition stepped :: "bytes \<Rightarrow> nat \<Rightarrow> nat \<Rightarrow> bool" where
  "stepped bs p q \<longleftrightarrow> (\<exists>x. cbor_item {2} x \<and> lies bs p x q)"

lemma steppedI: "cbor_item {2} x \<Longrightarrow> lies bs p x q \<Longrightarrow> stepped bs p q"
  unfolding stepped_def by blast

lemma skip_string_stepped:
  assumes "m \<in> {2, 3}" "mt h = m" "head_fits w (value_u64 h)"
    and "lies bs p (head_bytes w m (value_u64 h)) (payload_start h)" "skip_string bs h = Inr q"
  shows "stepped bs p q"
proof -
  let ?l = "unat (value_u64 h)" and ?s = "payload_start h"
  have q: "q = ?s + ?l" "q \<le> length bs"
    using assms(5) by (auto simp: skip_string_def Let_def split: if_splits)
  then have l: "lies bs ?s (span bs ?s q) q" "length (span bs ?s q) = ?l"
    using length_span [of ?s q bs] by (simp_all add: lies_def)
  then have n: "of_nat (length (span bs ?s q)) = value_u64 h" by simp
  have "?l < usize_limit" using unsigned_less [of "value_u64 h", where ?'a = nat] by simp
  then have "cbor_item {2} (head_bytes w m (of_nat (length (span bs ?s q))) @ span bs ?s q)"
    using assms(1,3) l(2) by (intro cbor_item.string_item) simp_all
  with lies_trans [OF assms(4) l(1)] show ?thesis unfolding n by (rule steppedI [rotated])
qed

lemma skip_major7_stepped:
  assumes "mt h = 7" "head_fits w (value_u64 h)" "ai h = width_info w (value_u64 h)"
    and "lies bs p (head_bytes w 7 (value_u64 h)) (payload_start h)" "skip_major7 bs h = Inr q"
  shows "stepped bs p q"
proof (cases "w = H1")
  case True
  let ?s = "payload_start h"
  have q: "q = ?s + 1" "q \<le> length bs"
    using assms(3,5) True by (auto simp: skip_major7_def Let_def split: if_splits)
  then have "lies bs ?s (span bs ?s q) q" "length (span bs ?s q) = 1"
    using length_span [of ?s q bs] by (simp_all add: lies_def)
  then show ?thesis
    using assms(2,4) True lies_trans [OF assms(4)]
    by (intro steppedI [of "head_bytes H1 7 (value_u64 h) @ span bs ?s q"] cbor_item.simple1_item) auto
next
  case False
  then have "q = payload_start h"
    using assms(2,3,5) imm_info [of "value_u64 h"]
    by (cases w) (auto simp: skip_major7_def Let_def head_fits_def split: if_splits)
  moreover have "w \<in> {HImm, H2, H4, H8}" using False by (cases w) auto
  ultimately show ?thesis using assms(2,4) by (intro steppedI [OF cbor_item.simple_item]) auto
qed

lemma items_stepped:
  assumes "length xs = unat n" "\<forall>x\<in>set xs. cbor_item {2} x" "lies bs r (concat xs) q"
    and "head_fits w n" "lies bs p (head_bytes w 4 n) r"
  shows "stepped bs p q"
proof -
  have n: "of_nat (length xs) = n" using assms(1) by simp
  have "length xs < usize_limit" using assms(1) unsigned_less [of n, where ?'a = nat] by simp
  then have "cbor_item {2} (head_bytes w 4 (of_nat (length xs)) @ concat xs)"
    using assms(2,4) n by (intro cbor_item.array_item) auto
  then show ?thesis using lies_trans [OF assms(5,3)] unfolding n by (rule steppedI)
qed

lemma pairs_stepped:
  assumes "length ps = unat n" "\<forall>e\<in>set ps. cbor_item {2} (fst e) \<and> cbor_item {2} (snd e)"
    and "lies bs r (concat (map (\<lambda>e. fst e @ snd e) ps)) q"
    and "head_fits w n" "lies bs p (head_bytes w 5 n) r"
  shows "stepped bs p q"
proof -
  have n: "of_nat (length ps) = n" using assms(1) by simp
  have "length ps < usize_limit" using assms(1) unsigned_less [of n, where ?'a = nat] by simp
  then have "cbor_item {2} (head_bytes w 5 (of_nat (length ps)) @ concat (map (\<lambda>e. fst e @ snd e) ps))"
    using assms(2,4) n by (intro cbor_item.map_item) auto
  then show ?thesis using lies_trans [OF assms(5,3)] unfolding n by (rule steppedI)
qed

lemma skip_stepped:
  "skip_cbor_item bs p = Inr q \<Longrightarrow> stepped bs p q"
  "skip_items n bs p = Inr q \<Longrightarrow> p \<le> length bs \<Longrightarrow>
     \<exists>xs. length xs = n \<and> (\<forall>x\<in>set xs. cbor_item {2} x) \<and> lies bs p (concat xs) q"
  "skip_pairs n bs p = Inr q \<Longrightarrow> p \<le> length bs \<Longrightarrow>
     \<exists>ps. length ps = n \<and> (\<forall>e\<in>set ps. cbor_item {2} (fst e) \<and> cbor_item {2} (snd e)) \<and>
       lies bs p (concat (map (\<lambda>e. fst e @ snd e) ps)) q"
proof (induction bs p and n bs p and n bs p arbitrary: q and q and q
    rule: skip_cbor_item_skip_items_skip_pairs.induct)
  case (1 bs p)
  from "1.prems" obtain h where h: "read_head bs p = Inr h"
    by (auto simp: skip_cbor_item.simps res_simps)
  from read_head_Inr [OF h] obtain w where m: "mt h < 8" and w: "head_fits w (value_u64 h)"
    "ai h = width_info w (value_u64 h)" "lies bs p (head_bytes w (mt h) (value_u64 h)) (payload_start h)"
    by blast
  have s: "payload_start h \<le> length bs" using lies_bound [OF w(3)] by simp
  note ih = "1.IH" [OF h]
  consider "mt h = 0 \<or> mt h = 1" | "mt h = 2 \<or> mt h = 3" | "mt h = 4" | "mt h = 5" | "mt h = 6" | "mt h = 7"
    using u8_lt_8_eq_7 [OF m] unfolding insert_iff empty_iff by blast
  then show ?case
  proof cases
    case 1
    with "1.prems" h have "q = payload_start h" by (auto simp: skip_cbor_item.simps)
    with 1 w show ?thesis by (intro steppedI [OF cbor_item.int_item [of "mt h"]]) auto
  next
    case 2
    with "1.prems" h have "skip_string bs h = Inr q" by (auto simp: skip_cbor_item.simps)
    with 2 w show ?thesis by (intro skip_string_stepped [of "mt h" h w]) auto
  next
    case 3
    with "1.prems" h have "skip_items (unat (value_u64 h)) bs (payload_start h) = Inr q"
      by (auto simp: skip_cbor_item.simps)
    with ih(1) 3 s obtain xs where "length xs = unat (value_u64 h)" "\<forall>x\<in>set xs. cbor_item {2} x"
      "lies bs (payload_start h) (concat xs) q" by auto
    then show ?thesis by (rule items_stepped) (use 3 w in auto)
  next
    case 4
    with "1.prems" h have "skip_pairs (unat (value_u64 h)) bs (payload_start h) = Inr q"
      by (auto simp: skip_cbor_item.simps)
    with ih(2) 4 s obtain ps where "length ps = unat (value_u64 h)"
      "\<forall>e\<in>set ps. cbor_item {2} (fst e) \<and> cbor_item {2} (snd e)"
      "lies bs (payload_start h) (concat (map (\<lambda>e. fst e @ snd e) ps)) q" by auto
    then show ?thesis by (rule pairs_stepped) (use 4 w in auto)
  next
    case 5
    with "1.prems" h have "skip_cbor_item bs (payload_start h) = Inr q"
      by (auto simp: skip_cbor_item.simps)
    with ih(3) 5 obtain x where "cbor_item {2} x" "lies bs (payload_start h) x q"
      by (auto simp: stepped_def)
    with 5 w show ?thesis by (auto intro!: steppedI [OF cbor_item.tag_item] lies_trans)
  next
    case 6
    with "1.prems" h have "skip_major7 bs h = Inr q" by (auto simp: skip_cbor_item.simps)
    with 6 w show ?thesis by (intro skip_major7_stepped [of h w]) auto
  qed
next
  case (2 n bs p)
  show ?case
  proof (cases n)
    case 0
    with "2.prems" show ?thesis by (intro exI [of _ "[]"]) simp
  next
    case (Suc k)
    with "2.prems" obtain r where r: "skip_cbor_item bs p = Inr r" and rs: "skip_items k bs r = Inr q"
      by (auto simp: res_simps)
    from "2.IH"(1) r Suc obtain x where x: "cbor_item {2} x" "lies bs p x r" by (auto simp: stepped_def)
    from "2.IH"(2) [of r q] r rs Suc lies_bound [OF x(2)] obtain xs where "length xs = k"
      "\<forall>x\<in>set xs. cbor_item {2} x" "lies bs r (concat xs) q" by auto
    with x Suc show ?thesis by (intro exI [of _ "x # xs"]) (auto intro: lies_trans)
  qed
next
  case (3 n bs p)
  show ?case
  proof (cases n)
    case 0
    with "3.prems" show ?thesis by (intro exI [of _ "[]"]) simp
  next
    case (Suc j)
    with "3.prems" obtain r t where r: "skip_cbor_item bs p = Inr r" and t: "skip_cbor_item bs r = Inr t"
      and rs: "skip_pairs j bs t = Inr q" by (auto simp: res_simps)
    from "3.IH"(1) r Suc obtain k where k: "cbor_item {2} k" "lies bs p k r" by (auto simp: stepped_def)
    from "3.IH"(2) r t Suc obtain v where v: "cbor_item {2} v" "lies bs r v t" by (auto simp: stepped_def)
    from "3.IH"(3) [of r t q] r t rs Suc lies_bound [OF v(2)] obtain ps where "length ps = j"
      "\<forall>e\<in>set ps. cbor_item {2} (fst e) \<and> cbor_item {2} (snd e)"
      "lies bs t (concat (map (\<lambda>e. fst e @ snd e) ps)) q" by auto
    with k v Suc show ?thesis by (intro exI [of _ "(k, v) # ps"]) (auto intro: lies_trans)
  qed
qed

lemma skip_iff_stepped: "length bs < usize_limit \<Longrightarrow> skip_cbor_item bs p = Inr q \<longleftrightarrow> stepped bs p q"
  using skip_stepped(1) [of bs p q] item_skips by (auto simp: stepped_def skips_def)
end
