(* ===== verification/Verifier_Carriage.thy ===== *)
theory Verifier_Carriage
  imports Verifier_Layout
begin

text \<open>
  What the walker promises on whole values: the chunk arrays \<open>reassemble_label_309_value\<close> accepts,
  the three auxiliary-data forms \<open>unwrap_auxiliary_data\<close> unwraps, the slices of \<open>slice_tx\<close>, and the
  composition of the three on a transaction that carries a record.

  The layouts (\<open>chunk_array\<close>, \<open>keyed_map\<close>, \<open>aux_bytes\<close>, \<open>tx_bytes\<close>) leave every head its own width
  and the items of other labels, scripts, body and witnesses arbitrary: they describe what is found
  on chain, not what an encoder of this library writes. \<open>cbor_item {}\<close> is an item without two-byte
  simple values, on which the walker and RFC 8949 agree.
\<close>

section \<open>Chunk arrays\<close>

definition chunk_bytes :: "head_width \<times> bytes \<Rightarrow> bytes" where
  "chunk_bytes c = head_bytes (fst c) 2 (of_nat (length (snd c))) @ snd c"

definition chunk_ok :: "head_width \<times> bytes \<Rightarrow> bool" where
  "chunk_ok c \<longleftrightarrow> head_fits (fst c) (of_nat (length (snd c))) \<and> length (snd c) \<le> TRANSPORT_CHUNK_MAX_BYTES"

definition chunks_bytes :: "(head_width \<times> bytes) list \<Rightarrow> bytes" where
  "chunks_bytes cs = concat (map chunk_bytes cs)"

definition chunk_array :: "head_width \<Rightarrow> (head_width \<times> bytes) list \<Rightarrow> bytes" where
  "chunk_array w cs = head_bytes w 4 (of_nat (length cs)) @ chunks_bytes cs"

definition chunk_array_ok :: "head_width \<Rightarrow> (head_width \<times> bytes) list \<Rightarrow> bool" where
  "chunk_array_ok w cs \<longleftrightarrow>
     head_fits w (of_nat (length cs)) \<and> length cs < usize_limit \<and> list_all chunk_ok cs"

lemma read_chunks_done [simp]: "i \<ge> many \<Longrightarrow> read_chunks i many v p body = Inr (p, body)"
  by (simp add: read_chunks.simps)

lemma small_usize: "n \<le> TRANSPORT_CHUNK_MAX_BYTES \<Longrightarrow> n < usize_limit"
  by (simp add: TRANSPORT_CHUNK_MAX_BYTES_def)

lemma read_chunk_step:
  assumes "i < many" "chunk_ok c" "lies v p (chunk_bytes c) q" "length v < usize_limit"
  shows "read_chunks i many v p body = read_chunks (i + 1) many v q (body @ snd c)"
proof -
  let ?n = "of_nat (length (snd c)) :: u64"
  from assms(3) obtain r where r: "lies v p (head_bytes (fst c) 2 ?n) r" "lies v r (snd c) q"
    by (auto simp: chunk_bytes_def lies_append)
  have h: "read_head v p = Inr \<lparr>mt = 2, ai = width_info (fst c) ?n, payload_start = r, value_u64 = ?n\<rparr>"
    by (rule read_head_lies [OF _ _ r(1)]) (use assms(2) in \<open>simp_all add: chunk_ok_def\<close>)
  have n: "unat ?n = length (snd c)" "length (snd c) \<le> TRANSPORT_CHUNK_MAX_BYTES"
    using assms(2) small_usize by (simp_all add: chunk_ok_def unat_of_nat_usize)
  have q: "q = r + length (snd c)" "q \<le> length v" "q < usize_limit"
    using lies_length [OF r(2)] lies_bound [OF r(2)] assms(4) by auto
  show ?thesis
    using assms(1) n q lies_span [OF r(2)]
    by (subst read_chunks.simps) (simp add: h Let_def)
qed

lemma read_chunks_lies:
  "list_all chunk_ok cs \<Longrightarrow> lies v p (chunks_bytes cs) q \<Longrightarrow> length v < usize_limit \<Longrightarrow>
   i + length cs \<le> many \<Longrightarrow>
   read_chunks i many v p body = read_chunks (i + length cs) many v q (body @ concat (map snd cs))"
proof (induction cs arbitrary: i p body)
  case (Cons c cs)
  then obtain r where "lies v p (chunk_bytes c) r" "lies v r (chunks_bytes cs) q"
    by (auto simp: chunks_bytes_def lies_append)
  with Cons.IH [of r "i + 1" "body @ snd c"] read_chunk_step [of i many c v p r body] Cons.prems
  show ?case by simp
qed (simp add: chunks_bytes_def)

lemma reassemble_chunk_array:
  assumes "chunk_array_ok w cs" "length (chunk_array w cs) < usize_limit"
  shows "reassemble_label_309_value (chunk_array w cs) = Inr (concat (map snd cs))"
proof -
  let ?v = "chunk_array w cs"
  have "lies ?v 0 (head_bytes w 4 (of_nat (length cs)) @ chunks_bytes cs) (length ?v)"
    using lies_whole [of ?v] by (simp add: chunk_array_def)
  then obtain r where r: "lies ?v 0 (head_bytes w 4 (of_nat (length cs))) r"
    "lies ?v r (chunks_bytes cs) (length ?v)" by (auto simp: lies_append)
  have "read_head ?v 0 = Inr \<lparr>mt = 4, ai = width_info w (of_nat (length cs)), payload_start = r,
      value_u64 = of_nat (length cs)\<rparr>"
    by (rule read_head_lies [OF _ _ r(1)]) (use assms(1) in \<open>simp_all add: chunk_array_ok_def\<close>)
  with read_chunks_lies [OF _ r(2), of 0 "length cs" "[]"] assms show ?thesis
    by (simp add: reassemble_label_309_value_def chunk_array_ok_def unat_of_nat_usize)
qed

text \<open>
  Conversely: what a walk over the chunks returns, and where it refuses. \<open>oversized p\<close>: at \<open>p\<close> stands
  the head of a byte string of more than 64 bytes.
\<close>

definition oversized :: "bytes \<Rightarrow> nat \<Rightarrow> bool" where
  "oversized v p \<longleftrightarrow> (\<exists>w n q. head_fits w n \<and> unat n > TRANSPORT_CHUNK_MAX_BYTES \<and>
     lies v p (head_bytes w 2 n) q)"

lemma read_chunks_cases:
  assumes "i < many" "read_chunks i many v p body = res" "length v < usize_limit"
  obtains
    (step) c q where "chunk_ok c" "lies v p (chunk_bytes c) q"
      "res = read_chunks (i + 1) many v q (body @ snd c)"
  | (large) m where "oversized v p" "res = Inl (chunk_too_large m)"
  | (bad) m where "\<not> oversized v p" "res = Inl (malformed m)"
proof (cases "read_head v p")
  case (Inl e)
  have "\<exists>m. e = malformed m"
    using Inl by (auto simp: read_head_def Let_def and_then_Inl_iff get_range_def split: if_splits)
  moreover have "\<not> oversized v p"
    using Inl read_head_lies [of 2] by (auto simp: oversized_def)
  moreover have "res = Inl e"
    using Inl assms(1) by (simp add: assms(2) [symmetric] read_chunks.simps [of i])
  ultimately show ?thesis using bad by blast
next
  case (Inr h)
  from read_head_Inr [OF Inr] obtain w where w: "head_fits w (value_u64 h)"
    and l: "lies v p (head_bytes w (mt h) (value_u64 h)) (payload_start h)" by blast
  let ?n = "unat (value_u64 h)" and ?s = "payload_start h"
  consider "mt h \<noteq> 2" | "mt h = 2" "?n > TRANSPORT_CHUNK_MAX_BYTES"
    | "mt h = 2" "?n \<le> TRANSPORT_CHUNK_MAX_BYTES" "?s + ?n > length v"
    | "mt h = 2" "?n \<le> TRANSPORT_CHUNK_MAX_BYTES" "?s + ?n \<le> length v" by linarith
  then show ?thesis
  proof cases
    case 1
    then have "\<not> oversized v p" using Inr read_head_lies [of 2] by (auto simp: oversized_def)
    moreover have "\<exists>m. res = Inl (malformed m)"
      using 1 Inr assms(1) by (auto simp: assms(2) [symmetric] read_chunks.simps [of i])
    ultimately show ?thesis using bad by blast
  next
    case 2
    then have "oversized v p" using w l by (auto simp: oversized_def)
    moreover have "\<exists>m. res = Inl (chunk_too_large m)"
      using 2 Inr assms(1) by (auto simp: assms(2) [symmetric] read_chunks.simps [of i] Let_def)
    ultimately show ?thesis using large by blast
  next
    case 3
    then have "\<not> oversized v p" using Inr read_head_lies [of 2] by (auto simp: oversized_def)
    moreover have "\<exists>m. res = Inl (malformed m)"
      using 3 Inr assms(1) by (auto simp: assms(2) [symmetric] read_chunks.simps [of i] Let_def)
    ultimately show ?thesis using bad by blast
  next
    case 4
    let ?c = "(w, span v ?s (?s + ?n))"
    have len: "length (snd ?c) = ?n" using 4 by (simp add: length_span)
    then have "of_nat (length (snd ?c)) = value_u64 h" by simp
    moreover have "lies v ?s (snd ?c) (?s + ?n)" using 4 by (simp add: lies_self)
    ultimately have "chunk_ok ?c" "lies v p (chunk_bytes ?c) (?s + ?n)"
      using 4 w l len lies_trans [OF l] by (auto simp: chunk_ok_def chunk_bytes_def)
    moreover have "res = read_chunks (i + 1) many v (?s + ?n) (body @ snd ?c)"
      using 4 Inr assms(1,3) by (auto simp: assms(2) [symmetric] read_chunks.simps [of i] Let_def)
    ultimately show ?thesis by (rule step)
  qed
qed

lemma read_chunks_Inr:
  "read_chunks i many v p body = Inr (q, out) \<Longrightarrow> length v < usize_limit \<Longrightarrow> p \<le> length v \<Longrightarrow> i \<le> many \<Longrightarrow>
   \<exists>cs. list_all chunk_ok cs \<and> i + length cs = many \<and> lies v p (chunks_bytes cs) q \<and>
     out = body @ concat (map snd cs)"
proof (induction "many - i" arbitrary: i p body)
  case 0
  then show ?case by (intro exI [of _ "[]"]) (auto simp: chunks_bytes_def)
next
  case (Suc k)
  then have "i < many" by simp
  from this Suc.prems(1,2) show ?case
  proof (cases rule: read_chunks_cases)
    case (step c r)
    have "k = many - (i + 1)" "i + 1 \<le> many" "r \<le> length v"
      using Suc.hyps(2) \<open>i < many\<close> lies_bound [OF step(2)] by auto
    from Suc.hyps(1) [OF this(1) step(3) [symmetric] Suc.prems(2) this(3,2)] obtain cs where
      "list_all chunk_ok cs" "i + 1 + length cs = many" "lies v r (chunks_bytes cs) q"
      "out = (body @ snd c) @ concat (map snd cs)" by blast
    with step show ?thesis
      by (intro exI [of _ "c # cs"]) (auto simp: chunks_bytes_def intro: lies_trans)
  qed auto
qed

lemma read_chunks_Inl:
  "read_chunks i many v p body = Inl e \<Longrightarrow> length v < usize_limit \<Longrightarrow> i \<le> many \<Longrightarrow> p \<le> length v \<Longrightarrow>
   code e = MalformedCbor \<or> code e = ChunkTooLarge \<and> (\<exists>cs q. list_all chunk_ok cs \<and>
     i + length cs < many \<and> lies v p (chunks_bytes cs) q \<and> oversized v q)"
proof (induction "many - i" arbitrary: i p body)
  case 0
  then show ?case by simp
next
  case (Suc k)
  then have "i < many" by simp
  from this Suc.prems(1,2) show ?case
  proof (cases rule: read_chunks_cases)
    case (step c r)
    have "k = many - (i + 1)" "i + 1 \<le> many" "r \<le> length v"
      using Suc.hyps(2) \<open>i < many\<close> lies_bound [OF step(2)] by auto
    from Suc.hyps(1) [OF this(1) step(3) [symmetric] Suc.prems(2) this(2,3)] show ?thesis
    proof (elim disjE conjE exE)
      fix cs q assume e: "code e = ChunkTooLarge" "list_all chunk_ok cs" "i + 1 + length cs < many"
        "lies v r (chunks_bytes cs) q" "oversized v q"
      then have "list_all chunk_ok (c # cs) \<and> i + length (c # cs) < many \<and>
          lies v p (chunks_bytes (c # cs)) q \<and> oversized v q"
        using step(1) lies_trans [OF step(2) e(4)] by (simp add: chunks_bytes_def)
      with e(1) show ?thesis by blast
    qed simp
  next
    case (large m)
    with \<open>i < many\<close> Suc.prems(4) show ?thesis
      by (intro disjI2 conjI exI [of _ "[]"] exI [of _ p]) (auto simp: chunk_too_large_def chunks_bytes_def)
  qed (simp add: malformed_def)
qed

lemma read_chunks_oversized:
  assumes "list_all chunk_ok cs" "i + length cs < many" "lies v p (chunks_bytes cs) q" "oversized v q"
    and "length v < usize_limit"
  shows "\<exists>m. read_chunks i many v p body = Inl (chunk_too_large m)"
proof -
  let ?r = "read_chunks (i + length cs) many v q (body @ concat (map snd cs))"
  have "read_chunks i many v p body = ?r"
    using read_chunks_lies [OF assms(1,3,5)] assms(2) by simp
  moreover have "\<exists>m. ?r = Inl (chunk_too_large m)"
    using assms(2) refl assms(5)
  proof (cases rule: read_chunks_cases [of "i + length cs" many v q "body @ concat (map snd cs)" ?r])
    case (step c r)
    obtain w n t where o: "head_fits w n" "unat n > TRANSPORT_CHUNK_MAX_BYTES" "lies v q (head_bytes w 2 n) t"
      using assms(4) by (auto simp: oversized_def)
    obtain u where u: "lies v q (head_bytes (fst c) 2 (of_nat (length (snd c)))) u"
      using step(2) by (auto simp: chunk_bytes_def lies_append)
    have "n = of_nat (length (snd c))"
      using read_head_lies [OF _ o(1,3)] read_head_lies [OF _ _ u] step(1) by (simp add: chunk_ok_def)
    with o(2) step(1) have False
      using unat_of_nat_usize [OF small_usize, of "length (snd c)"] by (simp add: chunk_ok_def)
    then show ?thesis ..
  qed (use assms(4) in auto)
  ultimately show ?thesis by simp
qed

lemma reassemble_Inr:
  assumes "reassemble_label_309_value v = Inr body" "length v < usize_limit"
  shows "\<exists>w cs. chunk_array_ok w cs \<and> v = chunk_array w cs \<and> body = concat (map snd cs)"
proof -
  obtain h where h: "read_head v 0 = Inr h" "mt h = 4"
    and r: "read_chunks 0 (unat (value_u64 h)) v (payload_start h) [] = Inr (length v, body)"
    using assms(1) by (auto simp: reassemble_label_309_value_def res_simps split: if_splits)
  from read_head_Inr [OF h(1)] h(2) obtain w where w: "head_fits w (value_u64 h)"
    and l: "lies v 0 (head_bytes w 4 (value_u64 h)) (payload_start h)" by auto
  from read_chunks_Inr [OF r assms(2)] lies_bound [OF l] obtain cs where cs: "list_all chunk_ok cs"
    "length cs = unat (value_u64 h)" "lies v (payload_start h) (chunks_bytes cs) (length v)"
    "body = concat (map snd cs)" by auto
  have n: "of_nat (length cs) = value_u64 h" using cs(2) by simp
  have "v = chunk_array w cs"
    using lies_trans [OF l cs(3)] by (simp add: lies_whole_iff chunk_array_def n)
  moreover have "chunk_array_ok w cs"
    using cs(1,2) w n unsigned_less [of "value_u64 h", where ?'a = nat] by (simp add: chunk_array_ok_def)
  ultimately show ?thesis using cs(4) by blast
qed

definition oversized_array :: "bytes \<Rightarrow> bool" where
  "oversized_array v \<longleftrightarrow> (\<exists>w n cs hw m t. head_fits w n \<and> list_all chunk_ok cs \<and> length cs < unat n \<and>
     head_fits hw m \<and> unat m > TRANSPORT_CHUNK_MAX_BYTES \<and>
     v = head_bytes w 4 n @ chunks_bytes cs @ head_bytes hw 2 m @ t)"

lemma oversized_array_lies:
  "oversized_array v \<longleftrightarrow> (\<exists>w n cs r q. head_fits w n \<and> lies v 0 (head_bytes w 4 n) r \<and>
     list_all chunk_ok cs \<and> length cs < unat n \<and> lies v r (chunks_bytes cs) q \<and> oversized v q)"
proof
  assume "oversized_array v"
  then obtain w n cs hw m t where v: "head_fits w n" "list_all chunk_ok cs" "length cs < unat n"
    "head_fits hw m" "unat m > TRANSPORT_CHUNK_MAX_BYTES"
    "v = head_bytes w 4 n @ chunks_bytes cs @ head_bytes hw 2 m @ t" by (auto simp: oversized_array_def)
  have "lies v 0 (head_bytes w 4 n @ chunks_bytes cs @ head_bytes hw 2 m @ t) (length v)"
    using lies_whole [of v] v(6) by simp
  then obtain r q u where "lies v 0 (head_bytes w 4 n) r" "lies v r (chunks_bytes cs) q"
    "lies v q (head_bytes hw 2 m) u" by (auto simp: lies_append)
  then show "\<exists>w n cs r q. head_fits w n \<and> lies v 0 (head_bytes w 4 n) r \<and>
     list_all chunk_ok cs \<and> length cs < unat n \<and> lies v r (chunks_bytes cs) q \<and> oversized v q"
    using v(1-5) unfolding oversized_def by blast
next
  assume "\<exists>w n cs r q. head_fits w n \<and> lies v 0 (head_bytes w 4 n) r \<and>
     list_all chunk_ok cs \<and> length cs < unat n \<and> lies v r (chunks_bytes cs) q \<and> oversized v q"
  then obtain w n cs r q hw m u where v: "head_fits w n" "list_all chunk_ok cs" "length cs < unat n"
    "head_fits hw m" "unat m > TRANSPORT_CHUNK_MAX_BYTES" "lies v 0 (head_bytes w 4 n) r"
    "lies v r (chunks_bytes cs) q" "lies v q (head_bytes hw 2 m) u" by (auto simp: oversized_def)
  have "lies v u (span v u (length v)) (length v)" using lies_bound [OF v(8)] by (simp add: lies_self)
  with v(6-8) have "lies v 0 (head_bytes w 4 n @ chunks_bytes cs @ head_bytes hw 2 m @ span v u (length v)) (length v)"
    by (intro lies_trans)
  then show "oversized_array v"
    using v(1-5) unfolding oversized_array_def lies_whole_iff by (metis (no_types))
qed

lemma reassemble_code:
  assumes "reassemble_label_309_value v = Inl e" "length v < usize_limit"
  shows "code e = (if oversized_array v then ChunkTooLarge else MalformedCbor)"
proof (cases "\<exists>h. read_head v 0 = Inr h \<and> mt h = 4")
  case True
  then obtain h where h: "read_head v 0 = Inr h" "mt h = 4" by blast
  from read_head_Inr [OF h(1)] h(2) obtain w where w: "head_fits w (value_u64 h)"
    and l: "lies v 0 (head_bytes w 4 (value_u64 h)) (payload_start h)" by auto
  let ?loop = "read_chunks 0 (unat (value_u64 h)) v (payload_start h) []"
  show ?thesis
  proof (cases "oversized_array v")
    case o: True
    then obtain w' n cs r q where o: "head_fits w' n" "lies v 0 (head_bytes w' 4 n) r"
      "list_all chunk_ok cs" "length cs < unat n" "lies v r (chunks_bytes cs) q" "oversized v q"
      by (auto simp: oversized_array_lies)
    have "n = value_u64 h \<and> r = payload_start h" using read_head_lies [OF _ o(1,2)] h by simp
    then obtain m where "?loop = Inl (chunk_too_large m)"
      using read_chunks_oversized [OF o(3) _ o(5,6) assms(2), of 0 "unat n" "[]"] o(4) by auto
    with \<open>oversized_array v\<close> assms(1) h show ?thesis
      by (auto simp: reassemble_label_309_value_def chunk_too_large_def)
  next
    case n: False
    consider q body where "?loop = Inr (q, body)" | x where "?loop = Inl x" by (cases ?loop) auto
    then show ?thesis
    proof cases
      case 1
      with assms(1) h n show ?thesis
        by (auto simp: reassemble_label_309_value_def malformed_def split: if_splits)
    next
      case 2
      with assms(1) h have "e = x" by (simp add: reassemble_label_309_value_def)
      with read_chunks_Inl [OF 2 assms(2)] lies_bound [OF l] n w l show ?thesis
        unfolding oversized_array_lies by auto
    qed
  qed
next
  case False
  then have "\<not> oversized_array v" using read_head_lies [of 4] by (auto simp: oversized_array_lies)
  moreover have "code e = MalformedCbor"
    using assms(1) False by (cases "read_head v 0")
      (auto simp: reassemble_label_309_value_def read_head_def Let_def and_then_Inl_iff get_range_def
        malformed_def split: if_splits)
  ultimately show ?thesis by simp
qed
end
