(* ===== verification/Verifier_Tx.thy ===== *)
theory Verifier_Tx
  imports Verifier_Carriage
begin

text \<open>
  Transactions that carry a record: the layouts of metadata maps, of the three auxiliary-data forms
  and of transactions, and what \<open>unwrap_auxiliary_data\<close>, \<open>slice_tx\<close> and
  \<open>extract_label_309_metadata\<close> return on them; the integrity binding of two responses.
\<close>

section \<open>Maps keyed by unsigned integers\<close>

type_synonym entry = "head_width \<times> u64 \<times> bytes"

definition entry_bytes :: "entry \<Rightarrow> bytes" where
  "entry_bytes e = head_bytes (fst e) 0 (fst (snd e)) @ snd (snd e)"

definition entry_ok :: "entry \<Rightarrow> bool" where
  "entry_ok e \<longleftrightarrow> head_fits (fst e) (fst (snd e)) \<and> cbor_item {} (snd (snd e))"

definition entries_bytes :: "entry list \<Rightarrow> bytes" where
  "entries_bytes es = concat (map entry_bytes es)"

definition keyed_map :: "head_width \<Rightarrow> entry list \<Rightarrow> bytes" where
  "keyed_map w es = head_bytes w 5 (of_nat (length es)) @ entries_bytes es"

definition keyed_ok :: "head_width \<Rightarrow> entry list \<Rightarrow> bool" where
  "keyed_ok w es \<longleftrightarrow> head_fits w (of_nat (length es)) \<and> length es < usize_limit \<and> list_all entry_ok es"

definition key_of :: "entry \<Rightarrow> u64" where
  "key_of e = fst (snd e)"

lemma entries_simps [simp]:
  "entries_bytes [] = []" "entries_bytes (e # es) = entry_bytes e @ entries_bytes es"
  by (simp_all add: entries_bytes_def)

lemma keyed_ok_count: "keyed_ok w es \<Longrightarrow> unat (of_nat (length es) :: u64) = length es"
  by (simp add: keyed_ok_def unat_of_nat_usize)

lemma keyed_map_item: "keyed_ok w es \<Longrightarrow> cbor_item {} (keyed_map w es)"
proof -
  assume ok: "keyed_ok w es"
  let ?ps = "map (\<lambda>e. (head_bytes (fst e) 0 (fst (snd e)), snd (snd e))) es"
  have "cbor_item {} (head_bytes w 5 (of_nat (length ?ps)) @ concat (map (\<lambda>p. fst p @ snd p) ?ps))"
    using ok by (intro cbor_item.map_item)
      (auto simp: keyed_ok_def entry_ok_def list_all_iff intro: cbor_item.int_item)
  then show ?thesis by (simp add: keyed_map_def entries_bytes_def entry_bytes_def [abs_def] comp_def)
qed

lemma plain_skips: "cbor_item {} x \<Longrightarrow> lies bs p x q \<Longrightarrow> length bs < usize_limit \<Longrightarrow> skip_cbor_item bs p = Inr q"
  using item_skips [OF cbor_item_mono] by (auto simp: skips_def)

lemma entry_read:
  assumes "entry_ok e" "lies bs p (entry_bytes e) r" "length bs < usize_limit"
  shows "\<exists>q. read_head bs p = Inr \<lparr>mt = 0, ai = width_info (fst e) (key_of e), payload_start = q,
      value_u64 = key_of e\<rparr> \<and> skip_cbor_item bs p = Inr q \<and> lies bs q (snd (snd e)) r \<and>
      skip_cbor_item bs q = Inr r"
proof -
  obtain q where q: "lies bs p (head_bytes (fst e) 0 (key_of e)) q" "lies bs q (snd (snd e)) r"
    using assms(2) by (auto simp: entry_bytes_def key_of_def lies_append)
  have fits: "head_fits (fst e) (key_of e)" and item: "cbor_item {} (snd (snd e))"
    using assms(1) by (auto simp: entry_ok_def key_of_def)
  show ?thesis
    using q read_head_lies [OF _ fits q(1)] skip_head [OF q(1) fits] plain_skips [OF item q(2) assms(3)]
    by (intro exI [of _ q]) (simp add: Let_def)
qed

section \<open>Reading the labels\<close>

definition last_309 :: "entry list \<Rightarrow> bytes option \<Rightarrow> bytes option" where
  "last_309 es v = foldl (\<lambda>v e. if key_of e = POE_LABEL then Some (snd (snd e)) else v) v es"

lemma read_labels_lies:
  "list_all entry_ok es \<Longrightarrow> lies bs p (entries_bytes es) q \<Longrightarrow> length bs < usize_limit \<Longrightarrow>
   read_labels (length es) bs p ls v = Inr (ls @ map key_of es, last_309 es v)"
proof (induction es arbitrary: p ls v)
  case Nil
  then show ?case by (simp add: read_labels.simps last_309_def)
next
  case (Cons e es)
  then obtain r where r: "lies bs p (entry_bytes e) r" "lies bs r (entries_bytes es) q"
    by (auto simp: lies_append)
  from Cons.prems(1) have "entry_ok e" by simp
  from entry_read [OF this r(1) Cons.prems(3)] obtain s where s:
    "read_head bs p = Inr \<lparr>mt = 0, ai = width_info (fst e) (key_of e), payload_start = s, value_u64 = key_of e\<rparr>"
    "skip_cbor_item bs p = Inr s" "lies bs s (snd (snd e)) r" "skip_cbor_item bs s = Inr r" by blast
  have "read_labels (length (e # es)) bs p ls v = read_labels (length es) bs r (ls @ [key_of e])
      (if key_of e = POE_LABEL then Some (snd (snd e)) else v)"
    using s lies_span [OF s(3)] by (subst read_labels.simps) (simp add: Let_def)
  also have "\<dots> = Inr ((ls @ [key_of e]) @ map key_of es,
      last_309 es (if key_of e = POE_LABEL then Some (snd (snd e)) else v))"
    using Cons.IH r(2) Cons.prems by simp
  finally show ?case by (simp add: last_309_def)
qed

lemma find_map_absent:
  "list_all entry_ok es \<Longrightarrow> lies bs p (entries_bytes es) q \<Longrightarrow> length bs < usize_limit \<Longrightarrow>
   \<forall>e\<in>set es. key_of e \<noteq> 0 \<Longrightarrow> find_metadata_map (length es) bs p found = Inr found"
proof (induction es arbitrary: p)
  case Nil
  then show ?case by (simp add: find_metadata_map.simps)
next
  case (Cons e es)
  then obtain r where r: "lies bs p (entry_bytes e) r" "lies bs r (entries_bytes es) q"
    by (auto simp: lies_append)
  from Cons.prems(1) have "entry_ok e" by simp
  from entry_read [OF this r(1) Cons.prems(3)] Cons.prems(4)
  have "find_metadata_map (length (e # es)) bs p found = find_metadata_map (length es) bs r found"
    by (subst find_metadata_map.simps) auto
  also have "\<dots> = Inr found" using Cons.IH [of r] r(2) Cons.prems by simp
  finally show ?case .
qed

lemma find_map_present:
  "list_all entry_ok (es @ (kw, 0, m) # fs) \<Longrightarrow> lies bs p (entries_bytes (es @ (kw, 0, m) # fs)) q \<Longrightarrow>
   length bs < usize_limit \<Longrightarrow> \<forall>e\<in>set fs. key_of e \<noteq> 0 \<Longrightarrow>
   \<exists>s t. find_metadata_map (length (es @ (kw, 0, m) # fs)) bs p found = Inr (Some s) \<and> lies bs s m t"
proof (induction es arbitrary: p found)
  case Nil
  let ?e = "(kw, 0, m) :: entry"
  from Nil obtain r where r: "lies bs p (entry_bytes ?e) r" "lies bs r (entries_bytes fs) q"
    by (auto simp: lies_append)
  from Nil.prems(1) have "entry_ok ?e" by simp
  from entry_read [OF this r(1) Nil.prems(3)] obtain s where s:
    "read_head bs p = Inr \<lparr>mt = 0, ai = width_info kw 0, payload_start = s, value_u64 = 0\<rparr>"
    "skip_cbor_item bs p = Inr s" "lies bs s m r" "skip_cbor_item bs s = Inr r" by (auto simp: key_of_def)
  have "find_metadata_map (length ([] @ ?e # fs)) bs p found = find_metadata_map (length fs) bs r (Some s)"
    using s by (subst find_metadata_map.simps) simp
  also have "\<dots> = Inr (Some s)" using find_map_absent [of fs bs r q] r(2) Nil.prems by simp
  finally show ?case using s(3) by blast
next
  case (Cons e es)
  then obtain r where r: "lies bs p (entry_bytes e) r"
    "lies bs r (entries_bytes (es @ (kw, 0, m) # fs)) q" by (auto simp: lies_append)
  from Cons.prems(1) have e: "entry_ok e" and es: "list_all entry_ok (es @ (kw, 0, m) # fs)" by simp_all
  from entry_read [OF e r(1) Cons.prems(3)] obtain s where s:
    "read_head bs p = Inr \<lparr>mt = 0, ai = width_info (fst e) (key_of e), payload_start = s, value_u64 = key_of e\<rparr>"
    "skip_cbor_item bs p = Inr s" "skip_cbor_item bs s = Inr r" by blast
  have "find_metadata_map (length ((e # es) @ (kw, 0, m) # fs)) bs p found =
     find_metadata_map (length (es @ (kw, 0, m) # fs)) bs r (if key_of e = 0 then Some s else found)"
    using s by (subst find_metadata_map.simps) simp
  with Cons.IH [OF es r(2) Cons.prems(3,4)] show ?case by simp
qed

section \<open>The three auxiliary-data forms\<close>

datatype aux_form =
    MetadataMap
  | WithScripts head_width bytes
  | Tagged head_width head_width "entry list" head_width "entry list"

fun aux_bytes :: "aux_form \<Rightarrow> bytes \<Rightarrow> bytes" where
  "aux_bytes MetadataMap m = m"
| "aux_bytes (WithScripts w scripts) m = head_bytes w 4 2 @ m @ scripts"
| "aux_bytes (Tagged tw mw es kw fs) m = head_bytes tw 6 259 @ keyed_map mw (es @ (kw, 0, m) # fs)"

fun aux_ok :: "aux_form \<Rightarrow> bytes \<Rightarrow> bool" where
  "aux_ok MetadataMap m \<longleftrightarrow> True"
| "aux_ok (WithScripts w scripts) m \<longleftrightarrow> head_fits w 2 \<and> cbor_item {} scripts"
| "aux_ok (Tagged tw mw es kw fs) m \<longleftrightarrow> head_fits tw 259 \<and> keyed_ok mw (es @ (kw, 0, m) # fs) \<and>
     (\<forall>e\<in>set fs. key_of e \<noteq> 0)"

lemma aux_item: "aux_ok f m \<Longrightarrow> cbor_item {} m \<Longrightarrow> cbor_item {} (aux_bytes f m)"
proof (induction f m rule: aux_ok.induct)
  case (2 w scripts m)
  then show ?case using cbor_item.array_item [of w "[m, scripts]" "{}"] by simp
next
  case (3 tw mw es kw fs m)
  then show ?case using keyed_map_item by (auto intro: cbor_item.tag_item)
qed simp

lemma keyed_map_read:
  assumes "keyed_ok w es" "lies bs p (keyed_map w es) q"
  shows "\<exists>r. read_head bs p = Inr \<lparr>mt = 5, ai = width_info w (of_nat (length es)), payload_start = r,
      value_u64 = of_nat (length es)\<rparr> \<and> lies bs r (entries_bytes es) q"
proof -
  obtain r where r: "lies bs p (head_bytes w 5 (of_nat (length es))) r" "lies bs r (entries_bytes es) q"
    using assms(2) by (auto simp: keyed_map_def lies_append)
  then show ?thesis using read_head_lies [OF _ _ r(1)] assms(1) by (auto simp: keyed_ok_def)
qed

lemma metadata_position_aux:
  assumes "aux_ok f m" "m = keyed_map w es" "keyed_ok w es" "length (aux_bytes f m) < usize_limit"
  shows "\<exists>h s t. read_head (aux_bytes f m) 0 = Inr h \<and>
    metadata_position (aux_bytes f m) h = Inr (Some s) \<and> lies (aux_bytes f m) s m t"
proof (cases f)
  case MetadataMap
  then have l: "lies (aux_bytes f m) 0 m (length m)" by (simp add: lies_whole)
  then obtain r where "read_head (aux_bytes f m) 0 = Inr \<lparr>mt = 5, ai = width_info w (of_nat (length es)),
      payload_start = r, value_u64 = of_nat (length es)\<rparr>"
    using keyed_map_read [OF assms(3)] unfolding assms(2) by blast
  then show ?thesis using l unfolding metadata_position_def
    by (intro exI [of _ "\<lparr>mt = 5, ai = width_info w (of_nat (length es)), payload_start = r,
      value_u64 = of_nat (length es)\<rparr>"] exI [of _ 0] exI [of _ "length m"]) simp
next
  case (WithScripts sw scripts)
  then obtain r s where r: "lies (aux_bytes f m) 0 (head_bytes sw 4 2) r" "lies (aux_bytes f m) r m s"
    using lies_whole [of "aux_bytes f m"] by (auto simp: lies_append)
  have "read_head (aux_bytes f m) 0 = Inr \<lparr>mt = 4, ai = width_info sw 2, payload_start = r, value_u64 = 2\<rparr>"
    by (rule read_head_lies [OF _ _ r(1)]) (use assms(1) WithScripts in simp_all)
  with r(2) show ?thesis by (auto simp: metadata_position_def)
next
  case (Tagged tw mw fs kw gs)
  let ?a = "aux_bytes f m"
  define all where "all = fs @ (kw, 0, m) # gs"
  obtain r where r: "lies ?a 0 (head_bytes tw 6 259) r" "lies ?a r (keyed_map mw all) (length ?a)"
    using lies_whole [of ?a] Tagged by (auto simp: lies_append all_def)
  have h: "read_head ?a 0 = Inr \<lparr>mt = 6, ai = width_info tw 259, payload_start = r, value_u64 = 259\<rparr>"
    by (rule read_head_lies [OF _ _ r(1)]) (use assms(1) Tagged in simp_all)
  have ok: "keyed_ok mw all" using assms(1) Tagged by (simp add: all_def)
  from keyed_map_read [OF ok r(2)] obtain u where u:
    "read_head ?a r = Inr \<lparr>mt = 5, ai = width_info mw (of_nat (length all)), payload_start = u,
      value_u64 = of_nat (length all)\<rparr>" "lies ?a u (entries_bytes all) (length ?a)" by blast
  have n: "list_all entry_ok all" using ok by (simp add: keyed_ok_def)
  from find_map_present [OF n [unfolded all_def] u(2) [unfolded all_def] assms(4), of None]
    assms(1) Tagged obtain s t where
    "find_metadata_map (length all) ?a u None = Inr (Some s)" "lies ?a s m t" by (auto simp: all_def)
  then show ?thesis using h u(1) keyed_ok_count [OF ok]
    by (intro exI [of _ "\<lparr>mt = 6, ai = width_info tw 259, payload_start = r, value_u64 = 259\<rparr>"] exI [of _ s]
        exI [of _ t]) (simp add: metadata_position_def CARDANO_AUX_DATA_TAG_def)
qed

lemma unwrap_form:
  assumes "aux_ok f m" "m = keyed_map w es" "keyed_ok w es" "length (aux_bytes f m) < usize_limit"
  shows "unwrap_auxiliary_data (aux_bytes f m) =
    Inr \<lparr>label_309_value = last_309 es None, labels = sort (map key_of es)\<rparr>"
proof -
  let ?a = "aux_bytes f m"
  obtain h s t where h: "read_head ?a 0 = Inr h" "metadata_position ?a h = Inr (Some s)" "lies ?a s m t"
    using metadata_position_aux [OF assms] by blast
  have skip: "skip_cbor_item ?a 0 = Inr (length ?a)"
    by (rule plain_skips [OF aux_item lies_whole]) (use assms keyed_map_item in auto)
  from keyed_map_read [OF assms(3)] h(3) assms(2) obtain r where r:
    "read_head ?a s = Inr \<lparr>mt = 5, ai = width_info w (of_nat (length es)), payload_start = r,
      value_u64 = of_nat (length es)\<rparr>" "lies ?a r (entries_bytes es) t" by blast
  have "list_all entry_ok es" using assms(3) by (simp add: keyed_ok_def)
  with keyed_ok_count [OF assms(3)] read_labels_lies [OF _ r(2) assms(4), of "[]" None] h skip r(1) show ?thesis
    by (simp add: unwrap_auxiliary_data_def)
qed

section \<open>Transactions\<close>

definition tx_bytes :: "head_width \<Rightarrow> bytes \<Rightarrow> bytes \<Rightarrow> bytes option \<Rightarrow> bytes option \<Rightarrow> bytes" where
  "tx_bytes w body wits valid aux =
     head_bytes w 4 (if valid = None then 3 else 4) @ body @ wits @
     (case valid of None \<Rightarrow> [] | Some v \<Rightarrow> v) @ (case aux of None \<Rightarrow> [0xF6] | Some a \<Rightarrow> a)"

text \<open>Items that are not a simple value or a float: their first byte is not \<open>null\<close>.\<close>

definition no_simple :: "bytes \<Rightarrow> bool" where
  "no_simple a \<longleftrightarrow> (\<exists>w m n t. m < 7 \<and> head_fits w n \<and> a = head_bytes w m n @ t)"

lemma no_simple_first: "no_simple a \<Longrightarrow> a \<noteq> [] \<and> hd a \<noteq> 0xF6 \<and> hd a \<noteq> 0xF7"
proof -
  assume "no_simple a"
  then obtain w m n t where a: "m < 7" "head_fits w n" "a = head_bytes w m n @ t" by (auto simp: no_simple_def)
  from a(1) have "m < 8" by (simp add: word_less_nat_alt)
  then have "drop_bit 5 (hd a) = m" using width_info_lt [OF a(2)] a(3) head_major by (simp add: head_bytes_def)
  moreover have "drop_bit 5 (0xF6 :: u8) = 7" "drop_bit 5 (0xF7 :: u8) = 7" by simp_all
  ultimately have "hd a \<noteq> 0xF6 \<and> hd a \<noteq> 0xF7" using a(1) by auto
  with a(3) show ?thesis by (simp add: head_bytes_def)
qed

lemma aux_no_simple: "aux_ok f (keyed_map w es) \<Longrightarrow> keyed_ok w es \<Longrightarrow> no_simple (aux_bytes f (keyed_map w es))"
proof (cases f)
  case MetadataMap
  moreover assume "keyed_ok w es"
  ultimately show ?thesis unfolding no_simple_def keyed_map_def
    by (intro exI [of _ w] exI [of _ 5] exI [of _ "of_nat (length es)"] exI [of _ "entries_bytes es"])
      (simp add: keyed_ok_def keyed_map_def)
next
  case (WithScripts sw scripts)
  moreover assume "aux_ok f (keyed_map w es)"
  ultimately show ?thesis unfolding no_simple_def
    by (intro exI [of _ sw] exI [of _ 4] exI [of _ 2] exI [of _ "keyed_map w es @ scripts"]) simp
next
  case (Tagged tw mw fs kw gs)
  moreover assume "aux_ok f (keyed_map w es)"
  ultimately show ?thesis unfolding no_simple_def
    by (intro exI [of _ tw] exI [of _ 6] exI [of _ 259]
        exI [of _ "keyed_map mw (fs @ (kw, 0, keyed_map w es) # gs)"]) simp
qed

lemma fits_small: "unat n < 24 \<Longrightarrow> head_fits w n"
  by (cases w) (auto simp: head_fits_def)

lemma lies_hd: "lies bs p x q \<Longrightarrow> x \<noteq> [] \<Longrightarrow> p < length bs \<and> bs ! p = hd x"
  by (cases x) (auto simp: lies_Cons)

lemma slice_tx_form:
  assumes "cbor_item {} body" "cbor_item {} wits" "\<forall>v. valid = Some v \<longrightarrow> cbor_item {} v"
    and "\<forall>a. aux = Some a \<longrightarrow> cbor_item {} a \<and> no_simple a"
    and "length (tx_bytes w body wits valid aux @ trailing) < usize_limit"
  shows "slice_tx (tx_bytes w body wits valid aux @ trailing) =
    Inr \<lparr>tx_body = body, witness_set = wits, aux_data = aux\<rparr>"
proof -
  let ?t = "tx_bytes w body wits valid aux @ trailing"
  let ?n = "if valid = None then 3 else 4 :: u64"
  let ?vb = "case valid of None \<Rightarrow> [] | Some v \<Rightarrow> v" and ?ab = "case aux of None \<Rightarrow> [0xF6] | Some a \<Rightarrow> a"
  have "lies ?t 0 (head_bytes w 4 ?n @ body @ wits @ ?vb @ ?ab @ trailing) (length ?t)"
    using lies_whole [of ?t] by (simp add: tx_bytes_def)
  then obtain p q r s u where l: "lies ?t 0 (head_bytes w 4 ?n) p" "lies ?t p body q" "lies ?t q wits r"
    "lies ?t r ?vb s" "lies ?t s ?ab u" by (auto simp: lies_append)
  note skip = plain_skips [OF _ _ assms(5)]
  have h: "read_head ?t 0 = Inr \<lparr>mt = 4, ai = width_info w ?n, payload_start = p, value_u64 = ?n\<rparr>"
    by (rule read_head_lies [OF _ _ l(1)]) (simp_all add: fits_small)
  have v: "(if ?n = 4 then skip_cbor_item ?t r else Inr r) = Inr s"
    using l(4) assms(3) skip by (cases valid) auto
  have a: "s < length ?t" "(if ?t ! s = 0xF6 \<or> ?t ! s = 0xF7 then Inr None
      else and_then (skip_cbor_item ?t s) (\<lambda>e. Inr (Some (span ?t s e)))) = (Inr aux :: CarriageError + _)"
  proof -
    have "?ab \<noteq> []" using assms(4) no_simple_first by (cases aux) auto
    note first = lies_hd [OF l(5) this]
    then show "s < length ?t" by simp
    show "(if ?t ! s = 0xF6 \<or> ?t ! s = 0xF7 then Inr None
      else and_then (skip_cbor_item ?t s) (\<lambda>e. Inr (Some (span ?t s e)))) = (Inr aux :: CarriageError + _)"
    proof (cases aux)
      case None
      then show ?thesis using first by simp
    next
      case (Some x)
      then have "lies ?t s x u" "cbor_item {} x" using l(5) assms(4) by auto
      then show ?thesis using first Some assms(4) no_simple_first [of x] skip [of x s u] lies_span
        by auto
    qed
  qed
  have n: "?n = 3 \<or> ?n = 4" by simp
  show ?thesis
    unfolding slice_tx_def h and_then.simps Let_def CborHead.simps
    using skip [OF assms(1) l(2)] skip [OF assms(2) l(3)] v a n lies_span [OF l(2)] lies_span [OF l(3)]
    by (simp del: append_assoc)
qed

section \<open>The integrity binding\<close>

lemma bind_transaction_Inr:
  "bind_transaction H hex h body aux = Inr () \<longleftrightarrow>
     H body = h \<and> extract_auxiliary_data_hash body = Inr (map_option H aux)"
  by (auto simp: bind_transaction_def Let_def split: sum.splits option.splits)

text \<open>The body map's entry under key 7.\<close>

definition bytes_item :: "head_width \<Rightarrow> bytes \<Rightarrow> bytes" where
  "bytes_item w s = head_bytes w 2 (of_nat (length s)) @ s"

lemma find_aux_hash_lies:
  "list_all entry_ok (es @ (kw, 7, bytes_item hw h) # fs) \<Longrightarrow>
   lies bs p (entries_bytes (es @ (kw, 7, bytes_item hw h) # fs)) q \<Longrightarrow> length bs < usize_limit \<Longrightarrow>
   \<forall>e\<in>set es. key_of e \<noteq> 7 \<Longrightarrow> head_fits hw (of_nat (length h)) \<Longrightarrow>
   find_aux_hash (length (es @ (kw, 7, bytes_item hw h) # fs)) bs p = Inr (Some h)"
proof (induction es arbitrary: p)
  case Nil
  let ?e = "(kw, 7, bytes_item hw h) :: entry"
  from Nil obtain r where r: "lies bs p (entry_bytes ?e) r" by (auto simp: lies_append)
  from Nil.prems(1) have "entry_ok ?e" by simp
  from entry_read [OF this r(1) Nil.prems(3)] obtain s where s:
    "read_head bs p = Inr \<lparr>mt = 0, ai = width_info kw 7, payload_start = s, value_u64 = 7\<rparr>"
    "skip_cbor_item bs p = Inr s" "lies bs s (bytes_item hw h) r" "skip_cbor_item bs s = Inr r"
    by (auto simp: key_of_def)
  obtain t where t: "lies bs s (head_bytes hw 2 (of_nat (length h))) t" "lies bs t h r"
    using s(3) by (auto simp: bytes_item_def lies_append)
  show ?case
    using s read_head_lies [OF _ Nil.prems(5) t(1)] lies_span [OF t(2)]
    by (subst find_aux_hash.simps) simp
next
  case (Cons e es)
  then obtain r where r: "lies bs p (entry_bytes e) r"
    "lies bs r (entries_bytes (es @ (kw, 7, bytes_item hw h) # fs)) q" by (auto simp: lies_append)
  from Cons.prems(1) have e: "entry_ok e" and es: "list_all entry_ok (es @ (kw, 7, bytes_item hw h) # fs)"
    by simp_all
  from Cons.prems(4) have k: "key_of e \<noteq> 7" "\<forall>e\<in>set es. key_of e \<noteq> 7" by simp_all
  from entry_read [OF e r(1) Cons.prems(3)] obtain s where s:
    "read_head bs p = Inr \<lparr>mt = 0, ai = width_info (fst e) (key_of e), payload_start = s, value_u64 = key_of e\<rparr>"
    "skip_cbor_item bs p = Inr s" "skip_cbor_item bs s = Inr r" by blast
  have "find_aux_hash (length ((e # es) @ (kw, 7, bytes_item hw h) # fs)) bs p =
     find_aux_hash (length (es @ (kw, 7, bytes_item hw h) # fs)) bs r"
    using s k(1) by (subst find_aux_hash.simps) simp
  with Cons.IH [OF es r(2) Cons.prems(3) k(2) Cons.prems(5)] show ?case by simp
qed

lemma extract_hash_form:
  assumes "b = es @ (kw, 7, bytes_item hw h) # fs" "keyed_ok w b" "\<forall>e\<in>set es. key_of e \<noteq> 7"
    and "head_fits hw (of_nat (length h))" "length (keyed_map w b) < usize_limit"
  shows "extract_auxiliary_data_hash (keyed_map w b) = Inr (Some h)"
proof -
  let ?m = "keyed_map w b"
  obtain r where r: "read_head ?m 0 = Inr \<lparr>mt = 5, ai = width_info w (of_nat (length b)), payload_start = r,
      value_u64 = of_nat (length b)\<rparr>" "lies ?m r (entries_bytes b) (length ?m)"
    using keyed_map_read [OF assms(2) lies_whole] by blast
  have "list_all entry_ok b" using assms(2) by (simp add: keyed_ok_def)
  with find_aux_hash_lies [of es kw hw h fs ?m r] r(2) assms(1,3,4,5)
  have "find_aux_hash (length b) ?m r = Inr (Some h)" by blast
  with r(1) keyed_ok_count [OF assms(2)] show ?thesis by (simp add: extract_auxiliary_data_hash_def)
qed
end
