(* ===== verification/Verifier_Promises.thy ===== *)
theory Verifier_Promises
  imports Verifier_Tx
begin

text \<open>
  The properties of the transaction walker, with a concrete transaction on which they apply.
\<close>

section \<open>A transaction that carries a record\<close>

text \<open>
  The layout of a transaction as it may be found on chain: its head widths, the entries of the body
  map before and after key 7, the witness set, the validity flag of the four-element form, the
  auxiliary-data form, the metadata entries before and after label 309, the chunks.
\<close>

record poe_tx =
  tx_width :: head_width
  body_width :: head_width
  body_before :: "entry list"
  hash_key_width :: head_width
  hash_width :: head_width
  body_after :: "entry list"
  witnesses :: bytes
  validity :: "bytes option"
  form :: aux_form
  meta_width :: head_width
  meta_before :: "entry list"
  label_width :: head_width
  array_width :: head_width
  chunks :: "(head_width \<times> bytes) list"
  meta_after :: "entry list"
  trailing :: bytes

definition metadata_entries :: "poe_tx \<Rightarrow> entry list" where
  "metadata_entries t = meta_before t @
     (label_width t, POE_LABEL, chunk_array (array_width t) (chunks t)) # meta_after t"

definition metadata_of :: "poe_tx \<Rightarrow> bytes" where
  "metadata_of t = keyed_map (meta_width t) (metadata_entries t)"

definition aux_of :: "poe_tx \<Rightarrow> bytes" where
  "aux_of t = aux_bytes (form t) (metadata_of t)"

definition body_entries :: "(bytes \<Rightarrow> bytes) \<Rightarrow> poe_tx \<Rightarrow> entry list" where
  "body_entries H t = body_before t @
     (hash_key_width t, 7, bytes_item (hash_width t) (H (aux_of t))) # body_after t"

definition body_of :: "(bytes \<Rightarrow> bytes) \<Rightarrow> poe_tx \<Rightarrow> bytes" where
  "body_of H t = keyed_map (body_width t) (body_entries H t)"

definition bytes_of :: "(bytes \<Rightarrow> bytes) \<Rightarrow> poe_tx \<Rightarrow> bytes" where
  "bytes_of H t =
     tx_bytes (tx_width t) (body_of H t) (witnesses t) (validity t) (Some (aux_of t)) @ trailing t"

definition poe_tx_ok :: "(bytes \<Rightarrow> bytes) \<Rightarrow> poe_tx \<Rightarrow> bool" where
  "poe_tx_ok H t \<longleftrightarrow>
     keyed_ok (body_width t) (body_entries H t) \<and> (\<forall>e\<in>set (body_before t). key_of e \<noteq> 7) \<and>
     head_fits (hash_width t) (of_nat (length (H (aux_of t)))) \<and>
     cbor_item {} (witnesses t) \<and> (\<forall>v. validity t = Some v \<longrightarrow> cbor_item {} v) \<and>
     aux_ok (form t) (metadata_of t) \<and> keyed_ok (meta_width t) (metadata_entries t) \<and>
     (\<forall>e\<in>set (meta_after t). key_of e \<noteq> POE_LABEL) \<and>
     chunk_array_ok (array_width t) (chunks t) \<and> length (bytes_of H t) < usize_limit"

lemma last_309_snoc:
  "last_309 (es @ e # fs) v = last_309 fs (if key_of e = POE_LABEL then Some (snd (snd e)) else last_309 es v)"
  by (simp add: last_309_def)

lemma last_309_absent: "\<forall>e\<in>set es. key_of e \<noteq> POE_LABEL \<Longrightarrow> last_309 es v = v"
  by (induction es arbitrary: v) (simp_all add: last_309_def)

lemma length_keyed_map_inner:
  "length (keyed_map w es) \<ge> length x" if "(kw, k, x) \<in> set es"
proof -
  have "length x \<le> length (entry_bytes (kw, k, x))" by (simp add: entry_bytes_def)
  also have "\<dots> \<le> length (entries_bytes es)"
    using that by (induction es) auto
  finally show ?thesis by (simp add: keyed_map_def)
qed

lemma length_aux_inner: "length m \<le> length (aux_bytes f m)"
proof (cases f)
  case (Tagged tw mw es kw fs)
  then show ?thesis using length_keyed_map_inner [of kw 0 m "es @ (kw, 0, m) # fs" mw] by simp
qed simp_all


lemma poe_tx_sizes:
  assumes "poe_tx_ok H t"
  shows "length (body_of H t) < usize_limit" "length (aux_of t) < usize_limit"
    "length (chunk_array (array_width t) (chunks t)) < usize_limit"
proof -
  have all: "length (bytes_of H t) < usize_limit" using assms by (simp add: poe_tx_ok_def)
  moreover have "length (body_of H t) + length (aux_of t) \<le> length (bytes_of H t)"
    by (simp add: bytes_of_def tx_bytes_def)
  ultimately show b: "length (body_of H t) < usize_limit" and a: "length (aux_of t) < usize_limit" by linarith+
  have "length (chunk_array (array_width t) (chunks t)) \<le> length (metadata_of t)"
    unfolding metadata_of_def
    by (rule length_keyed_map_inner [of "label_width t" POE_LABEL]) (simp add: metadata_entries_def)
  also have "\<dots> \<le> length (aux_of t)" by (simp add: aux_of_def length_aux_inner)
  finally show "length (chunk_array (array_width t) (chunks t)) < usize_limit" using a by simp
qed

lemma poe_tx_slices:
  assumes "poe_tx_ok H t"
  shows "slice_tx (bytes_of H t) =
    Inr \<lparr>tx_body = body_of H t, witness_set = witnesses t, aux_data = Some (aux_of t)\<rparr>"
proof -
  have m: "keyed_ok (meta_width t) (metadata_entries t)" "aux_ok (form t) (metadata_of t)"
    using assms by (simp_all add: poe_tx_ok_def)
  have "cbor_item {} (aux_of t)" "no_simple (aux_of t)"
    unfolding aux_of_def using m aux_item [OF _ keyed_map_item] aux_no_simple
    by (simp_all add: metadata_of_def)
  moreover have "cbor_item {} (body_of H t)"
    unfolding body_of_def by (rule keyed_map_item) (use assms in \<open>simp add: poe_tx_ok_def\<close>)
  ultimately show ?thesis unfolding bytes_of_def
    by (intro slice_tx_form) (use assms in \<open>auto simp: poe_tx_ok_def bytes_of_def\<close>)
qed

lemma poe_tx_binds:
  assumes "poe_tx_ok H t"
  shows "bind_transaction H hex (H (body_of H t)) (body_of H t) (Some (aux_of t)) = Inr ()"
proof -
  have "extract_auxiliary_data_hash (keyed_map (body_width t) (body_entries H t)) = Inr (Some (H (aux_of t)))"
    by (rule extract_hash_form [OF body_entries_def])
      (use assms poe_tx_sizes(1) [OF assms] in \<open>simp_all add: poe_tx_ok_def body_of_def\<close>)
  then show ?thesis by (simp add: bind_transaction_Inr body_of_def)
qed

lemma poe_tx_extracts:
  assumes "poe_tx_ok H t"
  shows "extract_label_309_metadata (bytes_of H t) = Inr (Some (concat (map snd (chunks t))))"
proof -
  have "last_309 (metadata_entries t) None = Some (chunk_array (array_width t) (chunks t))"
    using assms by (simp add: metadata_entries_def last_309_snoc key_of_def last_309_absent poe_tx_ok_def)
  moreover have "unwrap_auxiliary_data (aux_of t) =
      Inr \<lparr>label_309_value = last_309 (metadata_entries t) None, labels = sort (map key_of (metadata_entries t))\<rparr>"
    unfolding aux_of_def
    by (rule unwrap_form [OF _ metadata_of_def])
      (use assms poe_tx_sizes(2) [OF assms] in \<open>simp_all add: poe_tx_ok_def aux_of_def\<close>)
  moreover have "reassemble_label_309_value (chunk_array (array_width t) (chunks t)) =
      Inr (concat (map snd (chunks t)))"
    by (rule reassemble_chunk_array [OF _ poe_tx_sizes(3) [OF assms]]) (use assms in \<open>simp add: poe_tx_ok_def\<close>)
  ultimately show ?thesis by (simp add: extract_label_309_metadata_def poe_tx_slices [OF assms])
qed

section \<open>Properties\<close>

text \<open>
  C6: A transaction that carries a record is read as such, within the CBOR that the walker supports.
  Take any transaction laid out as \<open>bytes_of\<close> does: heads of any width, either transaction form, any
  of the three auxiliary-data forms, the record cut into chunks of at most 64 bytes in any way, and
  any bytes after it. Its other parts (body fields, witness set, validity flag, labels, scripts) are
  definite-length items without a two-byte simple value, because \<open>skip_cbor_item\<close> refuses indefinite
  lengths and misreads 0xF8 (\<open>two_byte_simple_overrun\<close>). Then its slices bind to the hash of its body,
  and what \<open>extract_label_309_metadata\<close> returns is the concatenation of the chunks.
\<close>

theorem carried_record_extracted:
  assumes "poe_tx_ok H t"
  shows "slice_tx (bytes_of H t) =
      Inr \<lparr>tx_body = body_of H t, witness_set = witnesses t, aux_data = Some (aux_of t)\<rparr> \<and>
    bind_transaction H hex (H (body_of H t)) (body_of H t) (Some (aux_of t)) = Inr () \<and>
    extract_label_309_metadata (bytes_of H t) = Inr (Some (concat (map snd (chunks t))))"
  using poe_tx_slices [OF assms] poe_tx_binds [OF assms] poe_tx_extracts [OF assms] by blast

text \<open>
  C7: Two responses that bind to one transaction hash yield the same record, whatever gateways they
  come from: their bodies and auxiliary data are equal and so is what is extracted; or their two
  bodies differ and have one digest; or the bodies are equal and the two auxiliary data, both
  present, differ and have one digest.
\<close>

theorem bound_responses_agree:
  assumes "slice_tx t1 = Inr s1" "bind_transaction blake2b256 hex h (tx_body s1) (aux_data s1) = Inr ()"
    and "slice_tx t2 = Inr s2" "bind_transaction blake2b256 hex h (tx_body s2) (aux_data s2) = Inr ()"
  shows "tx_body s1 = tx_body s2 \<and> aux_data s1 = aux_data s2 \<and>
      extract_label_309_metadata t1 = extract_label_309_metadata t2 \<or>
    tx_body s1 \<noteq> tx_body s2 \<and> blake2b256 (tx_body s1) = blake2b256 (tx_body s2) \<or>
    tx_body s1 = tx_body s2 \<and>
      (\<exists>a1 a2. aux_data s1 = Some a1 \<and> aux_data s2 = Some a2 \<and> a1 \<noteq> a2 \<and> blake2b256 a1 = blake2b256 a2)"
proof (cases "tx_body s1 = tx_body s2")
  case body: True
  then have "map_option blake2b256 (aux_data s1) = map_option blake2b256 (aux_data s2)"
    using assms by (simp add: bind_transaction_Inr)
  then consider "aux_data s1 = aux_data s2"
    | a1 a2 where "aux_data s1 = Some a1" "aux_data s2 = Some a2" "a1 \<noteq> a2" "blake2b256 a1 = blake2b256 a2"
    by (cases "aux_data s1"; cases "aux_data s2") auto
  then show ?thesis
    by cases (use body assms(1,3) in \<open>auto simp: extract_label_309_metadata_def\<close>)
next
  case False
  with assms show ?thesis by (simp add: bind_transaction_Inr)
qed

text \<open>A byte string without the byte 0xF8 holds no two-byte simple value.\<close>

lemma item_without_f8: "cbor_item K x \<Longrightarrow> 0xF8 \<notin> set x \<Longrightarrow> cbor_item {} x"
proof (induction rule: cbor_item.induct)
  case (array_item w xs)
  then show ?case by (intro cbor_item.array_item) (auto simp: subset_iff)
next
  case (map_item w ps)
  then show ?case by (intro cbor_item.map_item) fastforce+
next
  case (simple1_item n t)
  then show ?case by (simp add: head_bytes_def)
qed (auto intro: cbor_item.intros)

text \<open>
  C17: The language of \<open>skip_cbor_item\<close>. It returns \<open>q\<close> if and only if the bytes from \<open>p\<close> to \<open>q\<close> are
  one definite-length item, of any head width and any key order, in which every two-byte simple value
  is followed by one more byte that RFC 8949 does not count (\<open>cbor_item {2}\<close>; the grammar of the RFC
  is \<open>cbor_item {1}\<close>). So it agrees with the RFC wherever no such value occurs: every item without one
  is stepped over exactly, and on bytes without 0xF8 it steps over exactly the items of the RFC.
\<close>

theorem skip_iff_item:
  assumes "length bs < usize_limit"
  shows "(skip_cbor_item bs p = Inr q \<longleftrightarrow> p \<le> q \<and> q \<le> length bs \<and> cbor_item {2} (span bs p q)) \<and>
    (p \<le> q \<and> q \<le> length bs \<and> cbor_item {} (span bs p q) \<longrightarrow> skip_cbor_item bs p = Inr q) \<and>
    (0xF8 \<notin> set (span bs p q) \<longrightarrow>
      (skip_cbor_item bs p = Inr q \<longleftrightarrow> p \<le> q \<and> q \<le> length bs \<and> cbor_item {1} (span bs p q)))"
proof -
  have *: "skip_cbor_item bs p = Inr q \<longleftrightarrow> p \<le> q \<and> q \<le> length bs \<and> cbor_item {2} (span bs p q)"
    unfolding skip_iff_stepped [OF assms] by (auto simp: stepped_def lies_def)
  have up: "cbor_item {} (span bs p q) \<Longrightarrow> cbor_item K (span bs p q)" for K
    by (rule cbor_item_mono [OF _ empty_subsetI])
  show ?thesis
    using * up [of "{2}"] up [of "{1}"] item_without_f8 [of "{1}" "span bs p q"]
      item_without_f8 [of "{2}" "span bs p q"] by blast
qed

text \<open>
  C18: The carriage rules of the label-309 value. \<open>reassemble_label_309_value\<close> returns a body exactly
  for the definite-length arrays of byte strings of at most 64 bytes each, and then the
  concatenation of the strings; it reports CHUNK_TOO_LARGE exactly when the array's chunks are
  followed by a byte string of more than 64 bytes, and MALFORMED_CBOR in every other case.
\<close>

theorem reassemble_spec:
  assumes "length v < usize_limit"
  shows "case reassemble_label_309_value v of
      Inr body \<Rightarrow> \<exists>w cs. chunk_array_ok w cs \<and> v = chunk_array w cs \<and> body = concat (map snd cs)
    | Inl e \<Rightarrow> (\<nexists>w cs. chunk_array_ok w cs \<and> v = chunk_array w cs) \<and>
        code e = (if oversized_array v then ChunkTooLarge else MalformedCbor)"
proof (cases "reassemble_label_309_value v")
  case (Inl e)
  with reassemble_code [OF Inl assms] reassemble_chunk_array assms show ?thesis by fastforce
next
  case (Inr body)
  with reassemble_Inr [OF Inr assms] show ?thesis by simp
qed

text \<open>
  C40: Two-byte simple values (first byte 0xF8) are skipped as three bytes: the head reader has
  already consumed the argument byte when \<open>skip_cbor_item\<close> adds one more. The byte after the value is
  swallowed, and a value at the end of the input is refused as truncated, although the two bytes
  are a well-formed item.
\<close>

theorem two_byte_simple_overrun:
  "cbor_item {1} [0xF8, v] \<and>
   skip_cbor_item (a @ [0xF8, v] @ b) (length a) =
     (if b = [] then Inl (malformed ''truncated simple value'') else Inr (length a + 3))"
proof -
  let ?bs = "a @ [0xF8, v] @ b"
  have hb: "head_bytes H1 7 (ucast v) = [0xF8, v]"
    by (simp add: head_bytes_def unat_ucast_u64)
  have fits: "head_fits H1 (ucast v)" by (simp add: head_fits_def unat_ucast_u64)
  have "cbor_item {1} (head_bytes H1 7 (ucast v) @ [])"
    by (rule cbor_item.simple1_item) (use fits in simp_all)
  moreover have l: "lies ?bs (length a) (head_bytes H1 7 (ucast v)) (length a + 2)"
    unfolding hb by (simp add: lies_def span_def)
  have "skip_cbor_item ?bs (length a) =
     (if b = [] then Inl (malformed ''truncated simple value'') else Inr (length a + 3))"
    using skip_head [OF l fits] by (cases b) (simp_all add: Let_def skip_major7_def)
  ultimately show ?thesis by (simp add: hb)
qed

section \<open>Samples\<close>

definition sample_hash :: "bytes \<Rightarrow> bytes" where
  "sample_hash x = [of_nat (length x), 7]"

text \<open>Two chunks under label 309, beside label 674, in a tag-259 map; a four-element transaction.\<close>

definition sample_tx :: poe_tx where
  "sample_tx = \<lparr>tx_width = HImm, body_width = HImm,
     body_before = [(HImm, 2, head_bytes H2 0 300)], hash_key_width = HImm, hash_width = HImm, body_after = [],
     witnesses = keyed_map HImm [], validity = Some (head_bytes HImm 7 21),
     form = Tagged H2 HImm [] HImm [], meta_width = HImm, meta_before = [],
     label_width = H2, array_width = H1, chunks = [(HImm, [1, 2]), (H1, [3])],
     meta_after = [(H2, 674, head_bytes HImm 0 5)], trailing = []\<rparr>"

lemma chunk_array_item: "chunk_array_ok w cs \<Longrightarrow> cbor_item {} (chunk_array w cs)"
proof -
  assume ok: "chunk_array_ok w cs"
  have "cbor_item {} (chunk_bytes c)" if "c \<in> set cs" for c
    using that ok small_usize unfolding chunk_bytes_def
    by (intro cbor_item.string_item) (auto simp: chunk_array_ok_def chunk_ok_def list_all_iff)
  then show ?thesis
    using ok cbor_item.array_item [of w "map chunk_bytes cs" "{}"]
    by (simp add: chunk_array_def chunks_bytes_def chunk_array_ok_def)
qed

lemmas sample_simps = sample_tx_def poe_tx_ok_def keyed_ok_def entry_ok_def head_fits_def key_of_def
  POE_LABEL_def cbor_item.int_item cbor_item.simple_item

lemma sample_chunks_ok: "chunk_array_ok H1 [(HImm, [1, 2]), (H1, [3])]"
  by (simp add: chunk_array_ok_def chunk_ok_def head_fits_def TRANSPORT_CHUNK_MAX_BYTES_def)

lemma sample_meta_ok: "keyed_ok (meta_width sample_tx) (metadata_entries sample_tx)"
  using chunk_array_item [OF sample_chunks_ok] by (simp add: metadata_entries_def sample_simps)

lemma sample_body_ok: "keyed_ok (body_width sample_tx) (body_entries sample_hash sample_tx)"
proof -
  have "cbor_item {} (bytes_item HImm (sample_hash x))" for x
    unfolding bytes_item_def by (rule cbor_item.string_item) (simp_all add: sample_hash_def head_fits_def)
  then show ?thesis by (simp add: body_entries_def sample_simps)
qed

lemma sample_aux_ok: "aux_ok (form sample_tx) (metadata_of sample_tx)"
  using keyed_map_item [OF sample_meta_ok] by (simp add: metadata_of_def) (simp add: sample_simps)

lemma sample_tx_ok: "poe_tx_ok sample_hash sample_tx"
proof -
  have "length (bytes_of sample_hash sample_tx) < usize_limit"
    by (simp add: bytes_of_def tx_bytes_def body_of_def body_entries_def aux_of_def metadata_of_def
        metadata_entries_def keyed_map_def entry_bytes_def head_bytes_def bytes_item_def sample_hash_def
        chunk_array_def chunks_bytes_def chunk_bytes_def sample_tx_def)
  moreover have "cbor_item {} (witnesses sample_tx)"
    using keyed_map_item [of HImm "[]"] by (simp add: sample_simps)
  moreover have "\<forall>v. validity sample_tx = Some v \<longrightarrow> cbor_item {} v" by (simp add: sample_simps)
  moreover have "chunk_array_ok (array_width sample_tx) (chunks sample_tx)"
    using sample_chunks_ok by (simp add: sample_tx_def)
  moreover have "\<forall>e\<in>set (body_before sample_tx). key_of e \<noteq> 7" "\<forall>e\<in>set (meta_after sample_tx). key_of e \<noteq> POE_LABEL"
    "head_fits (hash_width sample_tx) (of_nat (length (sample_hash (aux_of sample_tx))))"
    by (simp_all add: sample_simps sample_hash_def)
  ultimately show ?thesis
    using sample_meta_ok sample_body_ok sample_aux_ok unfolding poe_tx_ok_def by blast
qed

theorem carried_record_extracted_witness:
  "extract_label_309_metadata (bytes_of sample_hash sample_tx) = Inr (Some [1, 2, 3])"
  using carried_record_extracted [OF sample_tx_ok] by (simp add: sample_tx_def)

text \<open>The same transaction as a second gateway may serve it, with bytes after its end.\<close>

definition sample_tx2 :: poe_tx where
  "sample_tx2 = sample_tx\<lparr>trailing := [0, 0]\<rparr>"

lemma sample_tx2_ok: "poe_tx_ok sample_hash sample_tx2"
proof -
  have "bytes_of sample_hash sample_tx2 = bytes_of sample_hash sample_tx @ [0, 0]"
    by (simp add: sample_tx2_def sample_tx_def bytes_of_def body_of_def body_entries_def aux_of_def
        metadata_of_def metadata_entries_def)
  moreover have "length (bytes_of sample_hash sample_tx) + 2 < usize_limit"
    by (simp add: bytes_of_def tx_bytes_def body_of_def body_entries_def aux_of_def metadata_of_def
        metadata_entries_def keyed_map_def entry_bytes_def head_bytes_def bytes_item_def sample_hash_def
        chunk_array_def chunks_bytes_def chunk_bytes_def sample_tx_def)
  ultimately show ?thesis
    using sample_tx_ok unfolding poe_tx_ok_def
    by (simp add: sample_tx2_def body_entries_def aux_of_def metadata_of_def metadata_entries_def)
qed

theorem bound_responses_agree_witness:
  "bytes_of sample_hash sample_tx \<noteq> bytes_of sample_hash sample_tx2 \<and>
   extract_label_309_metadata (bytes_of sample_hash sample_tx) =
     extract_label_309_metadata (bytes_of sample_hash sample_tx2)"
proof -
  have eq: "body_of sample_hash sample_tx2 = body_of sample_hash sample_tx" "aux_of sample_tx2 = aux_of sample_tx"
    by (simp_all add: sample_tx2_def body_of_def body_entries_def aux_of_def metadata_of_def metadata_entries_def)
  have "bytes_of sample_hash sample_tx \<noteq> bytes_of sample_hash sample_tx2"
    by (simp add: bytes_of_def eq) (simp add: sample_tx2_def sample_tx_def)
  then show ?thesis
    using bound_responses_agree [OF poe_tx_slices [OF sample_tx_ok] _ poe_tx_slices [OF sample_tx2_ok],
        of sample_hash "\<lambda>_. []" "sample_hash (body_of sample_hash sample_tx)"]
      poe_tx_binds [OF sample_tx_ok] poe_tx_binds [OF sample_tx2_ok] by (simp add: eq)
qed

lemma sample_item: "cbor_item {2} [0x82, 0x18, 0xFF, 0x41, 0x00]"
proof -
  let ?xs = "[head_bytes H1 0 255, head_bytes HImm 2 1 @ [0]]"
  have "cbor_item {2} (head_bytes HImm 2 1 @ [0])"
    using cbor_item.string_item [of 2 HImm "[0]" "{2}"] by (simp add: head_fits_def)
  then have "cbor_item {2} (head_bytes HImm 4 (of_nat (length ?xs)) @ concat ?xs)"
    by (intro cbor_item.array_item) (auto simp: head_fits_def intro: cbor_item.int_item)
  then show ?thesis by (simp add: head_bytes_def)
qed

theorem skip_iff_item_witness: "skip_cbor_item [0x82, 0x18, 0xFF, 0x41, 0x00, 0x07] 0 = Inr 5"
  using skip_iff_item [of "[0x82, 0x18, 0xFF, 0x41, 0x00, 0x07]" 0 5] sample_item by (simp add: span_def)

theorem reassemble_spec_witness:
  "(\<exists>w cs. chunk_array_ok w cs \<and> [0x81, 0x41, 0x09] = chunk_array w cs \<and> [9] = concat (map snd cs)) \<and>
   oversized_array [0x81, 0x58, 0x41]"
proof
  have "reassemble_label_309_value [0x81, 0x41, 0x09] = Inr [9]"
    by (simp add: reassemble_label_309_value_def read_chunks.simps read_head_def get_range_def Let_def
        span_def TRANSPORT_CHUNK_MAX_BYTES_def)
  then show "\<exists>w cs. chunk_array_ok w cs \<and> [0x81, 0x41, 0x09] = chunk_array w cs \<and> [9] = concat (map snd cs)"
    using reassemble_spec [of "[0x81, 0x41, 0x09]"] by simp
  have "\<exists>e. reassemble_label_309_value [0x81, 0x58, 0x41] = Inl e \<and> code e = ChunkTooLarge"
    by (simp add: reassemble_label_309_value_def read_chunks.simps read_head_def get_range_def Let_def
        nat_of_be_def TRANSPORT_CHUNK_MAX_BYTES_def chunk_too_large_def)
  then show "oversized_array [0x81, 0x58, 0x41]"
    using reassemble_spec [of "[0x81, 0x58, 0x41]"] by (auto split: if_splits)
qed
end
