(* ===== verification/Verifier_Ip.thy ===== *)
theory Verifier_Ip
  imports L309_Prelude
begin

text \<open>
  The IP-range blocklist of \<open>src/verifier/fetch.rs\<close>, with the address parsers of the standard library
  (\<open>core::net::parser\<close>) that it and the URL guard use. An IPv4 address is its \<open>u32\<close>, an IPv6 address
  the list of its sixteen octets.

  The main result for IPv4 is \<open>blocked_ipv4_iff\<close>: the table of CIDR strings, once parsed, is a set of
  ranges of the address space.
\<close>

unbundle bit_operations_syntax

type_synonym u32 = "32 word"
type_synonym u16 = "16 word"

datatype IpAddr = V4 u32 | V6 "u8 list"

section \<open>The parsers of the standard library\<close>

text \<open>\<open>Parser::read_number\<close>: at most \<open>max_digits\<close> digits, a value below \<open>limit\<close>.\<close>

definition to_digit :: "nat \<Rightarrow> u8 \<Rightarrow> nat option" where
  "to_digit radix b =
     (let d = (if 0x30 \<le> b \<and> b \<le> 0x39 then unat b - 0x30
               else if 0x41 \<le> b \<and> b \<le> 0x5A then unat b - 0x41 + 10
               else if 0x61 \<le> b \<and> b \<le> 0x7A then unat b - 0x61 + 10
               else 255)
      in if d < radix then Some d else None)"

fun read_digits :: "nat \<Rightarrow> nat \<Rightarrow> nat \<Rightarrow> nat \<Rightarrow> bytes \<Rightarrow> (nat \<times> nat \<times> bytes) option" where
  "read_digits radix max_digits acc digits [] = Some (acc, digits, [])"
| "read_digits radix max_digits acc digits (b # s) =
     (case to_digit radix b of
        None \<Rightarrow> Some (acc, digits, b # s)
      | Some d \<Rightarrow> if digits + 1 > max_digits then None
                  else read_digits radix max_digits (acc * radix + d) (digits + 1) s)"

definition read_number :: "nat \<Rightarrow> nat \<Rightarrow> bool \<Rightarrow> nat \<Rightarrow> bytes \<Rightarrow> (nat \<times> bytes) option" where
  "read_number radix max_digits allow_zero_prefix limit s =
     (let has_leading_zero = (s \<noteq> [] \<and> hd s = 0x30)
      in case read_digits radix max_digits 0 0 s of
           None \<Rightarrow> None
         | Some (n, digits, t) \<Rightarrow>
             if digits = 0 then None
             else if \<not> allow_zero_prefix \<and> has_leading_zero \<and> digits > 1 then None
             else if n < limit then Some (n, t) else None)"

definition read_given_char :: "u8 \<Rightarrow> bytes \<Rightarrow> bytes option" where
  "read_given_char c s = (if s \<noteq> [] \<and> hd s = c then Some (tl s) else None)"

definition read_separator :: "u8 \<Rightarrow> nat \<Rightarrow> (bytes \<Rightarrow> ('a \<times> bytes) option) \<Rightarrow> bytes \<Rightarrow> ('a \<times> bytes) option" where
  "read_separator sep index inner s =
     (if index > 0 then Option.bind (read_given_char sep s) inner else inner s)"

fun read_octets :: "nat \<Rightarrow> nat \<Rightarrow> bytes \<Rightarrow> (u8 list \<times> bytes) option" where
  "read_octets 0 index s = Some ([], s)"
| "read_octets (Suc n) index s =
     Option.bind (read_separator 0x2E index (read_number 10 3 False 256) s) (\<lambda>(d, t).
       Option.bind (read_octets n (index + 1) t) (\<lambda>(ds, u). Some (of_nat d # ds, u)))"

definition read_ipv4_addr :: "bytes \<Rightarrow> (u8 list \<times> bytes) option" where
  "read_ipv4_addr s = read_octets 4 0 s"

function read_groups :: "nat \<Rightarrow> nat \<Rightarrow> bytes \<Rightarrow> u16 list \<times> bool \<times> bytes" where
  "read_groups limit i s =
     (if i \<ge> limit then ([], False, s)
      else case (if i < limit - 1 then read_separator 0x3A i read_ipv4_addr s else None) of
        Some (octets, t) \<Rightarrow>
          ([of_nat (nat_of_be (take 2 octets)), of_nat (nat_of_be (drop 2 octets))], True, t)
      | None \<Rightarrow>
          (case read_separator 0x3A i (read_number 16 4 True 65536) s of
             None \<Rightarrow> ([], False, s)
           | Some (g, t) \<Rightarrow>
               let (gs, ipv4, u) = read_groups limit (i + 1) t in (of_nat g # gs, ipv4, u)))"
  by pat_completeness auto

termination read_groups
  by (relation "measure (\<lambda>(limit, i, s). limit - i)") auto

declare read_groups.simps [simp del]

definition octets_of_groups :: "u16 list \<Rightarrow> u8 list" where
  "octets_of_groups gs = concat (map (\<lambda>g. be_bytes 2 (unat g)) gs)"

definition read_ipv6_addr :: "bytes \<Rightarrow> (u8 list \<times> bytes) option" where
  "read_ipv6_addr s =
     (let (head, head_ipv4, t) = read_groups 8 0 s
      in if length head = 8 then Some (octets_of_groups head, t)
         else if head_ipv4 then None
         else Option.bind (read_given_char 0x3A t) (\<lambda>t. Option.bind (read_given_char 0x3A t) (\<lambda>t.
           let (tail, _, u) = read_groups (8 - (length head + 1)) 0 t
           in Some (octets_of_groups (head @ replicate (8 - length head - length tail) 0 @ tail), u))))"

definition parse_ipv4 :: "bytes \<Rightarrow> u32 option" where
  "parse_ipv4 s =
     (if length s > 15 then None
      else case read_ipv4_addr s of
        Some (octets, []) \<Rightarrow> Some (of_nat (nat_of_be octets))
      | _ \<Rightarrow> None)"

definition parse_ipv6 :: "bytes \<Rightarrow> u8 list option" where
  "parse_ipv6 s = (case read_ipv6_addr s of Some (octets, []) \<Rightarrow> Some octets | _ \<Rightarrow> None)"

definition parse_ip :: "bytes \<Rightarrow> IpAddr option" where
  "parse_ip s =
     (case read_ipv4_addr s of
        Some (octets, t) \<Rightarrow> if t = [] then Some (V4 (of_nat (nat_of_be octets))) else None
      | None \<Rightarrow> map_option V6 (parse_ipv6 s))"

text \<open>\<open>u32::from_str\<close> and \<open>usize::from_str\<close> on the prefix lengths: an optional plus sign, digits.\<close>

definition parse_unsigned :: "nat \<Rightarrow> bytes \<Rightarrow> nat option" where
  "parse_unsigned limit s =
     (let ds = (if s \<noteq> [] \<and> hd s = 0x2B then tl s else s)
      in if ds = [] then None
         else Option.bind (collect_opt (map (to_digit 10) ds)) (\<lambda>ns.
           let n = foldl (\<lambda>n d. n * 10 + d) 0 ns in if n < limit then Some n else None))"

definition split_once :: "u8 \<Rightarrow> bytes \<Rightarrow> (bytes \<times> bytes) option" where
  "split_once c s =
     (if c \<in> set s then Some (takeWhile (\<lambda>b. b \<noteq> c) s, tl (dropWhile (\<lambda>b. b \<noteq> c) s)) else None)"

section \<open>The blocked ranges\<close>

record BlockedRange =
  cidr :: string
  reason :: string

definition BLOCKED_IPV4_RANGES :: "BlockedRange list" where
  "BLOCKED_IPV4_RANGES =
     [\<lparr>cidr = ''0.0.0.0/8'', reason = ''current network / \"this host\"''\<rparr>,
      \<lparr>cidr = ''10.0.0.0/8'', reason = ''RFC 1918 private''\<rparr>,
      \<lparr>cidr = ''100.64.0.0/10'', reason = ''CGNAT (RFC 6598)''\<rparr>,
      \<lparr>cidr = ''127.0.0.0/8'', reason = ''loopback''\<rparr>,
      \<lparr>cidr = ''169.254.0.0/16'', reason = ''link-local (covers AWS/GCE/Azure metadata 169.254.169.254)''\<rparr>,
      \<lparr>cidr = ''172.16.0.0/12'', reason = ''RFC 1918 private''\<rparr>,
      \<lparr>cidr = ''192.0.0.0/24'', reason = ''IETF assignment''\<rparr>,
      \<lparr>cidr = ''192.0.2.0/24'', reason = ''TEST-NET-1 (RFC 5737)''\<rparr>,
      \<lparr>cidr = ''192.168.0.0/16'', reason = ''RFC 1918 private''\<rparr>,
      \<lparr>cidr = ''198.18.0.0/15'', reason = ''benchmarking''\<rparr>,
      \<lparr>cidr = ''198.51.100.0/24'', reason = ''TEST-NET-2 (RFC 5737)''\<rparr>,
      \<lparr>cidr = ''203.0.113.0/24'', reason = ''TEST-NET-3 (RFC 5737)''\<rparr>,
      \<lparr>cidr = ''224.0.0.0/4'', reason = ''multicast''\<rparr>,
      \<lparr>cidr = ''240.0.0.0/4'', reason = ''reserved / future use''\<rparr>,
      \<lparr>cidr = ''255.255.255.255/32'', reason = ''broadcast''\<rparr>]"

definition BLOCKED_IPV6_RANGES :: "BlockedRange list" where
  "BLOCKED_IPV6_RANGES =
     [\<lparr>cidr = ''::/128'', reason = ''unspecified''\<rparr>,
      \<lparr>cidr = ''::1/128'', reason = ''loopback''\<rparr>,
      \<lparr>cidr = ''::ffff:0:0/96'', reason = ''IPv4-mapped IPv6''\<rparr>,
      \<lparr>cidr = ''64:ff9b::/96'', reason = ''IPv4/IPv6 translation''\<rparr>,
      \<lparr>cidr = ''100::/64'', reason = ''discard prefix''\<rparr>,
      \<lparr>cidr = ''2001:db8::/32'', reason = ''documentation''\<rparr>,
      \<lparr>cidr = ''fc00::/7'', reason = ''unique-local (ULA)''\<rparr>,
      \<lparr>cidr = ''fe80::/10'', reason = ''link-local''\<rparr>,
      \<lparr>cidr = ''ff00::/8'', reason = ''multicast''\<rparr>,
      \<lparr>cidr = ''fd00:ec2::/32'', reason = ''AWS IMDS v6''\<rparr>,
      \<lparr>cidr = ''2001:0:0:1::/64'', reason = ''Teredo''\<rparr>,
      \<lparr>cidr = ''2002::/16'', reason = ''6to4''\<rparr>]"

definition ipv4_in_cidr :: "u32 \<Rightarrow> string \<Rightarrow> bool" where
  "ipv4_in_cidr ip_num c =
     (case split_once 0x2F (lit c) of
        None \<Rightarrow> False
      | Some (base, bits_str) \<Rightarrow>
          (case parse_unsigned (2 ^ 32) bits_str of
             None \<Rightarrow> False
           | Some bits \<Rightarrow>
               (case parse_ipv4 base of
                  None \<Rightarrow> False
                | Some base_num \<Rightarrow>
                    if bits = 0 then True
                    else if bits \<ge> 32 then ip_num = base_num
                    else let mask = push_bit (32 - bits) (- 1)
                         in ip_num AND mask = base_num AND mask)))"

text \<open>The octets compared one by one; an index out of range, a panic of the source, needs a prefix
  beyond 128 bits, which no entry of the table has.\<close>

definition ipv6_in_cidr :: "u8 list \<Rightarrow> string \<Rightarrow> bool" where
  "ipv6_in_cidr ip_bytes c =
     (case split_once 0x2F (lit c) of
        None \<Rightarrow> False
      | Some (base, bits_str) \<Rightarrow>
          (case parse_unsigned usize_limit bits_str of
             None \<Rightarrow> False
           | Some bits \<Rightarrow>
               (case parse_ipv6 base of
                  None \<Rightarrow> False
                | Some base_bytes \<Rightarrow>
                    let full_bytes = bits div 8; rem_bits = bits mod 8
                    in if \<not> list_all (\<lambda>i. ip_bytes ! i = base_bytes ! i) [0..<full_bytes] then False
                       else if rem_bits = 0 then True
                       else let mask = push_bit (8 - rem_bits) 0xFF
                            in ip_bytes ! full_bytes AND mask = base_bytes ! full_bytes AND mask)))"

definition is_blocked_ipv4 :: "u32 \<Rightarrow> bool" where
  "is_blocked_ipv4 addr = list_ex (\<lambda>r. ipv4_in_cidr addr (cidr r)) BLOCKED_IPV4_RANGES"

definition is_blocked_ipv6 :: "u8 list \<Rightarrow> bool" where
  "is_blocked_ipv6 octets =
     (if list_all (\<lambda>b. b = 0) (take 10 octets) \<and> octets ! 10 = 0xFF \<and> octets ! 11 = 0xFF then
        (let embedded = of_nat (nat_of_be (drop 12 octets))
         in if is_blocked_ipv4 embedded then True else True)
      else list_ex (\<lambda>r. ipv6_in_cidr octets (cidr r)) BLOCKED_IPV6_RANGES)"

fun is_blocked_ip :: "IpAddr \<Rightarrow> bool" where
  "is_blocked_ip (V4 v4) = is_blocked_ipv4 v4"
| "is_blocked_ip (V6 v6) = is_blocked_ipv6 v6"

section \<open>The ranges of the IPv4 table\<close>

definition cidr_net :: "string \<Rightarrow> (u32 \<times> nat) option" where
  "cidr_net c = Option.bind (split_once 0x2F (lit c)) (\<lambda>(base, bits).
     Option.bind (parse_unsigned (2 ^ 32) bits) (\<lambda>n. map_option (\<lambda>b. (b, n)) (parse_ipv4 base)))"

definition in_net :: "u32 \<Rightarrow> u32 \<times> nat \<Rightarrow> bool" where
  "in_net a net = (case net of (b, n) \<Rightarrow>
     n = 0 \<or> (if n \<ge> 32 then a = b else a AND push_bit (32 - n) (- 1) = b AND push_bit (32 - n) (- 1)))"

lemma ipv4_in_cidr_net:
  "ipv4_in_cidr a c = (case cidr_net c of None \<Rightarrow> False | Some net \<Rightarrow> in_net a net)"
  by (auto simp: ipv4_in_cidr_def cidr_net_def in_net_def Let_def split: option.splits)

definition ipv4_nets :: "(u32 \<times> nat) list" where
  "ipv4_nets = [(0, 8), (0x0A000000, 8), (0x64400000, 10), (0x7F000000, 8), (0xA9FE0000, 16), (0xAC100000, 12),
     (0xC0000000, 24), (0xC0000200, 24), (0xC0A80000, 16), (0xC6120000, 15), (0xC6336400, 24), (0xCB007100, 24),
     (0xE0000000, 4), (0xF0000000, 4), (0xFFFFFFFF, 32)]"

lemma ipv4_table: "map (\<lambda>r. cidr_net (cidr r)) BLOCKED_IPV4_RANGES = map Some ipv4_nets"
proof -
  have "cidr_net ''0.0.0.0/8'' = Some (0, 8)" "cidr_net ''10.0.0.0/8'' = Some (0x0A000000, 8)"
    "cidr_net ''100.64.0.0/10'' = Some (0x64400000, 10)" "cidr_net ''127.0.0.0/8'' = Some (0x7F000000, 8)"
    "cidr_net ''169.254.0.0/16'' = Some (0xA9FE0000, 16)" "cidr_net ''172.16.0.0/12'' = Some (0xAC100000, 12)"
    "cidr_net ''192.0.0.0/24'' = Some (0xC0000000, 24)" "cidr_net ''192.0.2.0/24'' = Some (0xC0000200, 24)"
    "cidr_net ''192.168.0.0/16'' = Some (0xC0A80000, 16)" "cidr_net ''198.18.0.0/15'' = Some (0xC6120000, 15)"
    "cidr_net ''198.51.100.0/24'' = Some (0xC6336400, 24)" "cidr_net ''203.0.113.0/24'' = Some (0xCB007100, 24)"
    "cidr_net ''224.0.0.0/4'' = Some (0xE0000000, 4)" "cidr_net ''240.0.0.0/4'' = Some (0xF0000000, 4)"
    "cidr_net ''255.255.255.255/32'' = Some (0xFFFFFFFF, 32)"
    by code_simp+
  then show ?thesis by (simp add: BLOCKED_IPV4_RANGES_def ipv4_nets_def)
qed

lemma list_ex_map: "list_ex P (map f xs) = list_ex (\<lambda>x. P (f x)) xs"
  by (induction xs) auto

lemma is_blocked_ipv4_nets: "is_blocked_ipv4 a = list_ex (in_net a) ipv4_nets"
proof -
  have "is_blocked_ipv4 a = list_ex (\<lambda>n. case n of None \<Rightarrow> False | Some net \<Rightarrow> in_net a net)
      (map (\<lambda>r. cidr_net (cidr r)) BLOCKED_IPV4_RANGES)"
    by (simp add: is_blocked_ipv4_def ipv4_in_cidr_net list_ex_map)
  then show ?thesis by (simp add: ipv4_table list_ex_map)
qed

lemma mask_eq_div:
  "a AND push_bit k (- 1) = b AND push_bit k (- 1) \<longleftrightarrow> unat a div 2 ^ k = unat b div 2 ^ k"
  for a b :: "'a :: len word"
proof -
  have "a AND push_bit k (- 1) = b AND push_bit k (- 1) \<longleftrightarrow> drop_bit k a = drop_bit k b"
  proof
    assume e: "a AND push_bit k (- 1) = b AND push_bit k (- 1)"
    have "drop_bit k x = drop_bit k (x AND push_bit k (- 1))" for x :: "'a word"
      by (rule bit_word_eqI) (auto simp: bit_simps dest: bit_imp_le_length)
    then show "drop_bit k a = drop_bit k b" using e by metis
  next
    assume e: "drop_bit k a = drop_bit k b"
    have "x AND push_bit k (- 1) = push_bit k (drop_bit k x)" for x :: "'a word"
      by (rule bit_word_eqI) (auto simp: bit_simps)
    then show "a AND push_bit k (- 1) = b AND push_bit k (- 1)" using e by simp
  qed
  also have "\<dots> \<longleftrightarrow> unat (drop_bit k a) = unat (drop_bit k b)" by (simp add: word_unat_eq_iff)
  also have "\<dots> \<longleftrightarrow> unat a div 2 ^ k = unat b div 2 ^ k"
  proof -
    have "unat (drop_bit k x) = unat x div 2 ^ k" for x :: "'a word"
      using unsigned_less [of x, where ?'a = nat]
      by (subst unsigned_drop_bit_eq, subst take_bit_nat_eq_self) (simp_all only: drop_bit_eq_div)
    then show ?thesis by simp
  qed
  finally show ?thesis .
qed

lemma in_net_range:
  assumes "0 < n" "n \<le> 32" "2 ^ (32 - n) dvd unat b"
  shows "in_net a (b, n) \<longleftrightarrow> unat b \<le> unat a \<and> unat a \<le> unat b + (2 ^ (32 - n) - 1)"
proof -
  obtain q where q: "unat b = 2 ^ (32 - n) * q" using assms(3) by blast
  have "in_net a (b, n) \<longleftrightarrow> unat a div 2 ^ (32 - n) = unat b div 2 ^ (32 - n)"
    using assms(1,2) unfolding in_net_def prod.case mask_eq_div
    by (cases "n = 32") (auto simp: word_unat_eq_iff)
  also have "\<dots> \<longleftrightarrow> unat a div 2 ^ (32 - n) = q" by (simp add: q)
  also have "\<dots> \<longleftrightarrow> q * 2 ^ (32 - n) \<le> unat a \<and> unat a < (q + 1) * 2 ^ (32 - n)"
    using dividend_less_div_times [of "2 ^ (32 - n)" "unat a"] div_times_less_eq_dividend [of "unat a" "2 ^ (32 - n)"]
    by (auto simp: div_nat_eqI algebra_simps)
  also have "\<dots> \<longleftrightarrow> unat b \<le> unat a \<and> unat a \<le> unat b + (2 ^ (32 - n) - 1)"
  proof -
    have "(q + 1) * 2 ^ (32 - n) = Suc (unat b + (2 ^ (32 - n) - 1))" by (simp add: q algebra_simps)
    then show ?thesis by (simp only: less_Suc_eq_le) (simp add: q mult.commute)
  qed
  finally show ?thesis .
qed

definition dotted :: "nat \<Rightarrow> nat \<Rightarrow> nat \<Rightarrow> nat \<Rightarrow> nat" where
  "dotted a b c d = ((a * 256 + b) * 256 + c) * 256 + d"

text \<open>The special-purpose ranges, first and last address.\<close>

definition special_ipv4 :: "(nat \<times> nat) list" where
  "special_ipv4 =
     [(dotted 0 0 0 0, dotted 0 255 255 255), (dotted 10 0 0 0, dotted 10 255 255 255),
      (dotted 100 64 0 0, dotted 100 127 255 255), (dotted 127 0 0 0, dotted 127 255 255 255),
      (dotted 169 254 0 0, dotted 169 254 255 255), (dotted 172 16 0 0, dotted 172 31 255 255),
      (dotted 192 0 0 0, dotted 192 0 0 255), (dotted 192 0 2 0, dotted 192 0 2 255),
      (dotted 192 168 0 0, dotted 192 168 255 255), (dotted 198 18 0 0, dotted 198 19 255 255),
      (dotted 198 51 100 0, dotted 198 51 100 255), (dotted 203 0 113 0, dotted 203 0 113 255),
      (dotted 224 0 0 0, dotted 239 255 255 255), (dotted 240 0 0 0, dotted 255 255 255 255),
      (dotted 255 255 255 255, dotted 255 255 255 255)]"

definition special_address :: "u32 \<Rightarrow> bool" where
  "special_address a \<longleftrightarrow> list_ex (\<lambda>(lo, hi). lo \<le> unat a \<and> unat a \<le> hi) special_ipv4"

lemma blocked_ipv4_special: "is_blocked_ipv4 a = special_address a"
  unfolding is_blocked_ipv4_nets special_address_def special_ipv4_def ipv4_nets_def
  by (simp add: in_net_range dotted_def)

section \<open>The prefixes of the IPv6 table\<close>

definition cidr_net6 :: "string \<Rightarrow> (u8 list \<times> nat) option" where
  "cidr_net6 c = Option.bind (split_once 0x2F (lit c)) (\<lambda>(base, bits).
     Option.bind (parse_unsigned usize_limit bits) (\<lambda>n. map_option (\<lambda>b. (b, n)) (parse_ipv6 base)))"

definition in_net6 :: "u8 list \<Rightarrow> u8 list \<times> nat \<Rightarrow> bool" where
  "in_net6 a net = (case net of (b, n) \<Rightarrow>
     list_all (\<lambda>i. a ! i = b ! i) [0..<n div 8] \<and>
     (n mod 8 = 0 \<or> a ! (n div 8) AND push_bit (8 - n mod 8) 0xFF = b ! (n div 8) AND push_bit (8 - n mod 8) 0xFF))"

lemma ipv6_in_cidr_net:
  "ipv6_in_cidr a c = (case cidr_net6 c of None \<Rightarrow> False | Some net \<Rightarrow> in_net6 a net)"
  by (auto simp: ipv6_in_cidr_def cidr_net6_def in_net6_def Let_def split: option.splits)

definition ipv6_nets :: "(u8 list \<times> nat) list" where
  "ipv6_nets =
     [(replicate 16 0, 128), (replicate 15 0 @ [1], 128), (replicate 10 0 @ [0xFF, 0xFF, 0, 0, 0, 0], 96),
      ([0, 0x64, 0xFF, 0x9B] @ replicate 12 0, 96), ([1, 0] @ replicate 14 0, 64),
      ([0x20, 0x01, 0x0D, 0xB8] @ replicate 12 0, 32), (0xFC # replicate 15 0, 7),
      (0xFE # 0x80 # replicate 14 0, 10), (0xFF # replicate 15 0, 8),
      ([0xFD, 0, 0x0E, 0xC2] @ replicate 12 0, 32),
      ([0x20, 0x01, 0, 0, 0, 0, 0, 1] @ replicate 8 0, 64), ([0x20, 0x02] @ replicate 14 0, 16)]"

lemma ipv6_table: "map (\<lambda>r. cidr_net6 (cidr r)) BLOCKED_IPV6_RANGES = map Some ipv6_nets"
proof -
  have "cidr_net6 ''::/128'' = Some (replicate 16 0, 128)" "cidr_net6 ''::1/128'' = Some (replicate 15 0 @ [1], 128)"
    "cidr_net6 ''::ffff:0:0/96'' = Some (replicate 10 0 @ [0xFF, 0xFF, 0, 0, 0, 0], 96)"
    "cidr_net6 ''64:ff9b::/96'' = Some ([0, 0x64, 0xFF, 0x9B] @ replicate 12 0, 96)"
    "cidr_net6 ''100::/64'' = Some ([1, 0] @ replicate 14 0, 64)"
    "cidr_net6 ''2001:db8::/32'' = Some ([0x20, 0x01, 0x0D, 0xB8] @ replicate 12 0, 32)"
    "cidr_net6 ''fc00::/7'' = Some (0xFC # replicate 15 0, 7)"
    "cidr_net6 ''fe80::/10'' = Some (0xFE # 0x80 # replicate 14 0, 10)"
    "cidr_net6 ''ff00::/8'' = Some (0xFF # replicate 15 0, 8)"
    "cidr_net6 ''fd00:ec2::/32'' = Some ([0xFD, 0, 0x0E, 0xC2] @ replicate 12 0, 32)"
    "cidr_net6 ''2001:0:0:1::/64'' = Some ([0x20, 0x01, 0, 0, 0, 0, 0, 1] @ replicate 8 0, 64)"
    "cidr_net6 ''2002::/16'' = Some ([0x20, 0x02] @ replicate 14 0, 16)"
    by code_simp+
  then show ?thesis by (simp add: BLOCKED_IPV6_RANGES_def ipv6_nets_def)
qed

lemma list_ex_ipv6: "list_ex (\<lambda>r. ipv6_in_cidr a (cidr r)) BLOCKED_IPV6_RANGES = list_ex (in_net6 a) ipv6_nets"
proof -
  have "list_ex (\<lambda>r. ipv6_in_cidr a (cidr r)) BLOCKED_IPV6_RANGES =
      list_ex (\<lambda>n. case n of None \<Rightarrow> False | Some net \<Rightarrow> in_net6 a net)
      (map (\<lambda>r. cidr_net6 (cidr r)) BLOCKED_IPV6_RANGES)"
    by (simp add: ipv6_in_cidr_net list_ex_map)
  then show ?thesis by (simp add: ipv6_table list_ex_map)
qed

text \<open>
  The special-purpose prefixes as the table has them: unspecified, loopback, IPv4-mapped, NAT64,
  discard, documentation, unique-local, link-local, multicast, one /64 beside the Teredo prefix, 6to4.
  The entry for the metadata service (fd00:ec2::/32) lies in the unique-local range.
\<close>

definition special_address6 :: "u8 list \<Rightarrow> bool" where
  "special_address6 a \<longleftrightarrow>
     a = replicate 16 0 \<or> a = replicate 15 0 @ [1] \<or>
     take 12 a = replicate 10 0 @ [0xFF, 0xFF] \<or>
     take 12 a = [0, 0x64, 0xFF, 0x9B] @ replicate 8 0 \<or>
     take 8 a = 1 # replicate 7 0 \<or>
     take 4 a = [0x20, 0x01, 0x0D, 0xB8] \<or>
     a ! 0 AND 0xFE = 0xFC \<or>
     a ! 0 = 0xFE \<and> a ! 1 AND 0xC0 = 0x80 \<or>
     a ! 0 = 0xFF \<or>
     take 8 a = [0x20, 0x01, 0, 0, 0, 0, 0, 1] \<or>
     take 2 a = [0x20, 0x02]"

lemma in_net6_bytes:
  assumes "length a = 16" "length b = 16" "k \<le> 16"
  shows "in_net6 a (b, 8 * k) \<longleftrightarrow> take k a = take k b"
proof -
  have "in_net6 a (b, 8 * k) \<longleftrightarrow> (\<forall>i<k. a ! i = b ! i)"
    by (auto simp: in_net6_def list_all_iff)
  also have "\<dots> \<longleftrightarrow> take k a = take k b"
  proof
    assume "\<forall>i<k. a ! i = b ! i"
    then show "take k a = take k b" using assms by (intro nth_equalityI) auto
  next
    assume "take k a = take k b"
    then show "\<forall>i<k. a ! i = b ! i" by (metis nth_take)
  qed
  finally show ?thesis .
qed

lemma mask_u8: "(510 :: u8) = 254" "(8128 :: u8) = 192"
  by simp_all

lemma in_net6_ula: "in_net6 a (0xFC # replicate 15 0, 7) \<longleftrightarrow> a ! 0 AND 0xFE = 0xFC"
  by (simp add: in_net6_def mask_u8)

lemma in_net6_link_local: "in_net6 a (0xFE # 0x80 # replicate 14 0, 10) \<longleftrightarrow> a ! 0 = 0xFE \<and> a ! 1 AND 0xC0 = 0x80"
  by (simp add: in_net6_def mask_u8)

lemma nets6_special:
  assumes "length a = 16"
  shows "list_ex (in_net6 a) ipv6_nets = special_address6 a"
proof -
  note eq = in_net6_bytes [OF assms]
  have 1: "in_net6 a (replicate 16 0, 128) \<longleftrightarrow> a = replicate 16 0"
    "in_net6 a (replicate 15 0 @ [1], 128) \<longleftrightarrow> a = replicate 15 0 @ [1]"
    using eq [of "replicate 16 0" 16] eq [of "replicate 15 0 @ [1]" 16] assms by simp_all
  have 2: "in_net6 a (replicate 10 0 @ [0xFF, 0xFF, 0, 0, 0, 0], 96) \<longleftrightarrow> take 12 a = replicate 10 0 @ [0xFF, 0xFF]"
    "in_net6 a ([0, 0x64, 0xFF, 0x9B] @ replicate 12 0, 96) \<longleftrightarrow> take 12 a = [0, 0x64, 0xFF, 0x9B] @ replicate 8 0"
    using eq [of "replicate 10 0 @ [0xFF, 0xFF, 0, 0, 0, 0]" 12] eq [of "[0, 0x64, 0xFF, 0x9B] @ replicate 12 0" 12]
    by simp_all
  have 3: "in_net6 a ([1, 0] @ replicate 14 0, 64) \<longleftrightarrow> take 8 a = 1 # replicate 7 0"
    "in_net6 a ([0x20, 0x01, 0, 0, 0, 0, 0, 1] @ replicate 8 0, 64) \<longleftrightarrow> take 8 a = [0x20, 0x01, 0, 0, 0, 0, 0, 1]"
    using eq [of "[1, 0] @ replicate 14 0" 8] eq [of "[0x20, 0x01, 0, 0, 0, 0, 0, 1] @ replicate 8 0" 8]
    by (simp_all add: numeral_eq_Suc)
  have 4: "in_net6 a ([0x20, 0x01, 0x0D, 0xB8] @ replicate 12 0, 32) \<longleftrightarrow> take 4 a = [0x20, 0x01, 0x0D, 0xB8]"
    "in_net6 a ([0xFD, 0, 0x0E, 0xC2] @ replicate 12 0, 32) \<longleftrightarrow> take 4 a = [0xFD, 0, 0x0E, 0xC2]"
    using eq [of "[0x20, 0x01, 0x0D, 0xB8] @ replicate 12 0" 4] eq [of "[0xFD, 0, 0x0E, 0xC2] @ replicate 12 0" 4]
    by simp_all
  have 5: "in_net6 a (0xFF # replicate 15 0, 8) \<longleftrightarrow> a ! 0 = 0xFF"
    "in_net6 a ([0x20, 0x02] @ replicate 14 0, 16) \<longleftrightarrow> take 2 a = [0x20, 0x02]"
    using eq [of "0xFF # replicate 15 0" 1] eq [of "[0x20, 0x02] @ replicate 14 0" 2] assms
    by (cases a; simp)+
  have imds: "take 4 a = [0xFD, 0, 0x0E, 0xC2] \<Longrightarrow> a ! 0 AND 0xFE = 0xFC"
    by (cases a) (auto simp: numeral_eq_Suc)
  show ?thesis
    unfolding ipv6_nets_def list_ex_Cons_iff list_ex_Nil_iff 1 2 3 4 5 in_net6_ula in_net6_link_local special_address6_def
    using imds by blast
qed

lemma blocked_ipv6_special: "length a = 16 \<Longrightarrow> is_blocked_ipv6 a = special_address6 a"
proof -
  assume l: "length a = 16"
  show ?thesis
  proof (cases "list_all (\<lambda>b. b = 0) (take 10 a) \<and> a ! 10 = 0xFF \<and> a ! 11 = 0xFF")
    case True
    then have "take 10 a = replicate 10 0" using l by (intro replicate_eqI) (auto simp: list_all_iff)
    moreover have "take 12 a = take 10 a @ [a ! 10, a ! 11]"
      using l by (simp add: take_Suc_conv_app_nth numeral_eq_Suc)
    ultimately have "special_address6 a" using True by (simp add: special_address6_def)
    moreover have "is_blocked_ipv6 a" using True by (simp add: is_blocked_ipv6_def Let_def)
    ultimately show ?thesis by simp
  next
    case False
    then show ?thesis by (simp only: is_blocked_ipv6_def list_ex_ipv6 nets6_special [OF l] if_False)
  qed
qed
end
