(* ===== verification/Verifier_Egress.thy ===== *)
theory Verifier_Egress
  imports Client_Http Verifier_Walker Verifier_Ip
begin

text \<open>
  The outbound egress of \<open>src/verifier/fetch.rs\<close>: deny-host matching, the redirect decision, the
  policy wrapper with its retries and audit trail, and the guard of user-supplied URLs.

  What the code takes from outside is a field of \<open>egress_lib\<close> or an argument: \<open>url_parse\<close> is
  \<open>url::Url::parse\<close> of the crate \<open>url\<close>, as the pair of scheme and host; \<open>to_lowercase\<close> is Rust's, whose
  Unicode tables are not modelled (\<open>lowercase_laws\<close> states it on ASCII); the transport is a function
  on a state of its own, the resolver a function of the host. The product of a backoff base with the
  jitter is a floating-point number; a sleep is recorded as the base and the attempt index instead.
\<close>

record ParsedUrl =
  scheme :: rstring
  host_str :: "rstring option"

record egress_lib =
  to_lowercase :: "rstring \<Rightarrow> rstring"
  url_parse :: "rstring \<Rightarrow> ParsedUrl option"

section \<open>Constants and options\<close>

definition DENY_HOSTS_DEFAULT :: "rstring list" where
  "DENY_HOSTS_DEFAULT = [lit ''localhost'', lit ''127.0.0.1'']"

definition DEFAULT_RETRYABLE_STATUSES :: "nat list" where
  "DEFAULT_RETRYABLE_STATUSES = [502, 503, 504]"

definition BACKOFF_BASE_MS :: "nat list" where
  "BACKOFF_BASE_MS = [1000, 2000, 4000]"

definition GATEWAY_REDIRECT_MAX_HOPS :: nat where
  "GATEWAY_REDIRECT_MAX_HOPS = 3"

datatype HttpPurpose = Cardano | Arweave | Ipfs | Https | Webhook

fun purpose_str :: "HttpPurpose \<Rightarrow> string" where
  "purpose_str Cardano = ''cardano''"
| "purpose_str Arweave = ''arweave''"
| "purpose_str Ipfs = ''ipfs''"
| "purpose_str Https = ''https''"
| "purpose_str Webhook = ''webhook''"

fun method_str :: "HttpMethod \<Rightarrow> string" where
  "method_str Get = ''GET''"
| "method_str Post = ''POST''"
| "method_str Put = ''PUT''"
| "method_str Delete = ''DELETE''"

record FetchOutboundOptions =
  op_method :: HttpMethod
  op_purpose :: HttpPurpose
  op_headers :: headers
  op_body :: "rstring option"
  op_max_bytes :: "u64 option"

definition fetch_options :: "HttpMethod \<Rightarrow> HttpPurpose \<Rightarrow> FetchOutboundOptions" where
  "fetch_options method purpose =
     \<lparr>op_method = method, op_purpose = purpose, op_headers = [], op_body = None, op_max_bytes = None\<rparr>"

record FetchOutboundResult =
  fr_status :: nat
  fr_bytes :: bytes
  fr_duration_ms :: nat

record HttpCallRecord =
  hc_url :: rstring
  hc_method :: HttpMethod
  hc_status :: "nat option"
  hc_bytes :: nat
  hc_duration_ms :: nat
  hc_purpose :: HttpPurpose

record RetryConfig =
  retries :: u32
  retryable_statuses :: "nat list"

record WrapFetchOutboundConfig =
  deny_hosts :: "rstring list"
  retry :: RetryConfig

section \<open>Errors\<close>

datatype OutboundError =
    DenyHost rstring rstring
  | UnsupportedProtocol rstring rstring
  | UnsupportedMethod rstring rstring
  | BodyTooLarge rstring nat
  | WebhookPurposeRejected rstring
  | Exhausted rstring nat "nat option" "rstring option"
  | Transport rstring rstring

fun outbound_code :: "OutboundError \<Rightarrow> string" where
  "outbound_code (DenyHost _ _) = ''SERVICE_INDEPENDENCE_VIOLATION''"
| "outbound_code (UnsupportedProtocol _ _) = ''UNSUPPORTED_PROTOCOL''"
| "outbound_code (UnsupportedMethod _ _) = ''UNSUPPORTED_METHOD''"
| "outbound_code (BodyTooLarge _ _) = ''OUTBOUND_BODY_TOO_LARGE''"
| "outbound_code (WebhookPurposeRejected _) = ''WEBHOOK_PURPOSE_REJECTED''"
| "outbound_code (Exhausted _ _ _ _) = ''OUTBOUND_EXHAUSTED''"
| "outbound_code (Transport _ _) = ''OUTBOUND_TRANSPORT''"

fun is_preflight :: "OutboundError \<Rightarrow> bool" where
  "is_preflight (DenyHost _ _) = True"
| "is_preflight (UnsupportedProtocol _ _) = True"
| "is_preflight (UnsupportedMethod _ _) = True"
| "is_preflight (WebhookPurposeRejected _) = True"
| "is_preflight _ = False"

text \<open>The messages of \<open>#[error(...)]\<close>.\<close>

fun outbound_display :: "OutboundError \<Rightarrow> rstring" where
  "outbound_display (DenyHost host url) =
     lit ''SERVICE_INDEPENDENCE_VIOLATION: host \"'' @ host @ lit ''\" is in denyHosts (url='' @ url @ lit '')''"
| "outbound_display (UnsupportedProtocol protocol url) =
     lit ''UNSUPPORTED_PROTOCOL: \"'' @ protocol @ lit ''\" not in {http:, https:} (url='' @ url @ lit '')''"
| "outbound_display (UnsupportedMethod method url) =
     lit ''UNSUPPORTED_METHOD: \"'' @ method @ lit ''\" not in {GET, POST} (url='' @ url @ lit '')''"
| "outbound_display (BodyTooLarge url limit_bytes) =
     lit ''OUTBOUND_BODY_TOO_LARGE: response exceeded '' @ lit (show_nat limit_bytes) @ lit '' bytes (url='' @
     url @ lit '')''"
| "outbound_display (WebhookPurposeRejected url) =
     lit ''webhook purpose rejected: user-supplied URLs must go through assert_webhook_url_safe plus a pinned connection, not the generic fetch_outbound (url='' @ url @ lit '')''"
| "outbound_display (Exhausted url attempts last_status last_error) =
     lit ''OUTBOUND_EXHAUSTED: '' @ lit (show_nat attempts) @ lit '' attempts exhausted (url='' @ url @
     lit '', lastStatus='' @ (case last_status of None \<Rightarrow> lit ''-'' | Some s \<Rightarrow> lit (show_nat s)) @ lit '')''"
| "outbound_display (Transport url m) = lit ''OUTBOUND_TRANSPORT: '' @ m @ lit '' (url='' @ url @ lit '')''"

section \<open>Deny-host matching\<close>

definition strip_first :: "u8 \<Rightarrow> rstring \<Rightarrow> rstring" where
  "strip_first c s = (if s \<noteq> [] \<and> hd s = c then tl s else s)"

definition strip_final :: "u8 \<Rightarrow> rstring \<Rightarrow> rstring" where
  "strip_final c s = (if s \<noteq> [] \<and> List.last s = c then butlast s else s)"

definition canonicalise_host :: "egress_lib \<Rightarrow> rstring \<Rightarrow> rstring" where
  "canonicalise_host L host =
     (let h = strip_first 0x5B host; h = strip_final 0x5D h; h = strip_final 0x2E h in to_lowercase L h)"

text \<open>\<open>str::split\<close>: the parts between the separators.\<close>

fun split_at :: "u8 \<Rightarrow> rstring \<Rightarrow> rstring list" where
  "split_at c [] = [[]]"
| "split_at c (b # s) = (if b = c then [] # split_at c s else (b # hd (split_at c s)) # tl (split_at c s))"

definition is_loopback_127 :: "rstring \<Rightarrow> bool" where
  "is_loopback_127 host =
     (let octets = split_at 0x2E host
      in if length octets \<noteq> 4 \<or> octets ! 0 \<noteq> lit ''127'' then False
         else list_all (\<lambda>o'. o' \<noteq> [] \<and> length o' \<le> 3 \<and> list_all (\<lambda>b. 0x30 \<le> b \<and> b \<le> 0x39) o') octets)"

definition trim_end_dots :: "rstring \<Rightarrow> rstring" where
  "trim_end_dots s = rev (dropWhile (\<lambda>b. b = 0x2E) (rev s))"

definition ends_with :: "rstring \<Rightarrow> rstring \<Rightarrow> bool" where
  "ends_with s t \<longleftrightarrow> length t \<le> length s \<and> drop (length s - length t) s = t"

definition deny_entry :: "egress_lib \<Rightarrow> rstring \<Rightarrow> rstring \<Rightarrow> bool" where
  "deny_entry L h raw =
     (let pattern = to_lowercase L (trim_end_dots raw)
      in if take 2 pattern = lit ''*.'' then ends_with h (lit ''.'' @ drop 2 pattern)
         else if h = pattern then True
         else if pattern = lit ''localhost'' \<and>
           (h = lit ''::1'' \<or> h = lit ''0.0.0.0'' \<or> h = lit ''169.254.169.254'') then True
         else pattern = lit ''127.0.0.1'' \<and> is_loopback_127 h)"

definition matches_deny_list :: "egress_lib \<Rightarrow> rstring \<Rightarrow> rstring list \<Rightarrow> bool" where
  "matches_deny_list L host hosts =
     (let h = canonicalise_host L host in list_ex (deny_entry L h) hosts)"

section \<open>URLs and redirects\<close>

definition parse_protocol :: "egress_lib \<Rightarrow> rstring \<Rightarrow> rstring option" where
  "parse_protocol L url = map_option (\<lambda>p. to_lowercase L (scheme p) @ lit '':'') (url_parse L url)"

definition parse_hostname :: "egress_lib \<Rightarrow> rstring \<Rightarrow> rstring option" where
  "parse_hostname L url = Option.bind (url_parse L url) host_str"

definition is_allowed_protocol :: "egress_lib \<Rightarrow> rstring \<Rightarrow> bool" where
  "is_allowed_protocol L url \<longleftrightarrow>
     parse_protocol L url = Some (lit ''http:'') \<or> parse_protocol L url = Some (lit ''https:'')"

definition gateway_redirect_allowed ::
    "egress_lib \<Rightarrow> rstring option \<Rightarrow> rstring \<Rightarrow> nat \<Rightarrow> rstring list \<Rightarrow> bool" where
  "gateway_redirect_allowed L origin target hop_count caller_deny_hosts =
     (if hop_count > GATEWAY_REDIRECT_MAX_HOPS then False
      else case Option.bind origin (parse_hostname L) of
        None \<Rightarrow> False
      | Some gw_host \<Rightarrow>
          (let gw_host = canonicalise_host L gw_host
           in if parse_protocol L target \<noteq> Some (lit ''https:'') then False
              else case parse_hostname L target of
                None \<Rightarrow> False
              | Some target_host \<Rightarrow>
                  (let target_host = canonicalise_host L target_host;
                       same_domain = (target_host = gw_host \<or> ends_with target_host (lit ''.'' @ gw_host))
                   in if \<not> same_domain then False
                      else \<not> matches_deny_list L target_host DENY_HOSTS_DEFAULT \<and>
                           \<not> matches_deny_list L target_host caller_deny_hosts)))"

section \<open>The policy wrapper\<close>

definition preflight_row :: "rstring \<Rightarrow> HttpPurpose \<Rightarrow> HttpCallRecord" where
  "preflight_row url purpose =
     \<lparr>hc_url = url, hc_method = Get, hc_status = None, hc_bytes = 0, hc_duration_ms = 0, hc_purpose = purpose\<rparr>"

definition failed_row :: "rstring \<Rightarrow> FetchOutboundOptions \<Rightarrow> HttpCallRecord" where
  "failed_row url opts = \<lparr>hc_url = url, hc_method = op_method opts, hc_status = None, hc_bytes = 0,
     hc_duration_ms = 0, hc_purpose = op_purpose opts\<rparr>"

definition result_row :: "rstring \<Rightarrow> FetchOutboundOptions \<Rightarrow> FetchOutboundResult \<Rightarrow> HttpCallRecord" where
  "result_row url opts r = \<lparr>hc_url = url, hc_method = op_method opts, hc_status = Some (fr_status r),
     hc_bytes = length (fr_bytes r), hc_duration_ms = fr_duration_ms r, hc_purpose = op_purpose opts\<rparr>"

text \<open>A sleep is the base delay and the attempt index that the jitter is asked for.\<close>

definition backoff :: "nat \<Rightarrow> nat \<times> nat" where
  "backoff attempt_index =
     (BACKOFF_BASE_MS ! min attempt_index (length BACKOFF_BASE_MS - 1), attempt_index)"

type_synonym 's transport =
  "'s \<Rightarrow> rstring \<Rightarrow> FetchOutboundOptions \<Rightarrow> (OutboundError + FetchOutboundResult) \<times> 's"

record 's egress =
  audit :: "HttpCallRecord list"
  slept :: "(nat \<times> nat) list"
  net :: 's

definition exhausted :: "RetryConfig \<Rightarrow> rstring \<Rightarrow> nat \<Rightarrow> nat option \<Rightarrow> OutboundError option \<Rightarrow> OutboundError" where
  "exhausted cfg url total_attempts last_status last_error =
     (if retries cfg = 0 \<and> last_error \<noteq> None then the last_error
      else Exhausted url total_attempts last_status (map_option outbound_display last_error))"

text \<open>The attempts from number \<open>attempt\<close> on, of \<open>total_attempts\<close>.\<close>

function attempts :: "'s transport \<Rightarrow> RetryConfig \<Rightarrow> rstring \<Rightarrow> FetchOutboundOptions \<Rightarrow> nat \<Rightarrow> nat \<Rightarrow>
    nat option \<Rightarrow> OutboundError option \<Rightarrow> 's egress \<Rightarrow> (OutboundError + FetchOutboundResult) \<times> 's egress" where
  "attempts fetch cfg url opts total_attempts attempt last_status last_error e =
     (if attempt > total_attempts then (Inl (exhausted cfg url total_attempts last_status last_error), e)
      else
        let (res, s) = fetch (net e) url opts; e = e\<lparr>net := s\<rparr>
        in case res of
          Inr result \<Rightarrow>
            (let e = e\<lparr>audit := audit e @ [result_row url opts result]\<rparr>
             in if fr_status result \<in> set (retryable_statuses cfg) \<and> retries cfg > 0 then
                  (if attempt < total_attempts then
                     attempts fetch cfg url opts total_attempts (attempt + 1) (Some (fr_status result)) last_error
                       (e\<lparr>slept := slept e @ [backoff (attempt - 1)]\<rparr>)
                   else (Inl (exhausted cfg url total_attempts (Some (fr_status result)) last_error), e))
                else (Inr result, e))
        | Inl err \<Rightarrow>
            (if is_preflight err then
               (Inl err, e\<lparr>audit := audit e @ [preflight_row url (op_purpose opts)]\<rparr>)
             else
               let e = e\<lparr>audit := audit e @ [failed_row url opts]\<rparr>
               in if attempt < total_attempts then
                    attempts fetch cfg url opts total_attempts (attempt + 1) last_status (Some err)
                      (e\<lparr>slept := slept e @ [backoff (attempt - 1)]\<rparr>)
                  else (Inl (exhausted cfg url total_attempts last_status (Some err)), e)))"
  by pat_completeness auto

termination attempts
  by (relation "measure (\<lambda>(_, _, _, _, t, a, _). Suc t - a)") auto

declare attempts.simps [simp del]

text \<open>\<open>retries + 1\<close> is a \<open>u32\<close>: it wraps in a release build at the largest value.\<close>

definition wrap_fetch_outbound :: "egress_lib \<Rightarrow> 's transport \<Rightarrow> WrapFetchOutboundConfig \<Rightarrow> rstring \<Rightarrow>
    FetchOutboundOptions \<Rightarrow> 's egress \<Rightarrow> (OutboundError + FetchOutboundResult) \<times> 's egress" where
  "wrap_fetch_outbound L fetch config url opts e =
     (let push = \<lambda>row. e\<lparr>audit := audit e @ [row]\<rparr>
      in if op_purpose opts = Webhook then
           (Inl (WebhookPurposeRejected url), push (preflight_row url Webhook))
         else if \<not> is_allowed_protocol L url then
           (Inl (UnsupportedProtocol (case parse_protocol L url of None \<Rightarrow> [] | Some p \<Rightarrow> p) url),
            push (preflight_row url (op_purpose opts)))
         else
           let host = (case parse_hostname L url of None \<Rightarrow> [] | Some h \<Rightarrow> h)
           in if deny_hosts config \<noteq> [] \<and> matches_deny_list L host (deny_hosts config) then
                (Inl (DenyHost (canonicalise_host L host) url), push (failed_row url opts))
              else attempts fetch (retry config) url opts (unat (retries (retry config) + 1)) 1 None None e)"

definition parse_http_method :: "rstring \<Rightarrow> rstring \<Rightarrow> OutboundError + HttpMethod" where
  "parse_http_method method url =
     (if method = lit ''GET'' then Inr Get
      else if method = lit ''POST'' then Inr Post
      else if method = lit ''PUT'' then Inr Put
      else if method = lit ''DELETE'' then Inr Delete
      else Inl (UnsupportedMethod method url))"

section \<open>The guard of user-supplied URLs\<close>

datatype WebhookUrlUnsafeReason =
  InvalidUrl | UnsafeProtocol | DnsResolutionFailed | BlockedIpRange | NoDnsRecords

fun reason_str :: "WebhookUrlUnsafeReason \<Rightarrow> string" where
  "reason_str InvalidUrl = ''invalid-url''"
| "reason_str UnsafeProtocol = ''unsupported-protocol''"
| "reason_str DnsResolutionFailed = ''dns-resolution-failed''"
| "reason_str BlockedIpRange = ''blocked-ip-range''"
| "reason_str NoDnsRecords = ''no-dns-records''"

text \<open>The address of a blocked range is kept as such; the source prints it.\<close>

record WebhookUrlUnsafeError =
  un_reason :: WebhookUrlUnsafeReason
  un_url :: rstring
  un_hostname :: rstring
  un_resolved_ip :: "IpAddr option"

record ResolvedRecord =
  rr_address :: IpAddr
  rr_family :: u8

type_synonym resolver = "rstring \<Rightarrow> rstring + ResolvedRecord list"

record AssertWebhookUrlSafeOptions =
  allow_http_scheme :: bool
  allow_private_for_tests :: bool
  resolve_host :: resolver

record AssertWebhookUrlSafeResult =
  sf_resolved_ip :: IpAddr
  sf_family :: u8
  sf_hostname :: rstring

definition looks_like_ip_literal :: "rstring \<Rightarrow> bool" where
  "looks_like_ip_literal host \<longleftrightarrow> parse_ipv4 host \<noteq> None \<or> 0x3A \<in> set host"

definition unsafe :: "WebhookUrlUnsafeReason \<Rightarrow> rstring \<Rightarrow> rstring \<Rightarrow> IpAddr option \<Rightarrow> WebhookUrlUnsafeError" where
  "unsafe r url hostname ip = \<lparr>un_reason = r, un_url = url, un_hostname = hostname, un_resolved_ip = ip\<rparr>"

definition resolve_records ::
    "AssertWebhookUrlSafeOptions \<Rightarrow> rstring \<Rightarrow> rstring \<Rightarrow> WebhookUrlUnsafeError + ResolvedRecord list" where
  "resolve_records opts url hostname =
     (if looks_like_ip_literal hostname then
        (case parse_ip hostname of
           None \<Rightarrow> Inl (unsafe DnsResolutionFailed url hostname None)
         | Some address \<Rightarrow>
             Inr [\<lparr>rr_address = address, rr_family = (case address of V4 _ \<Rightarrow> 4 | V6 _ \<Rightarrow> 6)\<rparr>])
      else case resolve_host opts hostname of
        Inl _ \<Rightarrow> Inl (unsafe DnsResolutionFailed url hostname None)
      | Inr records \<Rightarrow> Inr records)"

fun check_records :: "AssertWebhookUrlSafeOptions \<Rightarrow> rstring \<Rightarrow> rstring \<Rightarrow> ResolvedRecord list \<Rightarrow>
    WebhookUrlUnsafeError + unit" where
  "check_records opts url hostname [] = Inr ()"
| "check_records opts url hostname (r # rs) =
     (if \<not> allow_private_for_tests opts \<and> is_blocked_ip (rr_address r) then
        Inl (unsafe BlockedIpRange url hostname (Some (rr_address r)))
      else check_records opts url hostname rs)"

definition assert_webhook_url_safe :: "egress_lib \<Rightarrow> rstring \<Rightarrow> AssertWebhookUrlSafeOptions \<Rightarrow>
    WebhookUrlUnsafeError + AssertWebhookUrlSafeResult" where
  "assert_webhook_url_safe L url opts =
     (case url_parse L url of
        None \<Rightarrow> Inl (unsafe InvalidUrl url [] None)
      | Some parsed \<Rightarrow>
          if scheme parsed \<noteq> lit ''https'' \<and> \<not> (allow_http_scheme opts \<and> scheme parsed = lit ''http'') then
            Inl (unsafe UnsafeProtocol url (case host_str parsed of None \<Rightarrow> [] | Some h \<Rightarrow> h) None)
          else case host_str parsed of
            None \<Rightarrow> Inl (unsafe InvalidUrl url [] None)
          | Some raw_host \<Rightarrow>
              (let hostname = canonicalise_host L raw_host
               in and_then (resolve_records opts url hostname) (\<lambda>records.
                 if records = [] then Inl (unsafe NoDnsRecords url hostname None)
                 else and_then (check_records opts url hostname records) (\<lambda>_.
                   let first = hd records
                   in Inr \<lparr>sf_resolved_ip = rr_address first, sf_family = rr_family first,
                           sf_hostname = hostname\<rparr>))))"

definition is_blocked_ip_str :: "egress_lib \<Rightarrow> rstring \<Rightarrow> bool" where
  "is_blocked_ip_str L ip =
     (case parse_ip (canonicalise_host L ip) of Some addr \<Rightarrow> is_blocked_ip addr | None \<Rightarrow> True)"

text \<open>The redirect policy of \<open>ReqwestTransport\<close>: \<open>previous\<close> is the chain so far, the origin first.\<close>

definition redirect_followed :: "egress_lib \<Rightarrow> (rstring \<times> IpAddr) option \<Rightarrow> rstring list \<Rightarrow> rstring list \<Rightarrow> rstring \<Rightarrow> bool" where
  "redirect_followed L pinned hosts previous url =
     (if pinned \<noteq> None then False
      else gateway_redirect_allowed L (case previous of [] \<Rightarrow> None | p # _ \<Rightarrow> Some p) url (length previous) hosts)"

text \<open>\<open>PinnedResolver::resolve\<close>.\<close>

definition pinned_resolve :: "egress_lib \<Rightarrow> rstring \<times> IpAddr \<Rightarrow> rstring \<Rightarrow> rstring + IpAddr" where
  "pinned_resolve L pin name =
     (let want = to_lowercase L (fst pin); got = to_lowercase L name
      in if got = want then Inr (snd pin)
         else Inl (lit ''PinnedResolver: refused to resolve unexpected host '' @ got))"
end
