(* ===== verification/Egress_Promises.thy ===== *)
theory Egress_Promises
  imports Verifier_Egress
begin

text \<open>
  The guarantees of the egress: what the address blocklist covers, what the URL guard admits, where
  a chain of redirects can lead, and what the policy wrapper does before, between and after its
  attempts.
\<close>

section \<open>Addresses\<close>

fun ip_ok :: "IpAddr \<Rightarrow> bool" where
  "ip_ok (V4 a) = True"
| "ip_ok (V6 a) = (length a = 16)"

fun special_ip :: "IpAddr \<Rightarrow> bool" where
  "special_ip (V4 a) = special_address a"
| "special_ip (V6 a) = special_address6 a"

lemma blocked_special: "ip_ok a \<Longrightarrow> is_blocked_ip a = special_ip a"
  by (cases a) (simp_all add: blocked_ipv4_special blocked_ipv6_special)

lemma length_read_groups: "fst (read_groups limit i s) = gs \<Longrightarrow> length gs \<le> limit - i"
proof (induction limit i s arbitrary: gs rule: read_groups.induct)
  case (1 limit i s)
  show ?case
  proof (cases "i \<ge> limit")
    case True
    with "1.prems" show ?thesis by (simp add: read_groups.simps)
  next
    case False
    let ?ip = "if i < limit - 1 then read_separator 0x3A i read_ipv4_addr s else None"
    show ?thesis
    proof (cases ?ip)
      case (Some p)
      then have "i < limit - 1" by (auto split: if_splits)
      with Some "1.prems" False show ?thesis
        by (subst (asm) read_groups.simps) (auto split: prod.splits)
    next
      case None
      show ?thesis
      proof (cases "read_separator 0x3A i (read_number 16 4 True 65536) s")
        case num: (Some gt)
        obtain g t where gt: "gt = (g, t)" by (cases gt)
        have "length (fst (read_groups limit (i + 1) t)) \<le> limit - (i + 1)"
          using "1.IH" [OF False None num gt [symmetric] refl] by simp
        with None num gt "1.prems" False show ?thesis
          by (subst (asm) read_groups.simps) (auto split: prod.splits)
      next
        case nonum: None
        with None "1.prems" False show ?thesis
          by (subst (asm) read_groups.simps) simp
      qed
    qed
  qed
qed

lemma length_octets_of_groups: "length (octets_of_groups gs) = 2 * length gs"
  by (induction gs) (simp_all add: octets_of_groups_def)

lemma parse_ipv6_length:
  assumes "parse_ipv6 s = Some a"
  shows "length a = 16"
proof -
  have r: "read_ipv6_addr s = Some (a, [])"
    using assms by (auto simp: parse_ipv6_def split: option.splits list.splits)
  obtain h f t where h: "read_groups 8 0 s = (h, f, t)" by (cases "read_groups 8 0 s") auto
  have h8: "length h \<le> 8" using length_read_groups [of 8 0 s h] h by simp
  show ?thesis
  proof (cases "length h = 8")
    case True
    with r show ?thesis by (auto simp: read_ipv6_addr_def h length_octets_of_groups)
  next
    case False
    with r obtain y v where v: "\<not> f" "read_given_char 0x3A t = Some y" "read_given_char 0x3A y = Some v"
      by (auto simp: read_ipv6_addr_def h bind_eq_Some_conv split: if_splits)
    obtain ts g x where u: "read_groups (8 - (length h + 1)) 0 v = (ts, g, x)"
      by (cases "read_groups (8 - (length h + 1)) 0 v") auto
    from r have a: "a = octets_of_groups (h @ replicate (8 - length h - length ts) 0 @ ts)"
      unfolding read_ipv6_addr_def h Let_def prod.case using False v by (simp add: u [simplified])
    have "length ts \<le> 8 - (length h + 1)"
      using length_read_groups [of "8 - (length h + 1)" 0 v ts] u by simp
    with h8 False show ?thesis by (simp add: a length_octets_of_groups)
  qed
qed

lemma parse_ip_ok: "parse_ip s = Some a \<Longrightarrow> ip_ok a"
  by (auto simp: parse_ip_def dest: parse_ipv6_length split: option.splits if_splits)

section \<open>Hosts\<close>

text \<open>What the standard library documents of \<open>str::to_lowercase\<close> on ASCII text.\<close>

definition ascii_lower :: "u8 \<Rightarrow> u8" where
  "ascii_lower b = (if 0x41 \<le> b \<and> b \<le> 0x5A then b + 0x20 else b)"

definition lowercase_laws :: "egress_lib \<Rightarrow> bool" where
  "lowercase_laws L \<longleftrightarrow> (\<forall>s. list_all (\<lambda>b. b < 0x80) s \<longrightarrow> to_lowercase L s = map ascii_lower s)"

text \<open>Names that lead to the machine itself or to the metadata service.\<close>

definition loopback_name :: "rstring \<Rightarrow> bool" where
  "loopback_name h \<longleftrightarrow> h \<in> {lit ''localhost'', lit ''::1'', lit ''0.0.0.0'', lit ''169.254.169.254''} \<or>
     is_loopback_127 h"

lemma lower_fixed:
  assumes "lowercase_laws L" "list_all (\<lambda>b. b < 0x80 \<and> \<not> (0x41 \<le> b \<and> b \<le> 0x5A)) s"
  shows "to_lowercase L s = s"
proof -
  have "map ascii_lower s = s" using assms(2) by (induction s) (auto simp: ascii_lower_def)
  with assms show ?thesis by (auto simp: lowercase_laws_def list_all_iff)
qed

definition plain_host :: "rstring \<Rightarrow> bool" where
  "plain_host s \<longleftrightarrow> s \<noteq> [] \<and> hd s \<noteq> 0x5B \<and> List.last s \<noteq> 0x5D \<and> List.last s \<noteq> 0x2E \<and>
     list_all (\<lambda>b. b < 0x80 \<and> \<not> (0x41 \<le> b \<and> b \<le> 0x5A)) s"

lemma plain_canonical: "lowercase_laws L \<Longrightarrow> plain_host s \<Longrightarrow> canonicalise_host L s = s"
  by (simp add: canonicalise_host_def strip_first_def strip_final_def plain_host_def lower_fixed)

lemma split_at_nonempty: "split_at c s \<noteq> []"
  by (cases s) auto

lemma split_at_sep: "split_at c s = p # ps \<Longrightarrow> s = p @ concat (map (\<lambda>q. c # q) ps)"
proof (induction s arbitrary: p ps)
  case (Cons b s)
  obtain q qs where q: "split_at c s = q # qs" using split_at_nonempty [of c s] by (cases "split_at c s") auto
  with Cons show ?case by (cases "b = c") auto
qed simp

lemma loopback_plain:
  assumes "is_loopback_127 h"
  shows "plain_host h"
proof -
  obtain a b c d where s: "split_at 0x2E h = [a, b, c, d]"
    using assms by (auto simp: is_loopback_127_def Let_def length_Suc_conv numeral_eq_Suc split: if_splits)
  have o: "a = lit ''127''" "d \<noteq> []" "list_all (\<lambda>x. 0x30 \<le> x \<and> x \<le> 0x39) (b @ c @ d)"
    using assms by (auto simp: is_loopback_127_def Let_def s split: if_splits)
  have h: "h = a @ 0x2E # b @ 0x2E # c @ 0x2E # d" using split_at_sep [OF s] by simp
  have digit: "x < 0x80 \<and> \<not> (0x41 \<le> x \<and> x \<le> 0x5A) \<and> x \<noteq> 0x5D \<and> x \<noteq> 0x2E"
    if "0x30 \<le> x \<and> x \<le> 0x39" for x :: u8
    using that by (auto simp: word_le_nat_alt word_less_nat_alt word_unat_eq_iff)
  have "List.last h = List.last d" using o(2) h by simp
  moreover have "List.last d \<in> set d" using o(2) by simp
  ultimately show ?thesis
    using o digit unfolding plain_host_def h by (auto simp: list_all_iff lit_def)
qed

lemma loopback_name_plain: "loopback_name h \<Longrightarrow> plain_host h"
  unfolding loopback_name_def
  using loopback_plain by (auto simp: plain_host_def lit_def)

lemma default_denies_loopback:
  assumes "lowercase_laws L" "loopback_name h"
  shows "matches_deny_list L h DENY_HOSTS_DEFAULT"
proof -
  have c: "canonicalise_host L h = h" by (rule plain_canonical [OF assms(1) loopback_name_plain [OF assms(2)]])
  have p: "to_lowercase L (trim_end_dots (lit ''localhost'')) = lit ''localhost''"
    "to_lowercase L (trim_end_dots (lit ''127.0.0.1'')) = lit ''127.0.0.1''"
    by (subst lower_fixed [OF assms(1)]; simp add: trim_end_dots_def lit_def)+
  have w: "take 2 (lit ''localhost'') \<noteq> lit ''*.''" "take 2 (lit ''127.0.0.1'') \<noteq> lit ''*.''"
    by (simp_all add: lit_def)
  show ?thesis
    using assms(2) w unfolding matches_deny_list_def c Let_def DENY_HOSTS_DEFAULT_def
    by (auto simp: deny_entry_def p Let_def loopback_name_def)
qed

section \<open>Redirect chains\<close>

text \<open>The chains of URLs that the unpinned transport follows, the dialled URL first.\<close>

inductive followed :: "egress_lib \<Rightarrow> rstring list \<Rightarrow> rstring list \<Rightarrow> bool" for L hosts where
  start: "followed L hosts [origin]"
| hop: "followed L hosts chain \<Longrightarrow> redirect_followed L None hosts chain url \<Longrightarrow> followed L hosts (chain @ [url])"

definition within_domain :: "rstring \<Rightarrow> rstring \<Rightarrow> bool" where
  "within_domain g h \<longleftrightarrow> h = g \<or> (\<exists>p. h = p @ lit ''.'' @ g)"

lemma ends_with_iff: "ends_with s t \<longleftrightarrow> (\<exists>p. s = p @ t)"
proof
  assume "ends_with s t"
  then show "\<exists>p. s = p @ t"
    unfolding ends_with_def by (metis append_take_drop_id)
qed (auto simp: ends_with_def)

lemma redirect_allowed_cases:
  assumes "gateway_redirect_allowed L (Some origin) target hops hosts" "lowercase_laws L"
  shows "hops \<le> 3 \<and> parse_protocol L target = Some (lit ''https:'') \<and>
    (\<exists>g t. parse_hostname L origin = Some g \<and> parse_hostname L target = Some t \<and>
      within_domain (canonicalise_host L g) (canonicalise_host L t) \<and>
      \<not> loopback_name (canonicalise_host L t) \<and> \<not> matches_deny_list L (canonicalise_host L t) hosts)"
  using assms default_denies_loopback
  by (auto simp: gateway_redirect_allowed_def GATEWAY_REDIRECT_MAX_HOPS_def Let_def within_domain_def
      ends_with_iff not_less split: if_splits option.splits)

text \<open>
  C14: Wherever a chain of redirects leads, it stays with the gateway that was dialled: at most three
  redirects are followed, and every URL after the first is \<open>https\<close>, names a host in the domain of the
  first one, is not a name of the local machine or of the metadata service, and is not denied by the
  caller.
\<close>

theorem redirect_chain_contained:
  assumes "followed L hosts (origin # hops)" "lowercase_laws L"
  shows "length hops \<le> 3 \<and> (\<forall>url \<in> set hops. parse_protocol L url = Some (lit ''https:'') \<and>
    (\<exists>g t. parse_hostname L origin = Some g \<and> parse_hostname L url = Some t \<and>
      within_domain (canonicalise_host L g) (canonicalise_host L t) \<and>
      \<not> loopback_name (canonicalise_host L t) \<and> \<not> matches_deny_list L (canonicalise_host L t) hosts))"
  using assms(1)
proof (induction "origin # hops" arbitrary: hops rule: followed.induct)
  case (hop chain url)
  then obtain us where us: "chain = origin # us" "hops = us @ [url]" by (cases chain) (auto elim: followed.cases)
  with hop(3) have "gateway_redirect_allowed L (Some origin) url (length (origin # us)) hosts"
    by (simp add: redirect_followed_def)
  from redirect_allowed_cases [OF this assms(2)] hop(2) [OF us(1)] us show ?case by auto
qed simp

section \<open>The URL guard\<close>

lemma check_records_Inr:
  "check_records opts url h rs = Inr () \<longleftrightarrow>
     allow_private_for_tests opts \<or> (\<forall>r\<in>set rs. \<not> is_blocked_ip (rr_address r))"
  by (induction rs) auto

text \<open>
  C19: The blocklist is a set of ranges: an IPv4 address is blocked if and only if it lies in one of the
  special-purpose ranges, an IPv6 address if and only if it has one of the listed prefixes. The Teredo
  entry is a single /64 that Teredo addresses (2001::/32) do not have.
\<close>

theorem blocked_ranges_exact:
  assumes "ip_ok a"
  shows "is_blocked_ip a \<longleftrightarrow> special_ip a"
  by (rule blocked_special [OF assms])

text \<open>
  C8: What the guard of user-supplied URLs lets through, under a resolver that returns well-formed
  addresses (16 bytes for IPv6). The URL parses, its scheme is \<open>https\<close> (or \<open>http\<close> where that was
  allowed), the address to pin is the first one its host resolves to, and, unless the caller allowed
  private addresses for tests, every address it resolves to lies outside the ranges of the blocklist,
  given here as numbers and prefixes. The blocklist does not hold all special-purpose ranges: Teredo
  (2001::/32) is not blocked.
\<close>

theorem guard_admits_only_public:
  assumes "assert_webhook_url_safe L url opts = Inr r"
    and "\<forall>h rs. resolve_host opts h = Inr rs \<longrightarrow> (\<forall>x\<in>set rs. ip_ok (rr_address x))"
  shows "\<exists>p h rs. url_parse L url = Some p \<and> host_str p = Some h \<and>
    (scheme p = lit ''https'' \<or> allow_http_scheme opts \<and> scheme p = lit ''http'') \<and>
    sf_hostname r = canonicalise_host L h \<and> resolve_records opts url (sf_hostname r) = Inr rs \<and>
    rs \<noteq> [] \<and> sf_resolved_ip r = rr_address (hd rs) \<and>
    (allow_private_for_tests opts \<or> (\<forall>x\<in>set rs. \<not> special_ip (rr_address x)))"
proof -
  obtain p h rs where p: "url_parse L url = Some p" "host_str p = Some h"
    "scheme p = lit ''https'' \<or> allow_http_scheme opts \<and> scheme p = lit ''http''"
    "resolve_records opts url (canonicalise_host L h) = Inr rs" "rs \<noteq> []"
    "check_records opts url (canonicalise_host L h) rs = Inr ()"
    "sf_resolved_ip r = rr_address (hd rs)" "sf_hostname r = canonicalise_host L h"
    using assms(1) by (auto simp: assert_webhook_url_safe_def Let_def res_simps split: option.splits if_splits)
  have "ip_ok (rr_address x)" if "x \<in> set rs" for x
    using p(4) assms(2) that
    by (auto simp: resolve_records_def dest: parse_ip_ok split: if_splits option.splits sum.splits)
  then have "allow_private_for_tests opts \<or> (\<forall>x\<in>set rs. \<not> special_ip (rr_address x))"
    using p(6) blocked_special by (auto simp: check_records_Inr)
  with p show ?thesis by auto
qed

section \<open>The policy wrapper\<close>

text \<open>The transport's state after \<open>k\<close> calls.\<close>

definition net_after :: "'s transport \<Rightarrow> rstring \<Rightarrow> FetchOutboundOptions \<Rightarrow> nat \<Rightarrow> 's \<Rightarrow> 's" where
  "net_after fetch url opts k s = ((\<lambda>s. snd (fetch s url opts)) ^^ k) s"

lemma net_after_simps [simp]:
  "net_after fetch url opts 0 s = s"
  "net_after fetch url opts (Suc k) s = net_after fetch url opts k (snd (fetch s url opts))"
  by (simp_all add: net_after_def funpow_Suc_right del: funpow.simps(2))

definition admitted :: "egress_lib \<Rightarrow> WrapFetchOutboundConfig \<Rightarrow> rstring \<Rightarrow> FetchOutboundOptions \<Rightarrow> bool" where
  "admitted L config url opts \<longleftrightarrow> op_purpose opts \<noteq> Webhook \<and> is_allowed_protocol L url \<and>
     \<not> matches_deny_list L (case parse_hostname L url of None \<Rightarrow> [] | Some h \<Rightarrow> h) (deny_hosts config)"

text \<open>The first \<open>k\<close> answers of the transport.\<close>

primrec answers :: "'s transport \<Rightarrow> rstring \<Rightarrow> FetchOutboundOptions \<Rightarrow> nat \<Rightarrow> 's \<Rightarrow>
    (OutboundError + FetchOutboundResult) list" where
  "answers fetch url opts 0 s = []"
| "answers fetch url opts (Suc k) s =
     fst (fetch s url opts) # answers fetch url opts k (snd (fetch s url opts))"

lemma answers_ne [simp]: "answers fetch url opts k s = [] \<longleftrightarrow> k = 0"
  by (cases k) simp_all

text \<open>
  The answers worth another attempt: a status that the configuration names, where it permits retries
  at all, and an error that is not the refusal of the call itself.
\<close>

definition worth_retry :: "RetryConfig \<Rightarrow> OutboundError + FetchOutboundResult \<Rightarrow> bool" where
  "worth_retry cfg r = (case r of
     Inr x \<Rightarrow> fr_status x \<in> set (retryable_statuses cfg) \<and> retries cfg > 0
   | Inl err \<Rightarrow> \<not> is_preflight err)"

definition row_of :: "rstring \<Rightarrow> FetchOutboundOptions \<Rightarrow> OutboundError + FetchOutboundResult \<Rightarrow> HttpCallRecord" where
  "row_of url opts r = (case r of
     Inr x \<Rightarrow> result_row url opts x
   | Inl err \<Rightarrow> if is_preflight err then preflight_row url (op_purpose opts) else failed_row url opts)"

text \<open>The status and the error that an exhausted call reports: the last ones seen.\<close>

definition seen_status :: "nat option \<Rightarrow> (OutboundError + FetchOutboundResult) list \<Rightarrow> nat option" where
  "seen_status ls rs = foldl (\<lambda>s r. case r of Inr x \<Rightarrow> Some (fr_status x) | Inl _ \<Rightarrow> s) ls rs"

definition seen_error :: "OutboundError option \<Rightarrow> (OutboundError + FetchOutboundResult) list \<Rightarrow> OutboundError option" where
  "seen_error le rs = foldl (\<lambda>s r. case r of Inr _ \<Rightarrow> s | Inl err \<Rightarrow> Some err) le rs"

text \<open>
  A run of \<open>k\<close> calls out of at most \<open>n\<close>. Each answer but the last was worth a retry; the last one was
  not, or it is that of the last permitted attempt. The log holds the row of each answer, in order,
  with a backoff between two calls. The result is the last answer, or \<open>exhausted\<close> where that answer
  was worth a retry.
\<close>

definition run_of :: "'s transport \<Rightarrow> RetryConfig \<Rightarrow> rstring \<Rightarrow> FetchOutboundOptions \<Rightarrow> nat \<Rightarrow> nat \<Rightarrow>
    nat option \<Rightarrow> OutboundError option \<Rightarrow> nat \<Rightarrow> 's egress \<Rightarrow> OutboundError + FetchOutboundResult \<Rightarrow> 's egress \<Rightarrow> bool" where
  "run_of fetch cfg url opts first n ls le k e res e' \<longleftrightarrow>
     (let rs = answers fetch url opts k (net e)
      in 1 \<le> k \<and> k \<le> n \<and> list_all (worth_retry cfg) (butlast rs) \<and>
         (k < n \<longrightarrow> \<not> worth_retry cfg (List.last rs)) \<and>
         audit e' = audit e @ map (row_of url opts) rs \<and>
         slept e' = slept e @ map backoff [first..<first + (k - 1)] \<and>
         net e' = net_after fetch url opts k (net e) \<and>
         res = (if worth_retry cfg (List.last rs)
                then Inl (exhausted cfg url (first + n) (seen_status ls rs) (seen_error le rs))
                else List.last rs))"

lemma run_of_step:
  assumes "run_of fetch cfg url opts (Suc first) n (seen_status ls [r]) (seen_error le [r]) k e1 res e'"
    and "fetch (net e) url opts = (r, net e1)" "worth_retry cfg r"
    and "audit e1 = audit e @ [row_of url opts r]" "slept e1 = slept e @ [backoff first]"
  shows "run_of fetch cfg url opts first (Suc n) ls le (Suc k) e res e'"
proof -
  have k: "1 \<le> k" using assms(1) by (simp add: run_of_def Let_def)
  then have "[first..<first + k] = first # [Suc first..<Suc first + (k - 1)]"
    by (simp add: upt_conv_Cons)
  then show ?thesis
    using assms k unfolding run_of_def Let_def
    by (simp add: seen_status_def seen_error_def del: upt_Suc)
qed

lemma run_of_one:
  assumes "fetch (net e) url opts = (r, net e')" "1 \<le> n" "n = 1 \<or> \<not> worth_retry cfg r"
    and "audit e' = audit e @ [row_of url opts r]" "slept e' = slept e"
    and "res = (if worth_retry cfg r
      then Inl (exhausted cfg url (first + n) (seen_status ls [r]) (seen_error le [r])) else r)"
  shows "run_of fetch cfg url opts first n ls le 1 e res e'"
  using assms unfolding run_of_def Let_def by auto

lemma attempts_step:
  assumes "fetch (net e) url opts = (r, s)"
  shows "attempts fetch cfg url opts (first + Suc n) (Suc first) ls le e =
    (let e1 = e\<lparr>net := s, audit := audit e @ [row_of url opts r]\<rparr>
     in if \<not> worth_retry cfg r then (r, e1)
        else if n = 0 then
          (Inl (exhausted cfg url (first + Suc n) (seen_status ls [r]) (seen_error le [r])), e1)
        else attempts fetch cfg url opts (Suc first + n) (Suc (Suc first)) (seen_status ls [r])
          (seen_error le [r]) (e1\<lparr>slept := slept e @ [backoff first]\<rparr>))"
  by (subst attempts.simps)
    (auto simp: assms Let_def worth_retry_def row_of_def seen_status_def seen_error_def split: sum.splits)

lemma attempts_run:
  assumes "attempts fetch cfg url opts (first + n) (Suc first) ls le e = (res, e')" "1 \<le> n"
  shows "\<exists>k. run_of fetch cfg url opts first n ls le k e res e'"
  using assms
proof (induction n arbitrary: first ls le e)
  case (Suc n)
  obtain r s where f: "fetch (net e) url opts = (r, s)" by (cases "fetch (net e) url opts") auto
  note eq = Suc.prems(1) [unfolded attempts_step [of fetch e url opts r s, OF f] Let_def]
  show ?case
  proof (cases "worth_retry cfg r \<and> n \<noteq> 0")
    case True
    let ?e = "e\<lparr>net := s, audit := audit e @ [row_of url opts r], slept := slept e @ [backoff first]\<rparr>"
    have "attempts fetch cfg url opts (Suc first + n) (Suc (Suc first)) (seen_status ls [r])
        (seen_error le [r]) ?e = (res, e')"
      using eq True by simp
    with Suc.IH True obtain k
      where "run_of fetch cfg url opts (Suc first) n (seen_status ls [r]) (seen_error le [r]) k ?e res e'"
      by force
    then have "run_of fetch cfg url opts first (Suc n) ls le (Suc k) e res e'"
      by (rule run_of_step [where r = r]) (use f True in simp_all)
    then show ?thesis ..
  next
    case False
    with eq have "run_of fetch cfg url opts first (Suc n) ls le 1 e res e'"
      by (intro run_of_one [where r = r]) (auto simp: f split: if_splits)
    then show ?thesis ..
  qed
qed simp

text \<open>
  C15: The egress policy. A call that is not admitted (a webhook purpose, a scheme other than http and
  https, a denied host) never reaches the transport: it leaves one audit row and a typed refusal. An
  admitted call makes between one and \<open>retries + 1\<close> transport calls, with the audit row of each answer
  and one backoff between two of them. It goes on exactly as long as the answers are worth a retry (a
  listed status where retries are configured, or a transport error other than a refusal) and the
  attempts are not used up; it returns the last answer, or, when that one was worth a retry too, the
  error that reports the last status and error seen.
\<close>

theorem egress_policy:
  assumes "wrap_fetch_outbound L fetch config url opts e = (res, e')"
    and "unat (retries (retry config)) + 1 < 2 ^ 32"
  shows "if admitted L config url opts
    then \<exists>k. run_of fetch (retry config) url opts 0 (unat (retries (retry config)) + 1) None None k e res e'
    else \<exists>row err. res = Inl err \<and> is_preflight err \<and> e' = e\<lparr>audit := audit e @ [row]\<rparr> \<and>
      hc_url row = url \<and> hc_purpose row = op_purpose opts \<and> hc_status row = None \<and> hc_bytes row = 0"
proof (cases "admitted L config url opts")
  case True
  have n: "unat (retries (retry config) + 1) = unat (retries (retry config)) + 1"
    using assms(2) by (simp add: unat_word_ariths)
  have "attempts fetch (retry config) url opts (0 + (unat (retries (retry config)) + 1)) (Suc 0) None None e = (res, e')"
    using assms(1) True n by (auto simp: wrap_fetch_outbound_def admitted_def Let_def)
  from attempts_run [OF this] True show ?thesis by simp
next
  case False
  have "\<exists>row err. res = Inl err \<and> is_preflight err \<and> e' = e\<lparr>audit := audit e @ [row]\<rparr> \<and>
      row \<in> {preflight_row url (op_purpose opts), failed_row url opts}"
    using assms(1) False
    by (auto simp: wrap_fetch_outbound_def admitted_def Let_def matches_deny_list_def split: if_splits)
  then obtain row err where "res = Inl err" "is_preflight err" "e' = e\<lparr>audit := audit e @ [row]\<rparr>"
    "row \<in> {preflight_row url (op_purpose opts), failed_row url opts}" by blast
  then have "\<exists>row err. res = Inl err \<and> is_preflight err \<and> e' = e\<lparr>audit := audit e @ [row]\<rparr> \<and>
      hc_url row = url \<and> hc_purpose row = op_purpose opts \<and> hc_status row = None \<and> hc_bytes row = 0"
    by (intro exI [of _ row] exI [of _ err]) (auto simp: preflight_row_def failed_row_def)
  with False show ?thesis by (simp only: if_False)
qed

section \<open>Samples\<close>

definition sample_lib :: egress_lib where
  "sample_lib = \<lparr>to_lowercase = map ascii_lower,
     url_parse = (\<lambda>u. if u = lit ''https://8.8.8.8/hook'' then Some \<lparr>scheme = lit ''https'', host_str = Some (lit ''8.8.8.8'')\<rparr>
       else if u = lit ''https://gw.io/t'' then Some \<lparr>scheme = lit ''https'', host_str = Some (lit ''gw.io'')\<rparr>
       else if u = lit ''https://a.gw.io/t'' then Some \<lparr>scheme = lit ''https'', host_str = Some (lit ''a.gw.io'')\<rparr>
       else None)\<rparr>"

definition sample_guard :: AssertWebhookUrlSafeOptions where
  "sample_guard = \<lparr>allow_http_scheme = False, allow_private_for_tests = False, resolve_host = (\<lambda>h. Inl [])\<rparr>"

text \<open>The gateway answers 503 first and 200 afterwards.\<close>

definition sample_fetch :: "nat transport" where
  "sample_fetch n url opts =
     (Inr \<lparr>fr_status = (if n = 0 then 503 else 200), fr_bytes = [7], fr_duration_ms = 1\<rparr>, n + 1)"

definition sample_config :: WrapFetchOutboundConfig where
  "sample_config = \<lparr>deny_hosts = DENY_HOSTS_DEFAULT,
     retry = \<lparr>retries = 2, retryable_statuses = DEFAULT_RETRYABLE_STATUSES\<rparr>\<rparr>"

lemma sample_lowercase: "lowercase_laws sample_lib"
  by (simp add: lowercase_laws_def sample_lib_def)

theorem redirect_chain_contained_witness:
  "within_domain (lit ''gw.io'') (lit ''a.gw.io'') \<and> followed sample_lib [] [lit ''https://gw.io/t'', lit ''https://a.gw.io/t'']"
proof -
  have "redirect_followed sample_lib None [] [lit ''https://gw.io/t''] (lit ''https://a.gw.io/t'')"
    by code_simp
  then have f: "followed sample_lib [] ([lit ''https://gw.io/t''] @ [lit ''https://a.gw.io/t''])"
    by (rule followed.hop [OF followed.start])
  have "parse_hostname sample_lib (lit ''https://gw.io/t'') = Some (lit ''gw.io'')"
    "parse_hostname sample_lib (lit ''https://a.gw.io/t'') = Some (lit ''a.gw.io'')"
    "canonicalise_host sample_lib (lit ''gw.io'') = lit ''gw.io''"
    "canonicalise_host sample_lib (lit ''a.gw.io'') = lit ''a.gw.io''"
    by code_simp+
  with redirect_chain_contained [OF f [unfolded append.simps] sample_lowercase] f show ?thesis by auto
qed

theorem blocked_ranges_exact_witness:
  "is_blocked_ip (V4 0xA9FEA9FE) \<and> is_blocked_ip (V6 (replicate 15 0 @ [1])) \<and>
   \<not> is_blocked_ip (V6 ([0x20, 0x01, 0, 0, 0x41, 0x36, 0xE3, 0x78] @ replicate 8 1))"
proof -
  have "special_ip (V4 0xA9FEA9FE)" "special_ip (V6 (replicate 15 0 @ [1]))"
    "\<not> special_ip (V6 ([0x20, 0x01, 0, 0, 0x41, 0x36, 0xE3, 0x78] @ replicate 8 1))"
    by code_simp+
  then show ?thesis
    using blocked_ranges_exact [of "V4 0xA9FEA9FE"] blocked_ranges_exact [of "V6 (replicate 15 0 @ [1])"]
      blocked_ranges_exact [of "V6 ([0x20, 0x01, 0, 0, 0x41, 0x36, 0xE3, 0x78] @ replicate 8 1)"]
    by (simp del: is_blocked_ip.simps special_ip.simps)
qed

theorem guard_admits_only_public_witness:
  "\<exists>r. \<exists>rs :: ResolvedRecord list. assert_webhook_url_safe sample_lib (lit ''https://8.8.8.8/hook'') sample_guard = Inr r \<and>
     sf_resolved_ip r = rr_address (hd rs) \<and> rs \<noteq> [] \<and> (\<forall>x\<in>set rs. \<not> special_ip (rr_address x))"
proof -
  have "assert_webhook_url_safe sample_lib (lit ''https://8.8.8.8/hook'') sample_guard =
      Inr \<lparr>sf_resolved_ip = V4 0x08080808, sf_family = 4, sf_hostname = lit ''8.8.8.8''\<rparr>"
  proof -
    let ?rs = "[\<lparr>rr_address = V4 0x08080808, rr_family = 4\<rparr>]"
    have 1: "canonicalise_host sample_lib (lit ''8.8.8.8'') = lit ''8.8.8.8''"
      "resolve_records sample_guard (lit ''https://8.8.8.8/hook'') (lit ''8.8.8.8'') = Inr ?rs"
      "url_parse sample_lib (lit ''https://8.8.8.8/hook'') =
        Some \<lparr>scheme = lit ''https'', host_str = Some (lit ''8.8.8.8'')\<rparr>"
      by code_simp+
    have "\<not> is_blocked_ip (V4 0x08080808)"
      by (subst blocked_special) (simp_all add: special_address_def special_ipv4_def dotted_def)
    then have "check_records sample_guard u h ?rs = Inr ()" for u h by (simp add: check_records_Inr)
    with 1 show ?thesis by (simp add: assert_webhook_url_safe_def)
  qed
  moreover from guard_admits_only_public [OF this]
  have "\<exists>rs :: ResolvedRecord list. V4 0x08080808 = rr_address (hd rs) \<and> rs \<noteq> [] \<and> (\<forall>x\<in>set rs. \<not> special_ip (rr_address x))"
    by (simp add: sample_guard_def) blast
  ultimately show ?thesis by simp
qed

theorem egress_policy_witness:
  "\<exists>k. run_of sample_fetch (retry sample_config) (lit ''https://gw.io/t'') (fetch_options Get Arweave) 0 3 None None k
     \<lparr>audit = [], slept = [], net = 0\<rparr> (Inr \<lparr>fr_status = 200, fr_bytes = [7], fr_duration_ms = 1\<rparr>)
     \<lparr>audit = [result_row (lit ''https://gw.io/t'') (fetch_options Get Arweave)
         \<lparr>fr_status = 503, fr_bytes = [7], fr_duration_ms = 1\<rparr>,
       result_row (lit ''https://gw.io/t'') (fetch_options Get Arweave)
         \<lparr>fr_status = 200, fr_bytes = [7], fr_duration_ms = 1\<rparr>], slept = [(1000, 0)], net = 2\<rparr>"
proof -
  have "wrap_fetch_outbound sample_lib sample_fetch sample_config (lit ''https://gw.io/t'') (fetch_options Get Arweave)
      \<lparr>audit = [], slept = [], net = 0\<rparr> = (Inr \<lparr>fr_status = 200, fr_bytes = [7], fr_duration_ms = 1\<rparr>,
     \<lparr>audit = [result_row (lit ''https://gw.io/t'') (fetch_options Get Arweave)
         \<lparr>fr_status = 503, fr_bytes = [7], fr_duration_ms = 1\<rparr>,
       result_row (lit ''https://gw.io/t'') (fetch_options Get Arweave)
         \<lparr>fr_status = 200, fr_bytes = [7], fr_duration_ms = 1\<rparr>], slept = [(1000, 0)], net = 2\<rparr>)"
    by code_simp
  from egress_policy [OF this] have *: "admitted sample_lib sample_config (lit ''https://gw.io/t'') (fetch_options Get Arweave) \<Longrightarrow> ?thesis"
    by (simp add: sample_config_def)
  have "admitted sample_lib sample_config (lit ''https://gw.io/t'') (fetch_options Get Arweave)"
    by code_simp
  then show ?thesis by (rule *)
qed
end
