(* ===== verification/Spec2Isabelle.thy ===== *)
theory Spec2Isabelle
  imports Cbor_Permissive Merkle_Tree Leaves_List Stream64k Poe_Codes Poe_Record Cid_Profile Poe_Promises Sealed_Samples Sealed_Pw_Samples
    Client_Samples Verifier_Promises Egress_Promises
begin

text \<open>
  The core of the Label 309 SDK (crate \<open>cardanowall\<close>): the canonical CBOR codec, the Merkle tree
  and its leaves list, the 64 KiB stream cipher format, the structural validator of proof-of-existence
  records with its encoders, the sealed envelope, the resumable upload, and the parts of the verifier that
  read fetched transactions and police its network access.

  \<^bold>\<open>The program and its parts.\<close> A proof of existence is a CBOR map in the metadata of a Cardano
  transaction. \<open>src/cbor.rs\<close> encodes and strictly decodes it; \<open>src/poe_standard.rs\<close> defines the typed
  record, its encoders and \<open>validate_poe_record\<close>, which decodes the bytes, gates the shape, runs the domain
  checks and reads the typed record back; \<open>src/merkle.rs\<close> computes roots and inclusion proofs of the digest
  lists a record commits to and codes the list itself as canonical CBOR; \<open>src/sealed_poe/stream.rs\<close> is the
  content format of sealed items. Around it, \<open>src/sealed_poe/wrap.rs\<close> seals a content key to a list of
  recipients, in slots whose set is authenticated together with the item's hashes through the transcript of
  \<open>src/sealed_poe/transcript.rs\<close> (a canonical CBOR map), and \<open>src/sealed_poe/unwrap.rs\<close> tries a
  recipient's keys on every slot and opens the content.

  \<^bold>\<open>The theories.\<close>
  \<^item> \<open>L309_Prelude\<close>: bytes and strings (a Rust \<open>String\<close> is its UTF-8 bytes), results as sums, big-endian
    numbers, UTF-8 validity, insertion sort by a comparator; the interfaces \<open>key_comparator\<close> (a comparator
    that compares keys of a linear order) and \<open>canonical_codec\<close> (a decoder that accepts only what the encoder
    writes).
  \<^item> \<open>Cbor_Encode\<close>, \<open>Cbor_Decode\<close>, \<open>Cbor_Permissive\<close>: \<open>src/cbor.rs\<close>. The state of a decoder is the record
    of its buffer and position; the three mutually recursive readers are total because each value consumes
    input. \<open>canonical\<close> and \<open>enc_cbor\<close> are the abstract profile that the codec refines.
  \<^item> \<open>Cbor_Maps\<close>: the map accessors of \<open>src/poe_standard.rs\<close>, and the relation \<open>rebuilds\<close> of a value that
    canonicalises to another.
  \<^item> \<open>Merkle_Tree\<close>, \<open>Leaves_List\<close>: \<open>src/merkle.rs\<close>, with the hash as a parameter.
  \<^item> \<open>Stream64k\<close>: \<open>src/sealed_poe/stream.rs\<close>, with the cipher as a parameter; panics are \<open>None\<close>.
  \<^item> \<open>Poe_Codes\<close>, \<open>Poe_Issues\<close>, \<open>Poe_Record\<close>, \<open>Cid_Profile\<close>, \<open>Poe_Schema\<close>, \<open>Poe_Domain\<close>, \<open>Poe_Validate\<close>:
    \<open>src/poe_standard.rs\<close>, in the order the validator uses them. A check is the list of the issues it pushes,
    in its order; human-readable messages are not modelled.
  \<^item> \<open>Sealed_Prims\<close>, \<open>Sealed_Transcript\<close>, \<open>Sealed_Wrap\<close>, \<open>Sealed_Unwrap\<close>: \<open>src/kdf.rs\<close> and
    \<open>src/sealed_poe/\<close>. The producer threads a generator with explicit state through its steps and may not
    return (\<open>None\<close>), since it redraws rejected indices. The locale \<open>slot_scheme\<close> is what a key
    encapsulation owes the scan; it is interpreted for X25519 and for X-Wing. \<open>Sealed_Promises\<close> states what
    sealing and opening guarantee, \<open>Sealed_Samples\<close> instantiates it.
  \<^item> \<open>Unicode_Nfkc\<close>: \<open>src/unicode_nfkc16.rs\<close>, the table parsers and NFKC, with the long packed tables as
    arguments. \<open>Sealed_Passphrase\<close>: \<open>src/sealed_poe/normalize.rs\<close> and \<open>passphrase.rs\<close>, with Argon2id as a field
    of \<open>crypto\<close>; \<open>Sealed_Pw_Samples\<close> instantiates both.
  \<^item> \<open>Client_Http\<close>, \<open>Client_Upload\<close>, \<open>Client_Session\<close>: \<open>src/client/errors.rs\<close>, \<open>http.rs\<close>, the encoding
    part of \<open>transport.rs\<close>, the upload types of \<open>types.rs\<close>, and \<open>resumable.rs\<close>. The outside (gateway, clock,
    files, the caller's cancel predicate) is a \<open>host\<close> that answers from the history of all interactions; a
    program extends the history. \<open>Client_Trace\<close> lifts a contract on single interactions to every operation (the
    locales \<open>trace_contract\<close> and \<open>progress_contract\<close>); \<open>Client_Promises\<close>, \<open>Client_Complete\<close> and
    \<open>Client_Ends\<close> interpret it, \<open>Client_Samples\<close> runs the upload against a sample gateway.
  \<^item> \<open>Verifier_Walker\<close>: \<open>src/verifier/cbor_walker.rs\<close>, from the fetched transaction bytes to the record body.
    \<open>Verifier_Layout\<close> is the grammar of the items it walks, \<open>Verifier_Carriage\<close> and \<open>Verifier_Tx\<close> the layouts
    of chunk arrays, auxiliary data and transactions, \<open>Verifier_Promises\<close> the guarantees.
  \<^item> \<open>Verifier_Ip\<close>, \<open>Verifier_Egress\<close>: \<open>src/verifier/fetch.rs\<close>, the address blocklist with its CIDR
    arithmetic and the standard library's address parser, the deny list, the redirect rule, the retry loop with
    its audit rows, the guard of user-supplied URLs. The transport is a function on a state of its own, URL
    parsing a field of \<open>egress_lib\<close>. \<open>Egress_Promises\<close> holds the guarantees.
  \<^item> \<open>Poe_Roundtrip\<close>, \<open>Poe_Correct\<close>, \<open>Poe_Accepted\<close>, \<open>Poe_Promises\<close>: what the validator guarantees.

  \<^bold>\<open>What the lemmas show.\<close> The strict decoder accepts exactly the canonical layouts and is inverted by the
  encoder; the tolerant decoder agrees with it. Inclusion proofs verify, and a forged proof, or two leaf lists
  with one root, yields a computed hash collision; the loop with its two shrinking counters is the walk along
  the tree. The leaves list and the stream are read back exactly, and nothing else is accepted. The validator
  returns a record only if encoding it gives the validated bytes; the record it returns is well formed; its
  issues are sorted, registered, and contain an error whenever it refuses, which it does only when a check
  failed; the two roles differ only in opaque
  envelopes. Every recipient of a sealed envelope that the verifier admits reads its content, whatever opens is authentic, a content
  key commits to one header and one hash claim, the shuffle ends and is unbiased, and no successful seal used
  the zeros of a failed entropy read. A blob sealed with a passphrase is opened by every passphrase with the
  same normal form, and commits to its header. An upload sends the declared bytes and nothing else, completes
  only what was acknowledged, deletes the session that is open and stops when it is cancelled, reports progress
  that only grows, and ends. The walker steps over the definite-length items of CBOR exactly, but for two-byte
  simple values, whose next byte it swallows; a record in a transaction without such values is read back
  whatever the chunking, head widths, transaction form and auxiliary-data form; two responses bound to one
  hash agree. The egress blocks exactly its listed ranges, follows redirects only within the dialled domain,
  and retries, logs and gives up exactly as its policy says.

  \<^bold>\<open>Bounds and fuel.\<close> No definition uses fuel: every loop has a termination proof, but for the loops
  of the upload that wait for a clock, a gateway or a file, which are \<open>partial_function\<close>s; that they end is
  \<open>Client_Ends.upload_returns\<close>. Lengths are natural
  numbers; where the source's \<open>usize\<close> and \<open>u64\<close> arithmetic matters the theorems assume a buffer below
  \<open>usize_limit\<close> (2^64), which is the documented range of a Rust slice. CBOR arguments, leaf counts and
  KDF parameters are 64-bit words. The chunk counter is bounded by 2^88 as in the source.

  \<^bold>\<open>Parameters.\<close> SHA-256 (crate \<open>sha2\<close>) is a function returning 32 bytes; ChaCha20-Poly1305 (crate
  \<open>chacha20poly1305\<close>) satisfies \<open>aead_laws\<close>: a 16-byte tag is appended and decryption succeeds exactly on an
  encryption under the same key, nonce and associated data. The crates under the sealed envelope are the
  fields of the record \<open>crypto\<close>; \<open>crypto_laws\<close> states their output lengths, that X25519 commutes and that
  ML-KEM-768 decapsulates what was encapsulated. Where a guarantee rests on the strength of a digest or a MAC,
  the theorem names the colliding inputs instead of assuming that there are none.

  \<^bold>\<open>Not modelled.\<close> The stack depth of the recursive decoders (the model has no stack), allocation hints,
  secret wiping, constant-time comparison (it is equality), error messages; the other endpoints of the
  network client and its transport, the verifier's
  fetching and profiles, COSE signatures, certificates and key encodings, which are listed in the manifest with their status.
\<close>

end
